(* ===== verification/Klc3_Prelude.thy ===== *)
theory Klc3_Prelude
  imports Main "HOL-Library.Word"
begin

text \<open>
  Shared vocabulary of the development.

  The program is a C++ program built with assertions: an \<open>assert\<close> that fails, a null reference
  that is dereferenced and a call of \<open>progExit\<close> all end the run.  Every operation that can end
  the run that way returns a value of \<open>'a res\<close>: \<open>Inl\<close> names the failure and \<open>Inr\<close> carries the
  result.  \<open>rbind\<close> is the sequencing of two such operations.

  The second half collects the arithmetic facts about \<open>take_bit\<close> on \<^typ>\<open>int\<close> on which all
  fixed-width arithmetic of the expression language rests.
\<close>

unbundle bit_operations_syntax

subsection \<open>Failures and sequencing\<close>

datatype failure =
    AssertFailed string     \<comment> \<open>a failed \<open>assert\<close>, with its message\<close>
  | NullDeref string        \<comment> \<open>a null \<open>ref\<close> is dereferenced\<close>
  | ProgExit string         \<comment> \<open>\<open>progExit\<close> after an error message\<close>

type_synonym 'a res = "failure + 'a"

definition rbind :: "'a res \<Rightarrow> ('a \<Rightarrow> 'b res) \<Rightarrow> 'b res" where
  "rbind m f = (case m of Inl e \<Rightarrow> Inl e | Inr x \<Rightarrow> f x)"

lemma rbind_simps [simp]:
  "rbind (Inl e) f = Inl e"
  "rbind (Inr x) f = f x"
  by (simp_all add: rbind_def)

lemma rbind_cong [fundef_cong]:
  "m = m' \<Longrightarrow> (\<And>x. m' = Inr x \<Longrightarrow> f x = g x) \<Longrightarrow> rbind m f = rbind m' g"
  by (cases m') (simp_all add: rbind_def)

lemma rbind_Inr_iff [simp]:
  "rbind m f = Inr y \<longleftrightarrow> (\<exists>x. m = Inr x \<and> f x = Inr y)"
  by (cases m) auto

lemma rbindE:
  assumes "rbind m f = Inr y"
  obtains x where "m = Inr x" "f x = Inr y"
  using assms by auto

lemma rbind_assoc: "rbind (rbind m f) g = rbind m (\<lambda>x. rbind (f x) g)"
  by (cases m) simp_all

definition assert_that :: "bool \<Rightarrow> string \<Rightarrow> unit res" where
  "assert_that b msg = (if b then Inr () else Inl (AssertFailed msg))"

lemma assert_that_simps [simp]:
  "assert_that True msg = Inr ()"
  "assert_that False msg = Inl (AssertFailed msg)"
  "assert_that b msg = Inr u \<longleftrightarrow> b"
  by (auto simp: assert_that_def)

text \<open>
  Total correctness: the operation returns, and what it returns satisfies the postcondition.  The
  equations compute the weakest precondition of a sequence.
\<close>

definition returns :: "'a res \<Rightarrow> ('a \<Rightarrow> bool) \<Rightarrow> bool" where
  "returns r Q \<longleftrightarrow> (\<exists>x. r = Inr x \<and> Q x)"

lemma returns_simps [simp]:
  "returns (Inr x) Q \<longleftrightarrow> Q x"
  "\<not> returns (Inl e) Q"
  "returns (rbind r f) Q \<longleftrightarrow> returns r (\<lambda>x. returns (f x) Q)"
  "returns (assert_that b msg) U \<longleftrightarrow> b \<and> U ()"
  by (auto simp: returns_def rbind_def assert_that_def split: sum.splits)

lemma returns_weaken [elim?]: "returns r P \<Longrightarrow> (\<And>x. P x \<Longrightarrow> Q x) \<Longrightarrow> returns r Q"
  by (auto simp: returns_def)

lemma returns_bindI: "returns r P \<Longrightarrow> (\<And>x. P x \<Longrightarrow> returns (f x) Q) \<Longrightarrow> returns (rbind r f) Q"
  by (auto simp: returns_def)

lemma returns_conj: "returns r P \<Longrightarrow> returns r Q \<Longrightarrow> returns r (\<lambda>x. P x \<and> Q x)"
  by (auto simp: returns_def)

lemma returns_if: "returns (if b then r else r') Q \<longleftrightarrow> (if b then returns r Q else returns r' Q)"
  by simp

text \<open>Running an operation over a list, threading a state, stopping at the first failure.\<close>

fun rfold :: "('a \<Rightarrow> 's \<Rightarrow> 's res) \<Rightarrow> 'a list \<Rightarrow> 's \<Rightarrow> 's res" where
  "rfold f [] s = Inr s"
| "rfold f (x # xs) s = rbind (f x s) (rfold f xs)"

lemma rfold_append: "rfold f (xs @ ys) s = rbind (rfold f xs s) (rfold f ys)"
proof (induction xs arbitrary: s)
  case (Cons x xs)
  then have "rfold f (xs @ ys) = (\<lambda>t. rbind (rfold f xs t) (rfold f ys))" by (intro ext)
  then show ?case by (simp add: rbind_assoc)
qed simp

lemma rfold_invariant:
  assumes "rfold f xs s = Inr t" "P s"
    and "\<And>x s t. x \<in> set xs \<Longrightarrow> P s \<Longrightarrow> f x s = Inr t \<Longrightarrow> P t"
  shows "P t"
  using assms by (induction xs arbitrary: s) auto

subsection \<open>Fixed-width arithmetic on integers\<close>

text \<open>A value of width \<open>w\<close> is an integer that \<open>take_bit w\<close> leaves alone.\<close>

named_theorems apint_simps "normal forms of fixed-width integer arithmetic"

lemma take_bit_add_left [apint_simps]:
  "take_bit w (take_bit w a + b) = take_bit w (a + b)" for a b :: int
  by (simp add: take_bit_eq_mod mod_simps)

lemma take_bit_add_right [apint_simps]:
  "take_bit w (a + take_bit w b) = take_bit w (a + b)" for a b :: int
  by (simp add: take_bit_eq_mod mod_simps)

lemma take_bit_diff_left [apint_simps]:
  "take_bit w (take_bit w a - b) = take_bit w (a - b)" for a b :: int
  by (simp add: take_bit_eq_mod mod_simps)

lemma take_bit_diff_right [apint_simps]:
  "take_bit w (a - take_bit w b) = take_bit w (a - b)" for a b :: int
  by (simp add: take_bit_eq_mod mod_simps)

lemma take_bit_mult_left [apint_simps]:
  "take_bit w (take_bit w a * b) = take_bit w (a * b)" for a b :: int
  by (simp add: take_bit_eq_mod mod_simps)

lemma take_bit_mult_right [apint_simps]:
  "take_bit w (a * take_bit w b) = take_bit w (a * b)" for a b :: int
  by (simp add: take_bit_eq_mod mod_simps)

lemma take_bit_uminus [apint_simps]:
  "take_bit w (- take_bit w a) = take_bit w (- a)" for a :: int
  by (simp add: take_bit_eq_mod mod_simps)

lemma take_bit_eq_diff_iff:
  "take_bit w (a + b) = take_bit w c \<longleftrightarrow> take_bit w b = take_bit w (c - a)" for a b c :: int
proof -
  have "take_bit w (a + b) = take_bit w c \<longleftrightarrow> (2 ^ w) dvd (a + b - c)"
    by (simp add: take_bit_eq_mod mod_eq_dvd_iff)
  also have "\<dots> \<longleftrightarrow> (2 ^ w) dvd (b - (c - a))"
    by (simp add: algebra_simps)
  also have "\<dots> \<longleftrightarrow> take_bit w b = take_bit w (c - a)"
    by (simp add: take_bit_eq_mod mod_eq_dvd_iff)
  finally show ?thesis .
qed

lemma take_bit_eq_diff_iff2:
  "take_bit w (a - b) = take_bit w c \<longleftrightarrow> take_bit w b = take_bit w (a - c)" for a b c :: int
proof -
  have "take_bit w (a - b) = take_bit w c \<longleftrightarrow> (2 ^ w) dvd (a - b - c)"
    by (simp add: take_bit_eq_mod mod_eq_dvd_iff)
  also have "\<dots> \<longleftrightarrow> (2 ^ w) dvd (b - (a - c))"
    by (metis diff_diff_eq2 dvd_minus_iff minus_diff_eq add.commute diff_diff_eq)
  also have "\<dots> \<longleftrightarrow> take_bit w b = take_bit w (a - c)"
    by (simp add: take_bit_eq_mod mod_eq_dvd_iff)
  finally show ?thesis .
qed

lemma take_bit_1_cases:
  fixes v :: int
  assumes "take_bit 1 v = v"
  obtains "v = 0" | "v = 1"
proof -
  have "v mod 2 = v" using assms by (simp add: take_bit_eq_mod)
  then have "v = 0 \<or> v = 1" by presburger
  then show ?thesis using that by blast
qed

lemma take_bit_self_bounds:
  fixes v :: int
  assumes "take_bit w v = v"
  shows "0 \<le> v" "v < 2 ^ w"
  using assms by (metis take_bit_nonnegative, metis take_bit_int_less_exp)

subsection \<open>Lists and options\<close>

lemma map_of_zip_first: "map_of ((k, v) # xs) k = Some v"
  by simp

lemma filter_length_pos: "x \<in> set xs \<Longrightarrow> P x \<Longrightarrow> 0 < length (filter P xs)"
  by (induction xs) auto

end
