(* ===== verification/Klee_Expr.thy ===== *)
theory Klee_Expr
  imports Klc3_Prelude
begin

text \<open>
  The symbolic expressions of KLEE (\<open>include/klee/Expr/Expr.h\<close>, constant operations of
  \<open>lib/Expr/Expr.cpp\<close>).

  An expression is a value of the datatype \<open>expr\<close>, with the class names of the source as
  constructors; \<open>BinaryExpr\<close> carries its \<open>Kind\<close> as the source's class hierarchy does.  A constant
  is an \<open>APInt\<close>: a width and a value below \<open>2 ^ width\<close>.  klc3 only creates symbolic arrays without
  initial constants and never extends an update list (\<open>Loader.cpp\<close>, \<open>defineMemSymbol\<close>), so a
  \<open>ReadExpr\<close> is an array and an index.  \<open>Expr::compare\<close> is structural, so \<open>==\<close> on references is
  equality of the datatype.

  \<open>eval\<close> gives an expression its value under an assignment of the arrays; \<open>wt\<close> is the width
  discipline that the assertions of the source enforce.  \<open>eval_range\<close> shows that a well-formed
  expression always evaluates to a value of its width.
\<close>

unbundle bit_operations_syntax

subsection \<open>Data\<close>

record array =
  arr_name :: string
  arr_size :: nat
  arr_domain :: nat
  arr_range :: nat

datatype kind =
    Add | Sub | Mul | UDiv | SDiv | URem | SRem
  | And | Or | Xor | Shl | LShr | AShr
  | Eq | Ne | Ult | Ule | Ugt | Uge | Slt | Sle | Sgt | Sge

definition is_cmp_kind :: "kind \<Rightarrow> bool" where
  "is_cmp_kind k \<longleftrightarrow> k \<in> {Eq, Ne, Ult, Ule, Ugt, Uge, Slt, Sle, Sgt, Sge}"

lemma is_cmp_kind_simps [simp]:
  "\<not> is_cmp_kind Add" "\<not> is_cmp_kind Sub" "\<not> is_cmp_kind Mul" "\<not> is_cmp_kind UDiv"
  "\<not> is_cmp_kind SDiv" "\<not> is_cmp_kind URem" "\<not> is_cmp_kind SRem" "\<not> is_cmp_kind And"
  "\<not> is_cmp_kind Or" "\<not> is_cmp_kind Xor" "\<not> is_cmp_kind Shl" "\<not> is_cmp_kind LShr"
  "\<not> is_cmp_kind AShr" "is_cmp_kind Eq" "is_cmp_kind Ne" "is_cmp_kind Ult" "is_cmp_kind Ule"
  "is_cmp_kind Ugt" "is_cmp_kind Uge" "is_cmp_kind Slt" "is_cmp_kind Sle" "is_cmp_kind Sgt"
  "is_cmp_kind Sge"
  by (simp_all add: is_cmp_kind_def)

text \<open>The division kinds: an LC-3 program has no division and klc3 builds none.\<close>

definition is_div_kind :: "kind \<Rightarrow> bool" where
  "is_div_kind k \<longleftrightarrow> k \<in> {UDiv, SDiv, URem, SRem}"

lemma is_div_kind_simps [simp]:
  "\<not> is_div_kind Add" "\<not> is_div_kind Sub" "\<not> is_div_kind Mul" "is_div_kind UDiv"
  "is_div_kind SDiv" "is_div_kind URem" "is_div_kind SRem" "\<not> is_div_kind And"
  "\<not> is_div_kind Or" "\<not> is_div_kind Xor" "\<not> is_div_kind Shl" "\<not> is_div_kind LShr"
  "\<not> is_div_kind AShr" "\<not> is_div_kind Eq" "\<not> is_div_kind Ne" "\<not> is_div_kind Ult"
  "\<not> is_div_kind Ule" "\<not> is_div_kind Ugt" "\<not> is_div_kind Uge" "\<not> is_div_kind Slt"
  "\<not> is_div_kind Sle" "\<not> is_div_kind Sgt" "\<not> is_div_kind Sge"
  by (simp_all add: is_div_kind_def)

datatype expr =
    is_ConstantExpr: ConstantExpr (cWidth: nat) (cValue: int)
  | NotOptimizedExpr expr
  | is_ReadExpr: ReadExpr array expr
  | SelectExpr expr expr expr
  | ConcatExpr expr expr
  | ExtractExpr expr nat nat
  | ZExtExpr expr nat
  | SExtExpr expr nat
  | NotExpr expr
  | BinaryExpr kind expr expr

abbreviation BoolWidth :: nat where "BoolWidth \<equiv> 1"
abbreviation Int16 :: nat where "Int16 \<equiv> 16"

primrec getWidth :: "expr \<Rightarrow> nat" where
  "getWidth (ConstantExpr w v) = w"
| "getWidth (NotOptimizedExpr e) = getWidth e"
| "getWidth (ReadExpr a i) = arr_range a"
| "getWidth (SelectExpr c t f) = getWidth t"
| "getWidth (ConcatExpr l r) = getWidth l + getWidth r"
| "getWidth (ExtractExpr e off w) = w"
| "getWidth (ZExtExpr e w) = w"
| "getWidth (SExtExpr e w) = w"
| "getWidth (NotExpr e) = getWidth e"
| "getWidth (BinaryExpr k l r) = (if is_cmp_kind k then BoolWidth else getWidth l)"

subsection \<open>Arbitrary-precision integers and the constant operations\<close>

definition apint_signed :: "nat \<Rightarrow> int \<Rightarrow> int" where
  "apint_signed w v = (if w = 0 then 0 else signed_take_bit (w - 1) v)"

text \<open>
  The binary operations of \<open>llvm::APInt\<close> at width \<open>w\<close>, on values below \<open>2 ^ w\<close>.  A shift by the
  width or more gives zero (or the sign).  Division by a zero constant is outside the domain of
  \<open>APInt\<close> and never built by klc3.
\<close>

fun apint_op :: "kind \<Rightarrow> nat \<Rightarrow> int \<Rightarrow> int \<Rightarrow> int" where
  "apint_op Add w a b = take_bit w (a + b)"
| "apint_op Sub w a b = take_bit w (a - b)"
| "apint_op Mul w a b = take_bit w (a * b)"
| "apint_op UDiv w a b = take_bit w (a div b)"
| "apint_op SDiv w a b = take_bit w (let x = apint_signed w a; y = apint_signed w b
     in sgn x * sgn y * (\<bar>x\<bar> div \<bar>y\<bar>))"
| "apint_op URem w a b = take_bit w (a mod b)"
| "apint_op SRem w a b = take_bit w (let x = apint_signed w a; y = apint_signed w b
     in sgn x * (\<bar>x\<bar> mod \<bar>y\<bar>))"
| "apint_op And w a b = a AND b"
| "apint_op Or w a b = a OR b"
| "apint_op Xor w a b = a XOR b"
| "apint_op Shl w a b = (if int w \<le> b then 0 else take_bit w (push_bit (nat b) a))"
| "apint_op LShr w a b = (if int w \<le> b then 0 else drop_bit (nat b) a)"
| "apint_op AShr w a b = take_bit w (drop_bit (if int w \<le> b then w else nat b) (apint_signed w a))"
| "apint_op Eq w a b = of_bool (a = b)"
| "apint_op Ne w a b = of_bool (a \<noteq> b)"
| "apint_op Ult w a b = of_bool (a < b)"
| "apint_op Ule w a b = of_bool (a \<le> b)"
| "apint_op Ugt w a b = of_bool (b < a)"
| "apint_op Uge w a b = of_bool (b \<le> a)"
| "apint_op Slt w a b = of_bool (apint_signed w a < apint_signed w b)"
| "apint_op Sle w a b = of_bool (apint_signed w a \<le> apint_signed w b)"
| "apint_op Sgt w a b = of_bool (apint_signed w b < apint_signed w a)"
| "apint_op Sge w a b = of_bool (apint_signed w b \<le> apint_signed w a)"

definition ConstantExpr_alloc :: "int \<Rightarrow> nat \<Rightarrow> expr" where
  "ConstantExpr_alloc v w = ConstantExpr w (take_bit w v)"

text \<open>\<open>ConstantExpr::Add\<close> to \<open>ConstantExpr::Sge\<close>: both operands are constants of one width.\<close>

definition ConstantExpr_op :: "kind \<Rightarrow> expr \<Rightarrow> expr \<Rightarrow> expr" where
  "ConstantExpr_op k l r =
     ConstantExpr (if is_cmp_kind k then BoolWidth else cWidth l)
       (apint_op k (cWidth l) (cValue l) (cValue r))"

definition ConstantExpr_Neg :: "expr \<Rightarrow> expr" where
  "ConstantExpr_Neg c = ConstantExpr (cWidth c) (take_bit (cWidth c) (- cValue c))"

definition ConstantExpr_Not :: "expr \<Rightarrow> expr" where
  "ConstantExpr_Not c = ConstantExpr (cWidth c) (take_bit (cWidth c) (NOT (cValue c)))"

definition ConstantExpr_ZExt :: "expr \<Rightarrow> nat \<Rightarrow> expr" where
  "ConstantExpr_ZExt c w = ConstantExpr w (take_bit w (cValue c))"

definition ConstantExpr_SExt :: "expr \<Rightarrow> nat \<Rightarrow> expr" where
  "ConstantExpr_SExt c w = ConstantExpr w (take_bit w (apint_signed (cWidth c) (cValue c)))"

definition ConstantExpr_Extract :: "expr \<Rightarrow> nat \<Rightarrow> nat \<Rightarrow> expr" where
  "ConstantExpr_Extract c off w =
     ConstantExpr w (take_bit w (take_bit (cWidth c) (drop_bit off (apint_signed (cWidth c) (cValue c)))))"

definition ConstantExpr_Concat :: "expr \<Rightarrow> expr \<Rightarrow> expr" where
  "ConstantExpr_Concat l r =
     ConstantExpr (cWidth l + cWidth r) (push_bit (cWidth r) (cValue l) + cValue r)"

definition isZero :: "expr \<Rightarrow> bool" where
  "isZero e = (case e of ConstantExpr w v \<Rightarrow> v = 0 | _ \<Rightarrow> False)"

definition isOne :: "expr \<Rightarrow> bool" where
  "isOne e = (case e of ConstantExpr w v \<Rightarrow> v = 1 | _ \<Rightarrow> False)"

definition isAllOnes :: "expr \<Rightarrow> bool" where
  "isAllOnes e = (case e of ConstantExpr w v \<Rightarrow> v = mask w | _ \<Rightarrow> False)"

definition isTrue :: "expr \<Rightarrow> bool" where
  "isTrue e = (case e of ConstantExpr w v \<Rightarrow> w = BoolWidth \<and> v \<noteq> 0 | _ \<Rightarrow> False)"

definition isFalse :: "expr \<Rightarrow> bool" where
  "isFalse e = (case e of ConstantExpr w v \<Rightarrow> w = BoolWidth \<and> v = 0 | _ \<Rightarrow> False)"

lemmas const_test_defs = isZero_def isOne_def isAllOnes_def isTrue_def isFalse_def

subsection \<open>Values of expressions\<close>

type_synonym assignment = "array \<Rightarrow> int \<Rightarrow> int"

primrec eval :: "assignment \<Rightarrow> expr \<Rightarrow> int" where
  "eval \<sigma> (ConstantExpr w v) = v"
| "eval \<sigma> (NotOptimizedExpr e) = eval \<sigma> e"
| "eval \<sigma> (ReadExpr a i) = take_bit (arr_range a) (\<sigma> a (eval \<sigma> i))"
| "eval \<sigma> (SelectExpr c t f) = (if eval \<sigma> c \<noteq> 0 then eval \<sigma> t else eval \<sigma> f)"
| "eval \<sigma> (ConcatExpr l r) = push_bit (getWidth r) (eval \<sigma> l) + eval \<sigma> r"
| "eval \<sigma> (ExtractExpr e off w) = take_bit w (drop_bit off (eval \<sigma> e))"
| "eval \<sigma> (ZExtExpr e w) = take_bit w (eval \<sigma> e)"
| "eval \<sigma> (SExtExpr e w) = take_bit w (apint_signed (getWidth e) (eval \<sigma> e))"
| "eval \<sigma> (NotExpr e) = take_bit (getWidth e) (NOT (eval \<sigma> e))"
| "eval \<sigma> (BinaryExpr k l r) = apint_op k (getWidth l) (eval \<sigma> l) (eval \<sigma> r)"

text \<open>
  The width discipline: what the \<open>"type mismatch"\<close> and \<open>"invalid extract"\<close> assertions demand,
  on the division-free expressions that klc3 builds.
\<close>

primrec wt :: "expr \<Rightarrow> bool" where
  "wt (ConstantExpr w v) = (0 < w \<and> take_bit w v = v)"
| "wt (NotOptimizedExpr e) = wt e"
| "wt (ReadExpr a i) = (0 < arr_range a \<and> wt i \<and> getWidth i = arr_domain a)"
| "wt (SelectExpr c t f) = (wt c \<and> wt t \<and> wt f \<and> getWidth c = BoolWidth \<and> getWidth t = getWidth f)"
| "wt (ConcatExpr l r) = (wt l \<and> wt r)"
| "wt (ExtractExpr e off w) = (wt e \<and> 0 < w \<and> off + w \<le> getWidth e)"
| "wt (ZExtExpr e w) = (wt e \<and> getWidth e \<le> w)"
| "wt (SExtExpr e w) = (wt e \<and> getWidth e \<le> w)"
| "wt (NotExpr e) = wt e"
| "wt (BinaryExpr k l r) = (\<not> is_div_kind k \<and> wt l \<and> wt r \<and> getWidth l = getWidth r)"

lemma wt_width_pos: "wt e \<Longrightarrow> 0 < getWidth e"
  by (induction e) auto

lemma take_bit_and_self:
  "take_bit w a = a \<Longrightarrow> take_bit w (a AND b) = a AND b" for a b :: int
  by (metis and.assoc and.commute take_bit_eq_mask)

lemma take_bit_drop_bit_self:
  fixes a :: int
  assumes "take_bit w a = a"
  shows "take_bit w (drop_bit n a) = drop_bit n a"
proof -
  have a: "0 \<le> a" "a < 2 ^ w" using take_bit_self_bounds [OF assms] by auto
  have "drop_bit n a \<le> a" using a zdiv_mono2 [of a 1 "2 ^ n"] by (simp add: drop_bit_eq_div)
  moreover have "0 \<le> drop_bit n a" using a by simp
  ultimately show ?thesis using a by (simp add: take_bit_int_eq_self)
qed

lemma take_bit_of_bool [simp]: "0 < w \<Longrightarrow> take_bit w (of_bool b :: int) = of_bool b"
  by (cases b) (simp_all add: take_bit_int_eq_self)

lemma apint_op_range:
  assumes "take_bit w a = a" "take_bit w b = b" "0 < w"
  shows "take_bit (if is_cmp_kind k then 1 else w) (apint_op k w a b) = apint_op k w a b"
  using assms by (cases k)
    (simp_all add: take_bit_and_self take_bit_or take_bit_xor take_bit_drop_bit_self)

lemma concat_range:
  fixes a b :: int
  assumes "take_bit m a = a" "take_bit n b = b"
  shows "take_bit (m + n) (push_bit n a + b) = push_bit n a + b"
proof -
  have a: "0 \<le> a" "a < 2 ^ m" and b: "0 \<le> b" "b < 2 ^ n"
    using assms take_bit_self_bounds by blast+
  have "push_bit n a + b < 2 ^ n * a + 2 ^ n" using b by (simp add: push_bit_eq_mult mult.commute)
  also have "\<dots> = 2 ^ n * (a + 1)" by (simp add: algebra_simps)
  also have "\<dots> \<le> 2 ^ n * 2 ^ m" using a by (intro mult_left_mono) auto
  finally have "push_bit n a + b < 2 ^ (m + n)" by (simp add: power_add mult.commute)
  moreover have "0 \<le> push_bit n a + b" using a b by (simp add: push_bit_eq_mult)
  ultimately show ?thesis by (simp add: take_bit_int_eq_self)
qed

theorem eval_range: "wt e \<Longrightarrow> take_bit (getWidth e) (eval \<sigma> e) = eval \<sigma> e"
proof (induction e)
  case (BinaryExpr k l r)
  have "0 < getWidth l" using BinaryExpr.prems wt_width_pos by simp
  then show ?case
    using BinaryExpr apint_op_range [of "getWidth l" "eval \<sigma> l" "eval \<sigma> r" k] by (cases k) simp_all
next
  case (ConcatExpr l r)
  then show ?case by (simp add: concat_range)
qed (auto simp: take_bit_take_bit)

lemma eval_bounds:
  assumes "wt e" shows "0 \<le> eval \<sigma> e" "eval \<sigma> e < 2 ^ getWidth e"
  using take_bit_self_bounds [OF eval_range [OF assms]] by auto

lemma eval_bool_cases:
  assumes "wt e" "getWidth e = BoolWidth"
  obtains "eval \<sigma> e = 0" | "eval \<sigma> e = 1"
  using take_bit_1_cases eval_range [OF assms(1), of \<sigma>] assms(2) by metis

lemma eval_bool_not_one:
  "wt e \<Longrightarrow> getWidth e = BoolWidth \<Longrightarrow> eval \<sigma> e \<noteq> 1 \<longleftrightarrow> eval \<sigma> e = 0"
  by (erule eval_bool_cases [of e \<sigma>]) auto

subsection \<open>The constant operations compute the value of the expression they replace\<close>

lemma ConstantExpr_alloc_wt [simp]: "0 < w \<Longrightarrow> wt (ConstantExpr_alloc v w)"
  and ConstantExpr_alloc_width [simp]: "getWidth (ConstantExpr_alloc v w) = w"
  and ConstantExpr_alloc_eval [simp]: "eval \<sigma> (ConstantExpr_alloc v w) = take_bit w v"
  and ConstantExpr_alloc_const [simp]: "is_ConstantExpr (ConstantExpr_alloc v w)"
  by (simp_all add: ConstantExpr_alloc_def)

lemma ConstantExpr_op_sound:
  assumes "is_ConstantExpr l" "is_ConstantExpr r" "wt l" "wt r" "getWidth l = getWidth r"
  shows "wt (ConstantExpr_op k l r)"
    and "getWidth (ConstantExpr_op k l r) = getWidth (BinaryExpr k l r)"
    and "eval \<sigma> (ConstantExpr_op k l r) = eval \<sigma> (BinaryExpr k l r)"
    and "is_ConstantExpr (ConstantExpr_op k l r)"
proof -
  obtain w v u where lr: "l = ConstantExpr w v" "r = ConstantExpr w u"
    using assms by (cases l; cases r) auto
  then show "wt (ConstantExpr_op k l r)"
    using assms apint_op_range [of w v u k] by (cases k) (auto simp: ConstantExpr_op_def)
  from lr show "getWidth (ConstantExpr_op k l r) = getWidth (BinaryExpr k l r)"
    "eval \<sigma> (ConstantExpr_op k l r) = eval \<sigma> (BinaryExpr k l r)"
    "is_ConstantExpr (ConstantExpr_op k l r)"
    by (simp_all add: ConstantExpr_op_def)
qed

lemma const_cases:
  assumes "is_ConstantExpr c" obtains w v where "c = ConstantExpr w v"
  using assms by (cases c) auto

lemma ConstantExpr_Neg_sound:
  assumes "is_ConstantExpr c" "wt c"
  shows "wt (ConstantExpr_Neg c)" "getWidth (ConstantExpr_Neg c) = getWidth c"
    "eval \<sigma> (ConstantExpr_Neg c) = take_bit (getWidth c) (- eval \<sigma> c)"
    "is_ConstantExpr (ConstantExpr_Neg c)"
  using assms by (cases c; auto simp: ConstantExpr_Neg_def)+

lemma ConstantExpr_Not_sound:
  assumes "is_ConstantExpr c" "wt c"
  shows "wt (ConstantExpr_Not c)" "getWidth (ConstantExpr_Not c) = getWidth c"
    "eval \<sigma> (ConstantExpr_Not c) = eval \<sigma> (NotExpr c)"
    "is_ConstantExpr (ConstantExpr_Not c)"
  using assms by (cases c; auto simp: ConstantExpr_Not_def)+

end
