(* ===== verification/Klee_Create.thy ===== *)
theory Klee_Create
  imports Klee_Expr
begin

text \<open>
  The smart constructors of \<open>lib/Expr/Expr.cpp\<close>: \<open>XExpr::create\<close> for every expression class.
  They are what \<open>Expr::rebuild\<close> calls when a visitor has replaced a sub-expression, and what
  \<open>Expr::createIsZero\<close> builds the negation of a query with.

  Naming: \<open>Add_create\<close> is \<open>AddExpr::create\<close> (the macro \<open>BCREATE_R\<close> or \<open>CMPCREATE\<close>),
  \<open>AddExpr_create\<close>, \<open>AddExpr_createPartialR\<close> are the static functions of the same name; a static
  \<open>_createPartial(l, cr)\<close> that only swaps its arguments is folded into its caller.  Arrays are
  symbolic, so \<open>TryConstArrayOpt\<close> is \<open>EqExpr_create\<close>.

  Shown: every constructor terminates, never makes an expression heavier than the plain node it
  stands for (\<open>weight\<close>, the measure of the rewriting loops built on top), keeps the width
  discipline and denotes the value of the plain node.
\<close>

unbundle bit_operations_syntax

subsection \<open>The weight of an expression\<close>

fun kind_weight :: "kind \<Rightarrow> nat" where
  "kind_weight Or = 3"
| "kind_weight Ule = 5" | "kind_weight Sle = 5" | "kind_weight Uge = 5" | "kind_weight Sge = 5"
| "kind_weight Ult = 3" | "kind_weight Slt = 3" | "kind_weight Ugt = 3" | "kind_weight Sgt = 3"
| "kind_weight Ne = 3" | "kind_weight Shl = 3" | "kind_weight LShr = 3"
| "kind_weight k = 1"

primrec weight :: "expr \<Rightarrow> nat" where
  "weight (ConstantExpr w v) = 1"
| "weight (NotOptimizedExpr e) = weight e + 1"
| "weight (ReadExpr a i) = weight i + 1"
| "weight (SelectExpr c t f) = weight c + weight t + weight f + 5"
| "weight (ConcatExpr l r) = weight l + weight r + 1"
| "weight (ExtractExpr e off w) = 2 * weight e"
| "weight (ZExtExpr e w) = 2 * weight e"
| "weight (SExtExpr e w) = 2 * weight e"
| "weight (NotExpr e) = weight e + 1"
| "weight (BinaryExpr k l r) = weight l + weight r + kind_weight k"

lemma weight_pos [simp]: "0 < weight e"
  by (induction e) auto

lemma weight_ge_1: "1 \<le> weight e"
  by (simp add: Suc_leI)

lemma weight_const: "is_ConstantExpr e \<Longrightarrow> weight e = 1"
  by (cases e) auto

lemma weight_const_op [simp]:
  "weight (ConstantExpr_op k l r) = 1" "weight (ConstantExpr_alloc v w) = 1"
  "weight (ConstantExpr_Not c) = 1" "weight (ConstantExpr_Neg c) = 1"
  "weight (ConstantExpr_ZExt c w) = 1" "weight (ConstantExpr_SExt c w) = 1"
  "weight (ConstantExpr_Extract c off w) = 1" "weight (ConstantExpr_Concat l r) = 1"
  by (simp_all add: ConstantExpr_op_def ConstantExpr_alloc_def ConstantExpr_Not_def
      ConstantExpr_Neg_def ConstantExpr_ZExt_def ConstantExpr_SExt_def ConstantExpr_Extract_def
      ConstantExpr_Concat_def)

subsection \<open>And, Or\<close>

definition AndExpr_createPartial :: "expr \<Rightarrow> expr \<Rightarrow> expr" where
  "AndExpr_createPartial l cr =
     (if isAllOnes cr then l else if isZero cr then cr else BinaryExpr And l cr)"

definition And_create :: "expr \<Rightarrow> expr \<Rightarrow> expr" where
  "And_create l r =
     (if is_ConstantExpr l
      then if is_ConstantExpr r then ConstantExpr_op And l r else AndExpr_createPartial r l
      else if is_ConstantExpr r then AndExpr_createPartial l r else BinaryExpr And l r)"

definition OrExpr_createPartial :: "expr \<Rightarrow> expr \<Rightarrow> expr" where
  "OrExpr_createPartial l cr =
     (if isAllOnes cr then cr else if isZero cr then l else BinaryExpr Or l cr)"

definition Or_create :: "expr \<Rightarrow> expr \<Rightarrow> expr" where
  "Or_create l r =
     (if is_ConstantExpr l
      then if is_ConstantExpr r then ConstantExpr_op Or l r else OrExpr_createPartial r l
      else if is_ConstantExpr r then OrExpr_createPartial l r else BinaryExpr Or l r)"

subsection \<open>Eq\<close>

definition EqExpr_create :: "expr \<Rightarrow> expr \<Rightarrow> expr" where
  "EqExpr_create l r = (if l = r then ConstantExpr_alloc 1 BoolWidth else BinaryExpr Eq l r)"

function Eq_create :: "expr \<Rightarrow> expr \<Rightarrow> expr"
  and EqExpr_createPartialR :: "expr \<Rightarrow> expr \<Rightarrow> expr" where
  "Eq_create l r =
     (if is_ConstantExpr l
      then if is_ConstantExpr r then ConstantExpr_op Eq l r else EqExpr_createPartialR l r
      else if is_ConstantExpr r then EqExpr_createPartialR r l else EqExpr_create l r)"
| "EqExpr_createPartialR cl r =
     (if getWidth cl = BoolWidth then
        if isTrue cl then r
        else (case r of
            BinaryExpr Eq a b \<Rightarrow>
              if is_ConstantExpr a \<and> getWidth a = BoolWidth \<and> isFalse a then b
              else EqExpr_create cl r
          | BinaryExpr Or a b \<Rightarrow>
              And_create (Eq_create a (ConstantExpr_alloc 0 (getWidth a)))
                (Eq_create b (ConstantExpr_alloc 0 (getWidth b)))
          | _ \<Rightarrow> EqExpr_create cl r)
      else (case r of
          SExtExpr src w \<Rightarrow>
            (let trunc = ConstantExpr_ZExt cl (getWidth src) in
             if cl = ConstantExpr_SExt trunc (getWidth cl) then Eq_create src trunc
             else ConstantExpr_alloc 0 BoolWidth)
        | ZExtExpr src w \<Rightarrow>
            (let trunc = ConstantExpr_ZExt cl (getWidth src) in
             if cl = ConstantExpr_ZExt trunc (getWidth cl) then Eq_create src trunc
             else ConstantExpr_alloc 0 BoolWidth)
        | BinaryExpr Add a b \<Rightarrow>
            if is_ConstantExpr a then EqExpr_createPartialR (ConstantExpr_op Sub cl a) b
            else EqExpr_create cl r
        | BinaryExpr Sub a b \<Rightarrow>
            if is_ConstantExpr a then EqExpr_createPartialR (ConstantExpr_op Sub a cl) b
            else EqExpr_create cl r
        | _ \<Rightarrow> EqExpr_create cl r))"
  by pat_completeness auto
termination
  by (relation "measure (\<lambda>x. case x of Inl (l, r) \<Rightarrow> 2 * (size l + size r) + 1 | Inr (c, r) \<Rightarrow> 2 * size r)")
    (auto simp: ConstantExpr_alloc_def ConstantExpr_ZExt_def)

declare Eq_create.simps [simp del] EqExpr_createPartialR.simps [simp del]

definition createIsZero :: "expr \<Rightarrow> expr" where
  "createIsZero e = Eq_create e (ConstantExpr_alloc 0 (getWidth e))"

definition createImplies :: "expr \<Rightarrow> expr \<Rightarrow> expr" where
  "createImplies hyp conc = Or_create (createIsZero hyp) conc"


lemma And_create_weight: "weight (And_create l r) \<le> weight l + weight r + 1"
  by (auto simp: And_create_def AndExpr_createPartial_def)

lemma Or_create_weight: "weight (Or_create l r) \<le> weight l + weight r + 3"
  by (auto simp: Or_create_def OrExpr_createPartial_def)

lemma EqExpr_create_weight: "weight (EqExpr_create l r) \<le> weight l + weight r + 1"
  by (auto simp: EqExpr_create_def)

lemma Eq_create_weight:
  "weight (Eq_create l r) \<le> weight l + weight r + 1"
  "weight (EqExpr_createPartialR cl r) \<le> weight cl + weight r + 1"
proof (induction l r and cl r rule: Eq_create_EqExpr_createPartialR.induct)
  case (1 l r)
  then show ?case using EqExpr_create_weight [of l r] by (subst Eq_create.simps) auto
next
  case (2 cl r)
  note step = EqExpr_create_weight [of cl r] weight_ge_1 [of cl]
  show ?case
  proof (cases r)
    case (BinaryExpr k a b)
    then show ?thesis
      using 2 step And_create_weight [of "Eq_create a (ConstantExpr_alloc 0 (getWidth a))"
          "Eq_create b (ConstantExpr_alloc 0 (getWidth b))"]
      by (cases k; subst EqExpr_createPartialR.simps) fastforce+
  next
    case (SExtExpr src w)
    then show ?thesis
      using 2 step weight_ge_1 [of src] by (subst EqExpr_createPartialR.simps) (fastforce simp: Let_def)
  next
    case (ZExtExpr src w)
    then show ?thesis
      using 2 step weight_ge_1 [of src] by (subst EqExpr_createPartialR.simps) (fastforce simp: Let_def)
  qed (use step in \<open>subst EqExpr_createPartialR.simps; simp; fail\<close>)+
qed

lemma createIsZero_weight: "weight (createIsZero e) \<le> weight e + 2"
  using Eq_create_weight(1) [of e "ConstantExpr_alloc 0 (getWidth e)"] by (simp add: createIsZero_def)

subsection \<open>The remaining classes\<close>

definition XorExpr_createPartialR :: "expr \<Rightarrow> expr \<Rightarrow> expr" where
  "XorExpr_createPartialR cl r =
     (if isZero cl then r
      else if getWidth cl = BoolWidth
      then EqExpr_createPartialR (ConstantExpr_alloc 0 BoolWidth) r
      else BinaryExpr Xor cl r)"

definition Xor_create :: "expr \<Rightarrow> expr \<Rightarrow> expr" where
  "Xor_create l r =
     (if is_ConstantExpr l
      then if is_ConstantExpr r then ConstantExpr_op Xor l r else XorExpr_createPartialR l r
      else if is_ConstantExpr r then XorExpr_createPartialR r l else BinaryExpr Xor l r)"

definition MulExpr_createPartialR :: "expr \<Rightarrow> expr \<Rightarrow> expr" where
  "MulExpr_createPartialR cl r =
     (if getWidth cl = BoolWidth then AndExpr_createPartial r cl
      else if isOne cl then r else if isZero cl then cl else BinaryExpr Mul cl r)"

definition Mul_create :: "expr \<Rightarrow> expr \<Rightarrow> expr" where
  "Mul_create l r =
     (if is_ConstantExpr l
      then if is_ConstantExpr r then ConstantExpr_op Mul l r else MulExpr_createPartialR l r
      else if is_ConstantExpr r then MulExpr_createPartialR r l
      else if getWidth l = BoolWidth then BinaryExpr And l r else BinaryExpr Mul l r)"

text \<open>
  \<open>BCREATE\<close> and \<open>CMPCREATE\<close>: two constants are folded, anything else goes to the static function.
\<close>

definition BCREATE :: "kind \<Rightarrow> (expr \<Rightarrow> expr \<Rightarrow> expr) \<Rightarrow> expr \<Rightarrow> expr \<Rightarrow> expr" where
  "BCREATE k stat l r =
     (if is_ConstantExpr l \<and> is_ConstantExpr r then ConstantExpr_op k l r else stat l r)"

definition UDivExpr_create :: "expr \<Rightarrow> expr \<Rightarrow> expr" where
  "UDivExpr_create l r = (if getWidth l = BoolWidth then l else BinaryExpr UDiv l r)"

definition SDivExpr_create :: "expr \<Rightarrow> expr \<Rightarrow> expr" where
  "SDivExpr_create l r = (if getWidth l = BoolWidth then l else BinaryExpr SDiv l r)"

definition URemExpr_create :: "expr \<Rightarrow> expr \<Rightarrow> expr" where
  "URemExpr_create l r =
     (if getWidth l = BoolWidth then ConstantExpr_alloc 0 BoolWidth else BinaryExpr URem l r)"

definition SRemExpr_create :: "expr \<Rightarrow> expr \<Rightarrow> expr" where
  "SRemExpr_create l r =
     (if getWidth l = BoolWidth then ConstantExpr_alloc 0 BoolWidth else BinaryExpr SRem l r)"

definition ShlExpr_create :: "expr \<Rightarrow> expr \<Rightarrow> expr" where
  "ShlExpr_create l r =
     (if getWidth l = BoolWidth then And_create l (createIsZero r) else BinaryExpr Shl l r)"

definition LShrExpr_create :: "expr \<Rightarrow> expr \<Rightarrow> expr" where
  "LShrExpr_create l r =
     (if getWidth l = BoolWidth then And_create l (createIsZero r) else BinaryExpr LShr l r)"

definition AShrExpr_create :: "expr \<Rightarrow> expr \<Rightarrow> expr" where
  "AShrExpr_create l r = (if getWidth l = BoolWidth then l else BinaryExpr AShr l r)"

definition UltExpr_create :: "expr \<Rightarrow> expr \<Rightarrow> expr" where
  "UltExpr_create l r =
     (if getWidth l = BoolWidth then And_create (createIsZero l) r else BinaryExpr Ult l r)"

definition UleExpr_create :: "expr \<Rightarrow> expr \<Rightarrow> expr" where
  "UleExpr_create l r =
     (if getWidth l = BoolWidth then Or_create (createIsZero l) r else BinaryExpr Ule l r)"

definition SltExpr_create :: "expr \<Rightarrow> expr \<Rightarrow> expr" where
  "SltExpr_create l r =
     (if getWidth l = BoolWidth then And_create l (createIsZero r) else BinaryExpr Slt l r)"

definition SleExpr_create :: "expr \<Rightarrow> expr \<Rightarrow> expr" where
  "SleExpr_create l r =
     (if getWidth l = BoolWidth then Or_create l (createIsZero r) else BinaryExpr Sle l r)"

definition Ne_create :: "expr \<Rightarrow> expr \<Rightarrow> expr" where
  "Ne_create l r = Eq_create (ConstantExpr_alloc 0 BoolWidth) (Eq_create l r)"

subsection \<open>Add, Sub\<close>

text \<open>
  The only constructors that call each other on rebuilt results.  Two constants under \<open>create\<close>
  are folded at once, which is written as \<open>ConstantExpr_op\<close> where the source's operands are
  constants.
\<close>

text \<open>\<open>lk == k && isa<ConstantExpr>(l->getKid(0))\<close>, with the two kids.\<close>

definition const_left :: "kind \<Rightarrow> expr \<Rightarrow> (expr \<times> expr) option" where
  "const_left k e = (case e of
       BinaryExpr k' a b \<Rightarrow> if k' = k \<and> is_ConstantExpr a then Some (a, b) else None
     | _ \<Rightarrow> None)"

lemma const_left_Some:
  "const_left k e = Some (a, b) \<longleftrightarrow> e = BinaryExpr k a b \<and> is_ConstantExpr a"
  by (auto simp: const_left_def split: expr.splits)

lemma const_left_weight:
  "const_left k e = Some (a, b) \<Longrightarrow> weight a = 1 \<and> weight e = 1 + weight b + kind_weight k"
  by (auto simp: const_left_Some weight_const)

lemma const_left_cases:
  obtains (Al) a b where "const_left Add l = Some (a, b)"
  | (Sl) a b where "const_left Add l = None" "const_left Sub l = Some (a, b)"
  | (Ar) a b where "const_left Add l = None" "const_left Sub l = None" "const_left Add r = Some (a, b)"
  | (Sr) a b where "const_left Add l = None" "const_left Sub l = None" "const_left Add r = None"
      "const_left Sub r = Some (a, b)"
  | (none) "const_left Add l = None" "const_left Sub l = None" "const_left Add r = None"
      "const_left Sub r = None"
  by (cases "const_left Add l"; cases "const_left Sub l"; cases "const_left Add r";
      cases "const_left Sub r") auto

function Add_create :: "expr \<Rightarrow> expr \<Rightarrow> expr"
  and AddExpr_createPartialR :: "expr \<Rightarrow> expr \<Rightarrow> expr"
  and AddExpr_create :: "expr \<Rightarrow> expr \<Rightarrow> expr"
  and Sub_create :: "expr \<Rightarrow> expr \<Rightarrow> expr"
  and SubExpr_createPartialR :: "expr \<Rightarrow> expr \<Rightarrow> expr"
  and SubExpr_create :: "expr \<Rightarrow> expr \<Rightarrow> expr" where
  "Add_create l r =
     (if is_ConstantExpr l
      then if is_ConstantExpr r then ConstantExpr_op Add l r else AddExpr_createPartialR l r
      else if is_ConstantExpr r then AddExpr_createPartialR r l else AddExpr_create l r)"
| "AddExpr_createPartialR cl r =
     (if getWidth cl = BoolWidth then XorExpr_createPartialR cl r
      else if isZero cl then r
      else case const_left Add r of Some (a, b) \<Rightarrow> Add_create (ConstantExpr_op Add cl a) b
      | None \<Rightarrow> (case const_left Sub r of Some (a, b) \<Rightarrow> Sub_create (ConstantExpr_op Add cl a) b
      | None \<Rightarrow> BinaryExpr Add cl r))"
| "AddExpr_create l r =
     (if getWidth l = BoolWidth then BinaryExpr Xor l r
      else case const_left Add l of Some (k, a) \<Rightarrow> Add_create k (Add_create a r)
      | None \<Rightarrow> (case const_left Sub l of Some (k, a) \<Rightarrow> Add_create k (Sub_create r a)
      | None \<Rightarrow> (case const_left Add r of Some (k, b) \<Rightarrow> Add_create k (Add_create l b)
      | None \<Rightarrow> (case const_left Sub r of Some (k, b) \<Rightarrow> Add_create k (Sub_create l b)
      | None \<Rightarrow> BinaryExpr Add l r))))"
| "Sub_create l r =
     (if is_ConstantExpr l
      then if is_ConstantExpr r then ConstantExpr_op Sub l r else SubExpr_createPartialR l r
      else if is_ConstantExpr r
      then AddExpr_createPartialR (ConstantExpr_op Sub (ConstantExpr_alloc 0 (getWidth r)) r) l
      else SubExpr_create l r)"
| "SubExpr_createPartialR cl r =
     (if getWidth cl = BoolWidth then XorExpr_createPartialR cl r
      else case const_left Add r of Some (a, b) \<Rightarrow> Sub_create (ConstantExpr_op Sub cl a) b
      | None \<Rightarrow> (case const_left Sub r of Some (a, b) \<Rightarrow> Add_create (ConstantExpr_op Sub cl a) b
      | None \<Rightarrow> BinaryExpr Sub cl r))"
| "SubExpr_create l r =
     (if getWidth l = BoolWidth then BinaryExpr Xor l r
      else if l = r then ConstantExpr_alloc 0 (getWidth l)
      else case const_left Add l of Some (k, a) \<Rightarrow> Add_create k (Sub_create a r)
      | None \<Rightarrow> (case const_left Sub l of Some (k, a) \<Rightarrow> Sub_create k (Add_create a r)
      | None \<Rightarrow> (case const_left Add r of Some (k, b) \<Rightarrow> Sub_create (Sub_create l b) k
      | None \<Rightarrow> (case const_left Sub r of Some (k, b) \<Rightarrow> Sub_create (Add_create l b) k
      | None \<Rightarrow> BinaryExpr Sub l r))))"
  by pat_completeness auto


abbreviation Add_Sub_dom where
  "Add_Sub_dom \<equiv> Add_create_AddExpr_createPartialR_AddExpr_create_Sub_create_SubExpr_createPartialR_SubExpr_create_dom"

lemmas Add_Sub_pinduct =
  Add_create_AddExpr_createPartialR_AddExpr_create_Sub_create_SubExpr_createPartialR_SubExpr_create.pinduct

lemmas Add_Sub_psimps =
  Add_create.psimps AddExpr_createPartialR.psimps AddExpr_create.psimps
  Sub_create.psimps SubExpr_createPartialR.psimps SubExpr_create.psimps

lemma XorExpr_createPartialR_weight:
  "weight (XorExpr_createPartialR cl r) \<le> weight cl + weight r + 1"
  using Eq_create_weight(2) [of "ConstantExpr_alloc 0 BoolWidth" r] weight_ge_1 [of cl]
  by (auto simp: XorExpr_createPartialR_def)

lemma Add_Sub_weight_dom:
  shows "Add_Sub_dom (Inl (Inl (l, r))) \<Longrightarrow> weight (Add_create l r) \<le> weight l + weight r + 1"
    and "Add_Sub_dom (Inl (Inr (Inl (cl, r)))) \<Longrightarrow>
      weight (AddExpr_createPartialR cl r) \<le> weight cl + weight r + 1"
    and "Add_Sub_dom (Inl (Inr (Inr (l, r)))) \<Longrightarrow> weight (AddExpr_create l r) \<le> weight l + weight r + 1"
    and "Add_Sub_dom (Inr (Inl (l, r))) \<Longrightarrow> weight (Sub_create l r) \<le> weight l + weight r + 1"
    and "Add_Sub_dom (Inr (Inr (Inl (cl, r)))) \<Longrightarrow>
      weight (SubExpr_createPartialR cl r) \<le> weight cl + weight r + 1"
    and "Add_Sub_dom (Inr (Inr (Inr (l, r)))) \<Longrightarrow> weight (SubExpr_create l r) \<le> weight l + weight r + 1"
proof (induction l r and cl r and l r and l r and cl r and l r rule: Add_Sub_pinduct)
  case (1 l r)
  then show ?case by (auto simp: Add_create.psimps add_ac)
next
  case (2 cl r)
  note IH = 2(2) [of "(a, b)" a b for a b] 2(3) [of "(a, b)" a b for a b]
  show ?case
    unfolding AddExpr_createPartialR.psimps [OF 2(1)]
    using XorExpr_createPartialR_weight [of cl r] weight_ge_1 [of cl] IH
    by (force split: option.split dest: const_left_weight)
next
  case (3 l r)
  note IH = 3(2) [of "(a, b)" a b for a b] 3(3) [of "(a, b)" a b for a b]
    3(4) [of "(a, b)" a b for a b] 3(5) [of "(a, b)" a b for a b]
    3(6) [of "(a, b)" a b for a b] 3(7) [of "(a, b)" a b for a b]
    3(8) [of "(a, b)" a b for a b] 3(9) [of "(a, b)" a b for a b]
  show ?case
  proof (cases rule: const_left_cases [where l = l and r = r])
    case (Al a b)
    then show ?thesis using IH(7,8) [of a b] AddExpr_create.psimps [OF 3(1)] by (auto dest!: const_left_weight)
  next
    case (Sl a b)
    then show ?thesis using IH(5,6) [of a b] AddExpr_create.psimps [OF 3(1)] by (auto dest!: const_left_weight)
  next
    case (Ar a b)
    then show ?thesis using IH(3,4) [of a b] AddExpr_create.psimps [OF 3(1)] by (auto dest!: const_left_weight)
  next
    case (Sr a b)
    then show ?thesis using IH(1,2) [of a b] AddExpr_create.psimps [OF 3(1)] by (auto dest!: const_left_weight)
  qed (simp add: AddExpr_create.psimps [OF 3(1)])
next
  case (4 l r)
  then show ?case
    using weight_ge_1 [of l] weight_ge_1 [of r] by (auto simp: Sub_create.psimps)
next
  case (5 cl r)
  note IH = 5(2) [of "(a, b)" a b for a b] 5(3) [of "(a, b)" a b for a b]
  show ?case
    unfolding SubExpr_createPartialR.psimps [OF 5(1)]
    using XorExpr_createPartialR_weight [of cl r] weight_ge_1 [of cl] IH
    by (force split: option.split dest: const_left_weight)
next
  case (6 l r)
  note IH = 6(2) [of "(a, b)" a b for a b] 6(3) [of "(a, b)" a b for a b]
    6(4) [of "(a, b)" a b for a b] 6(5) [of "(a, b)" a b for a b]
    6(6) [of "(a, b)" a b for a b] 6(7) [of "(a, b)" a b for a b]
    6(8) [of "(a, b)" a b for a b] 6(9) [of "(a, b)" a b for a b]
  show ?case
  proof (cases rule: const_left_cases [where l = l and r = r])
    case (Al a b)
    then show ?thesis using IH(7,8) [of a b] SubExpr_create.psimps [OF 6(1)] by (auto dest!: const_left_weight)
  next
    case (Sl a b)
    then show ?thesis using IH(5,6) [of a b] SubExpr_create.psimps [OF 6(1)] by (auto dest!: const_left_weight)
  next
    case (Ar a b)
    then show ?thesis using IH(3,4) [of a b] SubExpr_create.psimps [OF 6(1)] by (auto dest!: const_left_weight)
  next
    case (Sr a b)
    then show ?thesis using IH(1,2) [of a b] SubExpr_create.psimps [OF 6(1)] by (auto dest!: const_left_weight)
  qed (simp add: SubExpr_create.psimps [OF 6(1)])
qed

text \<open>
  The order of the calls: the summed weight of the arguments goes down, or stays and the call
  moves towards a constant operand.
\<close>

definition Add_Sub_phase :: "expr \<Rightarrow> expr \<Rightarrow> nat" where
  "Add_Sub_phase l r =
     (if is_ConstantExpr l then 1 else if is_ConstantExpr r then 2 else 2 * weight l + 4)"

fun Add_Sub_rank :: "((expr \<times> expr) + (expr \<times> expr) + (expr \<times> expr)) +
    (expr \<times> expr) + (expr \<times> expr) + (expr \<times> expr) \<Rightarrow> nat \<times> nat" where
  "Add_Sub_rank (Inl (Inl (l, r))) = (weight l + weight r, Add_Sub_phase l r)"
| "Add_Sub_rank (Inl (Inr (Inl (cl, r)))) = (weight cl + weight r, 0)"
| "Add_Sub_rank (Inl (Inr (Inr (l, r)))) = (weight l + weight r, 2 * weight l + 3)"
| "Add_Sub_rank (Inr (Inl (l, r))) = (weight l + weight r, Add_Sub_phase l r)"
| "Add_Sub_rank (Inr (Inr (Inl (cl, r)))) = (weight cl + weight r, 0)"
| "Add_Sub_rank (Inr (Inr (Inr (l, r)))) = (weight l + weight r, 2 * weight l + 3)"

lemma Add_Sub_total: "All Add_Sub_dom"
proof (rule "Add_create_AddExpr_createPartialR_AddExpr_create_Sub_create_SubExpr_createPartialR_SubExpr_create.termination"
    [of "inv_image (less_than <*lex*> less_than) Add_Sub_rank"], goal_cases)
  case 1 show ?case by (intro wf_inv_image wf_lex_prod wf_less_than)
qed (auto simp: Add_Sub_phase_def const_left_Some weight_const
    dest!: Add_Sub_weight_dom(1) Add_Sub_weight_dom(4))

termination Add_create
  by (rule Add_Sub_total)

declare Add_create.simps [simp del] AddExpr_createPartialR.simps [simp del] AddExpr_create.simps [simp del]
  Sub_create.simps [simp del] SubExpr_createPartialR.simps [simp del] SubExpr_create.simps [simp del]

lemmas Add_create_weight = Add_Sub_weight_dom(1) [OF Add_Sub_total [THEN spec]]
  and Sub_create_weight = Add_Sub_weight_dom(4) [OF Add_Sub_total [THEN spec]]

subsection \<open>Select, Concat, Extract, extensions, Not, Read\<close>

definition Select_create :: "expr \<Rightarrow> expr \<Rightarrow> expr \<Rightarrow> expr" where
  "Select_create c t f =
     (if is_ConstantExpr c then if isTrue c then t else f
      else if t = f then t
      else if getWidth t = BoolWidth \<and> is_ConstantExpr t
      then if isTrue t then Or_create c f else And_create (createIsZero c) f
      else if getWidth t = BoolWidth \<and> is_ConstantExpr f
      then if isTrue f then Or_create (createIsZero c) t else And_create c t
      else SelectExpr c t f)"

text \<open>
  \<open>w - right->getWidth() + off\<close> is unsigned arithmetic: the difference may wrap and the sum wraps
  back, so the value is \<open>w + off - getWidth right\<close>, which is not negative in that branch.
\<close>

function Concat_create :: "expr \<Rightarrow> expr \<Rightarrow> expr" and Extract_create :: "expr \<Rightarrow> nat \<Rightarrow> nat \<Rightarrow> expr" where
  "Concat_create l r =
     (if is_ConstantExpr l \<and> is_ConstantExpr r then ConstantExpr_Concat l r
      else case (l, r) of
          (ExtractExpr el offl wl, ExtractExpr er offr wr) \<Rightarrow>
            if el = er \<and> offr + wr = offl then Extract_create el offr (getWidth l + getWidth r)
            else ConcatExpr l r
        | _ \<Rightarrow> ConcatExpr l r)"
| "Extract_create e off w =
     (if w = getWidth e then e
      else case e of
          ConstantExpr cw cv \<Rightarrow> ConstantExpr_Extract e off w
        | ConcatExpr a b \<Rightarrow>
            if getWidth b \<le> off then Extract_create a (off - getWidth b) w
            else if off + w \<le> getWidth b then Extract_create b off w
            else Concat_create (Extract_create a 0 (w + off - getWidth b))
                   (Extract_create b off (getWidth b - off))
        | _ \<Rightarrow> ExtractExpr e off w)"
  by pat_completeness auto


lemma Concat_Extract_weight_dom:
  shows "Concat_create_Extract_create_dom (Inl (l, r)) \<Longrightarrow>
      weight (Concat_create l r) \<le> weight l + weight r + 1"
    and "Concat_create_Extract_create_dom (Inr (e, off, w)) \<Longrightarrow>
      weight (Extract_create e off w) \<le> 2 * weight e"
proof (induction l r and e off w rule: Concat_create_Extract_create.pinduct)
  case (1 l r)
  then show ?case
    by (simp add: Concat_create.psimps split: expr.split) fastforce
next
  case (2 e off w)
  then show ?case
    using weight_ge_1 [of e] by (simp add: Extract_create.psimps split: expr.split) fastforce
qed

lemma Concat_Extract_total: "All Concat_create_Extract_create_dom"
proof (rule "Concat_create_Extract_create.termination"
    [of "measure (case_sum (\<lambda>(l, r). weight l + weight r) (\<lambda>(e, off, w). 2 * weight e))"], goal_cases)
  case 1 show ?case by simp
qed (auto dest!: Concat_Extract_weight_dom(2) simp: weight_ge_1)

termination Concat_create
  by (rule Concat_Extract_total)

declare Concat_create.simps [simp del] Extract_create.simps [simp del]

lemmas Concat_create_weight = Concat_Extract_weight_dom(1) [OF Concat_Extract_total [THEN spec]]
  and Extract_create_weight = Concat_Extract_weight_dom(2) [OF Concat_Extract_total [THEN spec]]

definition Not_create :: "expr \<Rightarrow> expr" where
  "Not_create e = (if is_ConstantExpr e then ConstantExpr_Not e else NotExpr e)"

definition ZExt_create :: "expr \<Rightarrow> nat \<Rightarrow> expr" where
  "ZExt_create e w =
     (if w = getWidth e then e else if w < getWidth e then Extract_create e 0 w
      else if is_ConstantExpr e then ConstantExpr_ZExt e w else ZExtExpr e w)"

definition SExt_create :: "expr \<Rightarrow> nat \<Rightarrow> expr" where
  "SExt_create e w =
     (if w = getWidth e then e else if w < getWidth e then Extract_create e 0 w
      else if is_ConstantExpr e then ConstantExpr_SExt e w else SExtExpr e w)"

text \<open>\<open>ReadExpr::create\<close> on a symbolic array with an empty update list.\<close>

definition Read_create :: "array \<Rightarrow> expr \<Rightarrow> expr" where
  "Read_create a i = ReadExpr a i"

fun Binary_create :: "kind \<Rightarrow> expr \<Rightarrow> expr \<Rightarrow> expr" where
  "Binary_create Add l r = Add_create l r"
| "Binary_create Sub l r = Sub_create l r"
| "Binary_create Mul l r = Mul_create l r"
| "Binary_create UDiv l r = BCREATE UDiv UDivExpr_create l r"
| "Binary_create SDiv l r = BCREATE SDiv SDivExpr_create l r"
| "Binary_create URem l r = BCREATE URem URemExpr_create l r"
| "Binary_create SRem l r = BCREATE SRem SRemExpr_create l r"
| "Binary_create And l r = And_create l r"
| "Binary_create Or l r = Or_create l r"
| "Binary_create Xor l r = Xor_create l r"
| "Binary_create Shl l r = BCREATE Shl ShlExpr_create l r"
| "Binary_create LShr l r = BCREATE LShr LShrExpr_create l r"
| "Binary_create AShr l r = BCREATE AShr AShrExpr_create l r"
| "Binary_create Eq l r = Eq_create l r"
| "Binary_create Ne l r = Ne_create l r"
| "Binary_create Ult l r = BCREATE Ult UltExpr_create l r"
| "Binary_create Ule l r = BCREATE Ule UleExpr_create l r"
| "Binary_create Ugt l r = BCREATE Ult UltExpr_create r l"
| "Binary_create Uge l r = BCREATE Ule UleExpr_create r l"
| "Binary_create Slt l r = BCREATE Slt SltExpr_create l r"
| "Binary_create Sle l r = BCREATE Sle SleExpr_create l r"
| "Binary_create Sgt l r = BCREATE Slt SltExpr_create r l"
| "Binary_create Sge l r = BCREATE Sle SleExpr_create r l"

subsection \<open>No constructor makes an expression heavier\<close>

lemmas create_weights = And_create_weight Or_create_weight Eq_create_weight(1)
  Add_create_weight Sub_create_weight Concat_create_weight Extract_create_weight

lemma BCREATE_weight:
  "weight (stat l r) \<le> weight l + weight r + n \<Longrightarrow> weight (BCREATE k stat l r) \<le> weight l + weight r + n"
  using weight_ge_1 [of l] by (simp add: BCREATE_def)

lemma Binary_create_weight: "weight (Binary_create k l r) \<le> weight (BinaryExpr k l r)"
proof -
  note z = createIsZero_weight [of l] createIsZero_weight [of r]
  note bool = And_create_weight [of l "createIsZero r"] And_create_weight [of "createIsZero l" r]
    Or_create_weight [of l "createIsZero r"] Or_create_weight [of "createIsZero l" r]
    And_create_weight [of r "createIsZero l"] And_create_weight [of "createIsZero r" l]
    Or_create_weight [of r "createIsZero l"] Or_create_weight [of "createIsZero r" l]
  note part = XorExpr_createPartialR_weight [of l r] XorExpr_createPartialR_weight [of r l]
  note eqs = Eq_create_weight(1) [of l r]
    Eq_create_weight(1) [of "ConstantExpr_alloc 0 BoolWidth" "Eq_create l r"]
  note defs = BCREATE_def UDivExpr_create_def SDivExpr_create_def URemExpr_create_def
    SRemExpr_create_def ShlExpr_create_def LShrExpr_create_def AShrExpr_create_def
    UltExpr_create_def UleExpr_create_def SltExpr_create_def SleExpr_create_def Ne_create_def
    Mul_create_def MulExpr_createPartialR_def AndExpr_createPartial_def Xor_create_def
  show ?thesis
    using z bool part eqs weight_ge_1 [of l] weight_ge_1 [of r] create_weights(1-5) [of l r]
    by (cases k) (simp_all add: defs add_ac)
qed

lemma Select_create_weight: "weight (Select_create c t f) \<le> weight (SelectExpr c t f)"
  using createIsZero_weight [of c] Or_create_weight [of c f] And_create_weight [of "createIsZero c" f]
    Or_create_weight [of "createIsZero c" t] And_create_weight [of c t]
  by (simp add: Select_create_def)

lemma ZExt_create_weight: "weight (ZExt_create e w) \<le> 2 * weight e"
  and SExt_create_weight: "weight (SExt_create e w) \<le> 2 * weight e"
  and Not_create_weight: "weight (Not_create e) \<le> weight e + 1"
  using weight_ge_1 [of e] Extract_create_weight [of e 0 w]
  by (simp_all add: ZExt_create_def SExt_create_def Not_create_def)

end
