(* ===== verification/Klee_Create_Sound.thy ===== *)
theory Klee_Create_Sound
  imports Klee_Create
begin

text \<open>
  The smart constructors of \<open>Klee_Create\<close> denote what the plain nodes denote.  \<open>sem_eq e e'\<close> says
  that \<open>e'\<close> keeps the width discipline, has the width of \<open>e\<close> and has the value of \<open>e\<close> under every
  assignment of the arrays; each constructor is shown to return an expression in that relation
  to the plain node, provided the node itself obeys the width discipline.
\<close>

unbundle bit_operations_syntax

definition sem_eq :: "expr \<Rightarrow> expr \<Rightarrow> bool" where
  "sem_eq e e' \<longleftrightarrow> wt e' \<and> getWidth e' = getWidth e \<and> (\<forall>\<sigma>. eval \<sigma> e' = eval \<sigma> e)"

lemma sem_eqI:
  "wt e' \<Longrightarrow> getWidth e' = getWidth e \<Longrightarrow> (\<And>\<sigma>. eval \<sigma> e' = eval \<sigma> e) \<Longrightarrow> sem_eq e e'"
  by (simp add: sem_eq_def)

lemma sem_eqD:
  assumes "sem_eq e e'"
  shows "wt e'" "getWidth e' = getWidth e" "eval \<sigma> e' = eval \<sigma> e"
  using assms by (simp_all add: sem_eq_def)

lemma sem_eq_refl [simp]: "wt e \<Longrightarrow> sem_eq e e"
  by (simp add: sem_eq_def)

lemma sem_eq_trans: "sem_eq a b \<Longrightarrow> sem_eq b c \<Longrightarrow> sem_eq a c"
  by (simp add: sem_eq_def)

lemma sem_eq_Binary:
  "\<not> is_div_kind k \<Longrightarrow> sem_eq l l' \<Longrightarrow> sem_eq r r' \<Longrightarrow> getWidth l = getWidth r \<Longrightarrow>
   sem_eq (BinaryExpr k l r) (BinaryExpr k l' r')"
  by (simp add: sem_eq_def)

lemma sem_eq_const_op:
  assumes "wt (BinaryExpr k l r)" "is_ConstantExpr l" "is_ConstantExpr r"
  shows "sem_eq (BinaryExpr k l r) (ConstantExpr_op k l r)"
  using assms ConstantExpr_op_sound [of l r] by (intro sem_eqI) simp_all

text \<open>Values of constants, and of one-bit expressions.\<close>

lemma eval_const: "is_ConstantExpr e \<Longrightarrow> eval \<sigma> e = cValue e"
  by (cases e) auto

lemma const_tests:
  assumes "is_ConstantExpr e" "wt e"
  shows "isZero e \<longleftrightarrow> cValue e = 0" "isOne e \<longleftrightarrow> cValue e = 1"
    "isAllOnes e \<longleftrightarrow> cValue e = mask (getWidth e)"
    "isTrue e \<longleftrightarrow> getWidth e = BoolWidth \<and> cValue e \<noteq> 0"
    "isFalse e \<longleftrightarrow> getWidth e = BoolWidth \<and> cValue e = 0"
  using assms by (auto simp: const_test_defs elim!: const_cases)

lemma eval_bool_disj: "wt e \<Longrightarrow> getWidth e = BoolWidth \<Longrightarrow> eval \<sigma> e = 0 \<or> eval \<sigma> e = 1"
  using eval_bool_cases by metis

lemma and_mask_self: "take_bit w v = v \<Longrightarrow> v AND mask w = v" for v :: int
  by (simp add: take_bit_eq_mask)

lemma or_mask_self: "take_bit w v = v \<Longrightarrow> v OR mask w = mask w" for v :: int
  by (metis bit_eqI bit_mask_iff bit_or_iff bit_take_bit_iff)

lemma eval_and_mask:
  assumes "wt e" "getWidth e = w"
  shows "eval \<sigma> e AND mask w = eval \<sigma> e" "mask w AND eval \<sigma> e = eval \<sigma> e"
  using and_mask_self eval_range assms and.commute by metis+

lemma eval_or_mask:
  assumes "wt e" "getWidth e = w"
  shows "eval \<sigma> e OR mask w = mask w" "mask w OR eval \<sigma> e = mask w"
  using or_mask_self eval_range assms or.commute by metis+

subsection \<open>And, Or\<close>

lemma AndExpr_createPartial_sound:
  assumes "wt (BinaryExpr And l c)" "is_ConstantExpr c"
  shows "sem_eq (BinaryExpr And l c) (AndExpr_createPartial l c)"
    and "sem_eq (BinaryExpr And c l) (AndExpr_createPartial l c)"
  using assms wt_width_pos [of c]
  by (auto intro!: sem_eqI simp: AndExpr_createPartial_def const_tests eval_const eval_and_mask)
    (rule and.commute)

lemma And_create_sound:
  assumes "wt (BinaryExpr And l r)"
  shows "sem_eq (BinaryExpr And l r) (And_create l r)"
  using assms AndExpr_createPartial_sound [of l r] AndExpr_createPartial_sound [of r l] sem_eq_const_op
  by (auto simp: And_create_def)

lemma OrExpr_createPartial_sound:
  assumes "wt (BinaryExpr Or l c)" "is_ConstantExpr c"
  shows "sem_eq (BinaryExpr Or l c) (OrExpr_createPartial l c)"
    and "sem_eq (BinaryExpr Or c l) (OrExpr_createPartial l c)"
  using assms wt_width_pos [of c]
  by (auto intro!: sem_eqI simp: OrExpr_createPartial_def const_tests eval_const eval_or_mask)
    (rule or.commute)

lemma Or_create_sound:
  assumes "wt (BinaryExpr Or l r)"
  shows "sem_eq (BinaryExpr Or l r) (Or_create l r)"
  using assms OrExpr_createPartial_sound [of l r] OrExpr_createPartial_sound [of r l] sem_eq_const_op
  by (auto simp: Or_create_def)

subsection \<open>Eq\<close>

lemma EqExpr_create_sound:
  assumes "wt (BinaryExpr Eq l r)"
  shows "sem_eq (BinaryExpr Eq l r) (EqExpr_create l r)"
  using assms by (auto intro!: sem_eqI simp: EqExpr_create_def ConstantExpr_alloc_def)

lemma signed_take_trunc:
  assumes "0 < n" shows "take_bit n (apint_signed n a) = take_bit n a"
  using assms by (simp add: apint_signed_def take_bit_signed_take_bit)

lemma apint_signed_take [simp]: "apint_signed n (take_bit n a) = apint_signed n a"
  by (cases n) (simp_all add: apint_signed_def signed_take_bit_take_bit)

text \<open>An extension equals a constant exactly when the source equals the truncated constant.\<close>

lemma sext_eq_const_iff:
  assumes "take_bit n a = a" "0 < n" "n \<le> w"
  shows "take_bit w (apint_signed n a) = c \<longleftrightarrow>
    c = take_bit w (apint_signed n (take_bit n c)) \<and> a = take_bit n c"
proof
  assume *: "take_bit w (apint_signed n a) = c"
  then have "take_bit n c = take_bit n (apint_signed n a)"
    using assms by (metis take_bit_take_bit min.absorb1)
  then show "c = take_bit w (apint_signed n (take_bit n c)) \<and> a = take_bit n c"
    using * assms signed_take_trunc by metis
qed auto

lemma zext_eq_const_iff:
  fixes a :: int
  assumes "take_bit n a = a" "n \<le> w"
  shows "take_bit w a = c \<longleftrightarrow> c = take_bit w (take_bit n c) \<and> a = take_bit n c"
  using assms by (metis take_bit_take_bit min.absorb2 min.absorb1)

lemma const_eqI:
  "is_ConstantExpr c \<Longrightarrow> is_ConstantExpr d \<Longrightarrow> c = d \<longleftrightarrow> getWidth c = getWidth d \<and> cValue c = cValue d"
  by (cases c; cases d) auto

lemma createIsZero_arg_sound:
  assumes "sem_eq (BinaryExpr Eq a (ConstantExpr_alloc 0 (getWidth a))) e" "wt a" "getWidth a = BoolWidth"
  shows "wt e" "getWidth e = BoolWidth" "eval \<sigma> e = 1 - eval \<sigma> a"
  using sem_eqD [OF assms(1)] eval_bool_cases [OF assms(2,3), of \<sigma>] by auto


lemma sem_eq_Eq_commute: "sem_eq (BinaryExpr Eq l r) e \<Longrightarrow> getWidth l = getWidth r \<Longrightarrow> sem_eq (BinaryExpr Eq r l) e"
  by (auto simp: sem_eq_def)

lemma ConstantExpr_ext_sound [simp]:
  "getWidth (ConstantExpr_ZExt c w) = w" "getWidth (ConstantExpr_SExt c w) = w"
  "is_ConstantExpr (ConstantExpr_ZExt c w)" "is_ConstantExpr (ConstantExpr_SExt c w)"
  "0 < w \<Longrightarrow> wt (ConstantExpr_ZExt c w)" "0 < w \<Longrightarrow> wt (ConstantExpr_SExt c w)"
  "cValue (ConstantExpr_ZExt c w) = take_bit w (cValue c)"
  "cValue (ConstantExpr_SExt c w) = take_bit w (apint_signed (cWidth c) (cValue c))"
  "cWidth (ConstantExpr_ZExt c w) = w"
  by (simp_all add: ConstantExpr_ZExt_def ConstantExpr_SExt_def)

lemma Eq_partial_SExt:
  assumes "wt (BinaryExpr Eq c (SExtExpr src w))" "is_ConstantExpr c"
    and trunc: "trunc = ConstantExpr_ZExt c (getWidth src)"
    and rec: "c = ConstantExpr_SExt trunc (getWidth c) \<Longrightarrow> sem_eq (BinaryExpr Eq src trunc) e"
  shows "sem_eq (BinaryExpr Eq c (SExtExpr src w))
    (if c = ConstantExpr_SExt trunc (getWidth c) then e else ConstantExpr_alloc 0 BoolWidth)"
proof -
  have p: "0 < getWidth src" "getWidth src \<le> w" "getWidth c = w" "wt src"
    using assms wt_width_pos by auto
  have "eval \<sigma> c = eval \<sigma> (SExtExpr src w) \<longleftrightarrow>
      c = ConstantExpr_SExt trunc (getWidth c) \<and> eval \<sigma> src = eval \<sigma> trunc" for \<sigma>
    using sext_eq_const_iff [OF eval_range [OF p(4)] p(1,2), of \<sigma> "eval \<sigma> c"] p assms(2) trunc
    by (auto simp: eval_const const_eqI)
  then show ?thesis using rec trunc by (auto simp: sem_eq_def)
qed

lemma Eq_partial_ZExt:
  assumes "wt (BinaryExpr Eq c (ZExtExpr src w))" "is_ConstantExpr c"
    and trunc: "trunc = ConstantExpr_ZExt c (getWidth src)"
    and rec: "c = ConstantExpr_ZExt trunc (getWidth c) \<Longrightarrow> sem_eq (BinaryExpr Eq src trunc) e"
  shows "sem_eq (BinaryExpr Eq c (ZExtExpr src w))
    (if c = ConstantExpr_ZExt trunc (getWidth c) then e else ConstantExpr_alloc 0 BoolWidth)"
proof -
  have p: "0 < getWidth src" "getWidth src \<le> w" "getWidth c = w" "wt src"
    using assms wt_width_pos by auto
  have "eval \<sigma> c = eval \<sigma> (ZExtExpr src w) \<longleftrightarrow>
      c = ConstantExpr_ZExt trunc (getWidth c) \<and> eval \<sigma> src = eval \<sigma> trunc" for \<sigma>
    using zext_eq_const_iff [OF eval_range [OF p(4)] p(2), of \<sigma> "eval \<sigma> c"] p assms(2) trunc
    by (auto simp: eval_const const_eqI)
  then show ?thesis using rec trunc by (auto simp: sem_eq_def)
qed

text \<open>\<open>c = (a + b)\<close> is \<open>c - a = b\<close> and \<open>c = (a - b)\<close> is \<open>a - c = b\<close>, at a fixed width.\<close>

lemma Eq_partial_Add:
  assumes "wt (BinaryExpr Eq c (BinaryExpr Add a b))" "is_ConstantExpr c" "is_ConstantExpr a"
    and "sem_eq (BinaryExpr Eq (ConstantExpr_op Sub c a) b) e"
  shows "sem_eq (BinaryExpr Eq c (BinaryExpr Add a b)) e"
proof -
  have w: "wt a" "wt b" "wt c" "getWidth a = getWidth c" "getWidth b = getWidth c" using assms by auto
  have "eval \<sigma> c = take_bit (getWidth c) (eval \<sigma> a + eval \<sigma> b) \<longleftrightarrow>
      take_bit (getWidth c) (eval \<sigma> c - eval \<sigma> a) = eval \<sigma> b" for \<sigma>
    using take_bit_eq_diff_iff [of "getWidth c" "eval \<sigma> a" "eval \<sigma> b" "eval \<sigma> c"]
      eval_range [OF w(2), of \<sigma>] eval_range [OF w(3), of \<sigma>] w(5) by metis
  then show ?thesis
    using assms(4) ConstantExpr_op_sound(3) [OF assms(2,3) w(3,1) w(4) [symmetric], where k = Sub] w
    by (simp add: sem_eq_def)
qed

lemma Eq_partial_Sub:
  assumes "wt (BinaryExpr Eq c (BinaryExpr Sub a b))" "is_ConstantExpr c" "is_ConstantExpr a"
    and "sem_eq (BinaryExpr Eq (ConstantExpr_op Sub a c) b) e"
  shows "sem_eq (BinaryExpr Eq c (BinaryExpr Sub a b)) e"
proof -
  have w: "wt a" "wt b" "wt c" "getWidth a = getWidth c" "getWidth b = getWidth c" using assms by auto
  have "eval \<sigma> c = take_bit (getWidth c) (eval \<sigma> a - eval \<sigma> b) \<longleftrightarrow>
      take_bit (getWidth c) (eval \<sigma> a - eval \<sigma> c) = eval \<sigma> b" for \<sigma>
    using take_bit_eq_diff_iff2 [of "getWidth c" "eval \<sigma> a" "eval \<sigma> b" "eval \<sigma> c"]
      eval_range [OF w(2), of \<sigma>] eval_range [OF w(3), of \<sigma>] w(5) by metis
  then show ?thesis
    using assms(4) ConstantExpr_op_sound(3) [OF assms(3,2) w(1,3) w(4), where k = Sub] w
    by (simp add: sem_eq_def)
qed


text \<open>The one-bit cases: \<open>1 = r\<close> is \<open>r\<close>, \<open>0 = (0 = b)\<close> is \<open>b\<close>, \<open>0 = (a \<or> b)\<close> is \<open>\<not> a \<and> \<not> b\<close>.\<close>

lemma Eq_partial_true:
  assumes "wt (BinaryExpr Eq c r)" "is_ConstantExpr c" "isTrue c"
  shows "sem_eq (BinaryExpr Eq c r) r"
proof -
  have c: "getWidth c = BoolWidth" "wt c" "wt r" "getWidth r = BoolWidth"
    using assms by (auto simp: const_tests)
  have "eval \<sigma> c = 1" for \<sigma>
    using eval_bool_cases [OF c(2,1), of \<sigma>] assms c by (auto simp: const_tests eval_const)
  moreover have "eval \<sigma> r = of_bool (1 = eval \<sigma> r)" for \<sigma>
    using eval_bool_cases [OF c(3,4), of \<sigma>] by auto
  ultimately show ?thesis using c by (auto intro!: sem_eqI)
qed

lemma Eq_partial_not_not:
  assumes "wt (BinaryExpr Eq c (BinaryExpr Eq a b))" "is_ConstantExpr c" "\<not> isTrue c"
    "is_ConstantExpr a" "isFalse a"
  shows "sem_eq (BinaryExpr Eq c (BinaryExpr Eq a b)) b"
proof -
  have c: "getWidth b = BoolWidth" "wt b" using assms by (auto simp: const_tests)
  have "eval \<sigma> b = of_bool (0 = of_bool (0 = eval \<sigma> b))" for \<sigma>
    using eval_bool_cases [OF c(2,1), of \<sigma>] by auto
  then show ?thesis using c assms by (auto intro!: sem_eqI simp: const_tests eval_const)
qed

lemma Eq_partial_not_or:
  assumes wt: "wt (BinaryExpr Eq c (BinaryExpr Or a b))" "is_ConstantExpr c" "\<not> isTrue c"
    "getWidth c = BoolWidth"
    and na: "sem_eq (BinaryExpr Eq a (ConstantExpr_alloc 0 (getWidth a))) na"
    and nb: "sem_eq (BinaryExpr Eq b (ConstantExpr_alloc 0 (getWidth b))) nb"
  shows "sem_eq (BinaryExpr Eq c (BinaryExpr Or a b)) (And_create na nb)"
proof -
  have c: "wt a" "wt b" "getWidth a = BoolWidth" "getWidth b = BoolWidth" "wt c" "cValue c = 0"
    using wt by (auto simp: const_tests)
  note A = createIsZero_arg_sound [OF na c(1,3)] and B = createIsZero_arg_sound [OF nb c(2,4)]
  have "eval \<sigma> (BinaryExpr And na nb) = eval \<sigma> (BinaryExpr Eq c (BinaryExpr Or a b))" for \<sigma>
    using eval_bool_disj [OF c(1,3), of \<sigma>] eval_bool_disj [OF c(2,4), of \<sigma>]
    by (elim disjE) (simp_all add: A B c wt eval_const)
  then have "sem_eq (BinaryExpr Eq c (BinaryExpr Or a b)) (BinaryExpr And na nb)"
    using A B by (auto intro!: sem_eqI)
  then show ?thesis using And_create_sound [of na nb] A B sem_eq_trans by simp
qed

lemma Eq_create_sound_aux:
  "wt (BinaryExpr Eq l r) \<Longrightarrow> sem_eq (BinaryExpr Eq l r) (Eq_create l r)"
  "wt (BinaryExpr Eq cl r) \<Longrightarrow> is_ConstantExpr cl \<Longrightarrow> sem_eq (BinaryExpr Eq cl r) (EqExpr_createPartialR cl r)"
proof (induction l r and cl r rule: Eq_create_EqExpr_createPartialR.induct)
  case (1 l r)
  then show ?case
    using sem_eq_const_op [of Eq l r] EqExpr_create_sound [of l r] sem_eq_Eq_commute [of r l]
    by (subst Eq_create.simps) auto
next
  case (2 cl r)
  note base = EqExpr_create_sound [OF "2.prems"(1)] Eq_partial_true [OF "2.prems"]
  have pos: "wt e \<Longrightarrow> getWidth e \<noteq> 0" for e using wt_width_pos [of e] by simp
  show ?case
  proof (cases r)
    case (BinaryExpr k a b)
    note r = this
    show ?thesis
    proof (cases k)
      case Add
      then show ?thesis
        using "2.IH" "2.prems" base r Eq_partial_Add [of cl a b] ConstantExpr_op_sound [of cl a]
        by (subst EqExpr_createPartialR.simps) simp
    next
      case Sub
      then show ?thesis
        using "2.IH" "2.prems" base r Eq_partial_Sub [of cl a b] ConstantExpr_op_sound [of a cl]
        by (subst EqExpr_createPartialR.simps) simp
    next
      case Eq
      then show ?thesis
        using "2.prems" base r Eq_partial_not_not [of cl a b]
        by (subst EqExpr_createPartialR.simps) simp
    next
      case Or
      then show ?thesis
        using "2.IH" "2.prems" base r wt_width_pos [of a]
          Eq_partial_not_or [of cl a b "Eq_create a (ConstantExpr_alloc 0 (getWidth a))"
            "Eq_create b (ConstantExpr_alloc 0 (getWidth b))"]
        by (subst EqExpr_createPartialR.simps) auto
    qed (use base r in \<open>subst EqExpr_createPartialR.simps; simp; fail\<close>)+
  next
    case (SExtExpr src w)
    show ?thesis
      using 2 base Eq_partial_SExt [of cl src w _ "Eq_create src (ConstantExpr_ZExt cl (getWidth src))"] SExtExpr pos
      by (subst EqExpr_createPartialR.simps) (auto simp: Let_def)
  next
    case (ZExtExpr src w)
    show ?thesis
      using 2 base Eq_partial_ZExt [of cl src w _ "Eq_create src (ConstantExpr_ZExt cl (getWidth src))"] ZExtExpr pos
      by (subst EqExpr_createPartialR.simps) (auto simp: Let_def)
  qed (use base in \<open>subst EqExpr_createPartialR.simps; simp; fail\<close>)+
qed


lemmas Eq_create_sound = Eq_create_sound_aux(1)
  and EqExpr_createPartialR_sound = Eq_create_sound_aux(2)

lemma createIsZero_sound:
  assumes "wt e" shows "sem_eq (BinaryExpr Eq e (ConstantExpr_alloc 0 (getWidth e))) (createIsZero e)"
  using assms Eq_create_sound [of e] wt_width_pos [of e] by (simp add: createIsZero_def)

lemma createIsZero_bool:
  assumes "wt e" "getWidth e = BoolWidth"
  shows "wt (createIsZero e)" "getWidth (createIsZero e) = BoolWidth"
    "eval \<sigma> (createIsZero e) = 1 - eval \<sigma> e"
  using createIsZero_arg_sound [OF createIsZero_sound] assms by auto

subsection \<open>The remaining binary classes\<close>

lemma XorExpr_createPartialR_sound:
  assumes "wt (BinaryExpr Xor c r)" "is_ConstantExpr c"
  shows "sem_eq (BinaryExpr Xor c r) (XorExpr_createPartialR c r)"
    and "sem_eq (BinaryExpr Xor r c) (XorExpr_createPartialR c r)"
proof -
  have w: "wt c" "wt r" "getWidth c = getWidth r" using assms by auto
  have bool: "sem_eq (BinaryExpr Xor c r) (EqExpr_createPartialR (ConstantExpr_alloc 0 BoolWidth) r)"
    if "getWidth c = BoolWidth" "cValue c \<noteq> 0"
  proof -
    have "sem_eq (BinaryExpr Eq (ConstantExpr_alloc 0 BoolWidth) r)
        (EqExpr_createPartialR (ConstantExpr_alloc 0 BoolWidth) r)"
      using w that by (intro EqExpr_createPartialR_sound) auto
    moreover have "eval \<sigma> (BinaryExpr Xor c r) = of_bool (0 = eval \<sigma> r)" for \<sigma>
      using eval_bool_disj [of r \<sigma>] eval_bool_disj [of c \<sigma>] w that assms(2)
      by (auto simp: eval_const)
    ultimately show ?thesis using that by (auto simp: sem_eq_def)
  qed
  show 1: "sem_eq (BinaryExpr Xor c r) (XorExpr_createPartialR c r)"
    using w assms bool by (auto intro!: sem_eqI simp: XorExpr_createPartialR_def const_tests eval_const
        dest: sem_eqD)
  then show "sem_eq (BinaryExpr Xor r c) (XorExpr_createPartialR c r)"
    using w by (simp add: sem_eq_def xor.commute)
qed

lemma Xor_create_sound:
  assumes "wt (BinaryExpr Xor l r)"
  shows "sem_eq (BinaryExpr Xor l r) (Xor_create l r)"
  using assms XorExpr_createPartialR_sound [of l r] XorExpr_createPartialR_sound [of r l] sem_eq_const_op
  by (auto simp: Xor_create_def)

lemma bool_mult_and: "a \<in> {0, 1} \<Longrightarrow> b \<in> {0, 1} \<Longrightarrow> take_bit 1 (a * b) = a AND b" for a b :: int
  by auto

lemma eval_bool_mem: "wt e \<Longrightarrow> getWidth e = BoolWidth \<Longrightarrow> eval \<sigma> e \<in> {0, 1}"
  using eval_bool_disj by auto

lemma sem_eq_Mul_bool:
  assumes "sem_eq (BinaryExpr And l r) e" "wt l" "wt r" "getWidth l = BoolWidth" "getWidth r = BoolWidth"
  shows "sem_eq (BinaryExpr Mul l r) e" "sem_eq (BinaryExpr Mul r l) e"
  using assms bool_mult_and [OF eval_bool_mem eval_bool_mem, of l r]
    bool_mult_and [OF eval_bool_mem eval_bool_mem, of r l]
  by (auto simp: sem_eq_def and.commute)


lemma MulExpr_createPartialR_sound:
  assumes "wt (BinaryExpr Mul c r)" "is_ConstantExpr c"
  shows "sem_eq (BinaryExpr Mul c r) (MulExpr_createPartialR c r)"
    and "sem_eq (BinaryExpr Mul r c) (MulExpr_createPartialR c r)"
proof -
  have w: "wt c" "wt r" "getWidth c = getWidth r" using assms by auto
  show "sem_eq (BinaryExpr Mul c r) (MulExpr_createPartialR c r)"
  proof (cases "getWidth c = BoolWidth")
    case True
    then show ?thesis
      using w assms sem_eq_Mul_bool(2) AndExpr_createPartial_sound(1) [of r c]
      by (simp add: MulExpr_createPartialR_def)
  next
    case False
    then show ?thesis
      using w assms eval_range [of r]
      by (auto intro!: sem_eqI simp: MulExpr_createPartialR_def const_tests eval_const)
  qed
  then show "sem_eq (BinaryExpr Mul r c) (MulExpr_createPartialR c r)"
    using w by (simp add: sem_eq_def mult.commute)
qed

lemma Mul_create_sound:
  assumes "wt (BinaryExpr Mul l r)"
  shows "sem_eq (BinaryExpr Mul l r) (Mul_create l r)"
  using assms MulExpr_createPartialR_sound [of l r] MulExpr_createPartialR_sound [of r l]
    sem_eq_const_op [of Mul l r] sem_eq_Mul_bool(1) [of l r "BinaryExpr And l r"]
  by (auto simp: Mul_create_def)

lemma Ne_create_sound:
  assumes "wt (BinaryExpr Ne l r)"
  shows "sem_eq (BinaryExpr Ne l r) (Ne_create l r)"
proof -
  have e: "sem_eq (BinaryExpr Eq l r) (Eq_create l r)" using assms by (intro Eq_create_sound) simp
  have "sem_eq (BinaryExpr Eq (ConstantExpr_alloc 0 BoolWidth) (Eq_create l r)) (Ne_create l r)"
    using sem_eqD [OF e] unfolding Ne_create_def by (intro Eq_create_sound) simp
  then show ?thesis using sem_eqD [OF e] assms by (simp add: sem_eq_def)
qed

lemma bool_apint_ops:
  fixes a b :: int
  assumes "a = 0 \<or> a = 1" "b = 0 \<or> b = 1"
  shows "apint_op Shl 1 a b = a AND (1 - b)" "apint_op LShr 1 a b = a AND (1 - b)"
    "apint_op AShr 1 a b = a" "apint_op Ult 1 a b = (1 - a) AND b" "apint_op Ule 1 a b = (1 - a) OR b"
    "apint_op Slt 1 a b = a AND (1 - b)" "apint_op Sle 1 a b = a OR (1 - b)"
    "apint_op Add 1 a b = a XOR b" "apint_op Sub 1 a b = a XOR b"
  using assms by (elim disjE; simp add: apint_signed_def)+

text \<open>A static function that only looks at the width: the plain node, or its one-bit form.\<close>

lemma BCREATE_sound:
  assumes "wt (BinaryExpr k l r)"
    and "stat l r = (if getWidth l = BoolWidth then b else BinaryExpr k l r)"
    and "getWidth l = BoolWidth \<Longrightarrow> wt l \<Longrightarrow> wt r \<Longrightarrow> getWidth r = BoolWidth \<Longrightarrow> sem_eq (BinaryExpr k l r) b"
  shows "sem_eq (BinaryExpr k l r) (BCREATE k stat l r)"
  using assms sem_eq_const_op [of k l r] by (auto simp: BCREATE_def)

lemma sem_eq_change:
  "sem_eq a e \<Longrightarrow> getWidth a = getWidth b \<Longrightarrow> (\<And>\<sigma>. eval \<sigma> a = eval \<sigma> b) \<Longrightarrow> sem_eq b e"
  by (simp add: sem_eq_def)

lemma bool_and_create:
  assumes "wt l" "wt r" "getWidth l = BoolWidth" "getWidth r = BoolWidth"
  shows "sem_eq (BinaryExpr And l (createIsZero r)) (And_create l (createIsZero r))"
    and "sem_eq (BinaryExpr And (createIsZero l) r) (And_create (createIsZero l) r)"
    and "sem_eq (BinaryExpr Or l (createIsZero r)) (Or_create l (createIsZero r))"
    and "sem_eq (BinaryExpr Or (createIsZero l) r) (Or_create (createIsZero l) r)"
  using assms createIsZero_bool by (auto intro!: And_create_sound Or_create_sound)

lemma shift_cmp_create_sound:
  assumes "wt l" "wt r" "getWidth l = getWidth r"
  shows "sem_eq (BinaryExpr Shl l r) (BCREATE Shl ShlExpr_create l r)"
    and "sem_eq (BinaryExpr LShr l r) (BCREATE LShr LShrExpr_create l r)"
    and "sem_eq (BinaryExpr AShr l r) (BCREATE AShr AShrExpr_create l r)"
    and "sem_eq (BinaryExpr Ult l r) (BCREATE Ult UltExpr_create l r)"
    and "sem_eq (BinaryExpr Ule l r) (BCREATE Ule UleExpr_create l r)"
    and "sem_eq (BinaryExpr Slt l r) (BCREATE Slt SltExpr_create l r)"
    and "sem_eq (BinaryExpr Sle l r) (BCREATE Sle SleExpr_create l r)"
proof -
  note bool = bool_apint_ops [OF eval_bool_disj eval_bool_disj, of l r, unfolded One_nat_def]
    apint_op.simps(8,9)
  note z = createIsZero_bool
  show "sem_eq (BinaryExpr Shl l r) (BCREATE Shl ShlExpr_create l r)"
    by (rule BCREATE_sound [OF _ ShlExpr_create_def], use assms in simp)
      (rule sem_eq_change [OF bool_and_create(1)], auto simp del: apint_op.simps simp: z bool)
  show "sem_eq (BinaryExpr LShr l r) (BCREATE LShr LShrExpr_create l r)"
    by (rule BCREATE_sound [OF _ LShrExpr_create_def], use assms in simp)
      (rule sem_eq_change [OF bool_and_create(1)], auto simp del: apint_op.simps simp: z bool)
  show "sem_eq (BinaryExpr AShr l r) (BCREATE AShr AShrExpr_create l r)"
    by (rule BCREATE_sound [OF _ AShrExpr_create_def], use assms in simp)
      (auto intro!: sem_eqI simp del: apint_op.simps simp: bool)
  show "sem_eq (BinaryExpr Ult l r) (BCREATE Ult UltExpr_create l r)"
    by (rule BCREATE_sound [OF _ UltExpr_create_def], use assms in simp)
      (rule sem_eq_change [OF bool_and_create(2)], auto simp del: apint_op.simps simp: z bool)
  show "sem_eq (BinaryExpr Ule l r) (BCREATE Ule UleExpr_create l r)"
    by (rule BCREATE_sound [OF _ UleExpr_create_def], use assms in simp)
      (rule sem_eq_change [OF bool_and_create(4)], auto simp del: apint_op.simps simp: z bool)
  show "sem_eq (BinaryExpr Slt l r) (BCREATE Slt SltExpr_create l r)"
    by (rule BCREATE_sound [OF _ SltExpr_create_def], use assms in simp)
      (rule sem_eq_change [OF bool_and_create(1)], auto simp del: apint_op.simps simp: z bool)
  show "sem_eq (BinaryExpr Sle l r) (BCREATE Sle SleExpr_create l r)"
    by (rule BCREATE_sound [OF _ SleExpr_create_def], use assms in simp)
      (rule sem_eq_change [OF bool_and_create(3)], auto simp del: apint_op.simps simp: z bool)
qed


subsection \<open>Add, Sub\<close>

lemma sem_eq_bool_Xor:
  assumes "sem_eq (BinaryExpr Xor l r) e" "wt l" "wt r" "getWidth l = BoolWidth" "getWidth r = BoolWidth"
  shows "sem_eq (BinaryExpr Add l r) e" "sem_eq (BinaryExpr Sub l r) e"
  using assms bool_apint_ops(8,9) [OF eval_bool_disj eval_bool_disj, of l r, unfolded One_nat_def]
  by (auto simp: sem_eq_def)

lemma XorExpr_createPartialR_bool:
  assumes "wt c" "wt r" "is_ConstantExpr c" "getWidth c = BoolWidth" "getWidth r = BoolWidth"
  shows "sem_eq (BinaryExpr Add c r) (XorExpr_createPartialR c r)"
    and "sem_eq (BinaryExpr Sub c r) (XorExpr_createPartialR c r)"
  using assms by (auto intro!: sem_eq_bool_Xor XorExpr_createPartialR_sound)

lemma eval_const_op:
  assumes "is_ConstantExpr l" "is_ConstantExpr r" "wt l" "wt r" "getWidth l = getWidth r"
  shows "eval \<sigma> (ConstantExpr_op Add l r) = take_bit (getWidth r) (eval \<sigma> l + eval \<sigma> r)"
    and "eval \<sigma> (ConstantExpr_op Sub l r) = take_bit (getWidth r) (eval \<sigma> l - eval \<sigma> r)"
  using ConstantExpr_op_sound(3) [OF assms] assms(5) by auto

lemma const_op_AddSub [simp]:
  assumes "is_ConstantExpr l" "is_ConstantExpr r" "wt l" "wt r" "getWidth l = getWidth r"
  shows "wt (ConstantExpr_op Add l r)" "wt (ConstantExpr_op Sub l r)"
    "getWidth (ConstantExpr_op Add l r) = getWidth r" "getWidth (ConstantExpr_op Sub l r) = getWidth r"
    "is_ConstantExpr (ConstantExpr_op Add l r)" "is_ConstantExpr (ConstantExpr_op Sub l r)"
  using ConstantExpr_op_sound(1,2,4) [OF assms] assms(5) by auto

text \<open>
  Two nested calls, the inner result in the second or in the first place: the outer result
  stands for any node \<open>g\<close> of the same width with the composed value.
\<close>

lemma chain_sound:
  assumes "wt (BinaryExpr k1 x y) \<Longrightarrow> sem_eq (BinaryExpr k1 x y) u"
    and "wt (BinaryExpr k2 c u) \<Longrightarrow> sem_eq (BinaryExpr k2 c u) v"
    and "wt x" "wt y" "wt c" "getWidth x = w" "getWidth y = w" "getWidth c = w" "getWidth g = w"
    and "k1 \<in> {Add, Sub}" "k2 \<in> {Add, Sub}"
    and "\<And>\<sigma>. eval \<sigma> g = apint_op k2 w (eval \<sigma> c) (apint_op k1 w (eval \<sigma> x) (eval \<sigma> y))"
  shows "sem_eq g v"
proof -
  have u: "sem_eq (BinaryExpr k1 x y) u" using assms by auto
  have v: "sem_eq (BinaryExpr k2 c u) v" using assms sem_eqD [OF u] by auto
  show ?thesis using assms(3-) sem_eqD [OF u] sem_eqD [OF v] by (auto intro!: sem_eqI)
qed

lemma chain_sound_R:
  assumes "wt (BinaryExpr k1 x y) \<Longrightarrow> sem_eq (BinaryExpr k1 x y) u"
    and "wt (BinaryExpr k2 u c) \<Longrightarrow> sem_eq (BinaryExpr k2 u c) v"
    and "wt x" "wt y" "wt c" "getWidth x = w" "getWidth y = w" "getWidth c = w" "getWidth g = w"
    and "k1 \<in> {Add, Sub}" "k2 \<in> {Add, Sub}"
    and "\<And>\<sigma>. eval \<sigma> g = apint_op k2 w (apint_op k1 w (eval \<sigma> x) (eval \<sigma> y)) (eval \<sigma> c)"
  shows "sem_eq g v"
proof -
  have u: "sem_eq (BinaryExpr k1 x y) u" using assms by auto
  have v: "sem_eq (BinaryExpr k2 u c) v" using assms sem_eqD [OF u] by auto
  show ?thesis using assms(3-) sem_eqD [OF u] sem_eqD [OF v] by (auto intro!: sem_eqI)
qed

lemma apint_assoc:
  fixes a b c :: int
  shows "take_bit w (a + take_bit w (b + c)) = take_bit w (take_bit w (a + b) + c)"
    "take_bit w (take_bit w (a - b) + c) = take_bit w (a + take_bit w (c - b))"
    "take_bit w (a + take_bit w (b - c)) = take_bit w (take_bit w (a + b) - c)"
    "take_bit w (a - take_bit w (b + c)) = take_bit w (take_bit w (a - b) - c)"
    "take_bit w (a - take_bit w (b - c)) = take_bit w (take_bit w (a - b) + c)"
    "take_bit w (a + take_bit w (b + c)) = take_bit w (b + take_bit w (a + c))"
    "take_bit w (a + take_bit w (b - c)) = take_bit w (b + take_bit w (a - c))"
    "take_bit w (a - take_bit w (b + c)) = take_bit w (take_bit w (a - c) - b)"
    "take_bit w (a - take_bit w (b - c)) = take_bit w (take_bit w (a + c) - b)"
    "take_bit w (take_bit w (a - b) - c) = take_bit w (a - take_bit w (b + c))"
    "take_bit w (take_bit w (a + b) - c) = take_bit w (a + take_bit w (b - c))"
  by (simp_all add: apint_simps) (simp_all add: algebra_simps)

lemma const_left_Binary [simp]:
  "const_left k (BinaryExpr k' a b) = (if k' = k \<and> is_ConstantExpr a then Some (a, b) else None)"
  by (simp add: const_left_def)

lemmas Add_Sub_induct =
  Add_create_AddExpr_createPartialR_AddExpr_create_Sub_create_SubExpr_createPartialR_SubExpr_create.induct

lemma Add_Sub_create_sound:
  shows "wt (BinaryExpr Add l r) \<Longrightarrow> sem_eq (BinaryExpr Add l r) (Add_create l r)"
    and "wt (BinaryExpr Add cl r) \<Longrightarrow> is_ConstantExpr cl \<Longrightarrow>
      sem_eq (BinaryExpr Add cl r) (AddExpr_createPartialR cl r)"
    and "wt (BinaryExpr Add l r) \<Longrightarrow> sem_eq (BinaryExpr Add l r) (AddExpr_create l r)"
    and "wt (BinaryExpr Sub l r) \<Longrightarrow> sem_eq (BinaryExpr Sub l r) (Sub_create l r)"
    and "wt (BinaryExpr Sub cl r) \<Longrightarrow> is_ConstantExpr cl \<Longrightarrow>
      sem_eq (BinaryExpr Sub cl r) (SubExpr_createPartialR cl r)"
    and "wt (BinaryExpr Sub l r) \<Longrightarrow> sem_eq (BinaryExpr Sub l r) (SubExpr_create l r)"
proof (induction l r and cl r and l r and l r and cl r and l r rule: Add_Sub_induct)
  case (1 l r)
  then show ?case
    using sem_eq_const_op [of Add l r]
      sem_eq_change [of "BinaryExpr Add r l" "AddExpr_createPartialR r l" "BinaryExpr Add l r"]
    by (subst Add_create.simps) (auto simp: add.commute)
next
  case (2 cl r)
  consider (bool) "getWidth cl = BoolWidth" | (zero) "getWidth cl \<noteq> BoolWidth" "isZero cl"
    | (other) "getWidth cl \<noteq> BoolWidth" "\<not> isZero cl" by blast
  then show ?case
  proof cases
    case bool
    then show ?thesis using "2.prems" XorExpr_createPartialR_bool by (subst AddExpr_createPartialR.simps) auto
  next
    case zero
    then show ?thesis
      using "2.prems" eval_range by (subst AddExpr_createPartialR.simps) (auto intro!: sem_eqI simp: const_tests eval_const)
  next
    case other
    show ?thesis
    proof (cases rule: const_left_cases [where l = r and r = r])
      case (Al a b)
      have "sem_eq (BinaryExpr Add (ConstantExpr_op Add cl a) b) (Add_create (ConstantExpr_op Add cl a) b)"
        using "2.IH" other Al "2.prems" by (auto simp: const_left_Some)
      then show ?thesis
        using other Al "2.prems" by (subst AddExpr_createPartialR.simps)
          (auto simp: const_left_Some eval_const_op apint_assoc(1) elim!: sem_eq_change)
    next
      case (Sl a b)
      have "sem_eq (BinaryExpr Sub (ConstantExpr_op Add cl a) b) (Sub_create (ConstantExpr_op Add cl a) b)"
        using "2.IH" other Sl "2.prems" by (auto simp: const_left_Some)
      then show ?thesis
        using other Sl "2.prems" by (subst AddExpr_createPartialR.simps)
          (auto simp: const_left_Some eval_const_op apint_assoc(3) elim!: sem_eq_change)
    qed (use other "2.prems" in \<open>subst AddExpr_createPartialR.simps; auto\<close>)+
  qed
next
  case (3 l r)
  show ?case
  proof (cases "getWidth l = BoolWidth")
    case True
    then show ?thesis
      using "3.prems" by (subst AddExpr_create.simps) (auto intro!: sem_eq_bool_Xor)
  next
    case neq: False
    show ?thesis
    proof (cases rule: const_left_cases [where l = l and r = r])
      case (Al a b)
      have IH: "wt (BinaryExpr Add b r) \<Longrightarrow> sem_eq (BinaryExpr Add b r) (Add_create b r)"
        "wt (BinaryExpr Add a (Add_create b r)) \<Longrightarrow>
          sem_eq (BinaryExpr Add a (Add_create b r)) (Add_create a (Add_create b r))"
        using "3.IH" neq Al by simp_all
      have e: "AddExpr_create l r = Add_create a (Add_create b r)" using neq Al by (simp add: AddExpr_create.simps)
      show ?thesis
        using Al "3.prems" unfolding e
        by (intro chain_sound [OF IH]) (auto simp: const_left_Some apint_assoc(1))
    next
      case (Sl a b)
      have IH: "wt (BinaryExpr Sub r b) \<Longrightarrow> sem_eq (BinaryExpr Sub r b) (Sub_create r b)"
        "wt (BinaryExpr Add a (Sub_create r b)) \<Longrightarrow>
          sem_eq (BinaryExpr Add a (Sub_create r b)) (Add_create a (Sub_create r b))"
        using "3.IH" neq Sl by simp_all
      have e: "AddExpr_create l r = Add_create a (Sub_create r b)" using neq Sl by (simp add: AddExpr_create.simps)
      show ?thesis
        using Sl "3.prems" unfolding e
        by (intro chain_sound [OF IH]) (auto simp: const_left_Some apint_assoc(2))
    next
      case (Ar a b)
      have IH: "wt (BinaryExpr Add l b) \<Longrightarrow> sem_eq (BinaryExpr Add l b) (Add_create l b)"
        "wt (BinaryExpr Add a (Add_create l b)) \<Longrightarrow>
          sem_eq (BinaryExpr Add a (Add_create l b)) (Add_create a (Add_create l b))"
        using "3.IH" neq Ar by simp_all
      have e: "AddExpr_create l r = Add_create a (Add_create l b)" using neq Ar by (simp add: AddExpr_create.simps)
      show ?thesis
        using Ar "3.prems" unfolding e
        by (intro chain_sound [OF IH]) (auto simp: const_left_Some apint_assoc(6))
    next
      case (Sr a b)
      have IH: "wt (BinaryExpr Sub l b) \<Longrightarrow> sem_eq (BinaryExpr Sub l b) (Sub_create l b)"
        "wt (BinaryExpr Add a (Sub_create l b)) \<Longrightarrow>
          sem_eq (BinaryExpr Add a (Sub_create l b)) (Add_create a (Sub_create l b))"
        using "3.IH" neq Sr by simp_all
      have e: "AddExpr_create l r = Add_create a (Sub_create l b)" using neq Sr by (simp add: AddExpr_create.simps)
      show ?thesis
        using Sr "3.prems" unfolding e
        by (intro chain_sound [OF IH]) (auto simp: const_left_Some apint_assoc(7))
    qed (use neq "3.prems" in \<open>simp add: AddExpr_create.simps\<close>)
  qed
next
  case (4 l r)
  have "sem_eq (BinaryExpr Sub l r) (AddExpr_createPartialR (ConstantExpr_op Sub (ConstantExpr_alloc 0 (getWidth r)) r) l)"
    if "\<not> is_ConstantExpr l" "is_ConstantExpr r"
  proof -
    let ?n = "ConstantExpr_op Sub (ConstantExpr_alloc 0 (getWidth r)) r"
    have "sem_eq (BinaryExpr Add ?n l) (AddExpr_createPartialR ?n l)"
      using 4 that wt_width_pos [of r] by simp
    then show ?thesis
      using that 4(4) wt_width_pos [of r]
      by (auto simp: eval_const_op apint_simps elim!: sem_eq_change)
  qed
  then show ?case
    using 4 sem_eq_const_op [of Sub l r] by (subst Sub_create.simps) auto
next
  case (5 cl r)
  show ?case
  proof (cases "getWidth cl = BoolWidth")
    case True
    then show ?thesis using "5.prems" XorExpr_createPartialR_bool by (subst SubExpr_createPartialR.simps) auto
  next
    case other: False
    show ?thesis
    proof (cases rule: const_left_cases [where l = r and r = r])
      case (Al a b)
      have "sem_eq (BinaryExpr Sub (ConstantExpr_op Sub cl a) b) (Sub_create (ConstantExpr_op Sub cl a) b)"
        using "5.IH" other Al "5.prems" by (auto simp: const_left_Some)
      then show ?thesis
        using other Al "5.prems" by (subst SubExpr_createPartialR.simps)
          (auto simp: const_left_Some eval_const_op apint_assoc(4) elim!: sem_eq_change)
    next
      case (Sl a b)
      have "sem_eq (BinaryExpr Add (ConstantExpr_op Sub cl a) b) (Add_create (ConstantExpr_op Sub cl a) b)"
        using "5.IH" other Sl "5.prems" by (auto simp: const_left_Some)
      then show ?thesis
        using other Sl "5.prems" by (subst SubExpr_createPartialR.simps)
          (auto simp: const_left_Some eval_const_op apint_assoc(5) elim!: sem_eq_change)
    qed (use other "5.prems" in \<open>subst SubExpr_createPartialR.simps; auto\<close>)+
  qed
next
  case (6 l r)
  consider (bool) "getWidth l = BoolWidth" | (same) "getWidth l \<noteq> BoolWidth" "l = r"
    | (neq) "getWidth l \<noteq> BoolWidth" "l \<noteq> r" by blast
  then show ?case
  proof cases
    case bool
    then show ?thesis
      using "6.prems" by (subst SubExpr_create.simps) (auto intro!: sem_eq_bool_Xor)
  next
    case same
    then show ?thesis
      using "6.prems" wt_width_pos [of r] by (subst SubExpr_create.simps) (auto intro!: sem_eqI)
  next
    case neq
    show ?thesis
    proof (cases rule: const_left_cases [where l = l and r = r])
      case (Al a b)
      have IH: "wt (BinaryExpr Sub b r) \<Longrightarrow> sem_eq (BinaryExpr Sub b r) (Sub_create b r)"
        "wt (BinaryExpr Add a (Sub_create b r)) \<Longrightarrow>
          sem_eq (BinaryExpr Add a (Sub_create b r)) (Add_create a (Sub_create b r))"
        using "6.IH" neq Al by simp_all
      have e: "SubExpr_create l r = Add_create a (Sub_create b r)" using neq Al by (simp add: SubExpr_create.simps)
      show ?thesis
        using Al "6.prems" unfolding e
        by (intro chain_sound [OF IH]) (auto simp: const_left_Some apint_assoc(11))
    next
      case (Sl a b)
      have IH: "wt (BinaryExpr Add b r) \<Longrightarrow> sem_eq (BinaryExpr Add b r) (Add_create b r)"
        "wt (BinaryExpr Sub a (Add_create b r)) \<Longrightarrow>
          sem_eq (BinaryExpr Sub a (Add_create b r)) (Sub_create a (Add_create b r))"
        using "6.IH" neq Sl by simp_all
      have e: "SubExpr_create l r = Sub_create a (Add_create b r)" using neq Sl by (simp add: SubExpr_create.simps)
      show ?thesis
        using Sl "6.prems" unfolding e
        by (intro chain_sound [OF IH]) (auto simp: const_left_Some apint_assoc(10))
    next
      case (Ar a b)
      have IH: "wt (BinaryExpr Sub l b) \<Longrightarrow> sem_eq (BinaryExpr Sub l b) (Sub_create l b)"
        "wt (BinaryExpr Sub (Sub_create l b) a) \<Longrightarrow>
          sem_eq (BinaryExpr Sub (Sub_create l b) a) (Sub_create (Sub_create l b) a)"
        using "6.IH" neq Ar by simp_all
      have e: "SubExpr_create l r = Sub_create (Sub_create l b) a" using neq Ar by (simp add: SubExpr_create.simps)
      show ?thesis
        using Ar "6.prems" unfolding e
        by (intro chain_sound_R [OF IH]) (auto simp: const_left_Some apint_assoc(8))
    next
      case (Sr a b)
      have IH: "wt (BinaryExpr Add l b) \<Longrightarrow> sem_eq (BinaryExpr Add l b) (Add_create l b)"
        "wt (BinaryExpr Sub (Add_create l b) a) \<Longrightarrow>
          sem_eq (BinaryExpr Sub (Add_create l b) a) (Sub_create (Add_create l b) a)"
        using "6.IH" neq Sr by simp_all
      have e: "SubExpr_create l r = Sub_create (Add_create l b) a" using neq Sr by (simp add: SubExpr_create.simps)
      show ?thesis
        using Sr "6.prems" unfolding e
        by (intro chain_sound_R [OF IH]) (auto simp: const_left_Some apint_assoc(9))
    qed (use neq "6.prems" in \<open>simp add: SubExpr_create.simps\<close>)
  qed
qed


lemmas Add_create_sound = Add_Sub_create_sound(1)
  and Sub_create_sound = Add_Sub_create_sound(4)

theorem Binary_create_sem_eq:
  assumes "wt (BinaryExpr k l r)"
  shows "sem_eq (BinaryExpr k l r) (Binary_create k l r)"
proof -
  have w: "wt l" "wt r" "getWidth l = getWidth r" "\<not> is_div_kind k" using assms by auto
  note swap = shift_cmp_create_sound [OF w(2,1) w(3) [symmetric]]
  show ?thesis
    using assms w shift_cmp_create_sound [OF w(1-3)] swap
    by (cases k) (auto intro!: Add_create_sound Sub_create_sound Mul_create_sound And_create_sound
      Or_create_sound Xor_create_sound Eq_create_sound Ne_create_sound
      sem_eq_change [OF swap(4)] sem_eq_change [OF swap(5)] sem_eq_change [OF swap(6)]
      sem_eq_change [OF swap(7)])
qed

subsection \<open>Select, Concat, Extract, extensions, Not\<close>

lemma bool_select:
  fixes c t f :: int
  assumes "c = 0 \<or> c = 1" "t = 0 \<or> t = 1" "f = 0 \<or> f = 1"
  shows "(if c \<noteq> 0 then t else f) = (if t \<noteq> 0 then c OR f else (1 - c) AND f)"
    and "(if c \<noteq> 0 then t else f) = (if f \<noteq> 0 then (1 - c) OR t else c AND t)"
  using assms by auto

lemma Select_create_sound:
  assumes "wt (SelectExpr c t f)"
  shows "sem_eq (SelectExpr c t f) (Select_create c t f)"
proof -
  have w: "wt c" "wt t" "wt f" "getWidth c = BoolWidth" "getWidth t = getWidth f" using assms by auto
  consider (c) "is_ConstantExpr c \<or> t = f"
    | (t) "\<not> is_ConstantExpr c" "t \<noteq> f" "getWidth t = BoolWidth" "is_ConstantExpr t"
    | (f) "\<not> is_ConstantExpr c" "t \<noteq> f" "getWidth t = BoolWidth" "\<not> is_ConstantExpr t" "is_ConstantExpr f"
    | (other) "\<not> is_ConstantExpr c" "t \<noteq> f" "\<not> (getWidth t = BoolWidth \<and> (is_ConstantExpr t \<or> is_ConstantExpr f))"
    by blast
  then show ?thesis
  proof cases
    case c
    then show ?thesis
    proof
      assume "is_ConstantExpr c"
      then show ?thesis
        using w by (cases "isTrue c") (simp_all add: sem_eq_def Select_create_def const_tests eval_const)
    qed (use w in \<open>simp add: Select_create_def sem_eq_def\<close>)
  next
    case t
    have "eval \<sigma> (SelectExpr c t f) = (if isTrue t then eval \<sigma> (BinaryExpr Or c f) else
        eval \<sigma> (BinaryExpr And (createIsZero c) f))" for \<sigma>
    proof -
      have "isTrue t \<longleftrightarrow> eval \<sigma> t \<noteq> 0" using w t by (simp add: const_tests eval_const)
      moreover have "eval \<sigma> (createIsZero c) = 1 - eval \<sigma> c" using w by (simp add: createIsZero_bool)
      ultimately show ?thesis
        using bool_select(1) [OF eval_bool_disj eval_bool_disj eval_bool_disj, of c t f \<sigma>] w t by simp
    qed
    note ev = this
    let ?n = "if isTrue t then BinaryExpr Or c f else BinaryExpr And (createIsZero c) f"
    have "sem_eq ?n (Select_create c t f)"
      using bool_and_create(2) [OF w(1,3,4)] Or_create_sound [of c f] w t by (cases "isTrue t") (simp_all add: Select_create_def)
    then show ?thesis
    proof (rule sem_eq_change)
      show "getWidth ?n = getWidth (SelectExpr c t f)" using w t createIsZero_bool(2) [OF w(1,4)] by simp
      show "eval \<sigma> ?n = eval \<sigma> (SelectExpr c t f)" for \<sigma> unfolding ev by (rule if_distrib)
    qed
  next
    case f
    have "eval \<sigma> (SelectExpr c t f) = (if isTrue f then eval \<sigma> (BinaryExpr Or (createIsZero c) t) else
        eval \<sigma> (BinaryExpr And c t))" for \<sigma>
    proof -
      have "isTrue f \<longleftrightarrow> eval \<sigma> f \<noteq> 0" using w f by (simp add: const_tests eval_const)
      moreover have "eval \<sigma> (createIsZero c) = 1 - eval \<sigma> c" using w by (simp add: createIsZero_bool)
      ultimately show ?thesis
        using bool_select(2) [OF eval_bool_disj eval_bool_disj eval_bool_disj, of c t f \<sigma>] w f by simp
    qed
    note ev = this
    let ?n = "if isTrue f then BinaryExpr Or (createIsZero c) t else BinaryExpr And c t"
    have "sem_eq ?n (Select_create c t f)"
      using bool_and_create(4) [OF w(1,2,4)] And_create_sound [of c t] w f by (cases "isTrue f") (simp_all add: Select_create_def)
    then show ?thesis
    proof (rule sem_eq_change)
      show "getWidth ?n = getWidth (SelectExpr c t f)" using w f createIsZero_bool(2) [OF w(1,4)] by simp
      show "eval \<sigma> ?n = eval \<sigma> (SelectExpr c t f)" for \<sigma> unfolding ev by (rule if_distrib)
    qed
  next
    case other
    then show ?thesis using assms by (auto simp: Select_create_def)
  qed
qed

lemma concat_as_concat_bit:
  fixes a b :: int
  assumes "take_bit n b = b" shows "push_bit n a + b = concat_bit n b a"
  using assms by (simp add: concat_bit_eq)

lemma extract_concat:
  fixes a b :: int
  assumes "take_bit n b = b"
  shows "n \<le> off \<Longrightarrow> drop_bit off (push_bit n a + b) = drop_bit (off - n) a"
    and "off + w \<le> n \<Longrightarrow> take_bit w (drop_bit off (push_bit n a + b)) = take_bit w (drop_bit off b)"
    and "off < n \<Longrightarrow> n < off + w \<Longrightarrow> take_bit w (drop_bit off (push_bit n a + b)) =
      push_bit (n - off) (take_bit (w + off - n) a) + take_bit (n - off) (drop_bit off b)"
proof -
  let ?c = "push_bit n a + b"
  have bit: "bit ?c m \<longleftrightarrow> (m < n \<and> bit b m) \<or> (n \<le> m \<and> bit a (m - n))" for m
    using assms by (simp add: concat_as_concat_bit bit_concat_bit_iff)
  show "n \<le> off \<Longrightarrow> drop_bit off ?c = drop_bit (off - n) a"
    by (rule bit_eqI) (auto simp: bit_drop_bit_eq bit)
  show "off + w \<le> n \<Longrightarrow> take_bit w (drop_bit off ?c) = take_bit w (drop_bit off b)"
    by (rule bit_eqI) (auto simp: bit_drop_bit_eq bit_take_bit_iff bit)
  show "take_bit w (drop_bit off ?c) =
      push_bit (n - off) (take_bit (w + off - n) a) + take_bit (n - off) (drop_bit off b)"
    if "off < n" "n < off + w"
    unfolding concat_as_concat_bit [of "n - off" "take_bit (n - off) (drop_bit off b)"
        "take_bit (w + off - n) a", simplified]
    by (rule bit_eqI) (use that in \<open>auto simp: bit_drop_bit_eq bit_take_bit_iff bit bit_concat_bit_iff
        add.commute [of off]\<close>)
qed


lemma ConstantExpr_Extract_sound:
  assumes "is_ConstantExpr c" "wt c" "0 < w" "off + w \<le> getWidth c"
  shows "sem_eq (ExtractExpr c off w) (ConstantExpr_Extract c off w)"
proof -
  obtain cw v where c: "c = ConstantExpr cw v" using assms by (cases c) auto
  have "min (cw - Suc 0) (off + n) = off + n" if "n < w" for n using assms c that by simp
  then have "take_bit w (take_bit cw (drop_bit off (apint_signed cw v))) = take_bit w (drop_bit off v)"
    using assms c by (intro bit_eqI)
      (auto simp: apint_signed_def bit_take_bit_iff bit_drop_bit_eq bit_signed_take_bit_iff)
  then show ?thesis using assms c by (auto intro!: sem_eqI simp: ConstantExpr_Extract_def)
qed

lemma extract_adjacent:
  fixes v :: int
  shows "push_bit wr (take_bit wl (drop_bit (off + wr) v)) + take_bit wr (drop_bit off v) =
    take_bit (wl + wr) (drop_bit off v)"
  unfolding concat_as_concat_bit [of wr "take_bit wr (drop_bit off v)" "take_bit wl (drop_bit (off + wr) v)", simplified]
  by (rule bit_eqI) (auto simp: bit_drop_bit_eq bit_take_bit_iff bit_concat_bit_iff)

lemma Concat_create_plain:
  assumes "\<not> (is_ConstantExpr l \<and> is_ConstantExpr r)"
    and "\<And>el offl wl offr wr. l = ExtractExpr el offl wl \<Longrightarrow> r = ExtractExpr el offr wr \<Longrightarrow> offr + wr \<noteq> offl"
  shows "Concat_create l r = ConcatExpr l r"
  using assms by (subst Concat_create.simps) (auto split: expr.split, blast+)

lemma Concat_Extract_create_sound:
  shows "wt (ConcatExpr l r) \<Longrightarrow> sem_eq (ConcatExpr l r) (Concat_create l r)"
    and "wt (ExtractExpr e off w) \<Longrightarrow> sem_eq (ExtractExpr e off w) (Extract_create e off w)"
proof (induction l r and e off w rule: Concat_create_Extract_create.induct)
  case (1 l r)
  consider (const) "is_ConstantExpr l \<and> is_ConstantExpr r"
    | (ext) el offl wl offr wr where "l = ExtractExpr el offl wl" "r = ExtractExpr el offr wr" "offr + wr = offl"
    | (plain) "Concat_create l r = ConcatExpr l r"
    using Concat_create_plain by metis
  then show ?case
  proof cases
    case const
    then show ?thesis
      using "1.prems" concat_range by (auto intro!: sem_eqI simp: Concat_create.simps ConstantExpr_Concat_def
          elim!: const_cases)
  next
    case ext
    then have "sem_eq (ExtractExpr el offr (wl + wr)) (Extract_create el offr (wl + wr))"
      using 1 by auto
    then show ?thesis
      using ext "1.prems" by (subst Concat_create.simps) (auto intro: sem_eq_change simp: extract_adjacent)
  next
    case plain
    then show ?thesis using "1.prems" by simp
  qed
next
  case (2 e off w)
  show ?case
  proof (cases "w = getWidth e")
    case True
    then show ?thesis
      using "2.prems" eval_range [of e] by (subst Extract_create.simps) (auto intro!: sem_eqI)
  next
    case neq: False
    show ?thesis
    proof (cases e)
      case (ConcatExpr a b)
      have ab: "wt a" "wt b" "0 < w" "off + w \<le> getWidth a + getWidth b" using "2.prems" ConcatExpr by auto
      note rng = eval_range [OF ab(2)]
      consider (left) "getWidth b \<le> off" | (right) "off < getWidth b" "off + w \<le> getWidth b"
        | (both) "off < getWidth b" "getWidth b < off + w" by linarith
      then show ?thesis
      proof cases
        case left
        then have "sem_eq (ExtractExpr a (off - getWidth b) w) (Extract_create a (off - getWidth b) w)"
          using 2 neq ConcatExpr ab by auto
        then show ?thesis
          using neq ConcatExpr left by (subst Extract_create.simps)
            (auto intro: sem_eq_change simp: extract_concat(1) [OF rng])
      next
        case right
        then have "sem_eq (ExtractExpr b off w) (Extract_create b off w)"
          using 2 neq ConcatExpr ab by auto
        then show ?thesis
          using neq ConcatExpr right by (subst Extract_create.simps)
            (auto intro: sem_eq_change simp: extract_concat(2) [OF rng])
      next
        case both
        let ?l = "Extract_create a 0 (w + off - getWidth b)"
          and ?r = "Extract_create b off (getWidth b - off)"
        have l: "sem_eq (ExtractExpr a 0 (w + off - getWidth b)) ?l"
          and r: "sem_eq (ExtractExpr b off (getWidth b - off)) ?r"
          using 2 neq ConcatExpr ab both by auto
        have "sem_eq (ConcatExpr ?l ?r) (Concat_create ?l ?r)"
          using 2 neq ConcatExpr both sem_eqD(1) [OF l] sem_eqD(1) [OF r] by auto
        then show ?thesis
          using neq ConcatExpr both sem_eqD [OF l] sem_eqD [OF r] by (subst Extract_create.simps)
            (auto intro: sem_eq_change simp: extract_concat(3) [OF rng])
      qed
    qed (use neq "2.prems" ConstantExpr_Extract_sound [of e w off] in \<open>subst Extract_create.simps; auto\<close>)+
  qed
qed

lemmas Concat_create_sound = Concat_Extract_create_sound(1)
  and Extract_create_sound = Concat_Extract_create_sound(2)


lemma Not_create_sound: "wt e \<Longrightarrow> sem_eq (NotExpr e) (Not_create e)"
  using ConstantExpr_Not_sound [of e] by (auto intro!: sem_eqI simp: Not_create_def)

lemma ZExt_create_sound: "wt (ZExtExpr e w) \<Longrightarrow> sem_eq (ZExtExpr e w) (ZExt_create e w)"
  using eval_range [of e] wt_width_pos [of e]
  by (auto intro!: sem_eqI simp: ZExt_create_def eval_const)

lemma SExt_create_sound: "wt (SExtExpr e w) \<Longrightarrow> sem_eq (SExtExpr e w) (SExt_create e w)"
  using eval_range [of e] wt_width_pos [of e] signed_take_trunc [of "getWidth e"]
  by (auto intro!: sem_eqI simp: SExt_create_def eval_const elim!: const_cases)

end
