(* ===== verification/Klee_Builder.thy ===== *)
theory Klee_Builder
  imports Klee_Create_Sound
begin

text \<open>
  The expression builder that klc3 runs with (\<open>lib/Expr/ExprBuilder.cpp\<close>): a
  \<open>ConstantFoldingExprBuilder\<close> over the \<open>DefaultExprBuilder\<close>, as \<open>tools/klc3/klc3.cpp\<close> sets it up.

  \<open>builder_X\<close> is \<open>ConstantSpecializedExprBuilder::X\<close>, the entry point that dispatches on which
  operands are constants; \<open>builder_X_CN\<close> is the overload of \<open>ConstantFoldingBuilder\<close> for a
  constant and a non-constant operand (its mirror image swaps them), \<open>builder_X_NN\<close> the overload
  for two non-constant operands.  \<open>Base->X\<close> is the default builder, which allocates the plain node.

  Shown: the mutually recursive \<open>Add\<close>/\<open>Sub\<close> rewriting terminates, and every operation of the
  builder returns an expression with the width and the value of the plain node (\<open>sem_eq\<close>).
\<close>

unbundle bit_operations_syntax

definition as_binary :: "kind \<Rightarrow> expr \<Rightarrow> (expr \<times> expr) option" where
  "as_binary k e = (case e of BinaryExpr k' a b \<Rightarrow> if k' = k then Some (a, b) else None | _ \<Rightarrow> None)"

lemma as_binary_Some: "as_binary k e = Some (a, b) \<longleftrightarrow> e = BinaryExpr k a b"
  by (auto simp: as_binary_def split: expr.splits)

lemma as_binary_Binary [simp]:
  "as_binary k (BinaryExpr k' a b) = (if k' = k then Some (a, b) else None)"
  by (simp add: as_binary_def)

function builder_Add :: "expr \<Rightarrow> expr \<Rightarrow> expr"
  and builder_Add_CN :: "expr \<Rightarrow> expr \<Rightarrow> expr"
  and builder_Add_NN :: "expr \<Rightarrow> expr \<Rightarrow> expr"
  and builder_Sub :: "expr \<Rightarrow> expr \<Rightarrow> expr"
  and builder_Sub_CN :: "expr \<Rightarrow> expr \<Rightarrow> expr"
  and builder_Sub_NN :: "expr \<Rightarrow> expr \<Rightarrow> expr" where
  "builder_Add l r =
     (if is_ConstantExpr l
      then if is_ConstantExpr r then ConstantExpr_op Add l r else builder_Add_CN l r
      else if is_ConstantExpr r then builder_Add_CN r l else builder_Add_NN l r)"
| "builder_Add_CN c r =
     (if isZero c then r
      else case as_binary Add r of
        Some (x, y) \<Rightarrow>
          if is_ConstantExpr x then builder_Add (ConstantExpr_op Add c x) y
          else if is_ConstantExpr y then builder_Add (ConstantExpr_op Add c y) x
          else BinaryExpr Add c r
      | None \<Rightarrow> (case as_binary Sub r of
        Some (x, y) \<Rightarrow>
          if is_ConstantExpr x then builder_Sub (ConstantExpr_op Add c x) y
          else if is_ConstantExpr y then builder_Add (ConstantExpr_op Sub c y) x
          else BinaryExpr Add c r
      | None \<Rightarrow> BinaryExpr Add c r))"
| "builder_Add_NN l r =
     (case as_binary Add l of
        Some (x, y) \<Rightarrow> builder_Add x (builder_Add y r)
      | None \<Rightarrow> (case as_binary Sub l of
        Some (x, y) \<Rightarrow> builder_Add x (builder_Sub r y)
      | None \<Rightarrow> (case as_binary Add r of
        Some (x, y) \<Rightarrow>
          if is_ConstantExpr x then builder_Add x (builder_Add l y)
          else if is_ConstantExpr y then builder_Add y (builder_Add l x)
          else BinaryExpr Add l r
      | None \<Rightarrow> (case as_binary Sub r of
        Some (x, y) \<Rightarrow>
          if is_ConstantExpr x then builder_Add x (builder_Sub l y)
          else if is_ConstantExpr y then builder_Add (ConstantExpr_Neg y) (builder_Add l x)
          else BinaryExpr Add l r
      | None \<Rightarrow> BinaryExpr Add l r))))"
| "builder_Sub l r =
     (if is_ConstantExpr l
      then if is_ConstantExpr r then ConstantExpr_op Sub l r else builder_Sub_CN l r
      else if is_ConstantExpr r then builder_Add_CN (ConstantExpr_Neg r) l else builder_Sub_NN l r)"
| "builder_Sub_CN c r =
     (case as_binary Add r of
        Some (x, y) \<Rightarrow>
          if is_ConstantExpr x then builder_Sub (ConstantExpr_op Sub c x) y
          else if is_ConstantExpr y then builder_Sub (ConstantExpr_op Sub c y) x
          else BinaryExpr Sub c r
      | None \<Rightarrow> (case as_binary Sub r of
        Some (x, y) \<Rightarrow>
          if is_ConstantExpr x then builder_Add (ConstantExpr_op Sub c x) y
          else if is_ConstantExpr y then builder_Sub (ConstantExpr_op Add c y) x
          else BinaryExpr Sub c r
      | None \<Rightarrow> BinaryExpr Sub c r))"
| "builder_Sub_NN l r =
     (case as_binary Add l of
        Some (x, y) \<Rightarrow> builder_Add x (builder_Sub y r)
      | None \<Rightarrow> (case as_binary Sub l of
        Some (x, y) \<Rightarrow> builder_Sub x (builder_Add y r)
      | None \<Rightarrow> (case as_binary Add r of
        Some (x, y) \<Rightarrow>
          if is_ConstantExpr x then builder_Add (ConstantExpr_Neg x) (builder_Sub l y)
          else if is_ConstantExpr y then builder_Add (ConstantExpr_Neg y) (builder_Sub l x)
          else BinaryExpr Sub l r
      | None \<Rightarrow> (case as_binary Sub r of
        Some (x, y) \<Rightarrow>
          if is_ConstantExpr x then builder_Add (ConstantExpr_Neg x) (builder_Add l y)
          else if is_ConstantExpr y then builder_Add y (builder_Sub l x)
          else BinaryExpr Sub l r
      | None \<Rightarrow> BinaryExpr Sub l r))))"
  by pat_completeness auto


abbreviation builder_dom where
  "builder_dom \<equiv> builder_Add_builder_Add_CN_builder_Add_NN_builder_Sub_builder_Sub_CN_builder_Sub_NN_dom"

lemmas builder_pinduct =
  builder_Add_builder_Add_CN_builder_Add_NN_builder_Sub_builder_Sub_CN_builder_Sub_NN.pinduct

lemma as_binary_weight:
  "as_binary k e = Some (a, b) \<Longrightarrow> weight e = weight a + weight b + kind_weight k"
  by (auto simp: as_binary_Some)

lemma binary_cases:
  obtains (Al) x y where "as_binary Add l = Some (x, y)"
  | (Sl) x y where "as_binary Add l = None" "as_binary Sub l = Some (x, y)"
  | (Ar) x y where "as_binary Add l = None" "as_binary Sub l = None" "as_binary Add r = Some (x, y)"
  | (Sr) x y where "as_binary Add l = None" "as_binary Sub l = None" "as_binary Add r = None"
      "as_binary Sub r = Some (x, y)"
  | (none) "as_binary Add l = None" "as_binary Sub l = None" "as_binary Add r = None"
      "as_binary Sub r = None"
  by (cases "as_binary Add l"; cases "as_binary Sub l"; cases "as_binary Add r";
      cases "as_binary Sub r") auto

lemma builder_weight_dom:
  shows "builder_dom (Inl (Inl (l, r))) \<Longrightarrow> weight (builder_Add l r) \<le> weight l + weight r + 1"
    and "builder_dom (Inl (Inr (Inl (c, r)))) \<Longrightarrow> weight (builder_Add_CN c r) \<le> weight c + weight r + 1"
    and "builder_dom (Inl (Inr (Inr (l, r)))) \<Longrightarrow> weight (builder_Add_NN l r) \<le> weight l + weight r + 1"
    and "builder_dom (Inr (Inl (l, r))) \<Longrightarrow> weight (builder_Sub l r) \<le> weight l + weight r + 1"
    and "builder_dom (Inr (Inr (Inl (c, r)))) \<Longrightarrow> weight (builder_Sub_CN c r) \<le> weight c + weight r + 1"
    and "builder_dom (Inr (Inr (Inr (l, r)))) \<Longrightarrow> weight (builder_Sub_NN l r) \<le> weight l + weight r + 1"
proof (induction l r and c r and l r and l r and c r and l r rule: builder_pinduct)
  case (1 l r)
  then show ?case by (auto simp: builder_Add.psimps add_ac)
next
  case (2 c r)
  note unf = builder_Add_CN.psimps [OF 2(1)]
  show ?case
  proof (cases rule: binary_cases [where l = r and r = r])
    case (Al x y)
    then show ?thesis using 2(2,3) [of "(x, y)" x y] 2(4,5) [of "(x, y)" x y] unf weight_ge_1 [of c] weight_ge_1 [of x] weight_ge_1 [of y]
      by (auto dest!: as_binary_weight)
  next
    case (Sl x y)
    then show ?thesis using 2(2,3) [of "(x, y)" x y] 2(4,5) [of "(x, y)" x y] unf weight_ge_1 [of c] weight_ge_1 [of x] weight_ge_1 [of y]
      by (auto dest!: as_binary_weight)
  qed (auto simp: unf)
next
  case (3 l r)
  note unf = builder_Add_NN.psimps [OF 3(1)]
  note IH = 3(2) [of "(x, y)" x y for x y]
      3(3) [of "(x, y)" x y for x y]
      3(4) [of "(x, y)" x y for x y]
      3(5) [of "(x, y)" x y for x y]
      3(6) [of "(x, y)" x y for x y]
      3(7) [of "(x, y)" x y for x y]
      3(8) [of "(x, y)" x y for x y]
      3(9) [of "(x, y)" x y for x y]
      3(10) [of "(x, y)" x y for x y]
      3(11) [of "(x, y)" x y for x y]
      3(12) [of "(x, y)" x y for x y]
      3(13) [of "(x, y)" x y for x y]
  show ?case
  proof (cases rule: binary_cases [where l = l and r = r])
    case (Al x y)
    then show ?thesis using IH [of x y] unf weight_ge_1 [of x] weight_ge_1 [of y]
      by (auto dest!: as_binary_weight simp: weight_const)
  next
    case (Sl x y)
    then show ?thesis using IH [of x y] unf weight_ge_1 [of x] weight_ge_1 [of y]
      by (auto dest!: as_binary_weight simp: weight_const)
  next
    case (Ar x y)
    then show ?thesis using IH [of x y] unf weight_ge_1 [of x] weight_ge_1 [of y]
      by (auto dest!: as_binary_weight simp: weight_const)
  next
    case (Sr x y)
    then show ?thesis using IH [of x y] unf weight_ge_1 [of x] weight_ge_1 [of y]
      by (auto dest!: as_binary_weight simp: weight_const)
  qed (auto simp: unf)
next
  case (4 l r)
  then show ?case
    using weight_ge_1 [of l] weight_ge_1 [of r] by (auto simp: builder_Sub.psimps)
next
  case (5 c r)
  note unf = builder_Sub_CN.psimps [OF 5(1)]
  show ?case
  proof (cases rule: binary_cases [where l = r and r = r])
    case (Al x y)
    then show ?thesis using 5(2,3) [of "(x, y)" x y] 5(4,5) [of "(x, y)" x y] unf weight_ge_1 [of c] weight_ge_1 [of x] weight_ge_1 [of y]
      by (auto dest!: as_binary_weight)
  next
    case (Sl x y)
    then show ?thesis using 5(2,3) [of "(x, y)" x y] 5(4,5) [of "(x, y)" x y] unf weight_ge_1 [of c] weight_ge_1 [of x] weight_ge_1 [of y]
      by (auto dest!: as_binary_weight)
  qed (auto simp: unf)
next
  case (6 l r)
  note unf = builder_Sub_NN.psimps [OF 6(1)]
  note IH = 6(2) [of "(x, y)" x y for x y]
      6(3) [of "(x, y)" x y for x y]
      6(4) [of "(x, y)" x y for x y]
      6(5) [of "(x, y)" x y for x y]
      6(6) [of "(x, y)" x y for x y]
      6(7) [of "(x, y)" x y for x y]
      6(8) [of "(x, y)" x y for x y]
      6(9) [of "(x, y)" x y for x y]
      6(10) [of "(x, y)" x y for x y]
      6(11) [of "(x, y)" x y for x y]
      6(12) [of "(x, y)" x y for x y]
      6(13) [of "(x, y)" x y for x y]
  show ?case
  proof (cases rule: binary_cases [where l = l and r = r])
    case (Al x y)
    then show ?thesis using IH [of x y] unf weight_ge_1 [of x] weight_ge_1 [of y]
      by (auto dest!: as_binary_weight simp: weight_const)
  next
    case (Sl x y)
    then show ?thesis using IH [of x y] unf weight_ge_1 [of x] weight_ge_1 [of y]
      by (auto dest!: as_binary_weight simp: weight_const)
  next
    case (Ar x y)
    then show ?thesis using IH [of x y] unf weight_ge_1 [of x] weight_ge_1 [of y]
      by (auto dest!: as_binary_weight simp: weight_const)
  next
    case (Sr x y)
    then show ?thesis using IH [of x y] unf weight_ge_1 [of x] weight_ge_1 [of y]
      by (auto dest!: as_binary_weight simp: weight_const)
  qed (auto simp: unf)
qed

lemma ConstantExpr_Neg_const [simp]: "is_ConstantExpr (ConstantExpr_Neg c)"
  by (simp add: ConstantExpr_Neg_def)

lemma builder_total: "All builder_dom"
proof (rule "builder_Add_builder_Add_CN_builder_Add_NN_builder_Sub_builder_Sub_CN_builder_Sub_NN.termination"
    [of "inv_image (less_than <*lex*> less_than) Add_Sub_rank"], goal_cases)
  case 1 show ?case by (intro wf_inv_image wf_lex_prod wf_less_than)
qed (auto simp: Add_Sub_phase_def as_binary_Some weight_const weight_ge_1
    dest!: builder_weight_dom(1) builder_weight_dom(4))

termination builder_Add
  by (rule builder_total)

declare builder_Add.simps [simp del] builder_Add_CN.simps [simp del] builder_Add_NN.simps [simp del]
  builder_Sub.simps [simp del] builder_Sub_CN.simps [simp del] builder_Sub_NN.simps [simp del]


subsection \<open>The other operations\<close>

text \<open>Dispatch on constants for a binary operation (\<open>ConstantSpecializedExprBuilder\<close>).\<close>

definition const_specialized ::
  "kind \<Rightarrow> (expr \<Rightarrow> expr \<Rightarrow> expr) \<Rightarrow> (expr \<Rightarrow> expr \<Rightarrow> expr) \<Rightarrow> (expr \<Rightarrow> expr \<Rightarrow> expr) \<Rightarrow> expr \<Rightarrow> expr \<Rightarrow> expr"
  where
  "const_specialized k cn nc nn l r =
     (if is_ConstantExpr l
      then if is_ConstantExpr r then ConstantExpr_op k l r else cn l r
      else if is_ConstantExpr r then nc l r else nn l r)"

definition builder_Mul_CN :: "expr \<Rightarrow> expr \<Rightarrow> expr" where
  "builder_Mul_CN c r = (if isZero c then c else if isOne c then r else BinaryExpr Mul c r)"

definition builder_And_CN :: "expr \<Rightarrow> expr \<Rightarrow> expr" where
  "builder_And_CN c r = (if isZero c then c else if isAllOnes c then r else BinaryExpr And c r)"

definition builder_Or_CN :: "expr \<Rightarrow> expr \<Rightarrow> expr" where
  "builder_Or_CN c r = (if isZero c then r else if isAllOnes c then c else BinaryExpr Or c r)"

definition builder_Xor_CN :: "expr \<Rightarrow> expr \<Rightarrow> expr" where
  "builder_Xor_CN c r = (if isZero c then r else BinaryExpr Xor c r)"

definition builder_Eq_CN :: "expr \<Rightarrow> expr \<Rightarrow> expr" where
  "builder_Eq_CN c r =
     (if getWidth c = BoolWidth then if isTrue c then r else NotExpr r else BinaryExpr Eq c r)"

definition builder_Mul :: "expr \<Rightarrow> expr \<Rightarrow> expr" where
  "builder_Mul = const_specialized Mul builder_Mul_CN (\<lambda>l r. builder_Mul_CN r l) (BinaryExpr Mul)"

definition builder_And :: "expr \<Rightarrow> expr \<Rightarrow> expr" where
  "builder_And = const_specialized And builder_And_CN (\<lambda>l r. builder_And_CN r l) (BinaryExpr And)"

definition builder_Or :: "expr \<Rightarrow> expr \<Rightarrow> expr" where
  "builder_Or = const_specialized Or builder_Or_CN (\<lambda>l r. builder_Or_CN r l) (BinaryExpr Or)"

definition builder_Xor :: "expr \<Rightarrow> expr \<Rightarrow> expr" where
  "builder_Xor = const_specialized Xor builder_Xor_CN (\<lambda>l r. builder_Xor_CN r l) (BinaryExpr Xor)"

definition builder_Eq :: "expr \<Rightarrow> expr \<Rightarrow> expr" where
  "builder_Eq = const_specialized Eq builder_Eq_CN (\<lambda>l r. builder_Eq_CN r l) (BinaryExpr Eq)"

text \<open>The operations that \<open>ConstantFoldingBuilder\<close> inherits from \<open>ChainedBuilder\<close>: plain nodes.\<close>

definition builder_chained :: "kind \<Rightarrow> expr \<Rightarrow> expr \<Rightarrow> expr" where
  "builder_chained k = const_specialized k (BinaryExpr k) (BinaryExpr k) (BinaryExpr k)"

fun builder_binary :: "kind \<Rightarrow> expr \<Rightarrow> expr \<Rightarrow> expr" where
  "builder_binary Add l r = builder_Add l r"
| "builder_binary Sub l r = builder_Sub l r"
| "builder_binary Mul l r = builder_Mul l r"
| "builder_binary And l r = builder_And l r"
| "builder_binary Or l r = builder_Or l r"
| "builder_binary Xor l r = builder_Xor l r"
| "builder_binary Eq l r = builder_Eq l r"
| "builder_binary k l r = builder_chained k l r"

definition builder_Not :: "expr \<Rightarrow> expr" where
  "builder_Not e = (case e of
       NotExpr e' \<Rightarrow> e'
     | ConstantExpr w v \<Rightarrow> ConstantExpr_Not e
     | _ \<Rightarrow> NotExpr e)"

definition builder_Select :: "expr \<Rightarrow> expr \<Rightarrow> expr \<Rightarrow> expr" where
  "builder_Select c t f =
     (if is_ConstantExpr c then if isTrue c then t else f else SelectExpr c t f)"

definition builder_Concat :: "expr \<Rightarrow> expr \<Rightarrow> expr" where
  "builder_Concat l r =
     (if is_ConstantExpr l \<and> is_ConstantExpr r then ConstantExpr_Concat l r else ConcatExpr l r)"

definition builder_Extract :: "expr \<Rightarrow> nat \<Rightarrow> nat \<Rightarrow> expr" where
  "builder_Extract e off w =
     (if is_ConstantExpr e then ConstantExpr_Extract e off w else ExtractExpr e off w)"

definition builder_ZExt :: "expr \<Rightarrow> nat \<Rightarrow> expr" where
  "builder_ZExt e w = (if is_ConstantExpr e then ConstantExpr_ZExt e w else ZExtExpr e w)"

definition builder_SExt :: "expr \<Rightarrow> nat \<Rightarrow> expr" where
  "builder_SExt e w = (if is_ConstantExpr e then ConstantExpr_SExt e w else SExtExpr e w)"

subsection \<open>Soundness of the simple operations\<close>

lemma const_specialized_sound:
  assumes "wt (BinaryExpr k l r)"
    and "is_ConstantExpr l \<Longrightarrow> \<not> is_ConstantExpr r \<Longrightarrow> sem_eq (BinaryExpr k l r) (cn l r)"
    and "\<not> is_ConstantExpr l \<Longrightarrow> is_ConstantExpr r \<Longrightarrow> sem_eq (BinaryExpr k l r) (nc l r)"
    and "sem_eq (BinaryExpr k l r) (nn l r)"
  shows "sem_eq (BinaryExpr k l r) (const_specialized k cn nc nn l r)"
  using assms sem_eq_const_op by (simp add: const_specialized_def)

lemma CN_sound:
  assumes "wt c" "wt r" "getWidth c = getWidth r" "is_ConstantExpr c"
  shows "sem_eq (BinaryExpr Mul c r) (builder_Mul_CN c r)" "sem_eq (BinaryExpr Mul r c) (builder_Mul_CN c r)"
    and "sem_eq (BinaryExpr And c r) (builder_And_CN c r)" "sem_eq (BinaryExpr And r c) (builder_And_CN c r)"
    and "sem_eq (BinaryExpr Or c r) (builder_Or_CN c r)" "sem_eq (BinaryExpr Or r c) (builder_Or_CN c r)"
    and "sem_eq (BinaryExpr Xor c r) (builder_Xor_CN c r)" "sem_eq (BinaryExpr Xor r c) (builder_Xor_CN c r)"
    and "sem_eq (BinaryExpr Eq c r) (builder_Eq_CN c r)" "sem_eq (BinaryExpr Eq r c) (builder_Eq_CN c r)"
proof -
  note [simp] = eval_range [OF assms(2)] eval_and_mask [OF assms(2)] eval_or_mask [OF assms(2)]
  show M: "sem_eq (BinaryExpr Mul c r) (builder_Mul_CN c r)"
    using assms by (auto simp: builder_Mul_CN_def sem_eq_def const_tests eval_const)
  show A: "sem_eq (BinaryExpr And c r) (builder_And_CN c r)"
    using assms by (auto simp: builder_And_CN_def sem_eq_def const_tests eval_const)
  show O: "sem_eq (BinaryExpr Or c r) (builder_Or_CN c r)"
    using assms by (auto simp: builder_Or_CN_def sem_eq_def const_tests eval_const)
  show X: "sem_eq (BinaryExpr Xor c r) (builder_Xor_CN c r)"
    using assms by (auto simp: builder_Xor_CN_def sem_eq_def const_tests eval_const)
  have "take_bit (getWidth r) (NOT (eval \<sigma> r)) = of_bool (eval \<sigma> r = 0)" if "getWidth r = 1" for \<sigma>
    using eval_bool_disj [OF assms(2) that, of \<sigma>] that by auto
  then show E: "sem_eq (BinaryExpr Eq c r) (builder_Eq_CN c r)"
    using assms Eq_partial_true [of c r]
    by (auto simp: builder_Eq_CN_def sem_eq_def const_tests eval_const)
  show "sem_eq (BinaryExpr Mul r c) (builder_Mul_CN c r)" "sem_eq (BinaryExpr And r c) (builder_And_CN c r)"
    "sem_eq (BinaryExpr Or r c) (builder_Or_CN c r)" "sem_eq (BinaryExpr Xor r c) (builder_Xor_CN c r)"
    "sem_eq (BinaryExpr Eq r c) (builder_Eq_CN c r)"
    using M A O X E assms(3)
    by (auto elim!: sem_eq_change simp: mult.commute and.commute or.commute xor.commute)
qed


subsection \<open>Soundness of Add and Sub\<close>

lemmas builder_induct =
  builder_Add_builder_Add_CN_builder_Add_NN_builder_Sub_builder_Sub_CN_builder_Sub_NN.induct

lemma apint_neg:
  fixes l x y :: int
  shows "take_bit w (l + take_bit w (x - y)) = take_bit w (take_bit w (- y) + take_bit w (l + x))"
    and "take_bit w (l - take_bit w (x + y)) = take_bit w (take_bit w (- x) + take_bit w (l - y))"
    and "take_bit w (l - take_bit w (x + y)) = take_bit w (take_bit w (- y) + take_bit w (l - x))"
    and "take_bit w (l - take_bit w (x - y)) = take_bit w (take_bit w (- x) + take_bit w (l + y))"
proof -
  have push: "take_bit w (take_bit w (- a) + b) = take_bit w (b - a)" for a b :: int
    by (simp add: apint_simps)
  show "take_bit w (l + take_bit w (x - y)) = take_bit w (take_bit w (- y) + take_bit w (l + x))"
    "take_bit w (l - take_bit w (x + y)) = take_bit w (take_bit w (- x) + take_bit w (l - y))"
    "take_bit w (l - take_bit w (x + y)) = take_bit w (take_bit w (- y) + take_bit w (l - x))"
    "take_bit w (l - take_bit w (x - y)) = take_bit w (take_bit w (- x) + take_bit w (l + y))"
    unfolding push by (simp_all add: apint_simps) (simp_all add: algebra_simps)
qed

lemma builder_Add_Sub_sound:
  shows "wt (BinaryExpr Add l r) \<Longrightarrow> sem_eq (BinaryExpr Add l r) (builder_Add l r)"
    and "wt (BinaryExpr Add c r) \<Longrightarrow> is_ConstantExpr c \<Longrightarrow> sem_eq (BinaryExpr Add c r) (builder_Add_CN c r)"
    and "wt (BinaryExpr Add l r) \<Longrightarrow> sem_eq (BinaryExpr Add l r) (builder_Add_NN l r)"
    and "wt (BinaryExpr Sub l r) \<Longrightarrow> sem_eq (BinaryExpr Sub l r) (builder_Sub l r)"
    and "wt (BinaryExpr Sub c r) \<Longrightarrow> is_ConstantExpr c \<Longrightarrow> sem_eq (BinaryExpr Sub c r) (builder_Sub_CN c r)"
    and "wt (BinaryExpr Sub l r) \<Longrightarrow> sem_eq (BinaryExpr Sub l r) (builder_Sub_NN l r)"
proof (induction l r and c r and l r and l r and c r and l r rule: builder_induct)
  case (1 l r)
  then show ?case
    using sem_eq_const_op [of Add l r]
      sem_eq_change [of "BinaryExpr Add r l" "builder_Add_CN r l" "BinaryExpr Add l r"]
    by (subst builder_Add.simps) (auto simp: add.commute)
next
  case (2 c r)
  show ?case
  proof (cases "isZero c")
    case True
    then show ?thesis
      using "2.prems" eval_range by (subst builder_Add_CN.simps) (auto intro!: sem_eqI simp: const_tests eval_const)
  next
    case nz: False
    show ?thesis
  proof (cases rule: binary_cases [where l = r and r = r])
    case (Al x y)
    consider (cx) "is_ConstantExpr x" | (cy) "\<not> is_ConstantExpr x" "is_ConstantExpr y"
      | (nc) "\<not> is_ConstantExpr x" "\<not> is_ConstantExpr y" by blast
    then show ?thesis
    proof cases
      case cx
      have "sem_eq (BinaryExpr Add (ConstantExpr_op Add c x) y) (builder_Add (ConstantExpr_op Add c x) y)"
        using "2.IH" Al cx "2.prems" nz by (auto simp: as_binary_Some)
      moreover have "builder_Add_CN c r = builder_Add (ConstantExpr_op Add c x) y" using Al cx nz by (simp add: builder_Add_CN.simps)
      ultimately show ?thesis
        using Al cx "2.prems"
        by (auto simp: as_binary_Some eval_const_op apint_simps algebra_simps elim!: sem_eq_change)
    next
      case cy
      have "sem_eq (BinaryExpr Add (ConstantExpr_op Add c y) x) (builder_Add (ConstantExpr_op Add c y) x)"
        using "2.IH" Al cy "2.prems" nz by (auto simp: as_binary_Some)
      moreover have "builder_Add_CN c r = builder_Add (ConstantExpr_op Add c y) x" using Al cy nz by (simp add: builder_Add_CN.simps)
      ultimately show ?thesis
        using Al cy "2.prems"
        by (auto simp: as_binary_Some eval_const_op apint_simps algebra_simps elim!: sem_eq_change)
    next
      case nc
      then show ?thesis using Al "2.prems" nz by (simp add: builder_Add_CN.simps)
    qed
  next
    case (Sl x y)
    consider (cx) "is_ConstantExpr x" | (cy) "\<not> is_ConstantExpr x" "is_ConstantExpr y"
      | (nc) "\<not> is_ConstantExpr x" "\<not> is_ConstantExpr y" by blast
    then show ?thesis
    proof cases
      case cx
      have "sem_eq (BinaryExpr Sub (ConstantExpr_op Add c x) y) (builder_Sub (ConstantExpr_op Add c x) y)"
        using "2.IH" Sl cx "2.prems" nz by (auto simp: as_binary_Some)
      moreover have "builder_Add_CN c r = builder_Sub (ConstantExpr_op Add c x) y" using Sl cx nz by (simp add: builder_Add_CN.simps)
      ultimately show ?thesis
        using Sl cx "2.prems"
        by (auto simp: as_binary_Some eval_const_op apint_simps algebra_simps elim!: sem_eq_change)
    next
      case cy
      have "sem_eq (BinaryExpr Add (ConstantExpr_op Sub c y) x) (builder_Add (ConstantExpr_op Sub c y) x)"
        using "2.IH" Sl cy "2.prems" nz by (auto simp: as_binary_Some)
      moreover have "builder_Add_CN c r = builder_Add (ConstantExpr_op Sub c y) x" using Sl cy nz by (simp add: builder_Add_CN.simps)
      ultimately show ?thesis
        using Sl cy "2.prems"
        by (auto simp: as_binary_Some eval_const_op apint_simps algebra_simps elim!: sem_eq_change)
    next
      case nc
      then show ?thesis using Sl "2.prems" nz by (simp add: builder_Add_CN.simps)
    qed
  qed (use "2.prems" nz in \<open>simp_all add: builder_Add_CN.simps\<close>)
  qed
next
  case (3 l r)
  show ?case
  proof (cases rule: binary_cases [where l = l and r = r])
    case (Al x y)
      have IH: "wt (BinaryExpr Add y r) \<Longrightarrow> sem_eq (BinaryExpr Add y r) (builder_Add y r)"
        "wt (BinaryExpr Add (x) (builder_Add y r)) \<Longrightarrow> sem_eq (BinaryExpr Add (x) (builder_Add y r)) (builder_Add (x) (builder_Add y r))"
        using "3.IH" Al by simp_all
      have e: "builder_Add_NN l r = builder_Add (x) (builder_Add y r)" using Al by (simp add: builder_Add_NN.simps)
      show ?thesis
        using Al "3.prems" unfolding e
        by (intro chain_sound [OF IH]) (auto simp: as_binary_Some apint_assoc(1))
  next
    case (Sl x y)
      have IH: "wt (BinaryExpr Sub r y) \<Longrightarrow> sem_eq (BinaryExpr Sub r y) (builder_Sub r y)"
        "wt (BinaryExpr Add (x) (builder_Sub r y)) \<Longrightarrow> sem_eq (BinaryExpr Add (x) (builder_Sub r y)) (builder_Add (x) (builder_Sub r y))"
        using "3.IH" Sl by simp_all
      have e: "builder_Add_NN l r = builder_Add (x) (builder_Sub r y)" using Sl by (simp add: builder_Add_NN.simps)
      show ?thesis
        using Sl "3.prems" unfolding e
        by (intro chain_sound [OF IH]) (auto simp: as_binary_Some apint_assoc(2))
  next
    case (Ar x y)
    consider (cx) "is_ConstantExpr x" | (cy) "\<not> is_ConstantExpr x" "is_ConstantExpr y"
      | (nc) "\<not> is_ConstantExpr x" "\<not> is_ConstantExpr y" by blast
    then show ?thesis
    proof cases
      case cx
      have IH: "wt (BinaryExpr Add l y) \<Longrightarrow> sem_eq (BinaryExpr Add l y) (builder_Add l y)"
        "wt (BinaryExpr Add (x) (builder_Add l y)) \<Longrightarrow> sem_eq (BinaryExpr Add (x) (builder_Add l y)) (builder_Add (x) (builder_Add l y))"
        using "3.IH" Ar cx by simp_all
      have e: "builder_Add_NN l r = builder_Add (x) (builder_Add l y)" using Ar cx by (simp add: builder_Add_NN.simps)
      show ?thesis
        using Ar "3.prems" cx unfolding e
        by (intro chain_sound [OF IH]) (auto simp: as_binary_Some apint_assoc(6))
    next
      case cy
      have IH: "wt (BinaryExpr Add l x) \<Longrightarrow> sem_eq (BinaryExpr Add l x) (builder_Add l x)"
        "wt (BinaryExpr Add (y) (builder_Add l x)) \<Longrightarrow> sem_eq (BinaryExpr Add (y) (builder_Add l x)) (builder_Add (y) (builder_Add l x))"
        using "3.IH" Ar cy by simp_all
      have e: "builder_Add_NN l r = builder_Add (y) (builder_Add l x)" using Ar cy by (simp add: builder_Add_NN.simps)
      show ?thesis
        using Ar "3.prems" cy unfolding e
        by (intro chain_sound [OF IH]) (auto simp: as_binary_Some apint_simps algebra_simps)
    next
      case nc
      then show ?thesis using Ar "3.prems" by (simp add: builder_Add_NN.simps)
    qed
  next
    case (Sr x y)
    consider (cx) "is_ConstantExpr x" | (cy) "\<not> is_ConstantExpr x" "is_ConstantExpr y"
      | (nc) "\<not> is_ConstantExpr x" "\<not> is_ConstantExpr y" by blast
    then show ?thesis
    proof cases
      case cx
      have IH: "wt (BinaryExpr Sub l y) \<Longrightarrow> sem_eq (BinaryExpr Sub l y) (builder_Sub l y)"
        "wt (BinaryExpr Add (x) (builder_Sub l y)) \<Longrightarrow> sem_eq (BinaryExpr Add (x) (builder_Sub l y)) (builder_Add (x) (builder_Sub l y))"
        using "3.IH" Sr cx by simp_all
      have e: "builder_Add_NN l r = builder_Add (x) (builder_Sub l y)" using Sr cx by (simp add: builder_Add_NN.simps)
      show ?thesis
        using Sr "3.prems" cx unfolding e
        by (intro chain_sound [OF IH]) (auto simp: as_binary_Some apint_assoc(7))
    next
      case cy
      have IH: "wt (BinaryExpr Add l x) \<Longrightarrow> sem_eq (BinaryExpr Add l x) (builder_Add l x)"
        "wt (BinaryExpr Add (ConstantExpr_Neg y) (builder_Add l x)) \<Longrightarrow> sem_eq (BinaryExpr Add (ConstantExpr_Neg y) (builder_Add l x)) (builder_Add (ConstantExpr_Neg y) (builder_Add l x))"
        using "3.IH" Sr cy by simp_all
      have e: "builder_Add_NN l r = builder_Add (ConstantExpr_Neg y) (builder_Add l x)" using Sr cy by (simp add: builder_Add_NN.simps)
      show ?thesis
        using Sr "3.prems" cy unfolding e
        by (intro chain_sound [OF IH]) (auto simp: as_binary_Some ConstantExpr_Neg_sound apint_neg(1))
    next
      case nc
      then show ?thesis using Sr "3.prems" by (simp add: builder_Add_NN.simps)
    qed
  qed (use "3.prems" in \<open>simp add: builder_Add_NN.simps\<close>)
next
  case (4 l r)
  have "sem_eq (BinaryExpr Sub l r) (builder_Add_CN (ConstantExpr_Neg r) l)"
    if "\<not> is_ConstantExpr l" "is_ConstantExpr r"
  proof -
    have "sem_eq (BinaryExpr Add (ConstantExpr_Neg r) l) (builder_Add_CN (ConstantExpr_Neg r) l)"
      using 4 that by (simp add: ConstantExpr_Neg_sound)
    then show ?thesis
      using that "4.prems" by (auto simp: ConstantExpr_Neg_sound apint_simps elim!: sem_eq_change)
  qed
  then show ?case
    using 4 sem_eq_const_op [of Sub l r] by (subst builder_Sub.simps) auto
next
  case (5 c r)
  show ?case
  proof (cases rule: binary_cases [where l = r and r = r])
    case (Al x y)
    consider (cx) "is_ConstantExpr x" | (cy) "\<not> is_ConstantExpr x" "is_ConstantExpr y"
      | (nc) "\<not> is_ConstantExpr x" "\<not> is_ConstantExpr y" by blast
    then show ?thesis
    proof cases
      case cx
      have "sem_eq (BinaryExpr Sub (ConstantExpr_op Sub c x) y) (builder_Sub (ConstantExpr_op Sub c x) y)"
        using "5.IH" Al cx "5.prems" by (auto simp: as_binary_Some)
      moreover have "builder_Sub_CN c r = builder_Sub (ConstantExpr_op Sub c x) y" using Al cx by (simp add: builder_Sub_CN.simps)
      ultimately show ?thesis
        using Al cx "5.prems"
        by (auto simp: as_binary_Some eval_const_op apint_simps algebra_simps elim!: sem_eq_change)
    next
      case cy
      have "sem_eq (BinaryExpr Sub (ConstantExpr_op Sub c y) x) (builder_Sub (ConstantExpr_op Sub c y) x)"
        using "5.IH" Al cy "5.prems" by (auto simp: as_binary_Some)
      moreover have "builder_Sub_CN c r = builder_Sub (ConstantExpr_op Sub c y) x" using Al cy by (simp add: builder_Sub_CN.simps)
      ultimately show ?thesis
        using Al cy "5.prems"
        by (auto simp: as_binary_Some eval_const_op apint_simps algebra_simps elim!: sem_eq_change)
    next
      case nc
      then show ?thesis using Al "5.prems" by (simp add: builder_Sub_CN.simps)
    qed
  next
    case (Sl x y)
    consider (cx) "is_ConstantExpr x" | (cy) "\<not> is_ConstantExpr x" "is_ConstantExpr y"
      | (nc) "\<not> is_ConstantExpr x" "\<not> is_ConstantExpr y" by blast
    then show ?thesis
    proof cases
      case cx
      have "sem_eq (BinaryExpr Add (ConstantExpr_op Sub c x) y) (builder_Add (ConstantExpr_op Sub c x) y)"
        using "5.IH" Sl cx "5.prems" by (auto simp: as_binary_Some)
      moreover have "builder_Sub_CN c r = builder_Add (ConstantExpr_op Sub c x) y" using Sl cx by (simp add: builder_Sub_CN.simps)
      ultimately show ?thesis
        using Sl cx "5.prems"
        by (auto simp: as_binary_Some eval_const_op apint_simps algebra_simps elim!: sem_eq_change)
    next
      case cy
      have "sem_eq (BinaryExpr Sub (ConstantExpr_op Add c y) x) (builder_Sub (ConstantExpr_op Add c y) x)"
        using "5.IH" Sl cy "5.prems" by (auto simp: as_binary_Some)
      moreover have "builder_Sub_CN c r = builder_Sub (ConstantExpr_op Add c y) x" using Sl cy by (simp add: builder_Sub_CN.simps)
      ultimately show ?thesis
        using Sl cy "5.prems"
        by (auto simp: as_binary_Some eval_const_op apint_simps algebra_simps elim!: sem_eq_change)
    next
      case nc
      then show ?thesis using Sl "5.prems" by (simp add: builder_Sub_CN.simps)
    qed
  qed (use "5.prems" in \<open>simp_all add: builder_Sub_CN.simps\<close>)
next
  case (6 l r)
  show ?case
  proof (cases rule: binary_cases [where l = l and r = r])
    case (Al x y)
      have IH: "wt (BinaryExpr Sub y r) \<Longrightarrow> sem_eq (BinaryExpr Sub y r) (builder_Sub y r)"
        "wt (BinaryExpr Add (x) (builder_Sub y r)) \<Longrightarrow> sem_eq (BinaryExpr Add (x) (builder_Sub y r)) (builder_Add (x) (builder_Sub y r))"
        using "6.IH" Al by simp_all
      have e: "builder_Sub_NN l r = builder_Add (x) (builder_Sub y r)" using Al by (simp add: builder_Sub_NN.simps)
      show ?thesis
        using Al "6.prems" unfolding e
        by (intro chain_sound [OF IH]) (auto simp: as_binary_Some apint_assoc(11))
  next
    case (Sl x y)
      have IH: "wt (BinaryExpr Add y r) \<Longrightarrow> sem_eq (BinaryExpr Add y r) (builder_Add y r)"
        "wt (BinaryExpr Sub (x) (builder_Add y r)) \<Longrightarrow> sem_eq (BinaryExpr Sub (x) (builder_Add y r)) (builder_Sub (x) (builder_Add y r))"
        using "6.IH" Sl by simp_all
      have e: "builder_Sub_NN l r = builder_Sub (x) (builder_Add y r)" using Sl by (simp add: builder_Sub_NN.simps)
      show ?thesis
        using Sl "6.prems" unfolding e
        by (intro chain_sound [OF IH]) (auto simp: as_binary_Some apint_assoc(10))
  next
    case (Ar x y)
    consider (cx) "is_ConstantExpr x" | (cy) "\<not> is_ConstantExpr x" "is_ConstantExpr y"
      | (nc) "\<not> is_ConstantExpr x" "\<not> is_ConstantExpr y" by blast
    then show ?thesis
    proof cases
      case cx
      have IH: "wt (BinaryExpr Sub l y) \<Longrightarrow> sem_eq (BinaryExpr Sub l y) (builder_Sub l y)"
        "wt (BinaryExpr Add (ConstantExpr_Neg x) (builder_Sub l y)) \<Longrightarrow> sem_eq (BinaryExpr Add (ConstantExpr_Neg x) (builder_Sub l y)) (builder_Add (ConstantExpr_Neg x) (builder_Sub l y))"
        using "6.IH" Ar cx by simp_all
      have e: "builder_Sub_NN l r = builder_Add (ConstantExpr_Neg x) (builder_Sub l y)" using Ar cx by (simp add: builder_Sub_NN.simps)
      show ?thesis
        using Ar "6.prems" cx unfolding e
        by (intro chain_sound [OF IH]) (auto simp: as_binary_Some ConstantExpr_Neg_sound apint_neg(2))
    next
      case cy
      have IH: "wt (BinaryExpr Sub l x) \<Longrightarrow> sem_eq (BinaryExpr Sub l x) (builder_Sub l x)"
        "wt (BinaryExpr Add (ConstantExpr_Neg y) (builder_Sub l x)) \<Longrightarrow> sem_eq (BinaryExpr Add (ConstantExpr_Neg y) (builder_Sub l x)) (builder_Add (ConstantExpr_Neg y) (builder_Sub l x))"
        using "6.IH" Ar cy by simp_all
      have e: "builder_Sub_NN l r = builder_Add (ConstantExpr_Neg y) (builder_Sub l x)" using Ar cy by (simp add: builder_Sub_NN.simps)
      show ?thesis
        using Ar "6.prems" cy unfolding e
        by (intro chain_sound [OF IH]) (auto simp: as_binary_Some ConstantExpr_Neg_sound apint_neg(3))
    next
      case nc
      then show ?thesis using Ar "6.prems" by (simp add: builder_Sub_NN.simps)
    qed
  next
    case (Sr x y)
    consider (cx) "is_ConstantExpr x" | (cy) "\<not> is_ConstantExpr x" "is_ConstantExpr y"
      | (nc) "\<not> is_ConstantExpr x" "\<not> is_ConstantExpr y" by blast
    then show ?thesis
    proof cases
      case cx
      have IH: "wt (BinaryExpr Add l y) \<Longrightarrow> sem_eq (BinaryExpr Add l y) (builder_Add l y)"
        "wt (BinaryExpr Add (ConstantExpr_Neg x) (builder_Add l y)) \<Longrightarrow> sem_eq (BinaryExpr Add (ConstantExpr_Neg x) (builder_Add l y)) (builder_Add (ConstantExpr_Neg x) (builder_Add l y))"
        using "6.IH" Sr cx by simp_all
      have e: "builder_Sub_NN l r = builder_Add (ConstantExpr_Neg x) (builder_Add l y)" using Sr cx by (simp add: builder_Sub_NN.simps)
      show ?thesis
        using Sr "6.prems" cx unfolding e
        by (intro chain_sound [OF IH]) (auto simp: as_binary_Some ConstantExpr_Neg_sound apint_neg(4))
    next
      case cy
      have IH: "wt (BinaryExpr Sub l x) \<Longrightarrow> sem_eq (BinaryExpr Sub l x) (builder_Sub l x)"
        "wt (BinaryExpr Add (y) (builder_Sub l x)) \<Longrightarrow> sem_eq (BinaryExpr Add (y) (builder_Sub l x)) (builder_Add (y) (builder_Sub l x))"
        using "6.IH" Sr cy by simp_all
      have e: "builder_Sub_NN l r = builder_Add (y) (builder_Sub l x)" using Sr cy by (simp add: builder_Sub_NN.simps)
      show ?thesis
        using Sr "6.prems" cy unfolding e
        by (intro chain_sound [OF IH]) (auto simp: as_binary_Some apint_simps algebra_simps)
    next
      case nc
      then show ?thesis using Sr "6.prems" by (simp add: builder_Sub_NN.simps)
    qed
  qed (use "6.prems" in \<open>simp add: builder_Sub_NN.simps\<close>)
qed


lemma builder_binary_sem_eq:
  assumes "wt (BinaryExpr k l r)"
  shows "sem_eq (BinaryExpr k l r) (builder_binary k l r)"
proof -
  have w: "wt l" "wt r" "getWidth l = getWidth r" "getWidth r = getWidth l" using assms by auto
  note cn = CN_sound [OF w(1,2,3)] CN_sound [OF w(2,1,4)]
  have chained: "sem_eq (BinaryExpr k l r) (builder_chained k l r)"
    unfolding builder_chained_def using assms by (intro const_specialized_sound) simp_all
  show ?thesis
    using assms chained cn builder_Add_Sub_sound(1,4) [of l r]
    by (cases k) (auto simp: builder_Mul_def builder_And_def builder_Or_def builder_Xor_def builder_Eq_def
      intro!: const_specialized_sound)
qed

lemma builder_Not_sem_eq:
  assumes "wt e" shows "sem_eq (NotExpr e) (builder_Not e)"
proof (cases e)
  case (NotExpr e')
  have "take_bit w (NOT (take_bit w (NOT v))) = take_bit w v" for w and v :: int
    by (rule bit_eqI) (auto simp: bit_take_bit_iff bit_not_iff)
  then show ?thesis
    using assms NotExpr eval_range [of e'] by (auto intro!: sem_eqI simp: builder_Not_def)
qed (use assms ConstantExpr_Not_sound [of e] in \<open>auto intro!: sem_eqI simp: builder_Not_def\<close>)

lemma builder_other_sem_eq:
  shows "wt (SelectExpr c t f) \<Longrightarrow> sem_eq (SelectExpr c t f) (builder_Select c t f)"
    and "wt (ConcatExpr l r) \<Longrightarrow> sem_eq (ConcatExpr l r) (builder_Concat l r)"
    and "wt (ExtractExpr e off w) \<Longrightarrow> sem_eq (ExtractExpr e off w) (builder_Extract e off w)"
    and "wt (ZExtExpr e w) \<Longrightarrow> sem_eq (ZExtExpr e w) (builder_ZExt e w)"
    and "wt (SExtExpr e w) \<Longrightarrow> sem_eq (SExtExpr e w) (builder_SExt e w)"
proof -
  show "wt (SelectExpr c t f) \<Longrightarrow> sem_eq (SelectExpr c t f) (builder_Select c t f)"
    by (cases "isTrue c") (auto simp: builder_Select_def sem_eq_def const_tests eval_const)
  show "wt (ConcatExpr l r) \<Longrightarrow> sem_eq (ConcatExpr l r) (builder_Concat l r)"
    using concat_range by (auto intro!: sem_eqI simp: builder_Concat_def ConstantExpr_Concat_def elim!: const_cases)
  show "wt (ExtractExpr e off w) \<Longrightarrow> sem_eq (ExtractExpr e off w) (builder_Extract e off w)"
    using ConstantExpr_Extract_sound [of e w off] by (auto simp: builder_Extract_def)
  show "wt (ZExtExpr e w) \<Longrightarrow> sem_eq (ZExtExpr e w) (builder_ZExt e w)"
    using wt_width_pos [of e] by (auto intro!: sem_eqI simp: builder_ZExt_def eval_const)
  show "wt (SExtExpr e w) \<Longrightarrow> sem_eq (SExtExpr e w) (builder_SExt e w)"
    using wt_width_pos [of e] by (auto intro!: sem_eqI simp: builder_SExt_def eval_const elim!: const_cases)
qed

subsection \<open>The interface of an expression builder\<close>

text \<open>
  What a client of \<open>ExprBuilder\<close> relies on: an operation returns an expression that stands for
  the plain node.  The lemmas of the locale are the compositions that the executor builds.  It is
  interpreted on the constant folding builder and on the smart constructors of \<open>Expr.cpp\<close>.
\<close>

locale expr_builder =
  fixes bin :: "kind \<Rightarrow> expr \<Rightarrow> expr \<Rightarrow> expr" and neg :: "expr \<Rightarrow> expr"
  assumes bin_sem: "wt (BinaryExpr k l r) \<Longrightarrow> sem_eq (BinaryExpr k l r) (bin k l r)"
    and neg_sem: "wt e \<Longrightarrow> sem_eq (NotExpr e) (neg e)"
begin

lemma bin_wt: "wt (BinaryExpr k l r) \<Longrightarrow> wt (bin k l r)"
  using sem_eqD(1) [OF bin_sem] .

lemma bin_width: "wt (BinaryExpr k l r) \<Longrightarrow> getWidth (bin k l r) = getWidth (BinaryExpr k l r)"
  using sem_eqD(2) [OF bin_sem] .

lemma bin_eval:
  "wt (BinaryExpr k l r) \<Longrightarrow> eval \<sigma> (bin k l r) = apint_op k (getWidth l) (eval \<sigma> l) (eval \<sigma> r)"
  using sem_eqD(3) [OF bin_sem] by simp

lemma neg_wt: "wt e \<Longrightarrow> wt (neg e)"
  using sem_eqD(1) [OF neg_sem] .

lemma neg_width: "wt e \<Longrightarrow> getWidth (neg e) = getWidth e"
  using sem_eqD(2) [OF neg_sem, of e] by simp

lemma neg_eval: "wt e \<Longrightarrow> eval \<sigma> (neg e) = take_bit (getWidth e) (NOT (eval \<sigma> e))"
  using sem_eqD(3) [OF neg_sem, of e] by simp

lemma bin_nested:
  assumes "wt (BinaryExpr k l r)" "wt (BinaryExpr j (bin k l r) s)"
  shows "sem_eq (BinaryExpr j (BinaryExpr k l r) s) (bin j (bin k l r) s)"
  using sem_eqD [OF bin_sem [OF assms(1)]] sem_eqD [OF bin_sem [OF assms(2)]]
  by (intro sem_eqI) simp_all

text \<open>A one-bit negation has the complementary value.\<close>

lemma neg_bool: "wt e \<Longrightarrow> getWidth e = BoolWidth \<Longrightarrow> eval \<sigma> (neg e) = 1 - eval \<sigma> e"
  using eval_bool_disj [of e \<sigma>] by (auto simp: neg_eval)

end

interpretation folding: expr_builder builder_binary builder_Not
  by unfold_locales (fact builder_binary_sem_eq, fact builder_Not_sem_eq)

interpretation creating: expr_builder Binary_create Not_create
  by unfold_locales (fact Binary_create_sem_eq, fact Not_create_sound)


subsection \<open>Properties\<close>


definition demo_read :: expr where
  "demo_read = ReadExpr \<lparr>arr_name = ''x'', arr_size = 1, arr_domain = 32, arr_range = 16\<rparr> (ConstantExpr 32 0)"




end
