(* ===== verification/Klee_Constraints.thy ===== *)
theory Klee_Constraints
  imports Klee_Builder
begin

text \<open>
  The path condition of a symbolic state: \<open>lib/Expr/Constraints.cpp\<close> and the visitor it rewrites
  with (\<open>lib/Expr/ExprVisitor.cpp\<close>).

  A \<open>ConstraintSet\<close> is the list of its expressions.  \<open>ExprReplaceVisitor\<close> replaces one expression
  by another; \<open>ExprReplaceVisitor2\<close> replaces every key of a map, revisiting what it rebuilds.  Both
  only ever replace by constants, which the type of the replacements records.  The visitor's
  result cache is a memo of a deterministic function and is not modelled.

  \<open>addConstraintInternal\<close> and the loop of \<open>rewriteConstraints\<close> call each other: an added equality
  rewrites the older constraints, and a rewritten constraint is added again.  The assertion
  against a false constraint is a failure value.

  Shown: the whole rewriting terminates, adding a constraint conjoins it (the new set has exactly
  the models of the old one that satisfy the added expression), and the assertion can only fail
  when there is no such model.
\<close>

subsection \<open>Children and rebuilding\<close>

primrec kids :: "expr \<Rightarrow> expr list" where
  "kids (ConstantExpr w v) = []"
| "kids (NotOptimizedExpr e) = [e]"
| "kids (ReadExpr a i) = [i]"
| "kids (SelectExpr c t f) = [c, t, f]"
| "kids (ConcatExpr l r) = [l, r]"
| "kids (ExtractExpr e off w) = [e]"
| "kids (ZExtExpr e w) = [e]"
| "kids (SExtExpr e w) = [e]"
| "kids (NotExpr e) = [e]"
| "kids (BinaryExpr k l r) = [l, r]"

primrec rebuild :: "expr \<Rightarrow> expr list \<Rightarrow> expr" where
  "rebuild (ConstantExpr w v) ks = ConstantExpr w v"
| "rebuild (NotOptimizedExpr e) ks = NotOptimizedExpr (ks ! 0)"
| "rebuild (ReadExpr a i) ks = Read_create a (ks ! 0)"
| "rebuild (SelectExpr c t f) ks = Select_create (ks ! 0) (ks ! 1) (ks ! 2)"
| "rebuild (ConcatExpr l r) ks = Concat_create (ks ! 0) (ks ! 1)"
| "rebuild (ExtractExpr e off w) ks = Extract_create (ks ! 0) off w"
| "rebuild (ZExtExpr e w) ks = ZExt_create (ks ! 0) w"
| "rebuild (SExtExpr e w) ks = SExt_create (ks ! 0) w"
| "rebuild (NotExpr e) ks = Not_create (ks ! 0)"
| "rebuild (BinaryExpr k l r) ks = Binary_create k (ks ! 0) (ks ! 1)"

definition lighter :: "expr \<Rightarrow> expr \<Rightarrow> bool" where
  "lighter e e' \<longleftrightarrow> e' = e \<or> weight e' < weight e"

lemma lighter_weight: "lighter e e' \<Longrightarrow> weight e' \<le> weight e"
  by (auto simp: lighter_def)

lemma lighter_trans: "lighter a b \<Longrightarrow> lighter b c \<Longrightarrow> lighter a c"
  by (auto simp: lighter_def)

lemma kids_weight: "k \<in> set (kids e) \<Longrightarrow> weight k < weight e"
  by (cases e) auto

lemma nonconst_weight: "\<not> is_ConstantExpr e \<Longrightarrow> 2 \<le> weight e"
proof (cases e)
  case (BinaryExpr k l r)
  then show ?thesis using weight_ge_1 [of l] weight_ge_1 [of r] by simp
qed (auto simp: weight_ge_1 Suc_leI)

lemma rebuild_weight:
  assumes "list_all2 lighter (kids e) ks" "ks \<noteq> kids e"
  shows "weight (rebuild e ks) < weight e"
proof (cases e)
  case (SelectExpr c t f)
  then show ?thesis
    using assms Select_create_weight [of "ks ! 0" "ks ! 1" "ks ! 2"]
    by (auto simp: list_all2_Cons1 lighter_def)
next
  case (ConcatExpr l r)
  then show ?thesis
    using assms Concat_create_weight [of "ks ! 0" "ks ! 1"] by (auto simp: list_all2_Cons1 lighter_def)
next
  case (ExtractExpr x off w)
  then show ?thesis
    using assms Extract_create_weight [of "ks ! 0" off w] by (auto simp: list_all2_Cons1 lighter_def)
next
  case (ZExtExpr x w)
  then show ?thesis
    using assms ZExt_create_weight [of "ks ! 0" w] by (auto simp: list_all2_Cons1 lighter_def)
next
  case (SExtExpr x w)
  then show ?thesis
    using assms SExt_create_weight [of "ks ! 0" w] by (auto simp: list_all2_Cons1 lighter_def)
next
  case (NotExpr x)
  then show ?thesis
    using assms Not_create_weight [of "ks ! 0"] by (auto simp: list_all2_Cons1 lighter_def)
next
  case (BinaryExpr k l r)
  then show ?thesis
    using assms Binary_create_weight [of k "ks ! 0" "ks ! 1"]
    by (auto simp: list_all2_Cons1 lighter_def)
qed (use assms in \<open>auto simp: list_all2_Cons1 lighter_def Read_create_def\<close>)

subsection \<open>The two visitors\<close>

type_synonym replacements = "(expr \<times> nat \<times> int) list"

definition replacement :: "replacements \<Rightarrow> expr \<Rightarrow> expr option" where
  "replacement m e = map_option (\<lambda>(w, v). ConstantExpr w v) (map_of m e)"

text \<open>\<open>ExprReplaceVisitor\<close>: not recursive, checks before and after the children.\<close>

function visit_replace :: "expr \<Rightarrow> nat \<times> int \<Rightarrow> expr \<Rightarrow> expr" where
  "visit_replace src dst e =
     (if is_ConstantExpr e then e
      else if e = src then ConstantExpr (fst dst) (snd dst)
      else let ks = map (visit_replace src dst) (kids e);
               e' = (if ks \<noteq> kids e then rebuild e ks else e)
           in if \<not> is_ConstantExpr e' \<and> e' = src then ConstantExpr (fst dst) (snd dst) else e')"
  by pat_completeness auto
termination
  by (relation "measure (\<lambda>(src, dst, e). weight e)") (auto intro: kids_weight)

text \<open>\<open>ExprReplaceVisitor2\<close>: recursive, checks after the children.\<close>

function visit_replace2 :: "replacements \<Rightarrow> expr \<Rightarrow> expr" where
  "visit_replace2 m e =
     (if is_ConstantExpr e then e
      else let ks = map (visit_replace2 m) (kids e);
               e' = (if ks \<noteq> kids e then visit_replace2 m (rebuild e ks) else e)
           in if is_ConstantExpr e' then e'
              else case replacement m e' of Some c \<Rightarrow> c | None \<Rightarrow> e')"
  by pat_completeness auto


lemma replacement_const: "replacement m e = Some c \<Longrightarrow> is_ConstantExpr c"
  by (auto simp: replacement_def)

lemma const_lighter: "is_ConstantExpr c \<Longrightarrow> \<not> is_ConstantExpr e \<Longrightarrow> weight c < weight e"
  using nonconst_weight [of e] weight_const [of c] by simp

lemma list_all2_map_self: "(\<And>x. x \<in> set xs \<Longrightarrow> P x (f x)) \<Longrightarrow> list_all2 P xs (map f xs)"
  by (induction xs) auto

lemma visit_replace2_lighter_dom:
  "visit_replace2_dom (m, e) \<Longrightarrow> lighter e (visit_replace2 m e)"
proof (induction m e rule: visit_replace2.pinduct)
  case (1 m e)
  show ?case
  proof (cases "is_ConstantExpr e")
    case True
    then show ?thesis using "1.hyps" by (simp add: visit_replace2.psimps lighter_def)
  next
    case nc: False
    let ?ks = "map (visit_replace2 m) (kids e)"
    let ?e = "if ?ks \<noteq> kids e then visit_replace2 m (rebuild e ?ks) else e"
    have ks: "list_all2 lighter (kids e) ?ks"
      by (rule list_all2_map_self) (use "1.IH"(1) nc in blast)
    have "lighter e ?e"
      using rebuild_weight [OF ks] "1.IH"(2) [OF nc refl] by (auto simp: lighter_def)
    moreover have "lighter ?e (if is_ConstantExpr ?e then ?e else
        case replacement m ?e of Some c \<Rightarrow> c | None \<Rightarrow> ?e)"
      using const_lighter [of _ ?e] replacement_const [of m ?e]
      by (auto simp: lighter_def split: option.splits)
    ultimately show ?thesis
      unfolding visit_replace2.psimps [OF "1.hyps"] Let_def if_not_P [OF nc] by (rule lighter_trans)
  qed
qed

lemma visit_replace2_total: "All visit_replace2_dom"
proof (rule "visit_replace2.termination" [of "measure (\<lambda>(m, e). weight e)"], goal_cases)
  case (3 m e ks)
  then show ?case
    using rebuild_weight [OF list_all2_map_self, of e "visit_replace2 m"] visit_replace2_lighter_dom
    by auto
qed (auto intro: kids_weight)

termination visit_replace2
  by (rule visit_replace2_total)

lemmas visit_replace2_lighter = visit_replace2_lighter_dom [OF visit_replace2_total [THEN spec]]

declare visit_replace.simps [simp del] visit_replace2.simps [simp del]

lemma visit_replace_lighter: "lighter e (visit_replace src dst e)"
proof (induction src dst e rule: visit_replace.induct)
  case (1 src dst e)
  let ?ks = "map (visit_replace src dst) (kids e)"
  have ks: "\<not> is_ConstantExpr e \<Longrightarrow> e \<noteq> src \<Longrightarrow> list_all2 lighter (kids e) ?ks"
    by (rule list_all2_map_self) (use 1 in blast)
  show ?case
    using rebuild_weight [OF ks] const_lighter [of "ConstantExpr (fst dst) (snd dst)"]
    by (subst visit_replace.simps) (auto simp: lighter_def Let_def dest: less_trans)
qed

subsection \<open>Adding a constraint\<close>

type_synonym constraints = "expr list"

text \<open>The map of \<open>simplifyExpr\<close>; \<open>std::map::insert\<close> keeps the first value of a key.\<close>

definition equality_of :: "expr \<Rightarrow> expr \<times> nat \<times> int" where
  "equality_of c = (case c of
       BinaryExpr Eq (ConstantExpr w v) r \<Rightarrow> (r, w, v)
     | _ \<Rightarrow> (c, BoolWidth, 1))"

definition simplifyExpr :: "constraints \<Rightarrow> expr \<Rightarrow> expr" where
  "simplifyExpr cs e =
     (if is_ConstantExpr e then e else visit_replace2 (map equality_of cs) e)"

function addConstraintInternal :: "constraints \<Rightarrow> expr \<Rightarrow> constraints res"
  and rewriteConstraints :: "expr \<Rightarrow> nat \<times> int \<Rightarrow> constraints \<Rightarrow> constraints \<Rightarrow> constraints res" where
  "addConstraintInternal cs e = (case e of
       ConstantExpr w v \<Rightarrow>
         if isTrue e then Inr cs else Inl (AssertFailed ''attempt to add invalid (false) constraint'')
     | BinaryExpr And l r \<Rightarrow> rbind (addConstraintInternal cs l) (\<lambda>cs'. addConstraintInternal cs' r)
     | BinaryExpr Eq (ConstantExpr w v) r \<Rightarrow>
         rbind (rewriteConstraints r (w, v) cs []) (\<lambda>cs'. Inr (cs' @ [e]))
     | _ \<Rightarrow> Inr (cs @ [e]))"
| "rewriteConstraints src dst old acc = (case old of
       [] \<Rightarrow> Inr acc
     | ce # rest \<Rightarrow>
         (let e = visit_replace src dst ce in
          if e \<noteq> ce then rbind (addConstraintInternal acc e) (rewriteConstraints src dst rest)
          else rewriteConstraints src dst rest (acc @ [ce])))"
  by pat_completeness auto

definition addConstraint :: "constraints \<Rightarrow> expr \<Rightarrow> constraints res" where
  "addConstraint cs e = addConstraintInternal cs (simplifyExpr cs e)"

definition total_weight :: "constraints \<Rightarrow> nat" where
  "total_weight cs = sum_list (map weight cs)"

lemma total_weight_simps [simp]:
  "total_weight [] = 0" "total_weight (c # cs) = weight c + total_weight cs"
  "total_weight (cs @ ds) = total_weight cs + total_weight ds"
  by (simp_all add: total_weight_def)


abbreviation add_dom where "add_dom \<equiv> addConstraintInternal_rewriteConstraints_dom"

lemma add_weight_dom:
  shows "add_dom (Inl (cs, e)) \<Longrightarrow> addConstraintInternal cs e = Inr cs' \<Longrightarrow>
      total_weight cs' \<le> total_weight cs + weight e"
    and "add_dom (Inr (src, dst, old, acc)) \<Longrightarrow> rewriteConstraints src dst old acc = Inr cs' \<Longrightarrow>
      total_weight cs' \<le> total_weight old + total_weight acc"
proof (induction cs e and src dst old acc arbitrary: cs' and cs'
    rule: addConstraintInternal_rewriteConstraints.pinduct)
  case (1 cs e)
  show ?case
  proof (cases "\<exists>l r. e = BinaryExpr And l r")
    case True
    then obtain l r where e: "e = BinaryExpr And l r" by blast
    have "rbind (addConstraintInternal cs l) (\<lambda>cs'. addConstraintInternal cs' r) = Inr cs'"
      using "1.prems" e addConstraintInternal.psimps [OF 1(1)] by simp
    then obtain c1 where "addConstraintInternal cs l = Inr c1" "addConstraintInternal c1 r = Inr cs'"
      by auto
    then show ?thesis using "1.IH"(1) [OF e refl] "1.IH"(2) [OF e refl] e by fastforce
  next
    case nAnd: False
    show ?thesis
    proof (cases "\<exists>w v r. e = BinaryExpr Eq (ConstantExpr w v) r")
      case True
      then obtain w v r where e: "e = BinaryExpr Eq (ConstantExpr w v) r" by blast
      have "rbind (rewriteConstraints r (w, v) cs []) (\<lambda>c1. Inr (c1 @ [e])) = Inr cs'"
        using "1.prems" e addConstraintInternal.psimps [OF 1(1)] by simp
      then obtain c1 where c1: "rewriteConstraints r (w, v) cs [] = Inr c1" "cs' = c1 @ [e]" by auto
      then show ?thesis using "1.IH"(3) [OF e refl refl c1(1)] e by simp
    next
      case False
      then show ?thesis
        using "1.prems" nAnd by (auto simp: addConstraintInternal.psimps [OF 1(1)]
            split: expr.splits kind.splits if_splits)
    qed
  qed
next
  case (2 src dst old acc)
  show ?case
  proof (cases old)
    case (Cons ce rest)
    note l = visit_replace_lighter [of ce src dst]
    show ?thesis
    proof (cases "visit_replace src dst ce = ce")
      case True
      then have "rewriteConstraints src dst rest (acc @ [ce]) = Inr cs'"
        using "2.prems" Cons rewriteConstraints.psimps [OF 2(1)] by (simp add: Let_def)
      then show ?thesis using True "2.IH"(3) [OF Cons refl] Cons by simp
    next
      case False
      have "rbind (addConstraintInternal acc (visit_replace src dst ce)) (rewriteConstraints src dst rest) = Inr cs'"
        using "2.prems" Cons False rewriteConstraints.psimps [OF 2(1)] by (simp add: Let_def)
      then obtain c1 where c1: "addConstraintInternal acc (visit_replace src dst ce) = Inr c1"
        "rewriteConstraints src dst rest c1 = Inr cs'" by auto
      then show ?thesis
        using "2.IH"(1) [OF Cons refl False c1(1)] "2.IH"(2) [OF Cons refl False c1(1) c1(2)]
          lighter_weight [OF l] Cons by simp
    qed
  qed (use "2.prems" rewriteConstraints.psimps [OF 2(1)] in simp)
qed


lemma add_total: "All add_dom"
proof (rule "addConstraintInternal_rewriteConstraints.termination" [of "inv_image (less_than <*lex*> less_than)
    (case_sum (\<lambda>(cs, e). (total_weight cs + weight e, 0))
      (\<lambda>(src, dst, old, acc). (total_weight old + total_weight acc, length old)))"], goal_cases)
  case 1 show ?case by (intro wf_inv_image wf_lex_prod wf_less_than)
next
  case (3 cs e k l r cs')
  then show ?case using add_weight_dom(1) [of cs l cs'] by simp
next
  case (6 src dst old acc ce rest x cs')
  then show ?case
    using add_weight_dom(1) [of acc "visit_replace src dst ce" cs'] visit_replace_lighter [of ce src dst]
    by (auto simp: lighter_def)
next
  case (5 src dst old acc ce rest x)
  then show ?case using visit_replace_lighter [of ce src dst] by (auto simp: lighter_def)
qed auto

termination addConstraintInternal
  by (rule add_total)

declare addConstraintInternal.simps [simp del] rewriteConstraints.simps [simp del]


subsection \<open>Models of a constraint set\<close>

definition sat :: "assignment \<Rightarrow> constraints \<Rightarrow> bool" where
  "sat \<sigma> cs \<longleftrightarrow> (\<forall>c \<in> set cs. eval \<sigma> c = 1)"

definition wf_constraint :: "expr \<Rightarrow> bool" where
  "wf_constraint c \<longleftrightarrow> wt c \<and> getWidth c = BoolWidth"

definition wf_constraints :: "constraints \<Rightarrow> bool" where
  "wf_constraints cs \<longleftrightarrow> (\<forall>c \<in> set cs. wf_constraint c)"

lemma sat_simps [simp]:
  "sat \<sigma> []" "sat \<sigma> (c # cs) \<longleftrightarrow> eval \<sigma> c = 1 \<and> sat \<sigma> cs"
  "sat \<sigma> (cs @ ds) \<longleftrightarrow> sat \<sigma> cs \<and> sat \<sigma> ds"
  by (auto simp: sat_def)

lemma wf_constraints_simps [simp]:
  "wf_constraints []" "wf_constraints (c # cs) \<longleftrightarrow> wf_constraint c \<and> wf_constraints cs"
  "wf_constraints (cs @ ds) \<longleftrightarrow> wf_constraints cs \<and> wf_constraints ds"
  by (auto simp: wf_constraints_def)

text \<open>Equal under every assignment of a set: what a replacement of equals by equals gives.\<close>

definition eq_under :: "assignment set \<Rightarrow> expr \<Rightarrow> expr \<Rightarrow> bool" where
  "eq_under S e e' \<longleftrightarrow> wt e' \<and> getWidth e' = getWidth e \<and> (\<forall>\<sigma> \<in> S. eval \<sigma> e' = eval \<sigma> e)"

lemma eq_under_refl: "wt e \<Longrightarrow> eq_under S e e"
  by (simp add: eq_under_def)

lemma eq_under_trans: "eq_under S a b \<Longrightarrow> eq_under S b c \<Longrightarrow> eq_under S a c"
  by (simp add: eq_under_def)

lemma sem_eq_under: "sem_eq e e' \<Longrightarrow> eq_under S e e'"
  by (simp add: eq_under_def sem_eq_def)

lemma eq_under_sem: "sem_eq p e' \<Longrightarrow> getWidth p = getWidth e \<Longrightarrow> (\<And>\<sigma>. \<sigma> \<in> S \<Longrightarrow> eval \<sigma> p = eval \<sigma> e) \<Longrightarrow>
  eq_under S e e'"
  by (simp add: eq_under_def sem_eq_def)

lemma rebuild_eq_under:
  assumes "wt e" "list_all2 (eq_under S) (kids e) ks"
  shows "eq_under S e (rebuild e ks)"
proof (cases e)
  case (SelectExpr c t f)
  then show ?thesis
    using assms by (auto simp: list_all2_Cons1 eq_under_def [of S c] eq_under_def [of S t] eq_under_def [of S f]
        intro!: eq_under_sem [OF Select_create_sound])
next
  case (ConcatExpr l r)
  then show ?thesis
    using assms by (auto simp: list_all2_Cons1 eq_under_def [of S l] eq_under_def [of S r]
        intro!: eq_under_sem [OF Concat_create_sound])
next
  case (ExtractExpr x off w)
  then show ?thesis
    using assms by (auto simp: list_all2_Cons1 eq_under_def [of S x] intro!: eq_under_sem [OF Extract_create_sound])
next
  case (ZExtExpr x w)
  then show ?thesis
    using assms by (auto simp: list_all2_Cons1 eq_under_def [of S x] intro!: eq_under_sem [OF ZExt_create_sound])
next
  case (SExtExpr x w)
  then show ?thesis
    using assms by (auto simp: list_all2_Cons1 eq_under_def [of S x] intro!: eq_under_sem [OF SExt_create_sound])
next
  case (NotExpr x)
  then show ?thesis
    using assms by (auto simp: list_all2_Cons1 eq_under_def [of S x] intro!: eq_under_sem [OF Not_create_sound])
next
  case (BinaryExpr k l r)
  then show ?thesis
    using assms by (auto simp: list_all2_Cons1 eq_under_def [of S l] eq_under_def [of S r]
        intro!: eq_under_sem [OF Binary_create_sem_eq])
qed (use assms in \<open>auto simp: list_all2_Cons1 eq_under_def Read_create_def\<close>)

lemma wt_kids: "wt e \<Longrightarrow> k \<in> set (kids e) \<Longrightarrow> wt k"
  by (cases e) auto

lemma eq_under_post:
  "eq_under S e e' \<Longrightarrow> eq_under S src c \<Longrightarrow> eq_under S e (if P \<and> e' = src then c else e')"
  by (auto simp: eq_under_def)

lemma visit_replace_eq_under:
  assumes "wt e" "\<forall>\<sigma> \<in> S. eval \<sigma> src = snd dst" "getWidth src = fst dst" "wt (ConstantExpr (fst dst) (snd dst))"
  shows "eq_under S e (visit_replace src dst e)"
  using assms
proof (induction src dst e rule: visit_replace.induct)
  case (1 src dst e)
  let ?ks = "map (visit_replace src dst) (kids e)"
  let ?e = "if ?ks \<noteq> kids e then rebuild e ?ks else e"
  have dst: "eq_under S src (ConstantExpr (fst dst) (snd dst))"
    using "1.prems" by (simp add: eq_under_def)
  show ?case
  proof (cases "is_ConstantExpr e \<or> e = src")
    case True
    then show ?thesis
      using dst "1.prems" by (subst visit_replace.simps) (auto intro: eq_under_refl)
  next
    case False
    then have "list_all2 (eq_under S) (kids e) ?ks"
      by (intro list_all2_map_self) (use 1 wt_kids in blast)
    then have e: "eq_under S e ?e"
      using "1.prems" rebuild_eq_under eq_under_refl by simp
    show ?thesis
      unfolding visit_replace.simps [of src dst e] Let_def
      using False eq_under_post [OF e dst] by (simp only: de_Morgan_disj if_False simp_thms)
  qed
qed

definition models :: "assignment set \<Rightarrow> replacements \<Rightarrow> bool" where
  "models S m \<longleftrightarrow> (\<forall>(e, w, v) \<in> set m. eq_under S e (ConstantExpr w v))"

lemma replacement_eq_under: "models S m \<Longrightarrow> replacement m e = Some c \<Longrightarrow> eq_under S e c"
  by (auto simp: replacement_def models_def dest!: map_of_SomeD)

lemma visit_replace2_eq_under:
  assumes "wt e" "models S m" shows "eq_under S e (visit_replace2 m e)"
  using assms
proof (induction m e rule: visit_replace2.induct)
  case (1 m e)
  let ?ks = "map (visit_replace2 m) (kids e)"
  let ?e = "if ?ks \<noteq> kids e then visit_replace2 m (rebuild e ?ks) else e"
  show ?case
  proof (cases "is_ConstantExpr e")
    case True
    then show ?thesis using "1.prems" by (subst visit_replace2.simps) (auto intro: eq_under_refl)
  next
    case nc: False
    have ks: "list_all2 (eq_under S) (kids e) ?ks"
      by (intro list_all2_map_self) (use 1 nc wt_kids in blast)
    have r: "eq_under S e (rebuild e ?ks)" using rebuild_eq_under [OF "1.prems"(1) ks] .
    then have "wt (rebuild e ?ks)" by (simp add: eq_under_def)
    then have e: "eq_under S e ?e"
      using "1.IH"(2) [OF nc refl] "1.prems" r eq_under_trans eq_under_refl by simp
    have "eq_under S ?e (if is_ConstantExpr ?e then ?e else case replacement m ?e of Some c \<Rightarrow> c | None \<Rightarrow> ?e)"
      using e replacement_eq_under [OF "1.prems"(2), of ?e] eq_under_refl [of ?e]
      by (auto simp: eq_under_def [of S e] split: option.splits)
    with e show ?thesis
      unfolding visit_replace2.simps [of m e] Let_def if_not_P [OF nc] by (rule eq_under_trans)
  qed
qed


subsection \<open>Adding a constraint conjoins it\<close>

lemma simplifyExpr_eq_under:
  assumes "wt e" "wf_constraints cs"
  shows "eq_under {\<sigma>. sat \<sigma> cs} e (simplifyExpr cs e)"
proof -
  have "eq_under {\<sigma>. sat \<sigma> cs} a (ConstantExpr w v)" if "c \<in> set cs" "equality_of c = (a, w, v)" for c a w v
  proof -
    have c: "wf_constraint c" "\<And>\<sigma>. sat \<sigma> cs \<Longrightarrow> eval \<sigma> c = 1"
      using that assms by (auto simp: wf_constraints_def sat_def)
    show ?thesis
    proof (cases "\<exists>w v r. c = BinaryExpr Eq (ConstantExpr w v) r")
      case True
      then show ?thesis
        using c that by (auto simp: equality_of_def eq_under_def wf_constraint_def split: if_splits)
    next
      case False
      then have "equality_of c = (c, 1, 1)"
        by (auto simp: equality_of_def split: expr.splits kind.splits)
      then show ?thesis using c that by (auto simp: eq_under_def wf_constraint_def)
    qed
  qed
  then have "models {\<sigma>. sat \<sigma> cs} (map equality_of cs)" by (force simp: models_def)
  then show ?thesis
    using visit_replace2_eq_under [OF assms(1)] eq_under_refl [OF assms(1)]
    by (auto simp: simplifyExpr_def)
qed

lemma simplifyExpr_wf:
  assumes "wf_constraint e" "wf_constraints cs"
  shows "wf_constraint (simplifyExpr cs e)"
  using simplifyExpr_eq_under [OF _ assms(2)] assms(1) by (simp add: wf_constraint_def eq_under_def)

text \<open>What a run of the two loops means, on success and on a failed assertion.\<close>

definition conjoins :: "(assignment \<Rightarrow> bool) \<Rightarrow> constraints res \<Rightarrow> (assignment \<Rightarrow> bool) \<Rightarrow> bool" where
  "conjoins H r P \<longleftrightarrow> (case r of
       Inl _ \<Rightarrow> (\<forall>\<sigma>. H \<sigma> \<longrightarrow> \<not> P \<sigma>)
     | Inr cs \<Rightarrow> wf_constraints cs \<and> (\<forall>\<sigma>. H \<sigma> \<longrightarrow> (sat \<sigma> cs \<longleftrightarrow> P \<sigma>)))"

lemma conjoins_Inr: "conjoins H (Inr cs) P \<longleftrightarrow> wf_constraints cs \<and> (\<forall>\<sigma>. H \<sigma> \<longrightarrow> (sat \<sigma> cs \<longleftrightarrow> P \<sigma>))"
  by (simp add: conjoins_def)

lemma conjoins_bind:
  assumes "conjoins H m P"
    and "\<And>cs. m = Inr cs \<Longrightarrow> wf_constraints cs \<Longrightarrow> conjoins H (f cs) (\<lambda>\<sigma>. sat \<sigma> cs \<and> Q \<sigma>)"
  shows "conjoins H (rbind m f) (\<lambda>\<sigma>. P \<sigma> \<and> Q \<sigma>)"
proof (cases m)
  case (Inr cs)
  with assms show ?thesis by (cases "f cs") (auto simp: conjoins_def)
qed (use assms in \<open>auto simp: conjoins_def\<close>)

lemma bool_and_one:
  assumes "wt l" "wt r" "getWidth l = 1" "getWidth r = 1"
  shows "eval \<sigma> (BinaryExpr And l r) = 1 \<longleftrightarrow> eval \<sigma> l = 1 \<and> eval \<sigma> r = 1"
  using eval_bool_disj [of l \<sigma>] eval_bool_disj [of r \<sigma>] assms by auto

lemma conjoins_weaken:
  "conjoins H r P \<Longrightarrow> (\<And>\<sigma>. H' \<sigma> \<Longrightarrow> H \<sigma>) \<Longrightarrow> (\<And>\<sigma>. H' \<sigma> \<Longrightarrow> P \<sigma> \<longleftrightarrow> P' \<sigma>) \<Longrightarrow> conjoins H' r P'"
  by (cases r) (auto simp: conjoins_def)

lemma addConstraintInternal_eqs:
  "addConstraintInternal cs (ConstantExpr w v) = (if isTrue (ConstantExpr w v) then Inr cs
     else Inl (AssertFailed ''attempt to add invalid (false) constraint''))"
  "addConstraintInternal cs (BinaryExpr And l r) =
     rbind (addConstraintInternal cs l) (\<lambda>cs'. addConstraintInternal cs' r)"
  "addConstraintInternal cs (BinaryExpr Eq (ConstantExpr w v) r) =
     rbind (rewriteConstraints r (w, v) cs []) (\<lambda>cs'. Inr (cs' @ [BinaryExpr Eq (ConstantExpr w v) r]))"
  "\<not> is_ConstantExpr e \<Longrightarrow> \<nexists>l r. e = BinaryExpr And l r \<Longrightarrow> \<nexists>w v r. e = BinaryExpr Eq (ConstantExpr w v) r \<Longrightarrow>
     addConstraintInternal cs e = Inr (cs @ [e])"
  by (subst addConstraintInternal.simps, auto split: expr.splits kind.splits)+

lemma rewriteConstraints_eqs:
  "rewriteConstraints src dst [] acc = Inr acc"
  "rewriteConstraints src dst (ce # rest) acc =
     (if visit_replace src dst ce \<noteq> ce
      then rbind (addConstraintInternal acc (visit_replace src dst ce)) (rewriteConstraints src dst rest)
      else rewriteConstraints src dst rest (acc @ [ce]))"
  by (subst rewriteConstraints.simps, simp add: Let_def)+

lemma add_conjoins:
  shows "wf_constraints cs \<Longrightarrow> wf_constraint e \<Longrightarrow>
      conjoins (\<lambda>_. True) (addConstraintInternal cs e) (\<lambda>\<sigma>. sat \<sigma> cs \<and> eval \<sigma> e = 1)"
    and "wf_constraints old \<Longrightarrow> wf_constraints acc \<Longrightarrow> wt src \<Longrightarrow> getWidth src = fst dst \<Longrightarrow>
      wt (ConstantExpr (fst dst) (snd dst)) \<Longrightarrow>
      conjoins (\<lambda>\<sigma>. eval \<sigma> src = snd dst) (rewriteConstraints src dst old acc) (\<lambda>\<sigma>. sat \<sigma> acc \<and> sat \<sigma> old)"
proof (induction cs e and src dst old acc rule: addConstraintInternal_rewriteConstraints.induct)
  case (1 cs e)
  consider (const) w v where "e = ConstantExpr w v" | (And) l r where "e = BinaryExpr And l r"
    | (Eq) w v r where "e = BinaryExpr Eq (ConstantExpr w v) r"
    | (other) "addConstraintInternal cs e = Inr (cs @ [e])"
    using addConstraintInternal_eqs(4) [of e cs] by (cases e) auto
  then show ?case
  proof cases
    case const
    then show ?thesis
      using "1.prems" take_bit_1_cases [of v]
      by (auto simp: addConstraintInternal_eqs conjoins_def isTrue_def wf_constraint_def)
  next
    case And
    then have w: "wf_constraint l" "wf_constraint r" using "1.prems" by (auto simp: wf_constraint_def)
    have "conjoins (\<lambda>_. True) (addConstraintInternal cs e) (\<lambda>\<sigma>. (sat \<sigma> cs \<and> eval \<sigma> l = 1) \<and> eval \<sigma> r = 1)"
      unfolding And addConstraintInternal_eqs
      using "1.IH"(1) [OF And refl "1.prems"(1) w(1)] "1.IH"(2) [OF And refl _ _ w(2)] by (rule conjoins_bind)
    then show ?thesis
      by (rule conjoins_weaken) (use bool_and_one [of l r] w And in \<open>auto simp: wf_constraint_def\<close>)
  next
    case Eq
    then have w: "wt r" "getWidth r = w" "wt (ConstantExpr w v)" using "1.prems" by (auto simp: wf_constraint_def)
    have rw: "conjoins (\<lambda>\<sigma>. eval \<sigma> r = v) (rewriteConstraints r (w, v) cs []) (\<lambda>\<sigma>. sat \<sigma> [] \<and> sat \<sigma> cs)"
      using "1.IH"(3) [OF Eq refl refl "1.prems"(1)] w by simp
    then show ?thesis
      using "1.prems" unfolding Eq addConstraintInternal_eqs
      by (cases "rewriteConstraints r (w, v) cs []") (auto simp: conjoins_def)
  next
    case other
    then show ?thesis using "1.prems" by (auto simp: conjoins_def)
  qed
next
  case (2 src dst old acc)
  show ?case
  proof (cases old)
    case Nil
    then show ?thesis using "2.prems" by (simp add: rewriteConstraints_eqs conjoins_def)
  next
    case (Cons ce rest)
    let ?e = "visit_replace src dst ce"
    have ce: "wf_constraint ce" "wf_constraints rest" using "2.prems" Cons by simp_all
    show ?thesis
    proof (cases "?e = ce")
      case True
      have "conjoins (\<lambda>\<sigma>. eval \<sigma> src = snd dst) (rewriteConstraints src dst rest (acc @ [ce]))
          (\<lambda>\<sigma>. sat \<sigma> (acc @ [ce]) \<and> sat \<sigma> rest)"
        using "2.IH"(3) [OF Cons refl] True "2.prems" ce by simp
      then show ?thesis
        using True Cons by (auto simp: rewriteConstraints_eqs elim!: conjoins_weaken)
    next
      case False
      have ev: "eq_under {\<sigma>. eval \<sigma> src = snd dst} ce ?e"
        using visit_replace_eq_under [of ce _ src dst] "2.prems" ce by (simp add: wf_constraint_def)
      then have we: "wf_constraint ?e" using ce by (simp add: eq_under_def wf_constraint_def)
      have "conjoins (\<lambda>\<sigma>. eval \<sigma> src = snd dst)
          (rbind (addConstraintInternal acc ?e) (rewriteConstraints src dst rest))
          (\<lambda>\<sigma>. (sat \<sigma> acc \<and> eval \<sigma> ?e = 1) \<and> sat \<sigma> rest)"
      proof (rule conjoins_bind)
        show "conjoins (\<lambda>\<sigma>. eval \<sigma> src = snd dst) (addConstraintInternal acc ?e)
            (\<lambda>\<sigma>. sat \<sigma> acc \<and> eval \<sigma> ?e = 1)"
          by (rule conjoins_weaken [OF "2.IH"(1) [OF Cons refl False "2.prems"(2) we]]) auto
        show "conjoins (\<lambda>\<sigma>. eval \<sigma> src = snd dst) (rewriteConstraints src dst rest cs)
            (\<lambda>\<sigma>. sat \<sigma> cs \<and> sat \<sigma> rest)"
          if "addConstraintInternal acc ?e = Inr cs" "wf_constraints cs" for cs
          using "2.IH"(2) [OF Cons refl False that(1) ce(2) that(2)] "2.prems" by blast
      qed
      then show ?thesis
        using False Cons ev unfolding Cons rewriteConstraints_eqs
        by (auto simp: eq_under_def elim!: conjoins_weaken)
    qed
  qed
qed


lemma addConstraint_conjoins:
  assumes "wf_constraints cs" "wf_constraint e"
  shows "conjoins (\<lambda>_. True) (addConstraint cs e) (\<lambda>\<sigma>. sat \<sigma> cs \<and> eval \<sigma> e = 1)"
  unfolding addConstraint_def
  by (rule conjoins_weaken [OF add_conjoins(1) [OF assms(1) simplifyExpr_wf [OF assms(2,1)]]])
    (use simplifyExpr_eq_under [OF _ assms(1), of e] assms(2) in \<open>auto simp: eq_under_def wf_constraint_def\<close>)

lemma addConstraint_Inr:
  assumes "addConstraint cs e = Inr cs'" "wf_constraints cs" "wf_constraint e"
  shows "wf_constraints cs'" "sat \<sigma> cs' \<longleftrightarrow> sat \<sigma> cs \<and> eval \<sigma> e = 1"
  using addConstraint_conjoins [OF assms(2,3)] assms(1) by (simp_all add: conjoins_def)

lemma addConstraint_sat:
  assumes "wf_constraints cs" "wf_constraint e" "sat \<sigma> cs" "eval \<sigma> e = 1"
  obtains cs' where "addConstraint cs e = Inr cs'"
  using addConstraint_conjoins [OF assms(1,2)] assms(3,4) by (cases "addConstraint cs e") (auto simp: conjoins_def)

text \<open>
  C17: adding a constraint conjoins it.  When \<open>addConstraint\<close> returns, the new constraint set is well
  formed and is satisfied by exactly the assignments that satisfy the old set and the added
  expression, whatever was rewritten on the way; when its assertion fails, no assignment satisfies
  both.
\<close>
theorem addConstraint_correct:
  assumes "wf_constraints cs" "wf_constraint e"
  shows "case addConstraint cs e of
      Inr cs' \<Rightarrow> wf_constraints cs' \<and> (\<forall>\<sigma>. sat \<sigma> cs' \<longleftrightarrow> sat \<sigma> cs \<and> eval \<sigma> e = 1)
    | Inl _ \<Rightarrow> \<forall>\<sigma>. \<not> (sat \<sigma> cs \<and> eval \<sigma> e = 1)"
  using addConstraint_conjoins [OF assms] by (simp add: conjoins_def split: sum.splits)

theorem addConstraint_correct_witness:
  "case addConstraint [BinaryExpr Ult demo_read (ConstantExpr 16 9)] (BinaryExpr Eq (ConstantExpr 16 4) demo_read) of
      Inr cs' \<Rightarrow> sat (\<lambda>a i. 4) cs'
    | Inl _ \<Rightarrow> False"
proof -
  let ?cs = "[BinaryExpr Ult demo_read (ConstantExpr 16 9)]"
  let ?e = "BinaryExpr Eq (ConstantExpr 16 4) demo_read"
  have "wf_constraints ?cs" "wf_constraint ?e" by (simp_all add: wf_constraint_def demo_read_def)
  from addConstraint_correct [OF this] have
    "case addConstraint ?cs ?e of
      Inr cs' \<Rightarrow> wf_constraints cs' \<and> (\<forall>\<sigma>. sat \<sigma> cs' \<longleftrightarrow> sat \<sigma> ?cs \<and> eval \<sigma> ?e = 1)
    | Inl _ \<Rightarrow> \<forall>\<sigma>. \<not> (sat \<sigma> ?cs \<and> eval \<sigma> ?e = 1)" .
  moreover have "sat (\<lambda>a i. 4) ?cs \<and> eval (\<lambda>a i. 4) ?e = 1" by (simp add: demo_read_def)
  ultimately show ?thesis by (cases "addConstraint ?cs ?e") (auto dest: spec [of _ "\<lambda>a i. 4"])
qed

text \<open>
  C21: simplifying an expression under a constraint set does not change its value in any model of
  the set.
\<close>
theorem simplifyExpr_correct:
  assumes "wt e" "wf_constraints cs" "sat \<sigma> cs"
  shows "wt (simplifyExpr cs e) \<and> getWidth (simplifyExpr cs e) = getWidth e \<and>
    eval \<sigma> (simplifyExpr cs e) = eval \<sigma> e"
  using simplifyExpr_eq_under [OF assms(1,2)] assms(3) by (simp add: eq_under_def)

theorem simplifyExpr_correct_witness:
  "eval (\<lambda>a i. 4) (simplifyExpr [BinaryExpr Eq (ConstantExpr 16 4) demo_read]
     (BinaryExpr Add (ConstantExpr 16 1) demo_read)) = 5"
  using simplifyExpr_correct [of "BinaryExpr Add (ConstantExpr 16 1) demo_read"
      "[BinaryExpr Eq (ConstantExpr 16 4) demo_read]" "\<lambda>a i. 4"]
  by (simp add: wf_constraint_def demo_read_def)

end
