(* ===== verification/Klee_Solver.thy ===== *)
theory Klee_Solver
  imports Klee_Constraints
begin

text \<open>
  The solver front end of \<open>lib/Solver/Solver.cpp\<close>.  The decision procedure behind it (\<open>SolverImpl\<close>:
  STP below KLEE's caching layers) is a parameter: a record of the functions the front end calls,
  each of which returns \<open>None\<close> for a failed query.

  The locale \<open>sound_solver\<close> is the contract that \<open>include/klee/Solver/Solver.h\<close> documents: a query
  that succeeds reports whether the expression follows from the constraints.  Its lemmas give the
  meaning of \<open>mustBeTrue\<close>, \<open>mayBeTrue\<close> and \<open>evaluate\<close> to the clients.  It is interpreted on the
  solver that answers every query by the definition of validity.
\<close>

datatype validity = VTrue | VFalse | VUnknown

record solver_impl =
  computeTruth :: "constraints \<Rightarrow> expr \<Rightarrow> bool option"
  computeValidity :: "constraints \<Rightarrow> expr \<Rightarrow> validity option"

definition negateExpr :: "expr \<Rightarrow> expr" where
  "negateExpr e = createIsZero e"

definition evaluate :: "solver_impl \<Rightarrow> constraints \<Rightarrow> expr \<Rightarrow> validity option res" where
  "evaluate S cs e =
     (if getWidth e \<noteq> BoolWidth then Inl (AssertFailed ''Invalid expression type!'')
      else if is_ConstantExpr e then Inr (Some (if isTrue e then VTrue else VFalse))
      else Inr (computeValidity S cs e))"

definition mustBeTrue :: "solver_impl \<Rightarrow> constraints \<Rightarrow> expr \<Rightarrow> bool option res" where
  "mustBeTrue S cs e =
     (if getWidth e \<noteq> BoolWidth then Inl (AssertFailed ''Invalid expression type!'')
      else Inr (computeTruth S cs e))"

definition mustBeFalse :: "solver_impl \<Rightarrow> constraints \<Rightarrow> expr \<Rightarrow> bool option res" where
  "mustBeFalse S cs e = mustBeTrue S cs (negateExpr e)"

definition mayBeTrue :: "solver_impl \<Rightarrow> constraints \<Rightarrow> expr \<Rightarrow> bool option res" where
  "mayBeTrue S cs e = rbind (mustBeFalse S cs e) (\<lambda>r. Inr (map_option Not r))"

definition mayBeFalse :: "solver_impl \<Rightarrow> constraints \<Rightarrow> expr \<Rightarrow> bool option res" where
  "mayBeFalse S cs e = rbind (mustBeTrue S cs e) (\<lambda>r. Inr (map_option Not r))"

text \<open>klc3 asserts the success of every query.\<close>

definition query :: "'a option res \<Rightarrow> 'a res" where
  "query r = rbind r (\<lambda>a. case a of
       None \<Rightarrow> Inl (AssertFailed ''Unexpected solver failure'') | Some b \<Rightarrow> Inr b)"

subsection \<open>The contract of the decision procedure\<close>

definition follows :: "constraints \<Rightarrow> expr \<Rightarrow> bool" where
  "follows cs e \<longleftrightarrow> (\<forall>\<sigma>. sat \<sigma> cs \<longrightarrow> eval \<sigma> e = 1)"

definition compatible :: "constraints \<Rightarrow> expr \<Rightarrow> bool" where
  "compatible cs e \<longleftrightarrow> (\<exists>\<sigma>. sat \<sigma> cs \<and> eval \<sigma> e = 1)"

definition refuted :: "constraints \<Rightarrow> expr \<Rightarrow> bool" where
  "refuted cs e \<longleftrightarrow> (\<forall>\<sigma>. sat \<sigma> cs \<longrightarrow> eval \<sigma> e = 0)"

lemma refuted_iff:
  "wf_constraint e \<Longrightarrow> refuted cs e \<longleftrightarrow> \<not> compatible cs e"
  using eval_bool_disj [of e] unfolding refuted_def compatible_def wf_constraint_def by fastforce

locale sound_solver =
  fixes S :: solver_impl
  assumes truth: "wf_constraints cs \<Longrightarrow> wf_constraint e \<Longrightarrow> computeTruth S cs e = Some (follows cs e)"
    and validity: "wf_constraints cs \<Longrightarrow> wf_constraint e \<Longrightarrow> computeValidity S cs e =
      Some (if follows cs e then VTrue else if refuted cs e then VFalse else VUnknown)"
begin

lemma mustBeTrue_iff:
  "wf_constraints cs \<Longrightarrow> wf_constraint e \<Longrightarrow> query (mustBeTrue S cs e) = Inr (follows cs e)"
  by (simp add: query_def mustBeTrue_def truth wf_constraint_def)

lemma mustBeFalse_iff:
  assumes "wf_constraints cs" "wf_constraint e"
  shows "query (mustBeFalse S cs e) = Inr (refuted cs e)"
proof -
  have n: "wf_constraint (createIsZero e)" "\<And>\<sigma>. eval \<sigma> (createIsZero e) = 1 - eval \<sigma> e"
    using assms createIsZero_bool by (auto simp: wf_constraint_def)
  then have "follows cs (createIsZero e) \<longleftrightarrow> refuted cs e" by (auto simp: follows_def refuted_def)
  then show ?thesis using mustBeTrue_iff [OF assms(1) n(1)] by (simp add: mustBeFalse_def negateExpr_def)
qed

lemma mayBeTrue_iff:
  assumes "wf_constraints cs" "wf_constraint e"
  shows "query (mayBeTrue S cs e) = Inr (compatible cs e)"
proof -
  obtain b where b: "mustBeFalse S cs e = Inr (Some b)" "b = refuted cs e"
    using mustBeFalse_iff [OF assms] by (cases "mustBeFalse S cs e") (auto simp: query_def split: option.splits)
  then show ?thesis using refuted_iff [OF assms(2)] by (simp add: mayBeTrue_def query_def)
qed

lemma evaluate_iff:
  assumes "wf_constraints cs" "wf_constraint e" "\<exists>\<sigma>. sat \<sigma> cs"
  shows "query (evaluate S cs e) =
    Inr (if follows cs e then VTrue else if refuted cs e then VFalse else VUnknown)"
proof (cases "is_ConstantExpr e")
  case True
  then have "cValue e = 0 \<or> cValue e = 1"
    using assms(2) eval_bool_disj [of e] eval_const [OF True] by (auto simp: wf_constraint_def)
  then show ?thesis
    using True assms
    by (auto simp: evaluate_def query_def wf_constraint_def follows_def refuted_def eval_const const_tests)
next
  case False
  then show ?thesis using assms by (simp add: evaluate_def query_def validity wf_constraint_def)
qed

end

text \<open>The solver that answers by definition.\<close>

definition reference_solver :: solver_impl where
  "reference_solver = \<lparr>computeTruth = (\<lambda>cs e. Some (follows cs e)),
     computeValidity = (\<lambda>cs e. Some (if follows cs e then VTrue else if refuted cs e then VFalse else VUnknown))\<rparr>"

interpretation ref_solver: sound_solver reference_solver
  by unfold_locales (simp_all add: reference_solver_def)

end
