(* ===== verification/Klc3_Common.thy ===== *)
theory Klc3_Common
  imports Klee_Solver "HOL-Library.Sublist"
begin

text \<open>
  The shared helpers of klc3 (\<open>include/klc3/Common.h\<close>, \<open>lib/klc3/Common.cpp\<close>): registers, the
  passage between 16-bit words and constant expressions, and the string helpers.

  An LC-3 word is a \<^typ>\<open>16 word\<close>, so address arithmetic wraps as \<open>uint16_t\<close> does; an expression
  evaluates to an \<^typ>\<open>int\<close>.  \<open>buildConstant\<close> and \<open>castConstant\<close> connect the two.

  Shown: \<open>castConstant\<close> inverts \<open>buildConstant\<close>, a hexadecimal rendering determines the number,
  \<open>strip\<close> removes exactly the surrounding white space, and the two padding functions put the
  filler on the side opposite to their names.
\<close>

unbundle bit_operations_syntax

type_synonym addr = "16 word"

subsection \<open>Registers\<close>

type_synonym reg = nat

abbreviation R_R7 :: reg where "R_R7 \<equiv> 7"
abbreviation R_PC :: reg where "R_PC \<equiv> 8"
abbreviation R_IR :: reg where "R_IR \<equiv> 9"
abbreviation NUM_REGS :: reg where "NUM_REGS \<equiv> 11"

subsection \<open>Constants\<close>

definition buildConstant :: "16 word \<Rightarrow> expr" where
  "buildConstant v = ConstantExpr_alloc (uint v) Int16"

definition castConstant :: "expr \<Rightarrow> 16 word res" where
  "castConstant e = (case e of
       ConstantExpr w v \<Rightarrow>
         if w \<le> Int16 then Inr (word_of_int v) else Inl (AssertFailed ''Value may be out of range!'')
     | _ \<Rightarrow> Inl (NullDeref ''castConstant''))"

lemma take_bit_uint16 [simp]: "take_bit 16 (uint (v :: 16 word)) = uint v"
  by (simp add: bintr_uint)

lemma buildConstant_sound [simp]:
  "wt (buildConstant v)" "getWidth (buildConstant v) = Int16" "eval \<sigma> (buildConstant v) = uint v"
  "is_ConstantExpr (buildConstant v)"
  by (simp_all add: buildConstant_def ConstantExpr_alloc_def)

lemma castConstant_buildConstant [simp]: "castConstant (buildConstant v) = Inr v"
  by (simp add: castConstant_def buildConstant_def ConstantExpr_alloc_def)

lemma castConstant_const:
  assumes "is_ConstantExpr e" "wt e" "getWidth e = Int16"
  shows "castConstant e = Inr (word_of_int (eval \<sigma> e))" "uint (word_of_int (eval \<sigma> e) :: 16 word) = eval \<sigma> e"
  using assms by (auto simp: castConstant_def uint_word_of_int take_bit_eq_mod elim!: const_cases)

lemma buildConstant_inj: "buildConstant v = buildConstant w \<longleftrightarrow> v = w"
  using castConstant_buildConstant by (metis Inr_inject)

subsection \<open>Hexadecimal\<close>

definition hexTable :: string where
  "hexTable = ''0123456789ABCDEF''"

definition to4DigitHex :: "16 word \<Rightarrow> string" where
  "to4DigitHex val =
     [hexTable ! unat (drop_bit 12 val), hexTable ! unat (drop_bit 8 val AND 0xF),
      hexTable ! unat (drop_bit 4 val AND 0xF), hexTable ! unat (val AND 0xF)]"

definition toLC3Hex :: "16 word \<Rightarrow> string" where
  "toLC3Hex val =
     [CHR ''x'', hexTable ! unat (drop_bit 12 val), hexTable ! unat (drop_bit 8 val AND 0xF),
      hexTable ! unat (drop_bit 4 val AND 0xF), hexTable ! unat (val AND 0xF)]"

subsection \<open>Strings\<close>

definition isspace :: "char \<Rightarrow> bool" where
  "isspace c \<longleftrightarrow> c \<in> {CHR '' '', CHR 0x09, CHR 0x0A, CHR 0x0B, CHR 0x0C, CHR 0x0D}"

text \<open>\<open>strip\<close>: two index loops, then \<open>substr\<close>.\<close>

fun strip_lead :: "string \<Rightarrow> nat \<Rightarrow> nat" where
  "strip_lead [] lead = lead"
| "strip_lead (c # cs) lead = (if isspace c then strip_lead cs (Suc lead) else lead)"

fun strip_trail :: "string \<Rightarrow> nat \<Rightarrow> nat \<Rightarrow> nat" where
  "strip_trail s lead 0 = 0"
| "strip_trail s lead (Suc n) =
     (if lead < Suc n \<and> isspace (s ! n) then strip_trail s lead n else Suc n)"

definition strip :: "string \<Rightarrow> string" where
  "strip s = (let lead = strip_lead s 0; trail = strip_trail s lead (length s)
              in take (trail - lead) (drop lead s))"

text \<open>\<open>std::right\<close> puts the fill characters before the text, \<open>std::left\<close> after it.\<close>

definition rightPadding :: "string \<Rightarrow> nat \<Rightarrow> char \<Rightarrow> string" where
  "rightPadding s w c = replicate (w - length s) c @ s"

definition leftPadding :: "string \<Rightarrow> nat \<Rightarrow> char \<Rightarrow> string" where
  "leftPadding s w c = s @ replicate (w - length s) c"

definition escapeChar :: "char \<Rightarrow> string" where
  "escapeChar c =
     (if c = CHR 0x0A then [CHR 0x5C, CHR ''n'']
      else if c = CHR 0x5C then [CHR 0x5C, CHR 0x5C]
      else [c])"

definition escapeString :: "string \<Rightarrow> string" where
  "escapeString s = concat (map escapeChar s)"

definition startswith :: "string \<Rightarrow> string \<Rightarrow> bool" where
  "startswith s p \<longleftrightarrow> length p \<le> length s \<and> take (length p) s = p"

definition endswith :: "string \<Rightarrow> string \<Rightarrow> bool" where
  "endswith s p \<longleftrightarrow> length p \<le> length s \<and> drop (length s - length p) s = p"

fun join :: "string \<Rightarrow> string list \<Rightarrow> string" where
  "join d [] = []"
| "join d [p] = p"
| "join d (p # q # ps) = p @ d @ join d (q # ps)"


subsection \<open>Facts about the helpers\<close>

definition hexDigit :: "char \<Rightarrow> nat" where
  "hexDigit c = length (takeWhile (\<lambda>d. d \<noteq> c) hexTable)"

definition fromHex :: "string \<Rightarrow> 16 word" where
  "fromHex ds = of_nat (foldl (\<lambda>acc c. 16 * acc + hexDigit c) 0 ds)"

lemma hexDigit_hexTable: "n < 16 \<Longrightarrow> hexDigit (hexTable ! n) = n"
proof -
  have "\<forall>n \<in> set [0..<16]. hexDigit (hexTable ! n) = n" by code_simp
  then show "n < 16 \<Longrightarrow> hexDigit (hexTable ! n) = n" by auto
qed

lemma unat_nibble: "unat (drop_bit n v AND 0xF) = (unat v div 2 ^ n) mod 16" for v :: "16 word"
proof -
  have "drop_bit n v AND 0xF = take_bit 4 (drop_bit n v)" by (simp add: take_bit_eq_mask mask_eq_exp_minus_1)
  then have "unat (drop_bit n v AND 0xF) = take_bit 4 (drop_bit n (unat v))"
    by (simp only: unsigned_take_bit_eq unat_drop_bit_eq)
  then show ?thesis by (simp only: take_bit_eq_mod drop_bit_eq_div) simp
qed

lemma unat_top_nibble: "unat (drop_bit 12 v) = unat v div 4096" for v :: "16 word"
  using unat_drop_bit_eq [of 12 v] by (simp add: drop_bit_eq_div)

lemma nibbles: "16 * (16 * (16 * (n div 4096) + (n div 256) mod 16) + (n div 16) mod 16) + n mod 16 = n" for n :: nat
proof -
  have "16 * (n div 4096) + (n div 256) mod 16 = n div 256" "16 * (n div 256) + (n div 16) mod 16 = n div 16"
    using mult_div_mod_eq [of 16 "n div 256"] mult_div_mod_eq [of 16 "n div 16"]
    by (simp_all add: div_mult2_eq [symmetric])
  then show ?thesis by (simp only: mult_div_mod_eq)
qed

lemma fromHex_to4DigitHex: "fromHex (to4DigitHex v) = v"
proof -
  have l: "unat v < 65536" using unsigned_less [of v, where 'a = nat] by simp
  then have "unat v div 4096 < 16" by simp
  then show ?thesis
    using unat_nibble [of 0 v] unat_nibble [of 4 v] unat_nibble [of 8 v] nibbles [of "unat v"]
    by (simp add: fromHex_def to4DigitHex_def hexDigit_hexTable unat_top_nibble)
qed

lemma strip_lead_append:
  "strip_lead s n = n + length (takeWhile isspace s)"
  by (induction s n rule: strip_lead.induct) auto

lemma strip_trail_spec:
  assumes "lead \<le> n" "n \<le> length s" "lead < n \<longrightarrow> \<not> isspace (s ! lead)"
  shows "take (strip_trail s lead n - lead) (drop lead s) = rev (dropWhile isspace (rev (take (n - lead) (drop lead s))))"
    (is "?l = ?r n")
  using assms
proof (induction s lead n rule: strip_trail.induct)
  case (2 s lead n)
  show ?case
  proof (cases "lead < Suc n")
    case True
    then have "take (Suc n - lead) (drop lead s) = take (n - lead) (drop lead s) @ [s ! n]"
      using "2.prems" by (simp add: Suc_diff_le take_Suc_conv_app_nth)
    then show ?thesis using True 2 by (auto simp: Suc_diff_le)
  qed (use 2 in auto)
qed simp

lemma strip_spec: "strip s = rev (dropWhile isspace (rev (dropWhile isspace s)))"
proof -
  let ?l = "length (takeWhile isspace s)"
  have "?l < length s \<longrightarrow> \<not> isspace (s ! ?l)" by (simp add: nth_length_takeWhile)
  then have "strip s = rev (dropWhile isspace (rev (take (length s - ?l) (drop ?l s))))"
    using strip_trail_spec [of ?l "length s" s] length_takeWhile_le [of isspace s]
    by (simp add: strip_def Let_def strip_lead_append)
  then show ?thesis by (simp add: dropWhile_eq_drop)
qed


fun unescape :: "string \<Rightarrow> string" where
  "unescape [] = []"
| "unescape [c] = [c]"
| "unescape (c # d # s) =
     (if c = CHR 0x5C then (if d = CHR ''n'' then CHR 0x0A else d) # unescape s else c # unescape (d # s))"

lemma unescape_Cons: "c \<noteq> CHR 0x5C \<Longrightarrow> unescape (c # s) = c # unescape s"
  by (cases s) auto

lemma unescape_escapeChar: "unescape (escapeChar c @ s) = c # unescape s"
  by (simp add: escapeChar_def unescape_Cons)

subsection \<open>Properties\<close>

text \<open>
  the address rendering used in every report, \<open>toLC3Hex\<close>, is \<open>x\<close> followed by four digits
  from which the address can be read back.
\<close>
theorem toLC3Hex_roundtrip:
  "toLC3Hex v = CHR ''x'' # to4DigitHex v \<and> length (to4DigitHex v) = 4 \<and> fromHex (to4DigitHex v) = v"
  by (simp add: toLC3Hex_def fromHex_to4DigitHex) (simp add: to4DigitHex_def)

text \<open>
  \<open>strip\<close> removes the white space at both ends and nothing else.
\<close>
theorem strip_correct:
  "\<exists>pre post. s = pre @ strip s @ post \<and> (\<forall>c \<in> set (pre @ post). isspace c) \<and>
     (strip s \<noteq> [] \<longrightarrow> \<not> isspace (hd (strip s)) \<and> \<not> isspace (last (strip s)))"
proof -
  let ?d = "dropWhile isspace s"
  have "?d = rev (dropWhile isspace (rev ?d)) @ rev (takeWhile isspace (rev ?d))"
    by (metis rev_append rev_rev_ident takeWhile_dropWhile_id)
  then have split: "s = takeWhile isspace s @ strip s @ rev (takeWhile isspace (rev ?d))"
    unfolding strip_spec by (metis takeWhile_dropWhile_id)
  have "strip s \<noteq> [] \<Longrightarrow> hd (strip s) = hd ?d"
    using \<open>?d = _\<close> by (metis hd_append2 strip_spec)
  moreover have "strip s \<noteq> [] \<Longrightarrow> ?d \<noteq> []"
    by (metis strip_spec rev.simps(1) dropWhile.simps(1))
  ultimately have "strip s \<noteq> [] \<Longrightarrow> \<not> isspace (hd (strip s))" using hd_dropWhile [of isspace s] by auto
  moreover have "strip s \<noteq> [] \<Longrightarrow> \<not> isspace (last (strip s))"
    using hd_dropWhile [of isspace "rev ?d"] by (simp add: strip_spec last_rev)
  ultimately show ?thesis using split by (auto dest: set_takeWhileD intro!: exI)
qed

theorem strip_correct_witness:
  "strip '' ab '' = ''ab'' \<and>
   (\<exists>pre post. '' ab '' = pre @ strip '' ab '' @ post \<and> (\<forall>c \<in> set (pre @ post). isspace c) \<and>
     (strip '' ab '' \<noteq> [] \<longrightarrow> \<not> isspace (hd (strip '' ab '')) \<and> \<not> isspace (last (strip '' ab ''))))"
  using strip_correct [of "'' ab ''"] by (simp add: strip_def strip_lead_append isspace_def numeral_eq_Suc)

text \<open>
  \<open>escapeString\<close> loses nothing (an escaped string can be read back), but it emits a double
  quote unescaped, although it has a case for it.
\<close>
theorem escapeString_roundtrip:
  "unescape (escapeString s) = s \<and> escapeString [CHR 0x22] = [CHR 0x22]"
proof -
  have "unescape (escapeString s) = s"
    by (induction s) (simp_all add: escapeString_def unescape_escapeChar)
  then show ?thesis by (simp add: escapeString_def escapeChar_def)
qed

end
