(* ===== verification/Klc3_MemoryValue.thy ===== *)
theory Klc3_MemoryValue
  imports Klc3_Common
begin

text \<open>
  Values in LC-3 memory (\<open>include/klc3/Core/MemoryValue.h\<close>, \<open>lib/klc3/Core/MemoryValue.cpp\<close>).

  A \<open>MemValue\<close> is a record; its \<open>mv_type\<close> says whether it is an \<open>InstValue\<close> or a \<open>DataValue\<close>.  The
  contents \<open>mv_e\<close> are \<open>None\<close> where the source stores a null expression (bits of an uninitialized
  register).  An instruction carries the entry \<open>mv_def\<close> of the instruction table that
  \<open>matchInst\<close> found; the pointer to its flow graph node belongs to the flow analysis and is left
  out.  The names of the instructions get a prefix, since \<open>AND\<close> and \<open>NOT\<close> are operators here.

  Shown: the accessors extract and sign-extend the fields as the ISA defines them, decoding picks
  the entry of the opcode, and which words decode to nothing or fall through to \<open>RTI\<close>.
\<close>

unbundle bit_operations_syntax

subsection \<open>The instruction table\<close>

datatype InstID =
    I_ADD | I_ADDi | I_AND | I_ANDi | I_BR | I_JMP | I_JSR | I_JSRR | I_LD | I_LDI | I_LDR | I_LEA
  | I_NOT | I_ST | I_STI | I_STR | I_TRAP | I_RTI

datatype InstFormat =
    FMT_NONE | FMT_RRR | FMT_RRI | FMT_CL | FMT_R | FMT_L | FMT_RL | FMT_RRI6 | FMT_RR | FMT_V
  | FMT_A | FMT_16

datatype InstFlag = FLG_NONE | FLG_SUBROUTINE | FLG_RETURN

record inst_def =
  id_id :: InstID
  id_name :: string
  id_format :: InstFormat
  id_mask :: "16 word"
  id_match :: "16 word"
  id_flags :: InstFlag

definition mk_def :: "InstID \<Rightarrow> string \<Rightarrow> InstFormat \<Rightarrow> 16 word \<Rightarrow> 16 word \<Rightarrow> InstFlag \<Rightarrow> inst_def" where
  "mk_def i n f m t g =
     \<lparr>id_id = i, id_name = n, id_format = f, id_mask = m, id_match = t, id_flags = g\<rparr>"

definition INST_DEF :: "inst_def list" where
  "INST_DEF = [
     mk_def I_ADD ''ADD'' FMT_RRR 0xF038 0x1000 FLG_NONE,
     mk_def I_ADDi ''ADD'' FMT_RRI 0xF020 0x1020 FLG_NONE,
     mk_def I_AND ''AND'' FMT_RRR 0xF038 0x5000 FLG_NONE,
     mk_def I_ANDi ''AND'' FMT_RRI 0xF020 0x5020 FLG_NONE,
     mk_def I_BR ''BR'' FMT_CL 0xF000 0x0000 FLG_NONE,
     mk_def I_JMP ''JMP'' FMT_R 0xFE3F 0xC000 FLG_NONE,
     mk_def I_JSR ''JSR'' FMT_L 0xF800 0x4800 FLG_SUBROUTINE,
     mk_def I_JSRR ''JSRR'' FMT_R 0xFE3F 0x4000 FLG_SUBROUTINE,
     mk_def I_LD ''LD'' FMT_RL 0xF000 0x2000 FLG_NONE,
     mk_def I_LDI ''LDI'' FMT_RL 0xF000 0xA000 FLG_NONE,
     mk_def I_LDR ''LDR'' FMT_RRI6 0xF000 0x6000 FLG_NONE,
     mk_def I_LEA ''LEA'' FMT_RL 0xF000 0xE000 FLG_NONE,
     mk_def I_NOT ''NOT'' FMT_RR 0xF03F 0x903F FLG_NONE,
     mk_def I_ST ''ST'' FMT_RL 0xF000 0x3000 FLG_NONE,
     mk_def I_STI ''STI'' FMT_RL 0xF000 0xB000 FLG_NONE,
     mk_def I_STR ''STR'' FMT_RRI6 0xF000 0x7000 FLG_NONE,
     mk_def I_TRAP ''TRAP'' FMT_V 0xFF00 0xF000 FLG_SUBROUTINE,
     mk_def I_RTI ''RTI'' FMT_NONE 0x8000 0x8000 FLG_NONE]"

definition matchInst :: "16 word \<Rightarrow> inst_def option" where
  "matchInst ir = find (\<lambda>d. ir AND id_mask d = id_match d) INST_DEF"

subsection \<open>Memory values\<close>

datatype mem_type = MEM_INST | MEM_DATA

record mem_value =
  mv_addr :: addr
  mv_e :: "expr option"
  mv_type :: mem_type
  mv_def :: inst_def
  mv_labels :: "string list"
  mv_sourceFile :: string
  mv_sourceLine :: int
  mv_sourceContent :: string
  mv_belongsToOS :: bool
  mv_forRead :: bool
  mv_forWrite :: bool

definition no_def :: inst_def where
  "no_def = mk_def I_RTI '''' FMT_NONE 0 0 FLG_NONE"

definition MemValue :: "addr \<Rightarrow> expr option \<Rightarrow> mem_type \<Rightarrow> inst_def \<Rightarrow> mem_value" where
  "MemValue a e t d =
     \<lparr>mv_addr = a, mv_e = e, mv_type = t, mv_def = d, mv_labels = [], mv_sourceFile = [],
      mv_sourceLine = -1, mv_sourceContent = [], mv_belongsToOS = False, mv_forRead = False,
      mv_forWrite = False\<rparr>"

definition InstValue_alloc :: "addr \<Rightarrow> expr \<Rightarrow> mem_value option res" where
  "InstValue_alloc a IR =
     (if \<not> is_ConstantExpr IR then Inl (AssertFailed ''Not supporting symbolic instruction'')
      else rbind (castConstant IR) (\<lambda>w.
        Inr (map_option (MemValue a (Some IR) MEM_INST) (matchInst w))))"

definition DataValue_alloc :: "addr \<Rightarrow> expr option \<Rightarrow> bool \<Rightarrow> bool \<Rightarrow> mem_value" where
  "DataValue_alloc a e rd wr =
     (MemValue a e MEM_DATA no_def) \<lparr>mv_forRead := rd, mv_forWrite := wr\<rparr>"

definition getLabel :: "mem_value \<Rightarrow> string" where
  "getLabel v = (case mv_labels v of [] \<Rightarrow> toLC3Hex (mv_addr v) | l # _ \<Rightarrow> l)"

subsection \<open>Instruction fields\<close>

text \<open>\<open>ir()\<close> reads the constant that \<open>alloc\<close> checked.\<close>

definition inst_ir :: "mem_value \<Rightarrow> 16 word" where
  "inst_ir v = (case mv_e v of Some (ConstantExpr w x) \<Rightarrow> word_of_int x | _ \<Rightarrow> 0)"

definition dr_of :: "16 word \<Rightarrow> reg" where "dr_of ir = unat (drop_bit 9 ir AND 0x7)"
definition sr1_of :: "16 word \<Rightarrow> reg" where "sr1_of ir = unat (drop_bit 6 ir AND 0x7)"
definition sr2_of :: "16 word \<Rightarrow> reg" where "sr2_of ir = unat (ir AND 0x7)"
definition cc_of :: "16 word \<Rightarrow> nat" where "cc_of ir = unat (drop_bit 9 (ir AND 0x0E00))"
definition vec8_of :: "16 word \<Rightarrow> 16 word" where "vec8_of ir = ir AND 0xFF"

definition imm5_of :: "16 word \<Rightarrow> 16 word" where
  "imm5_of ir = (if ir AND 0x010 = 0 then ir AND 0x00F else ir OR NOT 0x00F)"
definition imm6_of :: "16 word \<Rightarrow> 16 word" where
  "imm6_of ir = (if ir AND 0x020 = 0 then ir AND 0x01F else ir OR NOT 0x01F)"
definition imm9_of :: "16 word \<Rightarrow> 16 word" where
  "imm9_of ir = (if ir AND 0x100 = 0 then ir AND 0x1FF else ir OR NOT 0x1FF)"
definition imm11_of :: "16 word \<Rightarrow> 16 word" where
  "imm11_of ir = (if ir AND 0x400 = 0 then ir AND 0x3FF else ir OR NOT 0x3FF)"

definition inst_id :: "mem_value \<Rightarrow> InstID" where "inst_id v = id_id (mv_def v)"
definition inst_dr :: "mem_value \<Rightarrow> reg" where "inst_dr v = dr_of (inst_ir v)"
definition inst_sr :: "mem_value \<Rightarrow> reg" where "inst_sr v = dr_of (inst_ir v)"
definition inst_sr1 :: "mem_value \<Rightarrow> reg" where "inst_sr1 v = sr1_of (inst_ir v)"
definition inst_sr2 :: "mem_value \<Rightarrow> reg" where "inst_sr2 v = sr2_of (inst_ir v)"
definition inst_baseR :: "mem_value \<Rightarrow> reg" where "inst_baseR v = sr1_of (inst_ir v)"
definition inst_cc :: "mem_value \<Rightarrow> nat" where "inst_cc v = cc_of (inst_ir v)"
definition inst_vec8 :: "mem_value \<Rightarrow> 16 word" where "inst_vec8 v = vec8_of (inst_ir v)"
definition inst_imm5 :: "mem_value \<Rightarrow> 16 word" where "inst_imm5 v = imm5_of (inst_ir v)"
definition inst_imm6 :: "mem_value \<Rightarrow> 16 word" where "inst_imm6 v = imm6_of (inst_ir v)"
definition inst_imm9 :: "mem_value \<Rightarrow> 16 word" where "inst_imm9 v = imm9_of (inst_ir v)"
definition inst_imm11 :: "mem_value \<Rightarrow> 16 word" where "inst_imm11 v = imm11_of (inst_ir v)"

definition isRET :: "mem_value \<Rightarrow> bool" where
  "isRET v \<longleftrightarrow> inst_id v = I_JMP \<and> inst_baseR v = R_R7"


subsection \<open>The immediate fields are sign-extended\<close>

lemma and_bit_zero_iff: "a AND 2 ^ n = 0 \<longleftrightarrow> \<not> bit a n" for a :: "16 word"
  by (rule and_exp_eq_0_iff_not_bit)

lemma sext_form:
  fixes ir :: "16 word"
  assumes "k = n \<or> k = Suc n"
  shows "(if \<not> bit ir n then take_bit k ir else ir OR NOT (mask k)) = signed_take_bit n ir"
proof (rule bit_eqI)
  fix m assume m: "possible_bit TYPE(16 word) m"
  show "bit (if \<not> bit ir n then take_bit k ir else ir OR NOT (mask k)) m \<longleftrightarrow> bit (signed_take_bit n ir) m"
  proof (cases "m < n")
    case True
    then show ?thesis
      using assms m by (auto simp: bit_signed_take_bit_iff bit_take_bit_iff bit_or_iff bit_not_iff bit_mask_iff min_def)
  next
    case False
    then show ?thesis
      using assms m by (auto simp: bit_signed_take_bit_iff bit_take_bit_iff bit_or_iff bit_not_iff bit_mask_iff
          min_def less_Suc_eq)
  qed
qed

lemma take_bit_mask_numerals:
  fixes ir :: "16 word"
  shows "ir AND 0x00F = take_bit 4 ir" "ir AND 0x01F = take_bit 5 ir" "ir AND 0x1FF = take_bit 9 ir"
    "ir AND 0x3FF = take_bit 10 ir" "ir AND 0xFF = take_bit 8 ir" "ir AND 0x7 = take_bit 3 ir"
  by (simp_all add: take_bit_eq_mask mask_eq_exp_minus_1)

lemma not_mask_numerals:
  "NOT (mask 4) = (- 16 :: 16 word)" "NOT (mask 5) = (- 32 :: 16 word)" "NOT (mask 9) = (- 512 :: 16 word)"
  "NOT (mask 10) = (- 1024 :: 16 word)"
  by (simp_all add: mask_eq_exp_minus_1)

lemma imm_sext:
  "imm5_of ir = signed_take_bit 4 ir" "imm6_of ir = signed_take_bit 5 ir"
  "imm9_of ir = signed_take_bit 8 ir" "imm11_of ir = signed_take_bit 10 ir"
  using sext_form [of 4 4 ir] sext_form [of 5 5 ir] sext_form [of 9 8 ir] sext_form [of 10 10 ir]
    and_bit_zero_iff [of ir 4] and_bit_zero_iff [of ir 5] and_bit_zero_iff [of ir 8] and_bit_zero_iff [of ir 10]
  by (simp_all add: imm5_of_def imm6_of_def imm9_of_def imm11_of_def take_bit_mask_numerals not_mask_numerals
      split: if_splits)

lemma reg_fields_lt: "dr_of ir < 8" "sr1_of ir < 8" "sr2_of ir < 8"
proof -
  have "unat (take_bit 3 w) < 8" for w :: "16 word"
    using take_bit_nat_less_exp [of 3 "unat w"] by (simp add: unsigned_take_bit_eq)
  then show "dr_of ir < 8" "sr1_of ir < 8" "sr2_of ir < 8"
    by (simp_all add: dr_of_def sr1_of_def sr2_of_def take_bit_mask_numerals)
qed

subsection \<open>Decoding by opcode\<close>

definition opcode :: "16 word \<Rightarrow> 16 word" where
  "opcode ir = drop_bit 12 ir"

lemma mask_split:
  fixes ir lo m op hi :: "16 word"
  assumes hi: "hi = mask 4" and "take_bit 12 lo = lo" "take_bit 12 m = m" "take_bit 4 op = op"
  shows "ir AND (push_bit 12 hi OR lo) = push_bit 12 op OR m \<longleftrightarrow> opcode ir = op \<and> ir AND lo = m"
proof -
  have lo: "\<not> bit lo n" "\<not> bit m n" if "12 \<le> n" for n
    using that assms by (metis bit_take_bit_iff not_le)+
  have op: "\<not> bit op n" if "4 \<le> n" for n
    using that assms by (metis bit_take_bit_iff not_le)
  have F: "bit hi n \<longleftrightarrow> n < 4" if "n < 16" for n
    using that by (simp add: hi bit_mask_iff)
  have top: "bit (ir AND (push_bit 12 hi OR lo)) n \<longleftrightarrow> bit (opcode ir) (n - 12)" "bit (push_bit 12 op OR m) n \<longleftrightarrow> bit op (n - 12)"
    if "12 \<le> n" "n < 16" for n
    using that lo [of n] F [of "n - 12"]
    by (auto simp: bit_and_iff bit_or_iff bit_push_bit_iff opcode_def bit_drop_bit_eq)
  have low: "bit (ir AND (push_bit 12 hi OR lo)) n \<longleftrightarrow> bit (ir AND lo) n" "bit (push_bit 12 op OR m) n \<longleftrightarrow> bit m n"
    if "n < 12" for n
    using that by (auto simp: bit_and_iff bit_or_iff bit_push_bit_iff)
  have "opcode ir = op \<longleftrightarrow> (\<forall>n. 12 \<le> n \<longrightarrow> n < 16 \<longrightarrow> (bit (opcode ir) (n - 12) \<longleftrightarrow> bit op (n - 12)))"
  proof
    assume *: "\<forall>n. 12 \<le> n \<longrightarrow> n < 16 \<longrightarrow> (bit (opcode ir) (n - 12) \<longleftrightarrow> bit op (n - 12))"
    show "opcode ir = op"
    proof (rule bit_eqI)
      fix n show "bit (opcode ir) n = bit op n"
      proof (cases "n < 4")
        case True then show ?thesis using * [rule_format, of "n + 12"] by simp
      next
        case False then show ?thesis using op [of n]
          by (auto simp: opcode_def bit_drop_bit_eq dest: bit_imp_le_length)
      qed
    qed
  qed simp
  moreover have "ir AND lo = m" if *: "\<forall>n < 12. bit (ir AND lo) n \<longleftrightarrow> bit m n"
  proof (rule bit_eqI)
    show "bit (ir AND lo) n \<longleftrightarrow> bit m n" for n
      by (cases "n < 12") (use * lo [of n] in \<open>auto simp: bit_and_iff\<close>)
  qed
  then have "ir AND lo = m \<longleftrightarrow> (\<forall>n < 12. bit (ir AND lo) n \<longleftrightarrow> bit m n)" by blast
  moreover have "x = y \<longleftrightarrow> (\<forall>n < 16. bit x n \<longleftrightarrow> bit y n)" for x y :: "16 word"
    by (auto simp: bit_eq_iff)
  moreover have "(\<forall>n < 16. P n) \<longleftrightarrow> (\<forall>n. 12 \<le> n \<longrightarrow> n < 16 \<longrightarrow> P n) \<and> (\<forall>n < 12. P n)" for P :: "nat \<Rightarrow> bool"
  proof
    assume *: "(\<forall>n. 12 \<le> n \<longrightarrow> n < 16 \<longrightarrow> P n) \<and> (\<forall>n < 12. P n)"
    show "\<forall>n < 16. P n" using * not_le by blast
  qed auto
  ultimately show ?thesis
    using top low by simp
qed


lemmas table_masks = mask_split [where hi = "0xF", simplified mask_eq_exp_minus_1]

definition decode_spec :: "16 word \<Rightarrow> InstID option" where
  "decode_spec ir =
     (if opcode ir = 0 then Some I_BR
      else if opcode ir = 1 then (if ir AND 0x20 = 0x20 then Some I_ADDi else if ir AND 0x18 = 0 then Some I_ADD else None)
      else if opcode ir = 2 then Some I_LD
      else if opcode ir = 3 then Some I_ST
      else if opcode ir = 4 then
        (if ir AND 0x800 = 0x800 then Some I_JSR else if ir AND 0x63F = 0 then Some I_JSRR else None)
      else if opcode ir = 5 then (if ir AND 0x20 = 0x20 then Some I_ANDi else if ir AND 0x18 = 0 then Some I_AND else None)
      else if opcode ir = 6 then Some I_LDR
      else if opcode ir = 7 then Some I_STR
      else if opcode ir = 9 \<and> ir AND 0x3F = 0x3F then Some I_NOT
      else if opcode ir = 10 then Some I_LDI
      else if opcode ir = 11 then Some I_STI
      else if opcode ir = 12 \<and> ir AND 0xE3F = 0 then Some I_JMP
      else if opcode ir = 14 then Some I_LEA
      else if opcode ir = 15 \<and> ir AND 0xF00 = 0 then Some I_TRAP
      else Some I_RTI)"

lemma mask_numerals:
  fixes ir :: "16 word"
  shows "ir AND 0xF038 = 0x1000 \<longleftrightarrow> opcode ir = 1 \<and> ir AND 0x38 = 0"
    "ir AND 0xF020 = 0x1020 \<longleftrightarrow> opcode ir = 1 \<and> ir AND 0x20 = 0x20"
    "ir AND 0xF038 = 0x5000 \<longleftrightarrow> opcode ir = 5 \<and> ir AND 0x38 = 0"
    "ir AND 0xF020 = 0x5020 \<longleftrightarrow> opcode ir = 5 \<and> ir AND 0x20 = 0x20"
    "ir AND 0xF000 = 0 \<longleftrightarrow> opcode ir = 0"
    "ir AND 0xFE3F = 0xC000 \<longleftrightarrow> opcode ir = 12 \<and> ir AND 0xE3F = 0"
    "ir AND 0xF800 = 0x4800 \<longleftrightarrow> opcode ir = 4 \<and> ir AND 0x800 = 0x800"
    "ir AND 0xFE3F = 0x4000 \<longleftrightarrow> opcode ir = 4 \<and> ir AND 0xE3F = 0"
    "ir AND 0xF000 = 0x2000 \<longleftrightarrow> opcode ir = 2" "ir AND 0xF000 = 0xA000 \<longleftrightarrow> opcode ir = 10"
    "ir AND 0xF000 = 0x6000 \<longleftrightarrow> opcode ir = 6" "ir AND 0xF000 = 0xE000 \<longleftrightarrow> opcode ir = 14"
    "ir AND 0xF03F = 0x903F \<longleftrightarrow> opcode ir = 9 \<and> ir AND 0x3F = 0x3F"
    "ir AND 0xF000 = 0x3000 \<longleftrightarrow> opcode ir = 3" "ir AND 0xF000 = 0xB000 \<longleftrightarrow> opcode ir = 11"
    "ir AND 0xF000 = 0x7000 \<longleftrightarrow> opcode ir = 7"
    "ir AND 0xFF00 = 0xF000 \<longleftrightarrow> opcode ir = 15 \<and> ir AND 0xF00 = 0"
  using table_masks [of "0x38" 0 1 ir] table_masks [of "0x20" "0x20" 1 ir] table_masks [of "0x38" 0 5 ir]
    table_masks [of "0x20" "0x20" 5 ir] table_masks [of 0 0 0 ir] table_masks [of "0xE3F" 0 12 ir]
    table_masks [of "0x800" "0x800" 4 ir] table_masks [of "0xE3F" 0 4 ir] table_masks [of 0 0 2 ir]
    table_masks [of 0 0 10 ir] table_masks [of 0 0 6 ir] table_masks [of 0 0 14 ir]
    table_masks [of "0x3F" "0x3F" 9 ir] table_masks [of 0 0 3 ir] table_masks [of 0 0 11 ir]
    table_masks [of 0 0 7 ir] table_masks [of "0xF00" 0 15 ir]
  by simp_all


lemma opcode_cases:
  obtains "opcode ir = 0" | "opcode ir = 1" | "opcode ir = 2" | "opcode ir = 3" | "opcode ir = 4"
  | "opcode ir = 5" | "opcode ir = 6" | "opcode ir = 7" | "opcode ir = 8" | "opcode ir = 9"
  | "opcode ir = 10" | "opcode ir = 11" | "opcode ir = 12" | "opcode ir = 13" | "opcode ir = 14"
  | "opcode ir = 15"
proof -
  have "unat (opcode ir) = unat ir div 4096" unfolding opcode_def by (rule unat_top_nibble)
  moreover have "unat ir < 65536" using unsigned_less [of ir, where 'a = nat] by simp
  ultimately have "unat (opcode ir) < 16" by simp
  moreover have "int (unat (opcode ir)) = uint (opcode ir)" by simp
  ultimately have "uint (opcode ir) < 16" "0 \<le> uint (opcode ir)" by (linarith, simp)
  then have "uint (opcode ir) \<in> {0, 1, 2, 3, 4, 5, 6, 7, 8, 9, 10, 11, 12, 13, 14, 15}"
    unfolding insert_iff empty_iff by presburger
  moreover have "opcode ir = word_of_int (uint (opcode ir))" by simp
  ultimately show ?thesis using that by (elim insertE) (auto simp: word_eq_iff_unsigned [where 'a = int])
qed

lemma single_bit_and: "a AND 2 ^ n = (if bit a n then 2 ^ n else 0)" for a :: "16 word"
  by (rule bit_eqI) (auto simp: bit_and_iff bit_exp_iff)

lemma single_bit_numerals:
  fixes ir :: "16 word"
  shows "ir AND 0x20 = (if bit ir 5 then 0x20 else 0)" "ir AND 0x800 = (if bit ir 11 then 0x800 else 0)"
    "ir AND 0x8000 = (if bit ir 15 then 0x8000 else 0)"
  using single_bit_and [of ir 5] single_bit_and [of ir 11] single_bit_and [of ir 15] by simp_all


lemma and_split_38: "ir AND 0x38 = 0 \<longleftrightarrow> \<not> bit ir 5 \<and> ir AND 0x18 = 0" for ir :: "16 word"
proof -
  have "ir AND 0x38 = (ir AND 0x20) OR (ir AND 0x18)"
    using bit.conj_disj_distrib [of ir "0x20" "0x18"] by simp
  then show ?thesis by (simp add: single_bit_numerals or_eq_0_iff)
qed

lemma and_split_E3F: "ir AND 0xE3F = 0 \<longleftrightarrow> \<not> bit ir 11 \<and> ir AND 0x63F = 0" for ir :: "16 word"
proof -
  have "ir AND 0xE3F = (ir AND 0x800) OR (ir AND 0x63F)"
    using bit.conj_disj_distrib [of ir "0x800" "0x63F"] by simp
  then show ?thesis by (simp add: single_bit_numerals or_eq_0_iff)
qed

lemma bit_15_opcode: "bit ir 15 \<longleftrightarrow> bit (opcode ir) 3"
  by (simp add: opcode_def bit_drop_bit_eq)

lemmas decode_simps = mask_numerals single_bit_numerals and_split_38 and_split_E3F

lemma matchInst_decode: "map_option id_id (matchInst ir) = decode_spec ir"
  by (cases ir rule: opcode_cases)
    (simp_all add: matchInst_def INST_DEF_def mk_def_def mask_numerals decode_spec_def single_bit_numerals
      and_split_38 and_split_E3F bit_15_opcode)


lemma matchInst_table: "matchInst ir = Some d \<Longrightarrow> d \<in> set INST_DEF"
  by (auto simp: matchInst_def find_Some_iff)

lemma format_RRR:
  "d \<in> set INST_DEF \<Longrightarrow> id_format d = FMT_RRR \<longleftrightarrow> id_id d \<in> {I_ADD, I_AND}"
  by (auto simp: INST_DEF_def mk_def_def)

subsection \<open>Properties\<close>

text \<open>
  C31: decoding an instruction word through the mask table agrees with the opcode field: \<open>matchInst\<close>
  finds the instruction that the top four bits and the format bits name.  Words with the opcode of
  \<open>ADD\<close>, \<open>AND\<close> or \<open>JSRR\<close> whose fixed bits are not zero match nothing, and every other malformed word
  with the top bit set, the reserved opcode 13 included, matches \<open>RTI\<close>.
\<close>
theorem matchInst_correct:
  "map_option id_id (matchInst ir) = decode_spec ir \<and>
   (matchInst ir = None \<longrightarrow> opcode ir \<in> {1, 4, 5}) \<and>
   (opcode ir = 13 \<longrightarrow> map_option id_id (matchInst ir) = Some I_RTI)"
proof -
  have "decode_spec ir = None \<longrightarrow> opcode ir \<in> {1, 4, 5}" "opcode ir = 13 \<longrightarrow> decode_spec ir = Some I_RTI"
    by (auto simp: decode_spec_def split: if_splits)
  then show ?thesis using matchInst_decode [of ir] by auto
qed

theorem matchInst_correct_witness:
  "map_option id_id (matchInst 0xD123) = Some I_RTI \<and> map_option id_id (matchInst 0x1261) = Some I_ADDi"
  using matchInst_correct [of "0xD123"] matchInst_correct [of "0x1261"]
  by (simp add: decode_spec_def opcode_def)

text \<open>
  The immediate and offset accessors return the two's complement value of their field: bits
  4 to 0, 5 to 0, 8 to 0 and 10 to 0 of the instruction, sign-extended to 16 bits; the register
  accessors return the three-bit fields.
\<close>
theorem inst_fields_correct:
  "sint (imm5_of ir) = signed_take_bit 4 (uint ir) \<and> sint (imm6_of ir) = signed_take_bit 5 (uint ir) \<and>
   sint (imm9_of ir) = signed_take_bit 8 (uint ir) \<and> sint (imm11_of ir) = signed_take_bit 10 (uint ir) \<and>
   int (dr_of ir) = take_bit 3 (drop_bit 9 (uint ir)) \<and> int (sr1_of ir) = take_bit 3 (drop_bit 6 (uint ir)) \<and>
   int (sr2_of ir) = take_bit 3 (uint ir)"
proof -
  have "sint (signed_take_bit n ir) = signed_take_bit n (uint ir)" if "n < 15" for n
    using that by (intro bit_eqI) (auto simp: bit_sint_iff bit_signed_take_bit_iff bit_uint_iff min_def not_less
        dest: bit_imp_le_length)
  moreover have "int (unat (take_bit 3 (drop_bit n ir))) = take_bit 3 (drop_bit n (uint ir))" for n
    using of_nat_unat [of "take_bit 3 (drop_bit n ir)", where 'a = int]
    by (simp only: unsigned_take_bit_eq) (simp add: unsigned_drop_bit_eq drop_bit_take_bit bintr_uint)
  ultimately show ?thesis
    using \<open>\<And>n. int (unat (take_bit 3 (drop_bit n ir))) = _\<close> [of 0]
    by (simp add: imm_sext dr_of_def sr1_of_def sr2_of_def take_bit_mask_numerals)
qed

end
