(* ===== verification/Klc3_Memory.thy ===== *)
theory Klc3_Memory
  imports Klc3_MemoryValue
begin

text \<open>
  The memory of a state (\<open>include/klc3/Core/MemoryManager.h\<close>, \<open>lib/klc3/Core/MemoryManager.cpp\<close>): the
  values written by the state over the program's base memory, with the memory-mapped device
  registers in front of both.

  A write returns what the executor must do next (\<open>WriteResult\<close>).  Writing a null expression to
  the machine control register dereferences the null pointer: a failure value.

  The locale \<open>memory_map\<close> is the contract that the rest of klc3 relies on, interpreted on the
  memory manager.
\<close>

unbundle bit_operations_syntax

record memory =
  mm_base :: "addr \<Rightarrow> mem_value option"
  mm_mem :: "addr \<Rightarrow> mem_value option"

datatype write_result = WRITE_SUCCESS | WRITE_HALT | WRITE_DDR

definition MemoryManager :: "(addr \<Rightarrow> mem_value option) \<Rightarrow> memory" where
  "MemoryManager base = \<lparr>mm_base = base, mm_mem = Map.empty\<rparr>"

definition mem_read :: "memory \<Rightarrow> addr \<Rightarrow> mem_value option" where
  "mem_read m a =
     (if a = 0xFE00 then Some (DataValue_alloc 0xFE00 (Some (buildConstant 0)) False False)
      else if a = 0xFE04 then Some (DataValue_alloc 0xFE04 (Some (buildConstant 0x8000)) False False)
      else if a = 0xFE06 then Some (DataValue_alloc 0xFE06 (Some (buildConstant 0)) False False)
      else if a = 0xFFFE then Some (DataValue_alloc 0xFFFE (Some (buildConstant 0x8000)) False False)
      else case mm_mem m a of Some v \<Rightarrow> Some v | None \<Rightarrow> mm_base m a)"

definition mem_write :: "memory \<Rightarrow> addr \<Rightarrow> mem_value \<Rightarrow> (write_result \<times> memory) res" where
  "mem_write m a v =
     (if a = 0xFE00 \<or> a = 0xFE02 \<or> a = 0xFE04 then Inr (WRITE_SUCCESS, m)
      else if a = 0xFE06 then Inr (WRITE_DDR, m)
      else if a = 0xFFFE then
        (case mv_e v of
           None \<Rightarrow> Inl (NullDeref ''value->e'')
         | Some e \<Rightarrow>
             if is_ConstantExpr e
             then rbind (castConstant e) (\<lambda>w. Inr (if w AND 0x8000 = 0 then WRITE_HALT else WRITE_SUCCESS, m))
             else Inr (WRITE_HALT, m))
      else Inr (WRITE_SUCCESS, m\<lparr>mm_mem := (mm_mem m)(a \<mapsto> v)\<rparr>))"

definition mem_writeData :: "memory \<Rightarrow> addr \<Rightarrow> expr option \<Rightarrow> (write_result \<times> memory) res" where
  "mem_writeData m a e = mem_write m a (DataValue_alloc a e False False)"

definition mem_writeInst :: "memory \<Rightarrow> addr \<Rightarrow> 16 word \<Rightarrow> (write_result \<times> memory) res" where
  "mem_writeInst m a IR = rbind (InstValue_alloc a (buildConstant IR)) (\<lambda>v. case v of
       None \<Rightarrow> Inl (NullDeref ''value'')
     | Some i \<Rightarrow> mem_write m a i)"

definition device :: "addr \<Rightarrow> bool" where
  "device a \<longleftrightarrow> a \<in> {0xFE00, 0xFE02, 0xFE04, 0xFE06, 0xFFFE}"

subsection \<open>The contract of a memory\<close>

locale memory_map =
  fixes rd :: "'m \<Rightarrow> addr \<Rightarrow> mem_value option"
    and wr :: "'m \<Rightarrow> addr \<Rightarrow> mem_value \<Rightarrow> (write_result \<times> 'm) res"
    and special :: "addr \<Rightarrow> bool"
  assumes write_plain: "\<not> special a \<Longrightarrow> \<exists>m'. wr m a v = Inr (WRITE_SUCCESS, m')"
    and read_written: "\<not> special a \<Longrightarrow> wr m a v = Inr (r, m') \<Longrightarrow> rd m' b = (if b = a then Some v else rd m b)"
    and special_unchanged: "special a \<Longrightarrow> wr m a v = Inr (r, m') \<Longrightarrow> rd m' b = rd m b"
begin

lemma read_other: "wr m a v = Inr (r, m') \<Longrightarrow> b \<noteq> a \<Longrightarrow> rd m' b = rd m b"
  using read_written special_unchanged by (cases "special a") auto

lemma write_write:
  assumes "\<not> special a" "wr m a v = Inr (r, m1)" "wr m1 a w = Inr (q, m2)" "wr m a w = Inr (p, m3)"
  shows "rd m2 = rd m3"
  using read_written [OF assms(1,2)] read_written [OF assms(1,3)] read_written [OF assms(1,4)] by auto

lemma write_commute:
  assumes "a \<noteq> b" "wr m a v = Inr (r1, m1)" "wr m1 b w = Inr (r2, m2)"
    and "wr m b w = Inr (r3, m3)" "wr m3 a v = Inr (r4, m4)"
  shows "rd m2 = rd m4"
proof
  show "rd m2 c = rd m4 c" for c
    using assms read_written special_unchanged by (cases "special a"; cases "special b") auto
qed

lemma read_was_specified:
  "wr m a v = Inr (r, m') \<Longrightarrow> rd m b \<noteq> None \<Longrightarrow> rd m' b \<noteq> None"
  using read_written special_unchanged by (cases "special a") auto

end

interpretation mm: memory_map mem_read mem_write device
proof
  fix a b :: addr and m m' :: memory and v r
  show "\<not> device a \<Longrightarrow> \<exists>m'. mem_write m a v = Inr (WRITE_SUCCESS, m')"
    by (auto simp: mem_write_def device_def)
  show "\<not> device a \<Longrightarrow> mem_write m a v = Inr (r, m') \<Longrightarrow> mem_read m' b = (if b = a then Some v else mem_read m b)"
    by (auto simp: mem_write_def device_def mem_read_def split: option.splits)
  show "device a \<Longrightarrow> mem_write m a v = Inr (r, m') \<Longrightarrow> mem_read m' b = mem_read m b"
    by (auto simp: mem_write_def device_def split: if_splits option.splits)
qed

subsection \<open>Properties\<close>

text \<open>
  C29: a write at an ordinary address succeeds, the value is read back there, and no other address
  changes; a write to a device register changes no memory at all.
\<close>
theorem mem_write_correct:
  assumes "mem_write m a v = Inr (r, m')"
  shows "mem_read m' b = (if b = a \<and> \<not> device a then Some v else mem_read m b) \<and>
    (\<not> device a \<longrightarrow> r = WRITE_SUCCESS)"
  using mm.read_written [of a m v r m' b] mm.special_unchanged [of a m v r m' b] mm.write_plain [of a m v] assms
  by (cases "device a") auto

theorem mem_write_correct_witness:
  "\<exists>m'. mem_write (MemoryManager Map.empty) 0x4000 (DataValue_alloc 0x4000 (Some (buildConstant 7)) False False)
      = Inr (WRITE_SUCCESS, m') \<and>
    mem_read m' 0x4000 = Some (DataValue_alloc 0x4000 (Some (buildConstant 7)) False False)"
proof -
  let ?v = "DataValue_alloc 0x4000 (Some (buildConstant 7)) False False"
  obtain m' where m': "mem_write (MemoryManager Map.empty) 0x4000 ?v = Inr (WRITE_SUCCESS, m')"
    by (simp add: mem_write_def)
  then show ?thesis using mem_write_correct [OF m', of "0x4000"] by (simp add: device_def)
qed

text \<open>
  C30: the only write that can end the run is a null expression to the machine control register;
  any other write there reports that the machine halts, unless the value is a constant with the
  clock bit set.
\<close>
theorem mem_write_failure:
  assumes "\<And>e. mv_e v = Some e \<Longrightarrow> wt e \<and> getWidth e = Int16"
  shows "((\<exists>f. mem_write m a v = Inl f) \<longleftrightarrow> a = 0xFFFE \<and> mv_e v = None) \<and>
    (\<forall>e. mv_e v = Some e \<longrightarrow> mem_write m 0xFFFE v = Inr
      (if is_ConstantExpr e \<and> word_of_int (eval \<sigma> e) AND 0x8000 \<noteq> (0 :: 16 word) then WRITE_SUCCESS else WRITE_HALT, m))"
proof -
  have "castConstant e = Inr (word_of_int (eval \<sigma> e))" if "mv_e v = Some e" "is_ConstantExpr e" for e
    using castConstant_const(1) assms that by blast
  then show ?thesis by (auto simp: mem_write_def split: option.splits)
qed

theorem mem_write_failure_witness:
  "(\<exists>f. mem_write (MemoryManager Map.empty) 0xFFFE (DataValue_alloc 0xFFFE None False False) = Inl f)"
  using mem_write_failure [of "DataValue_alloc 0xFFFE None False False" "MemoryManager Map.empty" "0xFFFE"]
  by (simp add: DataValue_alloc_def MemValue_def)

end
