(* ===== verification/Klc3_Issue.thy ===== *)
theory Klc3_Issue
  imports Klc3_Memory
begin

text \<open>
  Issues and their bookkeeping (\<open>include/klc3/Verification/Issue.h\<close>, \<open>IssuePackage.h\<close> and
  \<open>lib/klc3/Verification/IssuePackage.cpp\<close>).

  The map \<open>issues\<close> is ordered by \<open>IssueLocationLess\<close>, under which two issues are the same key when
  they have the same type and both have no location, or locations with the same source file and
  line; \<open>issue_key\<close> is that key.  An \<open>IssueInfo\<close> keeps the state (by its unique id) and the step
  count; the text of its note is produced by the report formatter and left out.

  Shown: an issue is recorded once, an issue whose type has level \<open>NONE\<close> never, recording keeps
  what was recorded before, and the only predefined type without a level is \<open>ERR_INVALID_INST\<close>.
\<close>

datatype issue_type =
    NO_ISSUE | WARN_COMPILE | WARN_POSSIBLE_WILD_READ | WARN_READ_UNINITIALIZED_MEMORY
  | WARN_POSSIBLE_WILD_WRITE | WARN_WRITE_READ_ONLY_DATA | WARN_READ_INST_AS_DATA
  | WARN_USE_UNINITIALIZED_REGISTER | WARN_USE_UNINITIALIZED_CC | WARN_MANUAL_HALT
  | WARN_IMPROPER_RET | WARN_REUSE_CODE_ACROSS_SUBROUTINES | WARN_HALT_IN_SUBROUTINE
  | ERR_COMPILE | ERR_INVALID_INST | ERR_EXECUTE_DATA_AS_INST | ERR_OVERWRITE_INST
  | ERR_SYMBOLIC_PC | ERR_EXECUTE_UNINITIALIZED_MEMORY | ERR_RET_IN_MAIN_CODE
  | ERR_STATE_REACH_STEP_LIMIT | ERR_STATE_REACH_OUTPUT_LIMIT | ERR_STATE_REACH_QUERY_LIMIT
  | ERR_INCORRECT_OUTPUT | USER_DEFINED nat

text \<open>The values of the enumerators; 23 is \<open>RUNTIME_ISSUE_COUNT\<close>, and the user-defined types start at \<open>PRE_DEFINED_ISSUE_COUNT\<close>.\<close>

fun issue_index :: "issue_type \<Rightarrow> nat" where
  "issue_index NO_ISSUE = 0"
| "issue_index WARN_COMPILE = 1"
| "issue_index WARN_POSSIBLE_WILD_READ = 2"
| "issue_index WARN_READ_UNINITIALIZED_MEMORY = 3"
| "issue_index WARN_POSSIBLE_WILD_WRITE = 4"
| "issue_index WARN_WRITE_READ_ONLY_DATA = 5"
| "issue_index WARN_READ_INST_AS_DATA = 6"
| "issue_index WARN_USE_UNINITIALIZED_REGISTER = 7"
| "issue_index WARN_USE_UNINITIALIZED_CC = 8"
| "issue_index WARN_MANUAL_HALT = 9"
| "issue_index WARN_IMPROPER_RET = 10"
| "issue_index WARN_REUSE_CODE_ACROSS_SUBROUTINES = 11"
| "issue_index WARN_HALT_IN_SUBROUTINE = 12"
| "issue_index ERR_COMPILE = 13"
| "issue_index ERR_INVALID_INST = 14"
| "issue_index ERR_EXECUTE_DATA_AS_INST = 15"
| "issue_index ERR_OVERWRITE_INST = 16"
| "issue_index ERR_SYMBOLIC_PC = 17"
| "issue_index ERR_EXECUTE_UNINITIALIZED_MEMORY = 18"
| "issue_index ERR_RET_IN_MAIN_CODE = 19"
| "issue_index ERR_STATE_REACH_STEP_LIMIT = 20"
| "issue_index ERR_STATE_REACH_OUTPUT_LIMIT = 21"
| "issue_index ERR_STATE_REACH_QUERY_LIMIT = 22"
| "issue_index ERR_INCORRECT_OUTPUT = 24"
| "issue_index (USER_DEFINED n) = 25 + n"

lemma issue_index_inj: "issue_index a = issue_index b \<Longrightarrow> a = b"
  by (cases a; cases b) simp_all

instantiation issue_type :: linorder
begin

definition less_eq_issue_type :: "issue_type \<Rightarrow> issue_type \<Rightarrow> bool" where
  "less_eq_issue_type a b \<longleftrightarrow> issue_index a \<le> issue_index b"

definition less_issue_type :: "issue_type \<Rightarrow> issue_type \<Rightarrow> bool" where
  "less_issue_type a b \<longleftrightarrow> issue_index a < issue_index b"

instance
  by standard (auto simp: less_eq_issue_type_def less_issue_type_def intro: issue_index_inj)

end

datatype level = ERROR | WARNING | NONE

type_synonym issue_key = "(string \<times> int) option \<times> issue_type"

record issue_info =
  ii_state :: "int option"
  ii_stepCount :: int

record issue_package =
  ip_issues :: "issue_key \<Rightarrow> issue_info list option"
  ip_name :: "(issue_type \<times> string) list"
  ip_desc :: "issue_type \<Rightarrow> string option"
  ip_hint :: "issue_type \<Rightarrow> string option"
  ip_level :: "issue_type \<Rightarrow> level option"
  ip_definedCount :: nat

definition default_names :: "(issue_type \<times> string) list" where
  "default_names = [
     (WARN_COMPILE, ''WARN_COMPILE''),
     (WARN_POSSIBLE_WILD_READ, ''WARN_POSSIBLE_WILD_READ''),
     (WARN_READ_UNINITIALIZED_MEMORY, ''WARN_READ_UNINITIALIZED_MEMORY''),
     (WARN_USE_UNINITIALIZED_REGISTER, ''WARN_USE_UNINITIALIZED_REGISTER''),
     (WARN_USE_UNINITIALIZED_CC, ''WARN_USE_UNINITIALIZED_CC''),
     (WARN_READ_INST_AS_DATA, ''WARN_READ_INST_AS_DATA''),
     (WARN_POSSIBLE_WILD_WRITE, ''WARN_POSSIBLE_WILD_WRITE''),
     (WARN_WRITE_READ_ONLY_DATA, ''WARN_WRITE_READ_ONLY_DATA''),
     (WARN_MANUAL_HALT, ''WARN_MANUAL_HALT''),
     (WARN_IMPROPER_RET, ''WARN_IMPROPER_RET''),
     (WARN_REUSE_CODE_ACROSS_SUBROUTINES, ''WARN_DUPLICATE_COLOR''),
     (WARN_HALT_IN_SUBROUTINE, ''WARN_HALT_IN_SUBROUTINE''),
     (ERR_COMPILE, ''ERR_COMPILE''),
     (ERR_EXECUTE_DATA_AS_INST, ''ERR_EXECUTE_DATA_AS_INST''),
     (ERR_OVERWRITE_INST, ''ERR_OVERWRITE_INST''),
     (ERR_SYMBOLIC_PC, ''ERR_SYMBOLIC_PC''),
     (ERR_EXECUTE_UNINITIALIZED_MEMORY, ''ERR_EXECUTE_UNINITIALIZED_MEMORY''),
     (ERR_RET_IN_MAIN_CODE, ''ERR_RET_IN_MAIN_CODE''),
     (ERR_STATE_REACH_STEP_LIMIT, ''ERR_STATE_REACH_STEP_LIMIT''),
     (ERR_STATE_REACH_OUTPUT_LIMIT, ''ERR_STATE_REACH_OUTPUT_LIMIT''),
     (ERR_STATE_REACH_QUERY_LIMIT, ''ERR_STATE_REACH_QUERY_LIMIT''),
     (ERR_INCORRECT_OUTPUT, ''ERR_INCORRECT_OUTPUT'')]"

definition default_levels :: "(issue_type \<times> level) list" where
  "default_levels = [
     (WARN_COMPILE, WARNING), (WARN_POSSIBLE_WILD_READ, WARNING),
     (WARN_READ_UNINITIALIZED_MEMORY, WARNING), (WARN_USE_UNINITIALIZED_REGISTER, WARNING),
     (WARN_USE_UNINITIALIZED_CC, WARNING), (WARN_READ_INST_AS_DATA, WARNING),
     (WARN_POSSIBLE_WILD_WRITE, WARNING), (WARN_WRITE_READ_ONLY_DATA, WARNING),
     (WARN_MANUAL_HALT, WARNING), (WARN_IMPROPER_RET, WARNING),
     (WARN_REUSE_CODE_ACROSS_SUBROUTINES, WARNING), (WARN_HALT_IN_SUBROUTINE, WARNING),
     (ERR_COMPILE, ERROR), (ERR_EXECUTE_DATA_AS_INST, ERROR), (ERR_OVERWRITE_INST, ERROR),
     (ERR_SYMBOLIC_PC, ERROR), (ERR_EXECUTE_UNINITIALIZED_MEMORY, ERROR),
     (ERR_RET_IN_MAIN_CODE, ERROR), (ERR_STATE_REACH_STEP_LIMIT, ERROR),
     (ERR_STATE_REACH_OUTPUT_LIMIT, ERROR), (ERR_STATE_REACH_QUERY_LIMIT, ERROR),
     (ERR_INCORRECT_OUTPUT, ERROR)]"

definition IssuePackage :: issue_package where
  "IssuePackage = \<lparr>ip_issues = Map.empty, ip_name = default_names, ip_desc = Map.empty,
     ip_hint = Map.empty, ip_level = map_of default_levels, ip_definedCount = 0\<rparr>"

definition issue_key_of :: "issue_type \<Rightarrow> mem_value option \<Rightarrow> issue_key" where
  "issue_key_of t loc = (map_option (\<lambda>v. (mv_sourceFile v, mv_sourceLine v)) loc, t)"

definition getIssueLevel :: "issue_package \<Rightarrow> issue_type \<Rightarrow> level res" where
  "getIssueLevel ip t = (case ip_level ip t of
       Some l \<Rightarrow> Inr l | None \<Rightarrow> Inl (AssertFailed ''Unknown issue type''))"

definition new_info :: issue_info where
  "new_info = \<lparr>ii_state = None, ii_stepCount = -1\<rparr>"

text \<open>The result says whether the issue was accepted (a non-null \<open>IssueInfo\<close>).\<close>

definition raiseIssue :: "issue_package \<Rightarrow> issue_type \<Rightarrow> mem_value option \<Rightarrow> (bool \<times> issue_package) res" where
  "raiseIssue ip t loc = rbind (getIssueLevel ip t) (\<lambda>l.
     if l = NONE then Inr (False, ip)
     else case ip_issues ip (issue_key_of t loc) of
         Some _ \<Rightarrow> Inr (False, ip)
       | None \<Rightarrow> Inr (True, ip\<lparr>ip_issues := (ip_issues ip)(issue_key_of t loc \<mapsto> [new_info])\<rparr>))"

definition newGlobalIssue :: "issue_package \<Rightarrow> issue_type \<Rightarrow> mem_value option \<Rightarrow> (bool \<times> issue_package) res" where
  "newGlobalIssue ip t loc = raiseIssue ip t loc"

definition setIssueTypeLevel :: "issue_package \<Rightarrow> issue_type \<Rightarrow> level \<Rightarrow> issue_package res" where
  "setIssueTypeLevel ip t l = (case t of
       NO_ISSUE \<Rightarrow> Inl (ProgExit ''Cannot set level of NO_ISSUE'')
     | WARN_COMPILE \<Rightarrow> Inl (ProgExit ''Cannot set level of WARN_COMPILE'')
     | USER_DEFINED _ \<Rightarrow> Inl (ProgExit ''Unknown issue for SET_LEVEL'')
     | _ \<Rightarrow>
        if t \<in> {WARN_POSSIBLE_WILD_READ, WARN_READ_UNINITIALIZED_MEMORY, WARN_USE_UNINITIALIZED_REGISTER,
                WARN_USE_UNINITIALIZED_CC, WARN_READ_INST_AS_DATA, WARN_POSSIBLE_WILD_WRITE,
                WARN_WRITE_READ_ONLY_DATA, WARN_MANUAL_HALT, WARN_IMPROPER_RET,
                WARN_REUSE_CODE_ACROSS_SUBROUTINES, WARN_HALT_IN_SUBROUTINE, ERR_RET_IN_MAIN_CODE}
        then Inr (ip\<lparr>ip_level := (ip_level ip)(t \<mapsto> l)\<rparr>)
        else if l \<noteq> ERROR
        then (case map_of (ip_name ip) t of
                None \<Rightarrow> Inl (AssertFailed ''Unknown issue type'')
              | Some _ \<Rightarrow> Inl (ProgExit ''must be ERROR''))
        else Inr (ip\<lparr>ip_level := (ip_level ip)(t \<mapsto> l)\<rparr>))"

definition setIssueTypeName :: "issue_package \<Rightarrow> issue_type \<Rightarrow> string \<Rightarrow> issue_package" where
  "setIssueTypeName ip t n = ip\<lparr>ip_name := (t, n) # ip_name ip\<rparr>"

definition setIssueTypeDesc :: "issue_package \<Rightarrow> issue_type \<Rightarrow> string \<Rightarrow> issue_package" where
  "setIssueTypeDesc ip t n = ip\<lparr>ip_desc := (ip_desc ip)(t \<mapsto> n)\<rparr>"

definition setIssueTypeHint :: "issue_package \<Rightarrow> issue_type \<Rightarrow> string \<Rightarrow> issue_package" where
  "setIssueTypeHint ip t n = ip\<lparr>ip_hint := (ip_hint ip)(t \<mapsto> n)\<rparr>"

definition registerIssue :: "issue_package \<Rightarrow> string \<Rightarrow> level \<Rightarrow> issue_type \<times> issue_package" where
  "registerIssue ip name l =
     (let t = USER_DEFINED (ip_definedCount ip) in
      (t, ip\<lparr>ip_name := (t, name) # ip_name ip, ip_level := (ip_level ip)(t \<mapsto> l),
             ip_definedCount := Suc (ip_definedCount ip)\<rparr>))"

text \<open>The names as a map: a later entry of a type replaces an earlier one, and the search goes over the types in their order.\<close>

definition getIssueByName :: "issue_package \<Rightarrow> string \<Rightarrow> issue_type" where
  "getIssueByName ip name =
     (case find (\<lambda>t. map_of (ip_name ip) t = Some name) (sort (map fst (ip_name ip))) of
        Some t \<Rightarrow> t | None \<Rightarrow> NO_ISSUE)"

subsection \<open>Facts\<close>

lemma raiseIssue_cases:
  assumes "raiseIssue ip t loc = Inr (acc, ip')"
  shows "ip_level ip' = ip_level ip"
    and "\<And>k. ip_issues ip k \<noteq> None \<Longrightarrow> ip_issues ip' k = ip_issues ip k"
    and "\<not> acc \<Longrightarrow> ip' = ip"
    and "acc \<longleftrightarrow> ip_level ip t \<noteq> Some NONE \<and> ip_issues ip (issue_key_of t loc) = None"
  using assms by (auto simp: raiseIssue_def getIssueLevel_def split: option.splits if_splits)

lemma raiseIssue_total:
  assumes "ip_level ip t \<noteq> None"
  obtains acc ip' where "raiseIssue ip t loc = Inr (acc, ip')"
proof -
  obtain l where "ip_level ip t = Some l" using assms by blast
  then have "\<exists>r. raiseIssue ip t loc = Inr r"
    by (cases "l = NONE"; cases "ip_issues ip (issue_key_of t loc)") (auto simp: raiseIssue_def getIssueLevel_def)
  then show ?thesis using that by (metis surj_pair)
qed

text \<open>The types that execution raises, other than \<open>ERR_INVALID_INST\<close>, have a level.\<close>

definition has_default_level :: "issue_type \<Rightarrow> bool" where
  "has_default_level t \<longleftrightarrow> t \<in> fst ` set default_levels"

definition levels_ok :: "issue_package \<Rightarrow> bool" where
  "levels_ok ip \<longleftrightarrow> (\<forall>t. has_default_level t \<longrightarrow> ip_level ip t \<noteq> None)"

lemma has_default_level_iff:
  "has_default_level t \<longleftrightarrow> t \<noteq> NO_ISSUE \<and> t \<noteq> ERR_INVALID_INST \<and> (\<forall>n. t \<noteq> USER_DEFINED n)"
  by (cases t) (simp_all add: has_default_level_def default_levels_def)

lemma levels_ok_initial: "levels_ok IssuePackage"
  by (simp add: levels_ok_def IssuePackage_def has_default_level_def map_of_eq_None_iff)

lemma levels_ok_raise: "levels_ok ip \<Longrightarrow> raiseIssue ip t loc = Inr (acc, ip') \<Longrightarrow> levels_ok ip'"
  using raiseIssue_cases(1) by (simp add: levels_ok_def)

lemma setIssueTypeLevel_level:
  assumes "setIssueTypeLevel ip t l = Inr ip'"
  shows "ip_level ip' = (ip_level ip)(t \<mapsto> l)"
  using assms
  by (cases t) (clarsimp simp: setIssueTypeLevel_def split: if_splits option.splits)+

lemma levels_ok_set: "levels_ok ip \<Longrightarrow> setIssueTypeLevel ip t l = Inr ip' \<Longrightarrow> levels_ok ip'"
  using setIssueTypeLevel_level by (simp add: levels_ok_def)

lemma levels_ok_register: "levels_ok ip \<Longrightarrow> levels_ok (snd (registerIssue ip name l))"
  by (simp add: levels_ok_def registerIssue_def Let_def)

subsection \<open>Properties\<close>

text \<open>
  Raising an issue of a type that has a level always succeeds; it is accepted exactly when
  the level is not \<open>NONE\<close> and no issue of that type was recorded at that source line, an
  accepted issue is recorded, raising it again is refused and changes nothing, and the
  issues recorded before are kept.
\<close>
theorem raiseIssue_correct:
  assumes "ip_level ip t = Some l"
  shows "\<exists>acc ip'. raiseIssue ip t loc = Inr (acc, ip') \<and>
    (acc \<longleftrightarrow> l \<noteq> NONE \<and> ip_issues ip (issue_key_of t loc) = None) \<and>
    (l \<noteq> NONE \<longrightarrow> ip_issues ip' (issue_key_of t loc) \<noteq> None) \<and>
    raiseIssue ip' t loc = Inr (False, ip') \<and>
    (\<forall>k. ip_issues ip k \<noteq> None \<longrightarrow> ip_issues ip' k = ip_issues ip k)"
proof (cases "l = NONE")
  case True
  then show ?thesis using assms by (auto simp: raiseIssue_def getIssueLevel_def)
next
  case False
  then show ?thesis
    using assms by (cases "ip_issues ip (issue_key_of t loc)") (auto simp: raiseIssue_def getIssueLevel_def)
qed

theorem raiseIssue_correct_witness:
  "\<exists>ip'. raiseIssue IssuePackage ERR_SYMBOLIC_PC None = Inr (True, ip') \<and>
     raiseIssue ip' ERR_SYMBOLIC_PC None = Inr (False, ip')"
proof -
  have "ip_level IssuePackage ERR_SYMBOLIC_PC = Some ERROR"
    by (simp add: IssuePackage_def default_levels_def)
  from raiseIssue_correct [OF this, of None] show ?thesis
    by (auto simp: IssuePackage_def)
qed

text \<open>
  In the initial package every predefined type can be raised without a failed assertion,
  except \<open>NO_ISSUE\<close> and \<open>ERR_INVALID_INST\<close>, which the table of levels leaves out.
\<close>
theorem issue_levels_complete:
  "(\<exists>r. raiseIssue IssuePackage t loc = Inr r) \<longleftrightarrow>
    t \<noteq> NO_ISSUE \<and> t \<noteq> ERR_INVALID_INST \<and> (\<forall>n. t \<noteq> USER_DEFINED n)"
proof (cases "has_default_level t")
  case True
  then have "ip_level IssuePackage t \<noteq> None" using levels_ok_initial levels_ok_def by blast
  then show ?thesis using True has_default_level_iff raiseIssue_total by metis
next
  case False
  then have "map_of default_levels t = None" by (simp add: has_default_level_def map_of_eq_None_iff)
  then have "\<nexists>r. raiseIssue IssuePackage t loc = Inr r"
    by (simp add: raiseIssue_def getIssueLevel_def IssuePackage_def)
  then show ?thesis using False has_default_level_iff by blast
qed

end
