(* ===== verification/Klc3_Values.thy ===== *)
theory Klc3_Values
  imports Klc3_State
begin

text \<open>
  The enumeration of the concrete values of an expression (\<open>evalPossibleValues\<close>,
  \<open>evalPossibleValuesInRange\<close> and \<open>evalPossibleValuesWithCache\<close> of \<open>lib/klc3/Core/Executor.cpp\<close>), on
  which the executor forks when a memory address is symbolic.

  The three binary searches have the same loop, \<open>search_loop\<close>, with the query as its argument.
  Each function threads the number of solver queries, as the source does through \<open>solverCount\<close>.
  In the dead branches of the range enumeration the variable \<open>res\<close> would be read uninitialized:
  that is a failure value, which the theorems exclude.

  Shown, for a solver that meets its contract: the enumeration returns, and returns exactly the
  values that the expression has in some model of the constraints, in increasing order, each once
  and with the equality that selects it; through the cache the result is the same.
\<close>

type_synonym value_list = "(addr \<times> expr) list"

subsection \<open>The binary search loop\<close>

function search_loop :: "(int \<Rightarrow> bool res) \<Rightarrow> int \<Rightarrow> int \<Rightarrow> int \<Rightarrow> (int \<times> int) res" where
  "search_loop q lo hi n =
     (if lo < hi then
        let mid = lo + (hi - lo) div 2 in
        rbind (q mid) (\<lambda>res. if res then search_loop q lo mid (n + 1) else search_loop q (mid + 1) hi (n + 1))
      else Inr (lo, n))"
  by pat_completeness auto
termination
  by (relation "measure (\<lambda>(q, lo, hi, n). nat (hi - lo))") auto

declare search_loop.simps [simp del]

text \<open>The loop finds the first position of its range where a monotone query turns true.\<close>

lemma search_loop_finds:
  assumes "\<And>x. lo \<le> x \<Longrightarrow> x < hi \<Longrightarrow> q x = Inr (P x)" "\<And>x y. lo \<le> x \<Longrightarrow> x \<le> y \<Longrightarrow> y < hi \<Longrightarrow> P x \<Longrightarrow> P y"
    and "lo \<le> hi"
  obtains l k where "search_loop q lo hi n = Inr (l, k)" "lo \<le> l" "l \<le> hi"
    "\<And>x. lo \<le> x \<Longrightarrow> x < l \<Longrightarrow> \<not> P x" "\<And>x. l \<le> x \<Longrightarrow> x < hi \<Longrightarrow> P x"
proof -
  have "\<exists>l k. search_loop q lo hi n = Inr (l, k) \<and> lo \<le> l \<and> l \<le> hi \<and>
      (\<forall>x. lo \<le> x \<longrightarrow> x < l \<longrightarrow> \<not> P x) \<and> (\<forall>x. l \<le> x \<longrightarrow> x < hi \<longrightarrow> P x)"
    using assms
  proof (induction q lo hi n rule: search_loop.induct)
    case (1 q lo hi n)
    show ?case
    proof (cases "lo < hi")
      case False
      then show ?thesis using "1.prems"(3) by (subst search_loop.simps) auto
    next
      case True
      let ?mid = "lo + (hi - lo) div 2"
      have mid: "lo \<le> ?mid" "?mid < hi" using True by auto
      have q: "q ?mid = Inr (P ?mid)" using "1.prems"(1) mid by blast
      show ?thesis
      proof (cases "P ?mid")
        case pm: True
        have "\<exists>l k. search_loop q lo ?mid (n + 1) = Inr (l, k) \<and> lo \<le> l \<and> l \<le> ?mid \<and>
            (\<forall>x. lo \<le> x \<longrightarrow> x < l \<longrightarrow> \<not> P x) \<and> (\<forall>x. l \<le> x \<longrightarrow> x < ?mid \<longrightarrow> P x)"
        proof (rule "1.IH"(1) [OF True refl q pm])
          show "q x = Inr (P x)" if "lo \<le> x" "x < ?mid" for x
            using "1.prems"(1) that mid(2) by (meson less_trans)
          show "P y" if "lo \<le> x" "x \<le> y" "y < ?mid" "P x" for x y
            using "1.prems"(2) that mid(2) by (meson less_trans)
        qed (rule mid(1))
        moreover have "\<forall>x. ?mid \<le> x \<longrightarrow> x < hi \<longrightarrow> P x" using "1.prems"(2) mid pm by blast
        ultimately show ?thesis
          using mid q pm True by (subst search_loop.simps) (force simp: Let_def)
      next
        case pm: False
        have "\<exists>l k. search_loop q (?mid + 1) hi (n + 1) = Inr (l, k) \<and> ?mid + 1 \<le> l \<and> l \<le> hi \<and>
            (\<forall>x. ?mid + 1 \<le> x \<longrightarrow> x < l \<longrightarrow> \<not> P x) \<and> (\<forall>x. l \<le> x \<longrightarrow> x < hi \<longrightarrow> P x)"
        proof (rule "1.IH"(2) [OF True refl q pm])
          show "q x = Inr (P x)" if "?mid + 1 \<le> x" "x < hi" for x
            using "1.prems"(1) [of x] that mid(1) by linarith
          show "P y" if "?mid + 1 \<le> x" "x \<le> y" "y < hi" "P x" for x y
            using "1.prems"(2) [of x y] that mid(1) by linarith
        qed (use mid(2) in linarith)
        moreover have "\<forall>x. lo \<le> x \<longrightarrow> x \<le> ?mid \<longrightarrow> \<not> P x" using "1.prems"(2) mid pm by blast
        ultimately show ?thesis
          using mid q pm True by (subst search_loop.simps) (force simp: Let_def)
      qed
    qed
  qed
  then show ?thesis using that by blast
qed

definition maxValueOfNBits :: "int \<Rightarrow> int" where
  "maxValueOfNBits N = (if N = 0 then 0 else 2 ^ nat N - 1)"

subsection \<open>Enumeration\<close>

definition constant_of :: "int \<Rightarrow> expr" where
  "constant_of v = buildConstant (word_of_int v)"

fun eq_loop :: "solver_impl \<Rightarrow> expr \<Rightarrow> constraints \<Rightarrow> int \<Rightarrow> int list \<Rightarrow> value_list \<Rightarrow> int \<Rightarrow> (bool \<times> value_list \<times> int) res" where
  "eq_loop S e cs mx [] vs n = Inr (True, vs, n)"
| "eq_loop S e cs mx (v # rest) vs n =
     (let c = builder_binary Eq e (constant_of v) in
      rbind (query (mayBeTrue S cs c)) (\<lambda>res.
        let vs = (if res then vs @ [(word_of_int v, c)] else vs) in
        if mx \<noteq> -1 \<and> int (length vs) > mx then Inr (False, vs, n + 1)
        else eq_loop S e cs mx rest vs (n + 1)))"

definition between :: "expr \<Rightarrow> int \<Rightarrow> int \<Rightarrow> expr" where
  "between e lo hi =
     builder_binary And (builder_binary Ule (constant_of lo) e) (builder_binary Ule e (constant_of hi))"

text \<open>The comparison \<open>==\<close> of the source, under a name that keeps it out of the recursion package's rewriting.\<close>

definition equals :: "int \<Rightarrow> int \<Rightarrow> bool" where
  "equals a b \<longleftrightarrow> a = b"

definition midpoint :: "int \<Rightarrow> int \<Rightarrow> int" where
  "midpoint minVal maxVal = (minVal + maxVal) div 2"

function evalPossibleValuesInRange ::
  "solver_impl \<Rightarrow> expr \<Rightarrow> constraints \<Rightarrow> int \<Rightarrow> int \<Rightarrow> int \<Rightarrow> value_list \<Rightarrow> int \<Rightarrow> (bool \<times> value_list \<times> int) res" where
  "evalPossibleValuesInRange S e cs mx minVal maxVal vs n =
     (if minVal > maxVal then Inr (True, vs, n)
      else if maxVal - minVal \<le> 3 then eq_loop S e cs mx [minVal..maxVal] vs n
      else if equals minVal (midpoint minVal maxVal) then
          rbind (evalPossibleValuesInRange S e cs mx minVal (midpoint minVal maxVal) vs n) (\<lambda>(ok, vs, n).
            if \<not> ok then Inr (False, vs, n)
            else if equals (midpoint minVal maxVal + 1) maxVal then evalPossibleValuesInRange S e cs mx (midpoint minVal maxVal + 1) maxVal vs n
            else Inl (AssertFailed ''res is read uninitialized''))
        else
          rbind (query (mayBeTrue S cs (between e minVal (midpoint minVal maxVal)))) (\<lambda>res.
            if res then
              rbind (evalPossibleValuesInRange S e cs mx minVal (midpoint minVal maxVal) vs (n + 1)) (\<lambda>(ok, vs, n).
                if \<not> ok then Inr (False, vs, n)
                else if equals (midpoint minVal maxVal + 1) maxVal then evalPossibleValuesInRange S e cs mx (midpoint minVal maxVal + 1) maxVal vs n
                else
                  rbind (query (mayBeTrue S cs (between e (midpoint minVal maxVal + 1) maxVal))) (\<lambda>res.
                    if res then evalPossibleValuesInRange S e cs mx (midpoint minVal maxVal + 1) maxVal vs (n + 1)
                    else Inr (True, vs, n + 1)))
            else evalPossibleValuesInRange S e cs mx (midpoint minVal maxVal + 1) maxVal vs (n + 1)))"
  by pat_completeness simp_all

definition range_size :: "solver_impl \<times> expr \<times> constraints \<times> int \<times> int \<times> int \<times> value_list \<times> int \<Rightarrow> nat" where
  "range_size = (\<lambda>(S, e, cs, mx, lo, hi, vs, n). nat (hi - lo))"

lemma range_halves:
  assumes "\<not> maxVal - minVal \<le> 3"
  shows "((S, e, cs, mx, minVal, midpoint minVal maxVal, vs, n), (S, e, cs, mx, minVal, maxVal, vs', n')) \<in> measure range_size"
    and "((S, e, cs, mx, midpoint minVal maxVal + 1, maxVal, vs, n), (S, e, cs, mx, minVal, maxVal, vs', n')) \<in> measure range_size"
  using assms by (auto simp: range_size_def midpoint_def)

termination evalPossibleValuesInRange
  by (relation "measure range_size") (rule wf_measure, (rule range_halves; assumption)+)

declare evalPossibleValuesInRange.simps [simp del]

definition evalPossibleValues ::
  "solver_impl \<Rightarrow> expr \<Rightarrow> constraints \<Rightarrow> int \<Rightarrow> int \<Rightarrow> (bool \<times> value_list \<times> int) res" where
  "evalPossibleValues S e cs mx n =
     rbind (assert_that (getWidth e = Int16) ''expr->getWidth() == Expr::Int16'') (\<lambda>_.
     rbind (search_loop (\<lambda>mid. query (mustBeTrue S cs
              (builder_binary Eq (builder_binary LShr e (constant_of mid)) (constant_of 0)))) 0 16 n) (\<lambda>(bits, n).
     rbind (search_loop (\<lambda>mid. query (mayBeTrue S cs (builder_binary Ule e (constant_of mid))))
              0 (maxValueOfNBits bits) n) (\<lambda>(minVal, n).
     let c = builder_binary Eq e (constant_of minVal) in
     rbind (query (mustBeTrue S cs c)) (\<lambda>res.
     if res then Inr (mx = -1 \<or> 1 \<le> mx, [(word_of_int minVal, c)], n + 1)
     else
       rbind (search_loop (\<lambda>mid. query (mustBeTrue S cs (builder_binary Ule e (constant_of mid))))
                minVal (maxValueOfNBits bits) (n + 1)) (\<lambda>(maxVal, n).
       evalPossibleValuesInRange S e cs mx minVal maxVal [] n)))))"

subsection \<open>The cache of values under the initial constraints\<close>

record values_cache =
  vc_entries :: "expr \<Rightarrow> value_list option"
  vc_hits :: nat
  vc_misses :: nat

fun filter_possible :: "solver_impl \<Rightarrow> constraints \<Rightarrow> value_list \<Rightarrow> int \<Rightarrow> (value_list \<times> int) res" where
  "filter_possible S cs [] n = Inr ([], n)"
| "filter_possible S cs ((v, c) # rest) n =
     rbind (query (mayBeTrue S cs c)) (\<lambda>res.
     rbind (filter_possible S cs rest (n + 1)) (\<lambda>(vs, n).
       Inr (if res then (v, c) # vs else vs, n)))"

definition cache_lookup ::
  "solver_impl \<Rightarrow> int \<Rightarrow> constraints \<Rightarrow> expr \<Rightarrow> values_cache \<Rightarrow> int \<Rightarrow> (value_list \<times> values_cache \<times> int) res" where
  "cache_lookup S threshold init e vc n = (case vc_entries vc e of
       Some vs \<Rightarrow> Inr (vs, vc\<lparr>vc_hits := vc_hits vc + 1\<rparr>, n)
     | None \<Rightarrow>
         rbind (evalPossibleValues S e init threshold n) (\<lambda>(ok, vs, n).
         rbind (assert_that (ok \<longrightarrow> vs \<noteq> []) ''Expr under initial constraints evaluates to no value!'') (\<lambda>_.
         let vs = (if ok then vs else []) in
         Inr (vs, vc\<lparr>vc_misses := vc_misses vc + 1, vc_entries := (vc_entries vc)(e \<mapsto> vs)\<rparr>, n))))"

definition evalPossibleValuesWithCache ::
  "solver_impl \<Rightarrow> int \<Rightarrow> constraints \<Rightarrow> expr \<Rightarrow> constraints \<Rightarrow> values_cache \<Rightarrow> int \<Rightarrow> (value_list \<times> values_cache \<times> int) res" where
  "evalPossibleValuesWithCache S threshold init e cs vc n =
     rbind (assert_that (getWidth e = Int16) ''expr->getWidth() == Expr::Int16'') (\<lambda>_.
     if threshold = 0 then
       rbind (evalPossibleValues S e cs (-1) n) (\<lambda>(ok, vs, n). Inr (vs, vc, n))
     else
       rbind (cache_lookup S threshold init e vc n) (\<lambda>(cached, vc, n).
       if cached = [] then rbind (evalPossibleValues S e cs (-1) n) (\<lambda>(ok, vs, n). Inr (vs, vc, n))
       else rbind (filter_possible S cs cached n) (\<lambda>(vs, n). Inr (vs, vc, n))))"

subsection \<open>The values of an expression\<close>

definition possible :: "constraints \<Rightarrow> expr \<Rightarrow> int \<Rightarrow> bool" where
  "possible cs e v \<longleftrightarrow> (\<exists>\<sigma>. sat \<sigma> cs \<and> eval \<sigma> e = v)"

definition selected :: "expr \<Rightarrow> int \<Rightarrow> addr \<times> expr" where
  "selected e v = (word_of_int v, builder_binary Eq e (constant_of v))"

definition values_in :: "constraints \<Rightarrow> expr \<Rightarrow> int \<Rightarrow> int \<Rightarrow> value_list" where
  "values_in cs e lo hi = map (selected e) (filter (possible cs e) [lo..hi])"

definition all_values :: "constraints \<Rightarrow> expr \<Rightarrow> value_list" where
  "all_values cs e = values_in cs e 0 65535"

lemma constant_of_sound [simp]:
  assumes "0 \<le> v" "v < 65536"
  shows "eval \<sigma> (constant_of v) = v"
  using assms by (simp add: constant_of_def uint_word_of_int take_bit_int_eq_self)

lemma constant_of_wt [simp]: "wt (constant_of v)" "getWidth (constant_of v) = Int16"
  by (simp_all add: constant_of_def)

lemma possible_bounds:
  "wt e \<Longrightarrow> getWidth e = Int16 \<Longrightarrow> possible cs e v \<Longrightarrow> 0 \<le> v \<and> v < 65536"
  using eval_bounds [of e] by (force simp: possible_def)

lemma selected_sound:
  assumes "wt e" "getWidth e = Int16" "0 \<le> v" "v < 65536"
  shows "wf_constraint (snd (selected e v))" "eval \<sigma> (snd (selected e v)) = of_bool (eval \<sigma> e = v)"
  using assms folding.bin_wt [of Eq e "constant_of v"] folding.bin_width [of Eq e "constant_of v"]
    folding.bin_eval [of Eq e "constant_of v" \<sigma>]
  by (simp_all add: selected_def wf_constraint_def)

lemma Ule_sound:
  assumes "wt a" "getWidth a = Int16" "wt b" "getWidth b = Int16"
  shows "wt (builder_binary Ule a b)" "getWidth (builder_binary Ule a b) = BoolWidth"
    "eval \<sigma> (builder_binary Ule a b) = of_bool (eval \<sigma> a \<le> eval \<sigma> b)"
  using assms folding.bin_wt [of Ule a b] folding.bin_width [of Ule a b] folding.bin_eval [of Ule a b \<sigma>]
  by simp_all

lemma between_sound:
  assumes "wt e" "getWidth e = Int16" "0 \<le> lo" "lo < 65536" "0 \<le> hi" "hi < 65536"
  shows "wf_constraint (between e lo hi)" "eval \<sigma> (between e lo hi) = 1 \<longleftrightarrow> lo \<le> eval \<sigma> e \<and> eval \<sigma> e \<le> hi"
proof -
  let ?l = "builder_binary Ule (constant_of lo) e" and ?h = "builder_binary Ule e (constant_of hi)"
  have w: "wt (BinaryExpr And ?l ?h)" using Ule_sound assms by simp
  show "wf_constraint (between e lo hi)"
    using folding.bin_wt [OF w] folding.bin_width [OF w] Ule_sound(2) assms by (simp add: wf_constraint_def between_def)
  show "eval \<sigma> (between e lo hi) = 1 \<longleftrightarrow> lo \<le> eval \<sigma> e \<and> eval \<sigma> e \<le> hi"
    using folding.bin_eval [OF w] Ule_sound(3) [of _ _ \<sigma>] assms by (simp add: between_def)
qed

lemma shifted_sound:
  assumes "wt e" "getWidth e = Int16" "0 \<le> n" "n < 16"
  shows "wf_constraint (builder_binary Eq (builder_binary LShr e (constant_of n)) (constant_of 0))"
    "eval \<sigma> (builder_binary Eq (builder_binary LShr e (constant_of n)) (constant_of 0)) = 1
      \<longleftrightarrow> eval \<sigma> e < 2 ^ nat n"
proof -
  have w: "wt (BinaryExpr LShr e (constant_of n))" using assms by simp
  let ?l = "builder_binary LShr e (constant_of n)"
  have l: "wt ?l" "getWidth ?l = Int16" "eval \<sigma> ?l = drop_bit (nat n) (eval \<sigma> e)"
    using folding.bin_wt [OF w] folding.bin_width [OF w] folding.bin_eval [OF w] assms by simp_all
  have z: "drop_bit k v = 0 \<longleftrightarrow> v < 2 ^ k" if "0 \<le> v" for v :: int and k
    using that by (auto simp: drop_bit_eq_div zdiv_eq_0_iff)
  show "wf_constraint (builder_binary Eq ?l (constant_of 0))"
    using selected_sound(1) [OF l(1,2), of 0] by (simp add: selected_def)
  show "eval \<sigma> (builder_binary Eq ?l (constant_of 0)) = 1 \<longleftrightarrow> eval \<sigma> e < 2 ^ nat n"
    using selected_sound(2) [OF l(1,2), of 0 \<sigma>] l(3) z eval_bounds(1) [OF assms(1), of \<sigma>] by (simp add: selected_def)
qed

subsection \<open>The enumeration is exact\<close>

text \<open>An enumeration appends \<open>new\<close> to the values so far, unless it stops because of the limit.\<close>

definition enumerates :: "(bool \<times> value_list \<times> int) res \<Rightarrow> int \<Rightarrow> value_list \<Rightarrow> value_list \<Rightarrow> bool" where
  "enumerates r mx vs new \<longleftrightarrow>
     (\<exists>ok vs' n. r = Inr (ok, vs', n) \<and> (ok \<longrightarrow> vs' = vs @ new) \<and> (mx = -1 \<longrightarrow> ok))"

lemma enumerates_bind:
  assumes "enumerates r mx vs a" "\<And>n. enumerates (f (vs @ a) n) mx (vs @ a) b"
  shows "enumerates (rbind r (\<lambda>(ok, vs, n). if \<not> ok then Inr (False, vs, n) else f vs n)) mx vs (a @ b)"
proof -
  obtain ok vs' n where r: "r = Inr (ok, vs', n)" "ok \<longrightarrow> vs' = vs @ a" "mx = -1 \<longrightarrow> ok"
    using assms(1) unfolding enumerates_def by blast
  then show ?thesis using assms(2) [of n] by (cases ok) (auto simp: enumerates_def)
qed

lemma enumerates_return: "enumerates (Inr (True, vs, n)) mx vs []"
  by (auto simp: enumerates_def)

lemma values_in_split:
  "lo \<le> mid \<Longrightarrow> mid \<le> hi \<Longrightarrow> values_in cs e lo hi = values_in cs e lo mid @ values_in cs e (mid + 1) hi"
  by (simp add: values_in_def upto_split2 [of lo mid hi])

lemma values_in_empty: "(\<And>v. lo \<le> v \<Longrightarrow> v \<le> hi \<Longrightarrow> \<not> possible cs e v) \<Longrightarrow> values_in cs e lo hi = []"
  by (simp add: values_in_def filter_empty_conv)

lemma values_in_all:
  assumes "\<And>v. possible cs e v \<Longrightarrow> lo \<le> v \<and> v \<le> hi" "a \<le> lo" "lo \<le> hi" "hi \<le> b"
  shows "values_in cs e lo hi = values_in cs e a b"
proof -
  have "values_in cs e a (lo - 1) = []" "values_in cs e (hi + 1) b = []"
    by (intro values_in_empty; use assms(1) in force)+
  then show ?thesis
    using values_in_split [of "lo" hi b cs e] values_in_split [of a "lo - 1" b cs e] assms
    by (cases "a = lo") auto
qed

lemma values_in_single:
  assumes "\<And>v. possible cs e v \<longleftrightarrow> v = x" "a \<le> x" "x \<le> b"
  shows "values_in cs e a b = [selected e x]"
proof -
  have "values_in cs e x x = values_in cs e a b" using assms by (intro values_in_all) auto
  then show ?thesis using assms(1) by (simp add: values_in_def)
qed

lemma midpoint_bounds:
  "\<not> hi - lo \<le> 3 \<Longrightarrow> lo < midpoint lo hi \<and> midpoint lo hi + 1 < hi"
  unfolding midpoint_def by presburger

context sound_solver
begin

lemma eq_query:
  assumes "wf_constraints cs" "wt e" "getWidth e = Int16" "0 \<le> v" "v < 65536"
  shows "query (mayBeTrue S cs (builder_binary Eq e (constant_of v))) = Inr (possible cs e v)"
  using mayBeTrue_iff [OF assms(1)] selected_sound [OF assms(2-)]
  by (simp add: selected_def compatible_def possible_def)

lemma between_query:
  assumes "wf_constraints cs" "wt e" "getWidth e = Int16" "0 \<le> lo" "lo < 65536" "0 \<le> hi" "hi < 65536"
  shows "query (mayBeTrue S cs (between e lo hi)) = Inr (\<exists>v. lo \<le> v \<and> v \<le> hi \<and> possible cs e v)"
  using mayBeTrue_iff [OF assms(1)] between_sound [OF assms(2-)]
  by (auto simp: compatible_def possible_def)

lemma eq_loop_enumerates:
  assumes "wf_constraints cs" "wt e" "getWidth e = Int16" "\<forall>v \<in> set L. 0 \<le> v \<and> v < 65536"
  shows "enumerates (eq_loop S e cs mx L vs n) mx vs (map (selected e) (filter (possible cs e) L))"
  using assms(4)
proof (induction L arbitrary: vs n)
  case Nil
  then show ?case by (simp add: enumerates_return)
next
  case (Cons v L)
  let ?vs = "if possible cs e v then vs @ [selected e v] else vs"
  have q: "query (mayBeTrue S cs (builder_binary Eq e (constant_of v))) = Inr (possible cs e v)"
    using eq_query [OF assms(1-3)] Cons.prems by simp
  have "eq_loop S e cs mx (v # L) vs n =
      (if mx \<noteq> -1 \<and> int (length ?vs) > mx then Inr (False, ?vs, n + 1) else eq_loop S e cs mx L ?vs (n + 1))"
    by (simp only: eq_loop.simps Let_def q rbind_simps selected_def)
  moreover have "enumerates (eq_loop S e cs mx L ?vs (n + 1)) mx ?vs (map (selected e) (filter (possible cs e) L))"
    using Cons by simp
  ultimately show ?case by (auto simp: enumerates_def)
qed

lemma range_enumerates:
  assumes "wf_constraints cs" "wt e" "getWidth e = Int16" "0 \<le> lo" "hi < 65536"
  shows "enumerates (evalPossibleValuesInRange S e cs mx lo hi vs n) mx vs (values_in cs e lo hi)"
  using assms(4,5)
proof (induction "nat (hi - lo)" arbitrary: lo hi vs n rule: less_induct)
  case less
  note unf = evalPossibleValuesInRange.simps [of S e cs mx lo hi vs n]
  consider "hi < lo" | "lo \<le> hi" "hi - lo \<le> 3" | (split) "\<not> hi - lo \<le> 3" by linarith
  then show ?case
  proof cases
    case 1
    then show ?thesis by (simp add: unf values_in_def enumerates_return)
  next
    case 2
    then show ?thesis
      using eq_loop_enumerates [OF assms(1-3), of "[lo..hi]"] less.prems by (simp add: unf values_in_def)
  next
    case split
    let ?m = "midpoint lo hi"
    have m: "lo < ?m" "?m + 1 < hi" using midpoint_bounds [OF split] by auto
    have left: "enumerates (evalPossibleValuesInRange S e cs mx lo ?m vs k) mx vs (values_in cs e lo ?m)" for vs k
      by (rule less.hyps) (use less.prems m in auto)
    have right: "enumerates (evalPossibleValuesInRange S e cs mx (?m + 1) hi vs k) mx vs (values_in cs e (?m + 1) hi)" for vs k
      by (rule less.hyps) (use less.prems m in auto)
    have q: "query (mayBeTrue S cs (between e lo ?m)) = Inr (\<exists>v. lo \<le> v \<and> v \<le> ?m \<and> possible cs e v)"
      "query (mayBeTrue S cs (between e (?m + 1) hi)) = Inr (\<exists>v. ?m + 1 \<le> v \<and> v \<le> hi \<and> possible cs e v)"
      by (rule between_query [OF assms(1-3)]; use less.prems m in linarith)+
    have c: "lo > hi \<longleftrightarrow> False" "hi - lo \<le> 3 \<longleftrightarrow> False" "equals lo ?m \<longleftrightarrow> False" "equals (?m + 1) hi \<longleftrightarrow> False"
      using split m by (simp_all add: equals_def)
    let ?rest = "\<lambda>vs n. rbind (query (mayBeTrue S cs (between e (?m + 1) hi))) (\<lambda>res.
        if res then evalPossibleValuesInRange S e cs mx (?m + 1) hi vs (n + 1) else Inr (True, vs, n + 1))"
    have rest: "enumerates (?rest vs k) mx vs (values_in cs e (?m + 1) hi)" for vs k
    proof (cases "\<exists>v. ?m + 1 \<le> v \<and> v \<le> hi \<and> possible cs e v")
      case False
      then have "values_in cs e (?m + 1) hi = []" by (intro values_in_empty) blast
      then show ?thesis using enumerates_return by (simp only: q(2) False rbind_simps if_False)
    qed (simp add: q(2) right)
    have body: "evalPossibleValuesInRange S e cs mx lo hi vs n =
      (if \<exists>v. lo \<le> v \<and> v \<le> ?m \<and> possible cs e v
       then rbind (evalPossibleValuesInRange S e cs mx lo ?m vs (n + 1))
         (\<lambda>(ok, vs, n). if \<not> ok then Inr (False, vs, n) else ?rest vs n)
       else evalPossibleValuesInRange S e cs mx (?m + 1) hi vs (n + 1))"
      by (simp only: unf c q(1) rbind_simps if_False)
    show ?thesis
    proof (cases "\<exists>v. lo \<le> v \<and> v \<le> ?m \<and> possible cs e v")
      case True
      have "enumerates (rbind (evalPossibleValuesInRange S e cs mx lo ?m vs (n + 1))
          (\<lambda>(ok, vs, n). if \<not> ok then Inr (False, vs, n) else ?rest vs n)) mx vs
          (values_in cs e lo ?m @ values_in cs e (?m + 1) hi)"
        by (rule enumerates_bind [where f = ?rest, OF left]) (rule rest)
      then show ?thesis using True m by (simp add: body values_in_split [of lo ?m hi])
    next
      case False
      then have "values_in cs e lo ?m = []" by (intro values_in_empty) blast
      then show ?thesis
        unfolding body if_not_P [OF False] using right m by (simp add: values_in_split [of lo ?m hi])
    qed
  qed
qed

lemma search_bits:
  assumes "wf_constraints cs" "wt e" "getWidth e = Int16"
  obtains bits k where "search_loop (\<lambda>mid. query (mustBeTrue S cs (builder_binary Eq
      (builder_binary LShr e (constant_of mid)) (constant_of 0)))) 0 16 n = Inr (bits, k)"
    "0 \<le> maxValueOfNBits bits" "maxValueOfNBits bits < 65536" "\<And>v. possible cs e v \<Longrightarrow> v \<le> maxValueOfNBits bits"
proof -
  define small where "small = (\<lambda>k. \<forall>v. possible cs e v \<longrightarrow> v < 2 ^ nat k)"
  have q: "query (mustBeTrue S cs (builder_binary Eq (builder_binary LShr e (constant_of k)) (constant_of 0)))
      = Inr (small k)" if "0 \<le> k" "k < 16" for k
    using mustBeTrue_iff [OF assms(1) shifted_sound(1) [OF assms(2,3) that]] shifted_sound(2) [OF assms(2,3) that]
    by (auto simp: follows_def small_def possible_def)
  have mono: "small x \<Longrightarrow> x \<le> y \<Longrightarrow> small y" for x y
    unfolding small_def using power_increasing [of "nat x" "nat y" "2 :: int"] nat_mono [of x y]
    by (meson less_le_trans one_le_numeral)
  obtain bits k where s: "search_loop (\<lambda>k. query (mustBeTrue S cs (builder_binary Eq (builder_binary LShr e (constant_of k))
      (constant_of 0)))) 0 16 n = Inr (bits, k)" "0 \<le> bits" "bits \<le> 16" "\<And>x. bits \<le> x \<Longrightarrow> x < 16 \<Longrightarrow> small x"
    using search_loop_finds [of 0 16 _ small] q mono by (smt (verit, ccfv_threshold))
  have M: "maxValueOfNBits bits = 2 ^ nat bits - 1" by (simp add: maxValueOfNBits_def)
  have "small bits"
    using s(3,4) possible_bounds [OF assms(2,3)] by (cases "bits = 16") (auto simp: small_def)
  moreover have "nat bits \<le> 16" using s(3) by simp
  then have "(2 :: int) ^ nat bits \<le> 2 ^ 16" by (rule power_increasing) simp
  ultimately show ?thesis using that [OF s(1)] by (simp add: M small_def)
qed

lemma Ule_query_sound:
  assumes "wt e" "getWidth e = Int16" "0 \<le> k" "k < 65536"
  shows "wf_constraint (builder_binary Ule e (constant_of k))"
    "eval \<sigma> (builder_binary Ule e (constant_of k)) = of_bool (eval \<sigma> e \<le> k)"
  using Ule_sound [of e "constant_of k"] assms by (simp_all add: wf_constraint_def)

lemma search_min:
  assumes "wf_constraints cs" "wt e" "getWidth e = Int16" "0 \<le> M" "M < 65536"
  obtains lo k where "search_loop (\<lambda>mid. query (mayBeTrue S cs (builder_binary Ule e (constant_of mid)))) 0 M n = Inr (lo, k)"
    "0 \<le> lo" "lo \<le> M" "\<And>v. possible cs e v \<Longrightarrow> lo \<le> v"
proof -
  let ?Q = "\<lambda>k. \<exists>v \<le> k. possible cs e v"
  have q: "query (mayBeTrue S cs (builder_binary Ule e (constant_of k))) = Inr (?Q k)" if "0 \<le> k" "k < M" for k
    using mayBeTrue_iff [OF assms(1)] Ule_query_sound [OF assms(2,3), of k] that assms(5)
    by (auto simp: compatible_def possible_def)
  obtain lo k where s: "search_loop (\<lambda>k. query (mayBeTrue S cs (builder_binary Ule e (constant_of k)))) 0 M n
      = Inr (lo, k)" "0 \<le> lo" "lo \<le> M" "\<And>x. 0 \<le> x \<Longrightarrow> x < lo \<Longrightarrow> \<not> ?Q x"
    using search_loop_finds [of 0 M _ ?Q] q assms(4) by (smt (verit, ccfv_threshold))
  moreover have "lo \<le> v" if "possible cs e v" for v
    using s(4) [of v] that possible_bounds [OF assms(2,3) that] by force
  ultimately show ?thesis using that by blast
qed

lemma search_max:
  assumes "wf_constraints cs" "wt e" "getWidth e = Int16" "0 \<le> lo" "lo \<le> M" "M < 65536"
    and leM: "\<And>v. possible cs e v \<Longrightarrow> v \<le> M"
  obtains hi k where "search_loop (\<lambda>mid. query (mustBeTrue S cs (builder_binary Ule e (constant_of mid)))) lo M n = Inr (hi, k)"
    "lo \<le> hi" "hi \<le> M" "\<And>v. possible cs e v \<Longrightarrow> v \<le> hi"
proof -
  let ?Q = "\<lambda>k. \<forall>v. possible cs e v \<longrightarrow> v \<le> k"
  have q: "query (mustBeTrue S cs (builder_binary Ule e (constant_of k))) = Inr (?Q k)" if "lo \<le> k" "k < M" for k
    using mustBeTrue_iff [OF assms(1)] Ule_query_sound [OF assms(2,3), of k] that assms(4,6)
    by (auto simp: follows_def possible_def)
  obtain hi k where s: "search_loop (\<lambda>k. query (mustBeTrue S cs (builder_binary Ule e (constant_of k)))) lo M n
      = Inr (hi, k)" "lo \<le> hi" "hi \<le> M" "\<And>x. hi \<le> x \<Longrightarrow> x < M \<Longrightarrow> ?Q x"
    using search_loop_finds [of lo M _ ?Q] q assms(5) by (smt (verit, ccfv_threshold))
  moreover have "v \<le> hi" if "possible cs e v" for v
    using s(3,4) leM [OF that] that by (cases "hi < M") (force, simp)
  ultimately show ?thesis using that by blast
qed

lemma evalPossibleValues_enumerates:
  assumes "wf_constraints cs" "wt e" "getWidth e = Int16" "sat \<sigma> cs"
  shows "enumerates (evalPossibleValues S e cs mx n) mx [] (all_values cs e)"
proof -
  note e = assms(1-3)
  obtain bits n1 where bits: "search_loop (\<lambda>mid. query (mustBeTrue S cs (builder_binary Eq
      (builder_binary LShr e (constant_of mid)) (constant_of 0)))) 0 16 n = Inr (bits, n1)"
    "0 \<le> maxValueOfNBits bits" "maxValueOfNBits bits < 65536" "\<And>v. possible cs e v \<Longrightarrow> v \<le> maxValueOfNBits bits"
    using search_bits [OF e, where n = n] by blast
  let ?M = "maxValueOfNBits bits"
  obtain lo n2 where lo: "search_loop (\<lambda>mid. query (mayBeTrue S cs (builder_binary Ule e (constant_of mid)))) 0 ?M n1 = Inr (lo, n2)"
    "0 \<le> lo" "lo \<le> ?M" "\<And>v. possible cs e v \<Longrightarrow> lo \<le> v"
    using search_min [OF e bits(2,3), where n = n1] by blast
  obtain hi n3 where hi: "search_loop (\<lambda>mid. query (mustBeTrue S cs (builder_binary Ule e (constant_of mid)))) lo ?M (n2 + 1) = Inr (hi, n3)"
    "lo \<le> hi" "hi \<le> ?M" "\<And>v. possible cs e v \<Longrightarrow> v \<le> hi"
    using search_max [OF e lo(2,3) bits(3,4), where n = "n2 + 1"] by blast
  have range: "values_in cs e lo hi = all_values cs e"
    unfolding all_values_def by (rule values_in_all) (use lo hi bits(3) in auto)
  have qe: "query (mustBeTrue S cs (builder_binary Eq e (constant_of lo))) = Inr (\<forall>v. possible cs e v \<longrightarrow> v = lo)"
    using mustBeTrue_iff [OF assms(1)] selected_sound [OF e(2,3), of lo] lo(2,3) bits(3)
    by (auto simp: selected_def follows_def possible_def)
  show ?thesis
  proof (cases "\<forall>v. possible cs e v \<longrightarrow> v = lo")
    case True
    moreover have "possible cs e (eval \<sigma> e)" using assms(4) by (auto simp: possible_def)
    ultimately have "all_values cs e = [selected e lo]"
      unfolding all_values_def using bits(3) lo(2,3) by (intro values_in_single) auto
    then show ?thesis using True
      by (simp only: evalPossibleValues_def e assert_that_simps rbind_simps bits(1) lo(1) prod.case Let_def qe)
        (simp add: enumerates_def selected_def)
  next
    case False
    then show ?thesis using range_enumerates [OF e lo(2), of hi mx "[]" n3] hi(3) bits(3)
      by (simp only: evalPossibleValues_def e assert_that_simps rbind_simps bits(1) lo(1) hi(1) prod.case Let_def qe if_False)
        (simp add: range)
  qed
qed

lemma filter_possible_selected:
  assumes "wf_constraints cs" "wt e" "getWidth e = Int16" "\<forall>v \<in> set L. 0 \<le> v \<and> v < 65536"
  shows "\<exists>k. filter_possible S cs (map (selected e) L) n = Inr (map (selected e) (filter (possible cs e) L), k)"
  using assms(4)
proof (induction L arbitrary: n)
  case (Cons v L)
  have "query (mayBeTrue S cs (snd (selected e v))) = Inr (possible cs e v)"
    using eq_query [OF assms(1-3)] Cons.prems by (simp add: selected_def)
  moreover obtain k where "filter_possible S cs (map (selected e) L) (n + 1)
      = Inr (map (selected e) (filter (possible cs e) L), k)"
    using Cons.IH [of "n + 1"] Cons.prems by auto
  moreover have "filter_possible S cs (selected e v # rest) n =
      rbind (query (mayBeTrue S cs (snd (selected e v)))) (\<lambda>res.
      rbind (filter_possible S cs rest (n + 1)) (\<lambda>(vs, n). Inr (if res then selected e v # vs else vs, n)))" for rest
    unfolding selected_def by (simp only: filter_possible.simps fst_conv snd_conv)
  ultimately show ?case by simp
qed simp

end

subsection \<open>The cache\<close>

definition cache_ok :: "constraints \<Rightarrow> values_cache \<Rightarrow> bool" where
  "cache_ok init vc \<longleftrightarrow> (\<forall>e vs. vc_entries vc e = Some vs \<longrightarrow> vs = [] \<or> vs = all_values init e)"

lemma cache_ok_empty: "cache_ok init \<lparr>vc_entries = Map.empty, vc_hits = 0, vc_misses = 0\<rparr>"
  by (simp add: cache_ok_def)

lemma all_values_nonempty:
  assumes "wt e" "getWidth e = Int16" "sat \<sigma> cs" shows "all_values cs e \<noteq> []"
proof -
  have "possible cs e (eval \<sigma> e)" using assms(3) by (auto simp: possible_def)
  then show ?thesis
    using possible_bounds [OF assms(1,2)] by (force simp: all_values_def values_in_def filter_empty_conv)
qed

context sound_solver
begin

lemma cache_lookup_correct:
  assumes "wf_constraints init" "wt e" "getWidth e = Int16" "sat \<sigma> init" "cache_ok init vc"
  obtains vs vc' k where "cache_lookup S threshold init e vc n = Inr (vs, vc', k)" "cache_ok init vc'"
    "vs = [] \<or> vs = all_values init e"
proof (cases "vc_entries vc e")
  case (Some vs)
  moreover have "cache_ok init (vc\<lparr>vc_hits := vc_hits vc + 1\<rparr>)" using assms(5) by (simp add: cache_ok_def)
  moreover have "vs = [] \<or> vs = all_values init e" using assms(5) Some by (simp add: cache_ok_def)
  ultimately show ?thesis using that by (simp add: cache_lookup_def)
next
  case None
  obtain ok vs k where ev: "evalPossibleValues S e init threshold n = Inr (ok, vs, k)" "ok \<longrightarrow> vs = all_values init e"
    using evalPossibleValues_enumerates [OF assms(1-4)] unfolding enumerates_def by (metis append_Nil)
  let ?vs = "if ok then vs else []"
  let ?vc = "vc\<lparr>vc_misses := vc_misses vc + 1, vc_entries := (vc_entries vc)(e \<mapsto> ?vs)\<rparr>"
  have "ok \<longrightarrow> vs \<noteq> []" using ev(2) all_values_nonempty [OF assms(2-4)] by simp
  then have "cache_lookup S threshold init e vc n = Inr (?vs, ?vc, k)"
    using ev(1) None by (simp add: cache_lookup_def Let_def)
  moreover have "cache_ok init ?vc" using assms(5) ev(2) by (auto simp: cache_ok_def)
  moreover have "?vs = [] \<or> ?vs = all_values init e" using ev(2) by simp
  ultimately show ?thesis by (rule that)
qed

lemma withCache_correct:
  assumes "wf_constraints cs" "wf_constraints init" "wt e" "getWidth e = Int16" "sat \<sigma> cs"
    and ext: "\<And>\<sigma>. sat \<sigma> cs \<Longrightarrow> sat \<sigma> init" and "cache_ok init vc"
  shows "\<exists>vc' k. evalPossibleValuesWithCache S threshold init e cs vc n = Inr (all_values cs e, vc', k) \<and> cache_ok init vc'"
proof -
  have direct: "\<exists>k. evalPossibleValues S e cs (-1) n = Inr (True, all_values cs e, k)" for n
    using evalPossibleValues_enumerates [OF assms(1,3-5), of "-1" n] unfolding enumerates_def by auto
  obtain vs vc' k where l: "cache_lookup S threshold init e vc n = Inr (vs, vc', k)" "cache_ok init vc'"
    "vs = [] \<or> vs = all_values init e"
    using cache_lookup_correct [OF assms(2-4) ext [OF assms(5)] assms(7)] by metis
  have "possible cs e v \<Longrightarrow> possible init e v" for v using ext by (auto simp: possible_def)
  then have "filter (possible cs e) (filter (possible init e) L) = filter (possible cs e) L" for L
    by (induction L) auto
  then have "\<exists>k. filter_possible S cs (all_values init e) n = Inr (all_values cs e, k)" for n
    using filter_possible_selected [OF assms(1,3,4), of "filter (possible init e) [0..65535]"]
    by (simp add: all_values_def values_in_def)
  then show ?thesis
    using assms(4,7) direct l direct [of k] by (cases "threshold = 0"; cases "vs = []") (force simp: evalPossibleValuesWithCache_def)+
qed

end

subsection \<open>Properties\<close>

text \<open>
  C16: with a sound solver and satisfiable constraints the enumeration returns without running into
  its limit or an uninitialized variable, and its result lists exactly the values that the
  expression takes in the models of the constraints, strictly increasing, each with an expression that
  is true exactly where the value is taken.
\<close>
theorem evalPossibleValues_correct:
  assumes "sound_solver S" "wf_constraints cs" "wt e" "getWidth e = Int16" "sat \<sigma> cs"
  shows "\<exists>vs k. evalPossibleValues S e cs (-1) n = Inr (True, vs, k) \<and>
    uint ` fst ` set vs = {eval \<tau> e |\<tau>. sat \<tau> cs} \<and> sorted_wrt (<) (map (uint \<circ> fst) vs) \<and>
    (\<forall>(v, c) \<in> set vs. wf_constraint c \<and> (\<forall>\<tau>. eval \<tau> c = of_bool (eval \<tau> e = uint v)))"
proof -
  obtain k where r: "evalPossibleValues S e cs (-1) n = Inr (True, all_values cs e, k)"
    using sound_solver.evalPossibleValues_enumerates [OF assms, of "-1" n] unfolding enumerates_def by auto
  have u: "uint (fst (selected e v)) = v" if "0 \<le> v" "v < 65536" for v
    using that by (simp add: selected_def uint_word_of_int take_bit_int_eq_self)
  have "uint ` fst ` set (all_values cs e) = {v. possible cs e v}"
    using u possible_bounds [OF assms(3,4)] by (force simp: all_values_def values_in_def image_iff)
  moreover have "map (uint \<circ> fst) (all_values cs e) = filter (possible cs e) [0..65535]"
    using u by (auto simp: all_values_def values_in_def intro!: map_idI)
  then have "sorted_wrt (<) (map (uint \<circ> fst) (all_values cs e))"
    by (simp add: sorted_wrt_filter)
  moreover have "\<forall>(v, c) \<in> set (all_values cs e). wf_constraint c \<and> (\<forall>\<tau>. eval \<tau> c = of_bool (eval \<tau> e = uint v))"
    using selected_sound [OF assms(3,4)] u unfolding all_values_def values_in_def by (force simp: selected_def)
  ultimately show ?thesis using r by (auto simp: possible_def)
qed

theorem evalPossibleValues_correct_witness:
  "\<exists>vs k. evalPossibleValues reference_solver demo_read [BinaryExpr Ule demo_read (ConstantExpr 16 1)] (-1) 0
      = Inr (True, vs, k) \<and> uint ` fst ` set vs = {0, 1}"
proof -
  let ?cs = "[BinaryExpr Ule demo_read (ConstantExpr 16 1)]"
  have w: "wf_constraints ?cs" "wt demo_read" "getWidth demo_read = Int16" "sat (\<lambda>a i. 0) ?cs"
    by (simp_all add: wf_constraint_def demo_read_def)
  have "{eval \<tau> demo_read |\<tau>. sat \<tau> ?cs} = {0, 1}"
  proof (intro equalityI subsetI)
    show "v \<in> {0, 1}" if v: "v \<in> {eval \<tau> demo_read |\<tau>. sat \<tau> ?cs}" for v
    proof -
      obtain \<tau> where "v = eval \<tau> demo_read" "eval \<tau> demo_read \<le> 1" using v by auto
      then show ?thesis using eval_bounds(1) [OF w(2), of \<tau>] by auto
    qed
    show "v \<in> {eval \<tau> demo_read |\<tau>. sat \<tau> ?cs}" if v: "v \<in> {0, 1}" for v
    proof -
      have "v = eval (\<lambda>a i. v) demo_read" using v by (auto simp: demo_read_def)
      moreover have "sat (\<lambda>a i. v) ?cs" using v by (auto simp: demo_read_def)
      ultimately show ?thesis by blast
    qed
  qed
  then show ?thesis
    using evalPossibleValues_correct [OF ref_solver.sound_solver_axioms w, of 0] by auto
qed

text \<open>
  C20: the cache is transparent.  When the constraints of the state extend the initial constraints
  and the cache holds what earlier lookups put there, the cached enumeration returns for every
  threshold the values that the enumeration without a cache returns, and keeps the cache correct.
\<close>
theorem evalPossibleValuesWithCache_correct:
  assumes "sound_solver S" "wf_constraints cs" "wf_constraints init" "wt e" "getWidth e = Int16" "sat \<sigma> cs"
    and "\<forall>\<tau>. sat \<tau> cs \<longrightarrow> sat \<tau> init" "cache_ok init vc"
  shows "\<exists>vs vc' k j. evalPossibleValuesWithCache S threshold init e cs vc n = Inr (vs, vc', k) \<and>
    evalPossibleValues S e cs (-1) n = Inr (True, vs, j) \<and> cache_ok init vc'"
proof -
  have "\<exists>j. evalPossibleValues S e cs (-1) n = Inr (True, all_values cs e, j)"
    using sound_solver.evalPossibleValues_enumerates [OF assms(1,2,4,5,6), of "-1" n] unfolding enumerates_def by auto
  then show ?thesis
    using sound_solver.withCache_correct [OF assms(1-6) _ assms(8), of threshold n] assms(7) by blast
qed

theorem evalPossibleValuesWithCache_correct_witness:
  "\<exists>vs vc' k j. evalPossibleValuesWithCache reference_solver 4 [] demo_read [BinaryExpr Ule demo_read (ConstantExpr 16 1)]
      \<lparr>vc_entries = Map.empty, vc_hits = 0, vc_misses = 0\<rparr> 0 = Inr (vs, vc', k) \<and>
    evalPossibleValues reference_solver demo_read [BinaryExpr Ule demo_read (ConstantExpr 16 1)] (-1) 0 = Inr (True, vs, j)"
proof -
  let ?cs = "[BinaryExpr Ule demo_read (ConstantExpr 16 1)]"
  have w: "wf_constraints ?cs" "wf_constraints []" "wt demo_read" "getWidth demo_read = Int16" "sat (\<lambda>a i. 0) ?cs"
    "\<forall>\<tau>. sat \<tau> ?cs \<longrightarrow> sat \<tau> []"
    by (simp_all add: wf_constraint_def demo_read_def)
  show ?thesis
    using evalPossibleValuesWithCache_correct [OF ref_solver.sound_solver_axioms w cache_ok_empty, of 4 0] by blast
qed

end
