(* ===== verification/Klc3_Executor.thy ===== *)
theory Klc3_Executor
  imports Klc3_Values
begin

text \<open>
  The symbolic executor (\<open>include/klc3/Core/Executor.h\<close>, \<open>lib/klc3/Core/Executor.cpp\<close>): one step of a
  state, which fetches, decodes and executes one LC-3 instruction and returns the successor states.

  Operations on a single state work on a pair of the shared issue package and the state; a handler
  that can fork works on the \<open>executor\<close>, which also holds the allocator, the initial constraints and
  the cache of values.  The solver and the command line option \<open>cache-sym-addr-threshold\<close> are in
  \<open>config\<close>.  The text of the notes attached to an issue is left out, as is the issue type that
  \<open>memReadData\<close> and \<open>memWriteData\<close> return, which no caller uses.  The arguments of \<open>handleExprST\<close> are
  evaluated from left to right (C++ leaves the order open; it matters only when one uninitialized
  register is both the base and the source).
\<close>

unbundle bit_operations_syntax

type_synonym ctx = "issue_package \<times> state"

record config =
  cf_solver :: solver_impl
  cf_threshold :: int

record executor =
  ex_baseMem :: "addr \<Rightarrow> mem_value option"
  ex_initConstraints :: constraints
  ex_allocator :: allocator
  ex_cache :: values_cache
  ex_issues :: issue_package

definition Executor :: "(addr \<Rightarrow> mem_value option) \<Rightarrow> issue_package \<Rightarrow> executor" where
  "Executor base ip = \<lparr>ex_baseMem = base, ex_initConstraints = [], ex_allocator = StateAllocator,
     ex_cache = \<lparr>vc_entries = Map.empty, vc_hits = 0, vc_misses = 0\<rparr>, ex_issues = ip\<rparr>"

definition load_constraint :: "config \<Rightarrow> expr \<Rightarrow> state \<Rightarrow> state res" where
  "load_constraint cf c s =
     rbind (query (mustBeFalse (cf_solver cf) (st_constraints s) c)) (\<lambda>res.
     let s = s\<lparr>st_solverCount := st_solverCount s + 1\<rparr> in
     if res then Inl (ProgExit ''Initial constraints are provably unsatisfiable! Failed to create initial state!'')
     else State_addConstraint s c)"

definition createInitState :: "config \<Rightarrow> constraints \<Rightarrow> addr \<Rightarrow> executor \<Rightarrow> (executor \<times> state) res" where
  "createInitState cf constraints initPC ex =
     (case allocator_createInitState (ex_allocator ex) (ex_baseMem ex) initPC of (al, s) \<Rightarrow>
      rbind (rfold (load_constraint cf) constraints s) (\<lambda>s.
        Inr (ex\<lparr>ex_allocator := al, ex_initConstraints := st_constraints s\<rparr>, s)))"

subsection \<open>Registers and condition code\<close>

definition getReg :: "reg \<Rightarrow> mem_value \<Rightarrow> bool \<Rightarrow> ctx \<Rightarrow> (expr option \<times> ctx) res" where
  "getReg r ir bypassUninitialized = (\<lambda>(ip, s).
     rbind (State_getReg s r) (\<lambda>ret.
     if ret = None \<and> \<not> bypassUninitialized then
       rbind (if mv_belongsToOS ir then Inr (ip, s)
              else newStateIssue WARN_USE_UNINITIALIZED_REGISTER (Some ir) (ip, s)) (\<lambda>(ip, s).
       rbind (State_setReg s r (Some (buildConstant 0))) (\<lambda>s.
       Inr (Some (buildConstant 0), (ip, s))))
     else Inr (ret, (ip, s))))"

definition location_change :: "reg \<Rightarrow> mem_value \<Rightarrow> state \<Rightarrow> state" where
  "location_change r ir s = s\<lparr>st_regChangeLocation := (st_regChangeLocation s)(r := Some ir)\<rparr>"

text \<open>\<open>setReg\<close> with an expression: the case of the program counter falls through to \<open>IR\<close>.\<close>

definition setReg :: "reg \<Rightarrow> expr option \<Rightarrow> mem_value \<Rightarrow> state \<Rightarrow> state res" where
  "setReg r value ir s =
     rbind
      (if r = R_PC then
         (case value of
            None \<Rightarrow> Inl (NullDeref ''value'')
          | Some e \<Rightarrow>
              rbind (assert_that (is_ConstantExpr e) ''value->getKind() == klee::Expr::Constant'') (\<lambda>_.
              rbind (castConstant e) (\<lambda>w. Inr (s\<lparr>st_pc := w, st_ir := value\<rparr>))))
       else if r = R_IR then Inr (s\<lparr>st_ir := value\<rparr>)
       else State_setReg s r value)
      (\<lambda>s. Inr (location_change r ir s))"

definition setReg_word :: "reg \<Rightarrow> 16 word \<Rightarrow> mem_value \<Rightarrow> state \<Rightarrow> state res" where
  "setReg_word r value ir s =
     rbind
      (if r = R_PC then Inr (s\<lparr>st_pc := value\<rparr>)
       else if r = R_IR then Inr (s\<lparr>st_ir := Some (buildConstant value)\<rparr>)
       else State_setReg s r (Some (buildConstant value)))
      (\<lambda>s. Inr (location_change r ir s))"

definition setCC :: "reg \<Rightarrow> mem_value \<Rightarrow> state \<Rightarrow> state" where
  "setCC r ir s = s\<lparr>st_ccRef := r, st_ccChangeLocation := Some ir\<rparr>"

definition getCCExpr :: "mem_value \<Rightarrow> ctx \<Rightarrow> (expr \<times> ctx) res" where
  "getCCExpr ir = (\<lambda>(ip, s). case State_getCCExpr s of
       Some e \<Rightarrow> Inr (e, (ip, s))
     | None \<Rightarrow>
         let r = st_ccRef s in
         if r = NUM_REGS then
           rbind (newStateIssue WARN_USE_UNINITIALIZED_CC (Some ir) (ip, s)) (\<lambda>c. Inr (buildConstant 0, c))
         else
           rbind (newStateIssue WARN_USE_UNINITIALIZED_REGISTER (Some ir) (ip, s)) (\<lambda>(ip, s).
           rbind (State_setReg s r (Some (buildConstant 0))) (\<lambda>s.
           Inr (buildConstant 0, (ip, s\<lparr>st_ccRef := r\<rparr>)))))"

subsection \<open>Memory accesses\<close>

text \<open>\<open>dr\<close> is the register the data is read into, \<open>None\<close> for \<open>-1\<close>.\<close>

definition memReadData :: "addr \<Rightarrow> mem_value \<Rightarrow> reg option \<Rightarrow> ctx \<Rightarrow> (expr option \<times> ctx) res" where
  "memReadData addr ir dr = (\<lambda>(ip, s). case mem_read (st_mem s) addr of
       None \<Rightarrow>
         rbind (newStateIssue WARN_POSSIBLE_WILD_READ (Some ir) (ip, s)) (\<lambda>c. Inr (Some (buildConstant 0), c))
     | Some value \<Rightarrow>
         rbind (if mv_type value = MEM_DATA \<and> mv_forWrite value
                then newStateIssue WARN_READ_UNINITIALIZED_MEMORY (Some ir) (ip, s)
                else if mv_type value = MEM_INST then newStateIssue WARN_READ_INST_AS_DATA (Some ir) (ip, s)
                else Inr (ip, s)) (\<lambda>(ip, s).
         case mv_e value of
           Some e \<Rightarrow> Inr (Some e, (ip, s))
         | None \<Rightarrow> (case st_memStoringUninitReg s addr of
             None \<Rightarrow> Inr (Some (buildConstant 0), (ip, s))
           | Some (r, stored) \<Rightarrow>
               if dr = Some r then Inr (None, (ip, s))
               else
                 rbind (newStateIssue WARN_USE_UNINITIALIZED_REGISTER (Some ir) (ip, s)) (\<lambda>(ip, s).
                 Inr (Some (buildConstant 0),
                   (ip, s\<lparr>st_memStoringUninitReg := (st_memStoringUninitReg s)(addr := None)\<rparr>))))))"

text \<open>The checks before a write; the result says whether the write goes ahead.\<close>

definition check_write :: "addr \<Rightarrow> mem_value \<Rightarrow> ctx \<Rightarrow> (bool \<times> ctx) res" where
  "check_write addr ir = (\<lambda>(ip, s). case mem_read (st_mem s) addr of
       None \<Rightarrow> rbind (newStateIssue WARN_POSSIBLE_WILD_WRITE (Some ir) (ip, s)) (\<lambda>c. Inr (True, c))
     | Some oldVal \<Rightarrow>
         if mv_type oldVal = MEM_DATA \<and> mv_forRead oldVal then
           rbind (newStateIssue WARN_WRITE_READ_ONLY_DATA (Some ir) (ip, s)) (\<lambda>c. Inr (True, c))
         else if mv_type oldVal = MEM_INST then
           rbind (newStateIssue ERR_OVERWRITE_INST (Some ir) (ip, s)) (\<lambda>(ip, s).
           rbind (assert_that (st_status s = BROKEN) ''Non-continuable error'') (\<lambda>_.
           Inr (False, (ip, s))))
         else Inr (True, (ip, s)))"

definition after_write :: "write_result \<Rightarrow> expr option \<Rightarrow> mem_value \<Rightarrow> ctx \<Rightarrow> ctx res" where
  "after_write r value ir = (\<lambda>(ip, s). case r of
       WRITE_SUCCESS \<Rightarrow> Inr (ip, s)
     | WRITE_HALT \<Rightarrow>
         let s = s\<lparr>st_status := HALTED\<rparr> in
         (case fst (st_latestNonOSInst s) of
            None \<Rightarrow> Inl (NullDeref ''latestNonOSInst[0]'')
          | Some i \<Rightarrow> if inst_id i \<noteq> I_TRAP then newStateIssue WARN_MANUAL_HALT (Some i) (ip, s) else Inr (ip, s))
     | WRITE_DDR \<Rightarrow>
         (case value of
            None \<Rightarrow>
              rbind (newStateIssue WARN_USE_UNINITIALIZED_REGISTER (Some ir) (ip, s)) (\<lambda>(ip, s).
              Inr (ip, s\<lparr>st_lc3Out := st_lc3Out s @ [buildConstant 0]\<rparr>))
          | Some e \<Rightarrow> Inr (ip, s\<lparr>st_lc3Out := st_lc3Out s @ [e]\<rparr>)))"

definition memWriteData :: "addr \<Rightarrow> expr option \<Rightarrow> mem_value \<Rightarrow> ctx \<Rightarrow> ctx res" where
  "memWriteData addr value ir c =
     rbind (check_write addr ir c) (\<lambda>(go, (ip, s)).
     if \<not> go then Inr (ip, s)
     else
       let s = s\<lparr>st_memStoringUninitReg := (st_memStoringUninitReg s)
                   (addr := if value = None then Some (inst_sr ir, ir) else None)\<rparr> in
       rbind (mem_writeData (st_mem s) addr value) (\<lambda>(result, m).
       after_write result value ir (ip, s\<lparr>st_mem := m\<rparr>)))"

subsection \<open>Fetching\<close>

definition fetchInst :: "ctx \<Rightarrow> (mem_value option \<times> ctx) res" where
  "fetchInst = (\<lambda>(ip, s). case mem_read (st_mem s) (st_pc s) of
       Some val \<Rightarrow>
         if mv_type val = MEM_INST then Inr (Some val, (ip, s))
         else
           rbind (newStateIssue ERR_EXECUTE_DATA_AS_INST (fst (st_latestNonOSInst s)) (ip, s)) (\<lambda>(ip, s).
           rbind (assert_that (st_status s = BROKEN) ''Non-continuable error'') (\<lambda>_. Inr (None, (ip, s))))
     | None \<Rightarrow>
         rbind (newStateIssue ERR_EXECUTE_UNINITIALIZED_MEMORY (fst (st_latestNonOSInst s)) (ip, s)) (\<lambda>(ip, s).
         rbind (assert_that (st_status s = BROKEN) ''Non-continuable error'') (\<lambda>_. Inr (None, (ip, s)))))"

definition updateIRAndPC :: "mem_value \<Rightarrow> state \<Rightarrow> state res" where
  "updateIRAndPC ir s =
     rbind (setReg R_IR (mv_e ir) ir s) (\<lambda>s. setReg_word R_PC (st_pc s + 1) ir s)"

definition update_path :: "mem_value \<Rightarrow> state \<Rightarrow> state" where
  "update_path ir s =
     (let s = s\<lparr>st_latestInst := (Some ir, fst (st_latestInst s))\<rparr>;
          s = (if mv_belongsToOS ir then s
               else s\<lparr>st_latestNonOSInst := (Some ir, fst (st_latestNonOSInst s))\<rparr>)
      in s\<lparr>st_stepCount := st_stepCount s + 1\<rparr>)"

subsection \<open>Arithmetic and control instructions\<close>

text \<open>
  The sum of two operands, with repeated additions folded into multiplications.  The arithmetic
  modulo 65536 of the factors is that of \<^typ>\<open>16 word\<close>.
\<close>

definition mul_const :: "16 word \<Rightarrow> expr \<Rightarrow> expr" where
  "mul_const mulVal e =
     (if mulVal = 0 then buildConstant 0 else builder_binary Mul (buildConstant mulVal) e)"

definition mul_right :: "(expr \<times> expr) option \<Rightarrow> expr \<Rightarrow> bool" where
  "mul_right m e = (case m of Some (l, r) \<Rightarrow> r = e | None \<Rightarrow> False)"

definition mul_structure :: "(expr \<times> expr) option \<Rightarrow> bool" where
  "mul_structure m = (case m of Some (l, r) \<Rightarrow> is_ConstantExpr l | None \<Rightarrow> True)"

definition add_operands :: "expr \<Rightarrow> expr \<Rightarrow> expr res" where
  "add_operands op1 op2 =
     (let mul1 = as_binary Mul op1; mul2 = as_binary Mul op2 in
      rbind (assert_that (mul_structure mul1) ''Unexpected mul1 structure'') (\<lambda>_.
      rbind (assert_that (mul_structure mul2) ''Unexpected mul2 structure'') (\<lambda>_.
      if op1 = op2 then
        (case mul1 of
           Some (l, r) \<Rightarrow> rbind (castConstant l) (\<lambda>w. Inr (mul_const (w * 2) r))
         | None \<Rightarrow> Inr (builder_binary Mul (buildConstant 2) op1))
      else if mul_right mul1 op2 \<or> mul_right mul2 op1 then
        (case (if mul_right mul1 op2 then mul1 else mul2) of
           Some (l, r) \<Rightarrow> rbind (castConstant l) (\<lambda>w. Inr (mul_const (w + 1) r))
         | None \<Rightarrow> Inl (NullDeref ''op''))
      else (case (mul1, mul2) of
           (Some (l1, r1), Some (l2, r2)) \<Rightarrow>
             if r1 = r2 then
               rbind (castConstant l1) (\<lambda>w1. rbind (castConstant l2) (\<lambda>w2. Inr (mul_const (w1 + w2) r1)))
             else Inr (builder_binary Add op1 op2)
         | _ \<Rightarrow> Inr (builder_binary Add op1 op2)))))"

definition deref :: "expr option \<Rightarrow> expr res" where
  "deref v = (case v of Some e \<Rightarrow> Inr e | None \<Rightarrow> Inl (NullDeref ''ref<Expr>''))"

text \<open>The result goes to the register, which becomes the source of the condition code.\<close>

definition setReg_CC :: "reg \<Rightarrow> expr option \<Rightarrow> mem_value \<Rightarrow> ctx \<Rightarrow> ctx res" where
  "setReg_CC dr value ir = (\<lambda>(ip, s). rbind (setReg dr value ir s) (\<lambda>s. Inr (ip, setCC dr ir s)))"

definition second_operand :: "mem_value \<Rightarrow> ctx \<Rightarrow> (expr option \<times> ctx) res" where
  "second_operand ir c =
     (if id_format (mv_def ir) = FMT_RRR then getReg (inst_sr2 ir) ir False c
      else Inr (Some (buildConstant (inst_imm5 ir)), c))"

definition executeADD :: "mem_value \<Rightarrow> ctx \<Rightarrow> ctx res" where
  "executeADD ir c =
     rbind (getReg (inst_sr1 ir) ir False c) (\<lambda>(op1, c).
     rbind (second_operand ir c) (\<lambda>(op2, c).
     rbind (deref op1) (\<lambda>op1. rbind (deref op2) (\<lambda>op2.
     rbind (add_operands op1 op2) (\<lambda>result. setReg_CC (inst_dr ir) (Some result) ir c)))))"

text \<open>
  An operand of \<open>AND\<close> that is uninitialized: a warning, unless the other operand is the constant
  zero, and the register is set to zero.
\<close>

definition and_operand :: "reg \<Rightarrow> expr option \<Rightarrow> expr option \<Rightarrow> mem_value \<Rightarrow> ctx \<Rightarrow> ctx res" where
  "and_operand r op other ir = (\<lambda>(ip, s).
     if op = None \<and> (case other of None \<Rightarrow> True | Some e \<Rightarrow> \<not> isZero e) \<and> \<not> mv_belongsToOS ir then
       rbind (newStateIssue WARN_USE_UNINITIALIZED_REGISTER (Some ir) (ip, s)) (\<lambda>(ip, s).
       rbind (setReg_word r 0 ir s) (\<lambda>s. Inr (ip, s)))
     else Inr (ip, s))"

definition or_zero :: "expr option \<Rightarrow> expr" where
  "or_zero v = (case v of Some e \<Rightarrow> e | None \<Rightarrow> buildConstant 0)"

definition executeAND :: "mem_value \<Rightarrow> ctx \<Rightarrow> ctx res" where
  "executeAND ir c =
     rbind (State_getReg (snd c) (inst_sr1 ir)) (\<lambda>op1.
     rbind (if id_format (mv_def ir) = FMT_RRR then State_getReg (snd c) (inst_sr2 ir)
            else Inr (Some (buildConstant (inst_imm5 ir)))) (\<lambda>op2.
     rbind (and_operand (inst_sr1 ir) op1 op2 ir c) (\<lambda>c.
     rbind (and_operand (inst_sr2 ir) op2 op1 ir c) (\<lambda>c.
     setReg_CC (inst_dr ir) (Some (builder_binary And (or_zero op1) (or_zero op2))) ir c))))"

definition executeNOT :: "mem_value \<Rightarrow> ctx \<Rightarrow> ctx res" where
  "executeNOT ir c =
     rbind (getReg (inst_sr1 ir) ir False c) (\<lambda>(op, c).
     rbind (deref op) (\<lambda>op. setReg_CC (inst_dr ir) (Some (builder_Not op)) ir c))"

definition executeLEA :: "mem_value \<Rightarrow> ctx \<Rightarrow> ctx res" where
  "executeLEA ir = (\<lambda>(ip, s).
     rbind (setReg_word (inst_dr ir) (st_pc s + inst_imm9 ir) ir s) (\<lambda>s. Inr (ip, setCC (inst_dr ir) ir s)))"

text \<open>A jump to the value of a register; a value that is not constant breaks the state.\<close>

definition symbolic_pc :: "mem_value \<Rightarrow> ctx \<Rightarrow> ctx res" where
  "symbolic_pc ir c =
     rbind (newStateIssue ERR_SYMBOLIC_PC (Some ir) c) (\<lambda>(ip, s).
     rbind (assert_that (st_status s = BROKEN) ''Non-continuable error'') (\<lambda>_. Inr (ip, s)))"

definition executeJMP :: "mem_value \<Rightarrow> ctx \<Rightarrow> ctx res" where
  "executeJMP ir = (\<lambda>(ip, s).
     rbind (if \<not> mv_belongsToOS ir \<and> inst_baseR ir = R_R7 \<and> \<not> st_stackHasMessedUp s \<and>
               st_colorStack s \<noteq> [] \<and> length (st_colorStack s) < 2
            then rbind (newStateIssue ERR_RET_IN_MAIN_CODE (Some ir) (ip, s)) (\<lambda>(ip, s).
                 Inr (ip, s\<lparr>st_stackHasMessedUp := True\<rparr>))
            else Inr (ip, s)) (\<lambda>(ip, s).
     if st_status s = NORMAL then
       rbind (getReg (inst_baseR ir) ir False (ip, s)) (\<lambda>(newPC, (ip, s)).
       rbind (deref newPC) (\<lambda>e.
       if \<not> is_ConstantExpr e then symbolic_pc ir (ip, s)
       else rbind (setReg R_PC (Some e) ir s) (\<lambda>s. Inr (ip, s))))
     else Inr (ip, s)))"

definition executeJSRR :: "mem_value \<Rightarrow> ctx \<Rightarrow> ctx res" where
  "executeJSRR ir c =
     rbind (getReg (inst_baseR ir) ir False c) (\<lambda>(newPC, (ip, s)).
     rbind (deref newPC) (\<lambda>e.
     if \<not> is_ConstantExpr e then symbolic_pc ir (ip, s)
     else
       rbind (setReg_word R_R7 (st_pc s) ir s) (\<lambda>s.
       rbind (setReg R_PC (Some e) ir s) (\<lambda>s. Inr (ip, s)))))"

definition executeJSR :: "mem_value \<Rightarrow> ctx \<Rightarrow> ctx res" where
  "executeJSR ir = (\<lambda>(ip, s).
     rbind (setReg_word R_R7 (st_pc s) ir s) (\<lambda>s.
     rbind (setReg_word R_PC (st_pc s + inst_imm11 ir) ir s) (\<lambda>s. Inr (ip, s))))"

definition executeTRAP :: "mem_value \<Rightarrow> ctx \<Rightarrow> ctx res" where
  "executeTRAP ir = (\<lambda>(ip, s).
     if mv_sourceContent ir = ''INSTANT_HALT'' then Inr (ip, s\<lparr>st_status := HALTED\<rparr>)
     else
       rbind (setReg_word R_R7 (st_pc s) ir s) (\<lambda>s.
       rbind (memReadData (inst_vec8 ir) ir None (ip, s)) (\<lambda>(newPC, (ip, s)).
       if st_status s \<noteq> NORMAL then Inr (ip, s)
       else
         rbind (deref newPC) (\<lambda>e. rbind (castConstant e) (\<lambda>w.
         rbind (setReg_word R_PC w ir s) (\<lambda>s. Inr (ip, s)))))))"

subsection \<open>Loads and stores\<close>

definition load_from :: "reg \<Rightarrow> mem_value \<Rightarrow> addr \<Rightarrow> ctx \<Rightarrow> ctx res" where
  "load_from DR ir addr c =
     rbind (memReadData addr ir (Some DR) c) (\<lambda>(data, c).
     if st_status (snd c) \<noteq> NORMAL then Inr c else setReg_CC DR data ir c)"

definition executeLD :: "mem_value \<Rightarrow> ctx \<Rightarrow> ctx res" where
  "executeLD ir c = load_from (inst_dr ir) ir (st_pc (snd c) + inst_imm9 ir) c"

definition executeST :: "mem_value \<Rightarrow> ctx \<Rightarrow> ctx res" where
  "executeST ir c =
     rbind (getReg (inst_sr ir) ir True c) (\<lambda>(value, c).
     memWriteData (st_pc (snd c) + inst_imm9 ir) value ir c)"

fun fork_values :: "bool \<Rightarrow> state \<Rightarrow> value_list \<Rightarrow> allocator \<Rightarrow> (allocator \<times> (addr \<times> state) list) res" where
  "fork_values many s [] al = Inr (al, [])"
| "fork_values many s [(v, c)] al =
     rbind (if many then State_addConstraint s c else Inr s) (\<lambda>t. Inr (al, [(v, t)]))"
| "fork_values many s ((v, c) # w # rest) al =
     rbind (allocator_fork al s) (\<lambda>(al, t).
     rbind (if many then State_addConstraint t c else Inr t) (\<lambda>t.
     rbind (fork_values many s (w # rest) al) (\<lambda>(al, ts). Inr (al, (v, t) # ts))))"

definition forkOnRange :: "config \<Rightarrow> expr \<Rightarrow> executor \<Rightarrow> state \<Rightarrow> (executor \<times> (addr \<times> state) list) res" where
  "forkOnRange cf val ex s =
     rbind (evalPossibleValuesWithCache (cf_solver cf) (cf_threshold cf) (ex_initConstraints ex) val
              (st_constraints s) (ex_cache ex) (st_solverCount s)) (\<lambda>(vs, cache, n).
     let s = s\<lparr>st_solverCount := n\<rparr>; ex = ex\<lparr>ex_cache := cache\<rparr> in
     rbind (fork_values (length vs \<noteq> 1) s vs (ex_allocator ex)) (\<lambda>(al, instances).
     Inr (ex\<lparr>ex_allocator := al\<rparr>, instances)))"

fun for_instances :: "(addr \<Rightarrow> ctx \<Rightarrow> ctx res) \<Rightarrow> (addr \<times> state) list \<Rightarrow> issue_package \<Rightarrow> (issue_package \<times> state list) res" where
  "for_instances f [] ip = Inr (ip, [])"
| "for_instances f ((a, t) # rest) ip =
     rbind (f a (ip, t)) (\<lambda>(ip, t).
     rbind (for_instances f rest ip) (\<lambda>(ip, ts). Inr (ip, t # ts)))"

text \<open>\<open>handleExprLD\<close> and \<open>handleExprST\<close> differ in what they do at each concrete address.\<close>

definition at_address :: "config \<Rightarrow> (addr \<Rightarrow> ctx \<Rightarrow> ctx res) \<Rightarrow> expr \<Rightarrow> executor \<Rightarrow> state \<Rightarrow> (executor \<times> state list) res" where
  "at_address cf f addr ex s =
     (if is_ConstantExpr addr then
        rbind (castConstant addr) (\<lambda>a.
        rbind (f a (ex_issues ex, s)) (\<lambda>(ip, s). Inr (ex\<lparr>ex_issues := ip\<rparr>, [s])))
      else
        rbind (forkOnRange cf addr ex s) (\<lambda>(ex, instances).
        rbind (assert_that (instances \<noteq> []) ''Immediate address evaluate to no range'') (\<lambda>_.
        rbind (for_instances f instances (ex_issues ex)) (\<lambda>(ip, ts). Inr (ex\<lparr>ex_issues := ip\<rparr>, ts)))))"

definition handleExprLD :: "config \<Rightarrow> reg \<Rightarrow> expr \<Rightarrow> mem_value \<Rightarrow> executor \<Rightarrow> state \<Rightarrow> (executor \<times> state list) res" where
  "handleExprLD cf DR addr ir = at_address cf (load_from DR ir) addr"

definition handleExprST :: "config \<Rightarrow> expr \<Rightarrow> expr option \<Rightarrow> mem_value \<Rightarrow> executor \<Rightarrow> state \<Rightarrow> (executor \<times> state list) res" where
  "handleExprST cf addr value ir = at_address cf (\<lambda>a. memWriteData a value ir) addr"

definition executeLDR :: "config \<Rightarrow> mem_value \<Rightarrow> executor \<Rightarrow> state \<Rightarrow> (executor \<times> state list) res" where
  "executeLDR cf ir ex s =
     rbind (getReg (inst_baseR ir) ir False (ex_issues ex, s)) (\<lambda>(base, (ip, s)).
     rbind (deref base) (\<lambda>base.
     handleExprLD cf (inst_dr ir) (builder_binary Add base (buildConstant (inst_imm6 ir))) ir
       (ex\<lparr>ex_issues := ip\<rparr>) s))"

definition executeSTR :: "config \<Rightarrow> mem_value \<Rightarrow> executor \<Rightarrow> state \<Rightarrow> (executor \<times> state list) res" where
  "executeSTR cf ir ex s =
     rbind (getReg (inst_baseR ir) ir False (ex_issues ex, s)) (\<lambda>(base, c).
     rbind (deref base) (\<lambda>base.
     rbind (getReg (inst_sr ir) ir True c) (\<lambda>(value, (ip, s)).
     handleExprST cf (builder_binary Add base (buildConstant (inst_imm6 ir))) value ir
       (ex\<lparr>ex_issues := ip\<rparr>) s)))"

definition executeLDI :: "config \<Rightarrow> mem_value \<Rightarrow> executor \<Rightarrow> state \<Rightarrow> (executor \<times> state list) res" where
  "executeLDI cf ir ex s =
     rbind (memReadData (st_pc s + inst_imm9 ir) ir None (ex_issues ex, s)) (\<lambda>(mid, (ip, s)).
     let ex = ex\<lparr>ex_issues := ip\<rparr> in
     if st_status s \<noteq> NORMAL then Inr (ex, [s])
     else rbind (deref mid) (\<lambda>midAddr. handleExprLD cf (inst_dr ir) midAddr ir ex s))"

definition executeSTI :: "config \<Rightarrow> mem_value \<Rightarrow> executor \<Rightarrow> state \<Rightarrow> (executor \<times> state list) res" where
  "executeSTI cf ir ex s =
     rbind (memReadData (st_pc s + inst_imm9 ir) ir None (ex_issues ex, s)) (\<lambda>(mid, (ip, s)).
     if st_status s \<noteq> NORMAL then Inr (ex\<lparr>ex_issues := ip\<rparr>, [s])
     else
       rbind (deref mid) (\<lambda>midAddr.
       rbind (getReg (inst_sr ir) ir True (ip, s)) (\<lambda>(value, (ip, s)).
       handleExprST cf midAddr value ir (ex\<lparr>ex_issues := ip\<rparr>) s)))"

subsection \<open>Branches\<close>

definition br_condition :: "nat \<Rightarrow> expr \<Rightarrow> expr" where
  "br_condition cc e =
     (if cc = 4 then builder_binary Slt e (buildConstant 0)
      else if cc = 2 then createIsZero e
      else if cc = 1 then builder_binary Slt (buildConstant 0) e
      else if cc = 5 then createIsZero (createIsZero e)
      else if cc = 6 then builder_binary Sle e (buildConstant 0)
      else builder_binary Sle (buildConstant 0) e)"

definition solveBRCond :: "config \<Rightarrow> mem_value \<Rightarrow> ctx \<Rightarrow> (validity \<times> expr option \<times> ctx) res" where
  "solveBRCond cf ir c =
     (if inst_cc ir = 0 then Inr (VFalse, None, c)
      else if inst_cc ir = 7 then Inr (VTrue, None, c)
      else
        rbind (getCCExpr ir c) (\<lambda>(e, (ip, s)).
        let brCond = br_condition (inst_cc ir) e in
        if isTrue brCond then Inr (VTrue, Some brCond, (ip, s))
        else if isFalse brCond then Inr (VFalse, Some brCond, (ip, s))
        else
          rbind (query (evaluate (cf_solver cf) (st_constraints s) brCond)) (\<lambda>ret.
          Inr (ret, Some brCond, (ip, s\<lparr>st_solverCount := st_solverCount s + 1\<rparr>)))))"

definition executeBR :: "config \<Rightarrow> mem_value \<Rightarrow> executor \<Rightarrow> state \<Rightarrow> (executor \<times> state list) res" where
  "executeBR cf ir ex s =
     rbind (solveBRCond cf ir (ex_issues ex, s)) (\<lambda>(br, brCond, (ip, s)).
     let ex = ex\<lparr>ex_issues := ip\<rparr> in
     case br of
       VTrue \<Rightarrow> rbind (setReg_word R_PC (st_pc s + inst_imm9 ir) ir s) (\<lambda>s. Inr (ex, [s]))
     | VFalse \<Rightarrow> Inr (ex, [s])
     | VUnknown \<Rightarrow>
         rbind (allocator_fork (ex_allocator ex) s) (\<lambda>(al, continueState).
         rbind (deref brCond) (\<lambda>brCond.
         rbind (State_addConstraint s brCond) (\<lambda>branchState.
         rbind (State_addConstraint continueState (createIsZero brCond)) (\<lambda>continueState.
         rbind (setReg_word R_PC (st_pc branchState + inst_imm9 ir) ir branchState) (\<lambda>branchState.
         Inr (ex\<lparr>ex_allocator := al\<rparr>, [continueState, branchState])))))))"

subsection \<open>A step\<close>

text \<open>A step either returns the successors, or reports that a branch would fork.\<close>

datatype outcome = Stepped "state list" | WillFork state

definition single :: "(ctx \<Rightarrow> ctx res) \<Rightarrow> executor \<Rightarrow> state \<Rightarrow> (executor \<times> state list) res" where
  "single f ex s = rbind (f (ex_issues ex, s)) (\<lambda>(ip, s). Inr (ex\<lparr>ex_issues := ip\<rparr>, [s]))"

definition execute_RTI :: "mem_value \<Rightarrow> ctx \<Rightarrow> ctx res" where
  "execute_RTI ir c =
     rbind (newStateIssue ERR_INVALID_INST (Some ir) c) (\<lambda>(ip, s).
     rbind (assert_that (st_status s = BROKEN) ''Non-continuable error'') (\<lambda>_. Inr (ip, s)))"

definition execute_inst :: "config \<Rightarrow> mem_value \<Rightarrow> executor \<Rightarrow> state \<Rightarrow> (executor \<times> state list) res" where
  "execute_inst cf ir = (case inst_id ir of
       I_BR \<Rightarrow> executeBR cf ir
     | I_LDR \<Rightarrow> executeLDR cf ir
     | I_LDI \<Rightarrow> executeLDI cf ir
     | I_STR \<Rightarrow> executeSTR cf ir
     | I_STI \<Rightarrow> executeSTI cf ir
     | I_ADD \<Rightarrow> single (executeADD ir)
     | I_ADDi \<Rightarrow> single (executeADD ir)
     | I_AND \<Rightarrow> single (executeAND ir)
     | I_ANDi \<Rightarrow> single (executeAND ir)
     | I_JMP \<Rightarrow> single (executeJMP ir)
     | I_JSR \<Rightarrow> single (executeJSR ir)
     | I_JSRR \<Rightarrow> single (executeJSRR ir)
     | I_LD \<Rightarrow> single (executeLD ir)
     | I_LEA \<Rightarrow> single (executeLEA ir)
     | I_NOT \<Rightarrow> single (executeNOT ir)
     | I_ST \<Rightarrow> single (executeST ir)
     | I_TRAP \<Rightarrow> single (executeTRAP ir)
     | I_RTI \<Rightarrow> single (execute_RTI ir))"

definition run_inst :: "config \<Rightarrow> mem_value \<Rightarrow> executor \<Rightarrow> state \<Rightarrow> (executor \<times> state list) res" where
  "run_inst cf ir ex s =
     rbind (updateIRAndPC ir (update_path ir s)) (\<lambda>s.
     if st_status s \<noteq> NORMAL then Inr (ex, [s]) else execute_inst cf ir ex s)"

definition step :: "config \<Rightarrow> bool \<Rightarrow> executor \<Rightarrow> state \<Rightarrow> (executor \<times> outcome) res" where
  "step cf returnImmediatelyIfWillFork ex s =
     rbind (fetchInst (ex_issues ex, s)) (\<lambda>(inst, (ip, s)).
     let ex = ex\<lparr>ex_issues := ip\<rparr> in
     if st_status s \<noteq> NORMAL then Inr (ex, Stepped [s])
     else case inst of
         None \<Rightarrow> Inl (NullDeref ''ir'')
       | Some ir \<Rightarrow>
           rbind (if returnImmediatelyIfWillFork \<and> inst_id ir = I_BR then
                    rbind (solveBRCond cf ir (ip, s)) (\<lambda>(br, brCond, c). Inr (br = VUnknown, c))
                  else Inr (False, (ip, s))) (\<lambda>(will_fork, (ip, s)).
           let ex = ex\<lparr>ex_issues := ip\<rparr> in
           if will_fork then Inr (ex, WillFork s)
           else rbind (run_inst cf ir ex s) (\<lambda>(ex, ts). Inr (ex, Stepped ts))))"

end
