(* ===== verification/Klc3_Sums.thy ===== *)
theory Klc3_Sums
  imports Klc3_Executor
begin

text \<open>
  The folding of repeated additions in \<open>executeADD\<close>.  It inspects the \<open>Mul\<close> expressions in the
  registers and asserts that their left operand is a constant.  \<open>mul_ok\<close> is the invariant behind
  that assertion, for every \<open>Mul\<close> inside an expression: the builder keeps it, since it moves
  sub-expressions to the top.

  Shown: the assertions hold, and the expression that \<open>add_operands\<close> returns is the sum modulo
  65536, whichever of the folding rules applies.
\<close>

unbundle bit_operations_syntax

primrec mul_ok :: "expr \<Rightarrow> bool" where
  "mul_ok (ConstantExpr w v) = True"
| "mul_ok (NotOptimizedExpr e) = mul_ok e"
| "mul_ok (ReadExpr a i) = mul_ok i"
| "mul_ok (SelectExpr c t f) = (mul_ok c \<and> mul_ok t \<and> mul_ok f)"
| "mul_ok (ConcatExpr l r) = (mul_ok l \<and> mul_ok r)"
| "mul_ok (ExtractExpr e off w) = mul_ok e"
| "mul_ok (ZExtExpr e w) = mul_ok e"
| "mul_ok (SExtExpr e w) = mul_ok e"
| "mul_ok (NotExpr e) = mul_ok e"
| "mul_ok (BinaryExpr k l r) = (mul_ok l \<and> mul_ok r \<and> (k = Mul \<longrightarrow> is_ConstantExpr l))"

lemma mul_ok_const: "is_ConstantExpr e \<Longrightarrow> mul_ok e"
  by (cases e) auto

lemma mul_ok_constants [simp]:
  "mul_ok (ConstantExpr_op k l r)" "mul_ok (ConstantExpr_Neg l)" "mul_ok (ConstantExpr_Not l)" "mul_ok (buildConstant v)"
  by (simp_all add: ConstantExpr_op_def ConstantExpr_Neg_def ConstantExpr_Not_def buildConstant_def ConstantExpr_alloc_def)

lemma as_binary_mul_ok: "as_binary k e = Some (a, b) \<Longrightarrow> mul_ok e \<Longrightarrow> mul_ok a \<and> mul_ok b"
  by (auto simp: as_binary_Some)

lemma mul_ok_Add_Sub:
  shows "mul_ok l \<Longrightarrow> mul_ok r \<Longrightarrow> mul_ok (builder_Add l r)"
    and "mul_ok c \<Longrightarrow> mul_ok r \<Longrightarrow> mul_ok (builder_Add_CN c r)"
    and "mul_ok l \<Longrightarrow> mul_ok r \<Longrightarrow> mul_ok (builder_Add_NN l r)"
    and "mul_ok l \<Longrightarrow> mul_ok r \<Longrightarrow> mul_ok (builder_Sub l r)"
    and "mul_ok c \<Longrightarrow> mul_ok r \<Longrightarrow> mul_ok (builder_Sub_CN c r)"
    and "mul_ok l \<Longrightarrow> mul_ok r \<Longrightarrow> mul_ok (builder_Sub_NN l r)"
proof (induction l r and c r and l r and l r and c r and l r
    rule: builder_Add_builder_Add_CN_builder_Add_NN_builder_Sub_builder_Sub_CN_builder_Sub_NN.induct)
  case (1 l r)
  then show ?case by (simp add: builder_Add.simps)
next
  case (2 c r)
  note parts = as_binary_mul_ok [of _ r] as_binary_mul_ok [of _ r]
  show ?case
    by (cases rule: binary_cases [where l = r and r = r])
      (use 2 parts in \<open>simp_all add: builder_Add_CN.simps\<close>)
next
  case (3 l r)
  note IH = 3(1) [of "(x, y)" x y for x y]
      3(2) [of "(x, y)" x y for x y]
      3(3) [of "(x, y)" x y for x y]
      3(4) [of "(x, y)" x y for x y]
      3(5) [of "(x, y)" x y for x y]
      3(6) [of "(x, y)" x y for x y]
      3(7) [of "(x, y)" x y for x y]
      3(8) [of "(x, y)" x y for x y]
      3(9) [of "(x, y)" x y for x y]
      3(10) [of "(x, y)" x y for x y]
      3(11) [of "(x, y)" x y for x y]
      3(12) [of "(x, y)" x y for x y]
  note parts = as_binary_mul_ok [of _ l] as_binary_mul_ok [of _ r]
  show ?case
  proof (cases rule: binary_cases [where l = l and r = r])
    case (Al x y)
    then show ?thesis using IH [of x y] parts [of _ x y] 3(13,14) by (simp add: builder_Add_NN.simps)
  next
    case (Sl x y)
    then show ?thesis using IH [of x y] parts [of _ x y] 3(13,14) by (simp add: builder_Add_NN.simps)
  next
    case (Ar x y)
    then show ?thesis using IH [of x y] parts [of _ x y] 3(13,14) by (simp add: builder_Add_NN.simps)
  next
    case (Sr x y)
    then show ?thesis using IH [of x y] parts [of _ x y] 3(13,14) by (simp add: builder_Add_NN.simps)
  next
    case none
    then show ?thesis using 3(13,14) by (simp add: builder_Add_NN.simps)
  qed
next
  case (4 l r)
  then show ?case by (simp add: builder_Sub.simps)
next
  case (5 c r)
  note parts = as_binary_mul_ok [of _ r] as_binary_mul_ok [of _ r]
  show ?case
    by (cases rule: binary_cases [where l = r and r = r])
      (use 5 parts in \<open>simp_all add: builder_Sub_CN.simps\<close>)
next
  case (6 l r)
  note IH = 6(1) [of "(x, y)" x y for x y]
      6(2) [of "(x, y)" x y for x y]
      6(3) [of "(x, y)" x y for x y]
      6(4) [of "(x, y)" x y for x y]
      6(5) [of "(x, y)" x y for x y]
      6(6) [of "(x, y)" x y for x y]
      6(7) [of "(x, y)" x y for x y]
      6(8) [of "(x, y)" x y for x y]
      6(9) [of "(x, y)" x y for x y]
      6(10) [of "(x, y)" x y for x y]
      6(11) [of "(x, y)" x y for x y]
      6(12) [of "(x, y)" x y for x y]
  note parts = as_binary_mul_ok [of _ l] as_binary_mul_ok [of _ r]
  show ?case
  proof (cases rule: binary_cases [where l = l and r = r])
    case (Al x y)
    then show ?thesis using IH [of x y] parts [of _ x y] 6(13,14) by (simp add: builder_Sub_NN.simps)
  next
    case (Sl x y)
    then show ?thesis using IH [of x y] parts [of _ x y] 6(13,14) by (simp add: builder_Sub_NN.simps)
  next
    case (Ar x y)
    then show ?thesis using IH [of x y] parts [of _ x y] 6(13,14) by (simp add: builder_Sub_NN.simps)
  next
    case (Sr x y)
    then show ?thesis using IH [of x y] parts [of _ x y] 6(13,14) by (simp add: builder_Sub_NN.simps)
  next
    case none
    then show ?thesis using 6(13,14) by (simp add: builder_Sub_NN.simps)
  qed
qed

lemma mul_ok_Mul: "is_ConstantExpr c \<Longrightarrow> mul_ok e \<Longrightarrow> mul_ok (builder_binary Mul c e)"
  by (simp add: builder_Mul_def const_specialized_def builder_Mul_CN_def mul_ok_const)

lemma mul_ok_And: "mul_ok l \<Longrightarrow> mul_ok r \<Longrightarrow> mul_ok (builder_binary And l r)"
  by (simp add: builder_And_def const_specialized_def builder_And_CN_def)

lemma mul_ok_Not: "mul_ok e \<Longrightarrow> mul_ok (builder_Not e)"
  by (cases e) (simp_all add: builder_Not_def)

subsection \<open>Values as words\<close>

text \<open>The expressions that registers and memory hold.\<close>

definition good :: "expr \<Rightarrow> bool" where
  "good e \<longleftrightarrow> wt e \<and> getWidth e = Int16 \<and> mul_ok e"

definition val :: "assignment \<Rightarrow> expr \<Rightarrow> 16 word" where
  "val \<sigma> e = word_of_int (eval \<sigma> e)"

lemma goodD: assumes "good e" shows "wt e" "getWidth e = Int16" "mul_ok e"
  using assms by (simp_all add: good_def)

lemma good_buildConstant [simp]: "good (buildConstant v)" and val_buildConstant [simp]: "val \<sigma> (buildConstant v) = v"
  by (simp_all add: good_def val_def)

lemma uint_val: "good e \<Longrightarrow> uint (val \<sigma> e) = eval \<sigma> e"
  using eval_range [of e \<sigma>] by (simp add: good_def val_def uint_word_of_int take_bit_eq_mod)

lemma word_of_take_bit [simp]: "word_of_int (take_bit 16 x) = (word_of_int x :: 16 word)"
  by (simp add: word_of_int_eq_iff)

lemma word_of_int_bitwise:
  "word_of_int (a AND b) = (word_of_int a AND word_of_int b :: 16 word)"
  "word_of_int (NOT a) = (NOT (word_of_int a) :: 16 word)"
  by (rule bit_eqI; auto simp: bit_word_of_int_iff bit_and_iff bit_not_iff)+

lemma good_binary:
  assumes "good a" "good b"
  shows "good (builder_binary Add a b)" "val \<sigma> (builder_binary Add a b) = val \<sigma> a + val \<sigma> b"
    and "good (builder_binary And a b)" "val \<sigma> (builder_binary And a b) = val \<sigma> a AND val \<sigma> b"
proof -
  have "wt (BinaryExpr Add a b)" "wt (BinaryExpr And a b)" using assms by (simp_all add: good_def)
  note w = this
  show "good (builder_binary Add a b)" "good (builder_binary And a b)"
    using assms folding.bin_wt [OF w(1)] folding.bin_width [OF w(1)] folding.bin_wt [OF w(2)] folding.bin_width [OF w(2)]
      mul_ok_Add_Sub(1) [of a b] mul_ok_And [of a b] by (simp_all add: good_def)
  show "val \<sigma> (builder_binary Add a b) = val \<sigma> a + val \<sigma> b"
    using folding.bin_eval [OF w(1), of \<sigma>] assms by (simp add: val_def good_def)
  show "val \<sigma> (builder_binary And a b) = val \<sigma> a AND val \<sigma> b"
    using folding.bin_eval [OF w(2), of \<sigma>] assms by (simp add: val_def good_def word_of_int_bitwise)
qed

lemma good_Mul:
  assumes "good e"
  shows "good (builder_binary Mul (buildConstant c) e)" "val \<sigma> (builder_binary Mul (buildConstant c) e) = c * val \<sigma> e"
proof -
  have w: "wt (BinaryExpr Mul (buildConstant c) e)" using assms by (simp add: good_def)
  show "good (builder_binary Mul (buildConstant c) e)"
    using assms folding.bin_wt [OF w] folding.bin_width [OF w] mul_ok_Mul [of "buildConstant c" e] by (simp add: good_def)
  show "val \<sigma> (builder_binary Mul (buildConstant c) e) = c * val \<sigma> e"
    using folding.bin_eval [OF w, of \<sigma>] assms by (simp add: val_def good_def)
qed

lemma good_Not:
  assumes "good e" shows "good (builder_Not e)" "val \<sigma> (builder_Not e) = NOT (val \<sigma> e)"
  using assms folding.neg_wt [of e] folding.neg_width [of e] folding.neg_eval [of e \<sigma>] mul_ok_Not [of e]
  by (simp_all add: good_def val_def word_of_int_bitwise)

lemma good_mul_const:
  "good e \<Longrightarrow> good (mul_const c e)" "good e \<Longrightarrow> val \<sigma> (mul_const c e) = c * val \<sigma> e"
  using good_Mul by (simp_all add: mul_const_def)

subsection \<open>The sum of two operands\<close>

lemma good_as_mul:
  assumes "good e" "as_binary Mul e = Some (l, r)"
  obtains w where "castConstant l = Inr w" "good r" "\<And>\<sigma>. val \<sigma> e = w * val \<sigma> r"
proof -
  have e: "e = BinaryExpr Mul l r" using assms(2) by (simp add: as_binary_Some)
  then have l: "is_ConstantExpr l" "wt l" "getWidth l = Int16" and r: "good r"
    using assms(1) by (simp_all add: good_def)
  then obtain v where v: "l = ConstantExpr 16 v" by (auto elim!: const_cases)
  then have "castConstant l = Inr (word_of_int v)" by (simp add: castConstant_def)
  moreover have "val \<sigma> e = word_of_int v * val \<sigma> r" for \<sigma> using e v by (simp add: val_def)
  ultimately show ?thesis using that r by blast
qed

lemma good_mul_structure: "good e \<Longrightarrow> mul_structure (as_binary Mul e)"
  by (auto simp: mul_structure_def as_binary_Some good_def split: option.splits)

lemma mul_rightD: "mul_right m e \<Longrightarrow> \<exists>l. m = Some (l, e)"
  by (auto simp: mul_right_def split: option.splits)

lemma add_operands_returns:
  assumes "good a" "good b"
  shows "returns (add_operands a b) (\<lambda>r. good r \<and> (\<forall>\<sigma>. val \<sigma> r = val \<sigma> a + val \<sigma> b))"
proof -
  let ?Q = "\<lambda>r. good r \<and> (\<forall>\<sigma>. val \<sigma> r = val \<sigma> a + val \<sigma> b)"
  let ?m1 = "as_binary Mul a" and ?m2 = "as_binary Mul b"
  note s = good_mul_structure [OF assms(1)] good_mul_structure [OF assms(2)]
  consider (same) "a = b" | (right) "a \<noteq> b" "mul_right ?m1 b \<or> mul_right ?m2 a"
    | (both) l1 r l2 where "a \<noteq> b" "\<not> (mul_right ?m1 b \<or> mul_right ?m2 a)" "?m1 = Some (l1, r)" "?m2 = Some (l2, r)"
    | (plain) "a \<noteq> b" "\<not> (mul_right ?m1 b \<or> mul_right ?m2 a)" "\<nexists>l1 r l2. ?m1 = Some (l1, r) \<and> ?m2 = Some (l2, r)"
    by blast
  then show ?thesis
  proof cases
    case same
    show ?thesis
    proof (cases ?m1)
      case None
      then show ?thesis using same s good_Mul [OF assms(2)] by (simp add: add_operands_def)
    next
      case (Some m)
      obtain l r where m: "m = (l, r)" by fastforce
      obtain w where "castConstant l = Inr w" "good r" "\<And>\<sigma>. val \<sigma> a = w * val \<sigma> r"
        using good_as_mul [OF assms(1) Some [unfolded m]] by blast
      then show ?thesis using same s Some m good_mul_const [of r] by (simp add: add_operands_def algebra_simps)
    qed
  next
    case right
    show ?thesis
    proof (cases "mul_right ?m1 b")
      case True
      then obtain l where m: "?m1 = Some (l, b)" using mul_rightD by blast
      obtain w where "castConstant l = Inr w" "\<And>\<sigma>. val \<sigma> a = w * val \<sigma> b"
        using good_as_mul [OF assms(1) m] by blast
      then show ?thesis
        using right True s m good_mul_const [OF assms(2)] by (simp add: add_operands_def algebra_simps)
    next
      case False
      then obtain l where m: "?m2 = Some (l, a)" using right mul_rightD by blast
      obtain w where "castConstant l = Inr w" "\<And>\<sigma>. val \<sigma> b = w * val \<sigma> a"
        using good_as_mul [OF assms(2) m] by blast
      then show ?thesis
        using right False s m good_mul_const [OF assms(1)] by (simp add: add_operands_def algebra_simps)
    qed
  next
    case both
    obtain w1 where w1: "castConstant l1 = Inr w1" "good r" "\<And>\<sigma>. val \<sigma> a = w1 * val \<sigma> r"
      using good_as_mul [OF assms(1) both(3)] by blast
    obtain w2 where w2: "castConstant l2 = Inr w2" "\<And>\<sigma>. val \<sigma> b = w2 * val \<sigma> r"
      using good_as_mul [OF assms(2) both(4)] by blast
    show ?thesis using both s w1 w2 good_mul_const [of r] by (simp add: add_operands_def algebra_simps)
  next
    case plain
    then have "add_operands a b = Inr (builder_binary Add a b)"
      using s by (cases ?m1; cases ?m2) (auto simp: add_operands_def)
    then show ?thesis using good_binary(1,2) [OF assms] by simp
  qed
qed

end
