(* ===== verification/LC3_Machine.thy ===== *)
theory LC3_Machine
  imports Klc3_Memory
begin

text \<open>
  The abstract specification: a concrete LC-3 machine, after the instruction set architecture.
  Registers, memory and the condition code hold words; the condition code is kept as the word it was
  set from.  The display is always ready, the keyboard never, and clearing the clock bit of the machine
  control register stops the machine, which is what the memory manager's device registers provide.

  The fields of an instruction are given by bit positions, independently of the accessors of the
  implementation.  \<open>RTI\<close> and words that decode to nothing have no step.
\<close>

unbundle bit_operations_syntax

record lc3 =
  l_reg :: "nat \<Rightarrow> 16 word"
  l_pc :: "16 word"
  l_cc :: "16 word"
  l_mem :: "16 word \<Rightarrow> 16 word"
  l_out :: "16 word list"
  l_running :: bool

definition fld :: "nat \<Rightarrow> 16 word \<Rightarrow> nat" where
  "fld k ir = unat (take_bit 3 (drop_bit k ir))"

definition set_result :: "nat \<Rightarrow> 16 word \<Rightarrow> lc3 \<Rightarrow> lc3" where
  "set_result dr v m = m\<lparr>l_reg := (l_reg m)(dr := v), l_cc := v\<rparr>"

definition lc3_store :: "16 word \<Rightarrow> 16 word \<Rightarrow> lc3 \<Rightarrow> lc3" where
  "lc3_store a v m =
     (if a = 0xFE06 then m\<lparr>l_out := l_out m @ [v]\<rparr>
      else if a = 0xFFFE then m\<lparr>l_running := l_running m \<and> bit v 15\<rparr>
      else if device a then m
      else m\<lparr>l_mem := (l_mem m)(a := v)\<rparr>)"

definition taken :: "16 word \<Rightarrow> 16 word \<Rightarrow> bool" where
  "taken ir cc \<longleftrightarrow> bit ir 11 \<and> sint cc < 0 \<or> bit ir 10 \<and> cc = 0 \<or> bit ir 9 \<and> 0 < sint cc"

text \<open>The effect of an instruction after the program counter was incremented.\<close>

fun lc3_exec :: "InstID \<Rightarrow> 16 word \<Rightarrow> lc3 \<Rightarrow> lc3" where
  "lc3_exec I_ADD ir m = set_result (fld 9 ir) (l_reg m (fld 6 ir) + l_reg m (fld 0 ir)) m"
| "lc3_exec I_ADDi ir m = set_result (fld 9 ir) (l_reg m (fld 6 ir) + signed_take_bit 4 ir) m"
| "lc3_exec I_AND ir m = set_result (fld 9 ir) (l_reg m (fld 6 ir) AND l_reg m (fld 0 ir)) m"
| "lc3_exec I_ANDi ir m = set_result (fld 9 ir) (l_reg m (fld 6 ir) AND signed_take_bit 4 ir) m"
| "lc3_exec I_NOT ir m = set_result (fld 9 ir) (NOT (l_reg m (fld 6 ir))) m"
| "lc3_exec I_LEA ir m = set_result (fld 9 ir) (l_pc m + signed_take_bit 8 ir) m"
| "lc3_exec I_LD ir m = set_result (fld 9 ir) (l_mem m (l_pc m + signed_take_bit 8 ir)) m"
| "lc3_exec I_LDI ir m = set_result (fld 9 ir) (l_mem m (l_mem m (l_pc m + signed_take_bit 8 ir))) m"
| "lc3_exec I_LDR ir m = set_result (fld 9 ir) (l_mem m (l_reg m (fld 6 ir) + signed_take_bit 5 ir)) m"
| "lc3_exec I_ST ir m = lc3_store (l_pc m + signed_take_bit 8 ir) (l_reg m (fld 9 ir)) m"
| "lc3_exec I_STI ir m = lc3_store (l_mem m (l_pc m + signed_take_bit 8 ir)) (l_reg m (fld 9 ir)) m"
| "lc3_exec I_STR ir m = lc3_store (l_reg m (fld 6 ir) + signed_take_bit 5 ir) (l_reg m (fld 9 ir)) m"
| "lc3_exec I_BR ir m = (if taken ir (l_cc m) then m\<lparr>l_pc := l_pc m + signed_take_bit 8 ir\<rparr> else m)"
| "lc3_exec I_JMP ir m = m\<lparr>l_pc := l_reg m (fld 6 ir)\<rparr>"
| "lc3_exec I_JSR ir m = m\<lparr>l_reg := (l_reg m)(7 := l_pc m), l_pc := l_pc m + signed_take_bit 10 ir\<rparr>"
| "lc3_exec I_JSRR ir m = m\<lparr>l_reg := (l_reg m)(7 := l_pc m), l_pc := l_reg m (fld 6 ir)\<rparr>"
| "lc3_exec I_TRAP ir m = m\<lparr>l_reg := (l_reg m)(7 := l_pc m), l_pc := l_mem m (take_bit 8 ir)\<rparr>"
| "lc3_exec I_RTI ir m = m"

text \<open>The address a store instruction writes to.\<close>

fun lc3_target :: "InstID \<Rightarrow> 16 word \<Rightarrow> lc3 \<Rightarrow> 16 word option" where
  "lc3_target I_ST ir m = Some (l_pc m + signed_take_bit 8 ir)"
| "lc3_target I_STI ir m = Some (l_mem m (l_pc m + signed_take_bit 8 ir))"
| "lc3_target I_STR ir m = Some (l_reg m (fld 6 ir) + signed_take_bit 5 ir)"
| "lc3_target _ ir m = None"

definition lc3_step :: "lc3 \<Rightarrow> lc3 option" where
  "lc3_step m =
     (let ir = l_mem m (l_pc m) in
      case decode_spec ir of
        None \<Rightarrow> None
      | Some i \<Rightarrow> if i = I_RTI then None else Some (lc3_exec i ir (m\<lparr>l_pc := l_pc m + 1\<rparr>)))"

lemma fields_spec:
  "dr_of ir = fld 9 ir" "sr1_of ir = fld 6 ir" "sr2_of ir = fld 0 ir" "vec8_of ir = take_bit 8 ir"
  by (simp_all add: dr_of_def sr1_of_def sr2_of_def vec8_of_def fld_def take_bit_mask_numerals)

lemma fld_le: "fld 9 ir \<le> 7" "fld 6 ir \<le> 7" "fld 0 ir \<le> 7"
  using reg_fields_lt [of ir] by (simp_all flip: fields_spec)

end
