(* ===== verification/Klc3_Abstraction.thy ===== *)
theory Klc3_Abstraction
  imports Klc3_Sums LC3_Machine
begin

text \<open>
  How a symbolic state stands for concrete LC-3 machines.  Under an assignment of the symbolic
  inputs, \<open>conc\<close> maps a state to the machine it represents: uninitialized registers and memory are zero,
  and the condition code is the value of the register it refers to.

  \<open>wf_state\<close> is the invariant of a state, \<open>levels_fixed\<close> that of the issue package: every type that
  execution raises has a level, and the four types after which execution cannot go on have level
  \<open>ERROR\<close>, which \<open>setIssueTypeLevel\<close> does not let the user change.  \<open>does\<close> describes what an
  operation does to the represented machines.  The lemmas give, for every operation on a single state,
  that it returns, keeps the invariant and has the effect of the ISA.
\<close>

unbundle bit_operations_syntax

subsection \<open>The represented machine\<close>

definition oval :: "assignment \<Rightarrow> expr option \<Rightarrow> 16 word" where
  "oval \<sigma> v = (case v of None \<Rightarrow> 0 | Some e \<Rightarrow> val \<sigma> e)"

definition mval :: "assignment \<Rightarrow> mem_value option \<Rightarrow> 16 word" where
  "mval \<sigma> v = (case v of None \<Rightarrow> 0 | Some x \<Rightarrow> oval \<sigma> (mv_e x))"

lemma oval_simps [simp]: "oval \<sigma> None = 0" "oval \<sigma> (Some e) = val \<sigma> e"
  by (simp_all add: oval_def)

lemma mval_simps [simp]: "mval \<sigma> None = 0" "mval \<sigma> (Some x) = oval \<sigma> (mv_e x)"
  by (simp_all add: mval_def)

definition conc :: "assignment \<Rightarrow> state \<Rightarrow> lc3" where
  "conc \<sigma> s = \<lparr>l_reg = (\<lambda>r. oval \<sigma> (st_reg s r)), l_pc = st_pc s,
     l_cc = oval \<sigma> (State_getCCExpr s), l_mem = (\<lambda>a. mval \<sigma> (mem_read (st_mem s) a)),
     l_out = map (val \<sigma>) (st_lc3Out s), l_running = (st_status s \<noteq> HALTED)\<rparr>"

lemma conc_sel [simp]:
  "l_reg (conc \<sigma> s) r = oval \<sigma> (st_reg s r)" "l_pc (conc \<sigma> s) = st_pc s"
  "l_mem (conc \<sigma> s) a = mval \<sigma> (mem_read (st_mem s) a)"
  by (simp_all add: conc_def)

subsection \<open>Invariants\<close>

definition good_value :: "mem_value \<Rightarrow> bool" where
  "good_value v \<longleftrightarrow> (\<forall>e. mv_e v = Some e \<longrightarrow> good e) \<and>
     (mv_type v = MEM_INST \<longrightarrow> (\<exists>w. mv_e v = Some (buildConstant w) \<and> matchInst w = Some (mv_def v)))"

definition wf_state :: "state \<Rightarrow> bool" where
  "wf_state s \<longleftrightarrow> wf_constraints (st_constraints s) \<and> (\<exists>\<sigma>. sat \<sigma> (st_constraints s)) \<and>
     (\<forall>r e. st_reg s r = Some e \<longrightarrow> good e) \<and> (\<forall>a v. mem_read (st_mem s) a = Some v \<longrightarrow> good_value v) \<and>
     (\<forall>e \<in> set (st_lc3Out s). good e) \<and> (st_ccRef s \<le> R_R7 \<or> st_ccRef s = NUM_REGS)"

definition levels_fixed :: "issue_package \<Rightarrow> bool" where
  "levels_fixed ip \<longleftrightarrow> levels_ok ip \<and>
     (\<forall>t \<in> {ERR_EXECUTE_DATA_AS_INST, ERR_OVERWRITE_INST, ERR_SYMBOLIC_PC, ERR_EXECUTE_UNINITIALIZED_MEMORY}.
        ip_level ip t = Some ERROR)"

definition wf_ctx :: "ctx \<Rightarrow> bool" where
  "wf_ctx c \<longleftrightarrow> levels_fixed (fst c) \<and> wf_state (snd c)"

text \<open>Bookkeeping that the represented machine does not show.\<close>

lemma bookkeeping_view [simp]:
  "conc \<sigma> (s\<lparr>st_stackHasMessedUp := b\<rparr>) = conc \<sigma> s" "wf_state (s\<lparr>st_stackHasMessedUp := b\<rparr>) = wf_state s"
  "conc \<sigma> (s\<lparr>st_memStoringUninitReg := u\<rparr>) = conc \<sigma> s" "wf_state (s\<lparr>st_memStoringUninitReg := u\<rparr>) = wf_state s"
  "conc \<sigma> (s\<lparr>st_solverCount := n\<rparr>) = conc \<sigma> s" "wf_state (s\<lparr>st_solverCount := n\<rparr>) = wf_state s"
  "conc \<sigma> (s\<lparr>st_stepCount := n\<rparr>) = conc \<sigma> s" "wf_state (s\<lparr>st_stepCount := n\<rparr>) = wf_state s"
  "conc \<sigma> (s\<lparr>st_latestInst := l\<rparr>) = conc \<sigma> s" "wf_state (s\<lparr>st_latestInst := l\<rparr>) = wf_state s"
  "conc \<sigma> (s\<lparr>st_latestNonOSInst := l\<rparr>) = conc \<sigma> s" "wf_state (s\<lparr>st_latestNonOSInst := l\<rparr>) = wf_state s"
  "conc \<sigma> (s\<lparr>st_uid := n\<rparr>) = conc \<sigma> s" "wf_state (s\<lparr>st_uid := n\<rparr>) = wf_state s"
  by (simp_all add: conc_def State_getCCExpr_def wf_state_def)

text \<open>
  \<open>does c F c'\<close>: the operation keeps the invariant and the constraints, applies \<open>F\<close> to every
  represented machine, and leaves the status or breaks the state.
\<close>

definition does :: "ctx \<Rightarrow> (assignment \<Rightarrow> lc3 \<Rightarrow> lc3) \<Rightarrow> ctx \<Rightarrow> bool" where
  "does c F c' \<longleftrightarrow> wf_ctx c' \<and> st_constraints (snd c') = st_constraints (snd c) \<and>
     fst (st_latestNonOSInst (snd c')) = fst (st_latestNonOSInst (snd c)) \<and>
     (st_status (snd c') = st_status (snd c) \<or> st_status (snd c') = BROKEN) \<and>
     (\<forall>\<sigma>. conc \<sigma> (snd c') = F \<sigma> (conc \<sigma> (snd c)))"

abbreviation quiet :: "ctx \<Rightarrow> ctx \<Rightarrow> bool" where
  "quiet c c' \<equiv> does c (\<lambda>\<sigma> m. m) c'"

lemma quiet_refl: "wf_ctx c \<Longrightarrow> quiet c c"
  by (simp add: does_def)

lemma does_trans: "does a F b \<Longrightarrow> does b G c \<Longrightarrow> does a (\<lambda>\<sigma> m. G \<sigma> (F \<sigma> m)) c"
  by (auto simp: does_def)

lemma quiet_trans: "quiet a b \<Longrightarrow> quiet b c \<Longrightarrow> quiet a c"
  by (auto simp: does_def)

lemma quiet_does: "quiet a b \<Longrightarrow> does b F c \<Longrightarrow> does a F c"
  by (auto simp: does_def)

lemma does_cong: "does a F b \<Longrightarrow> (\<And>\<sigma>. F \<sigma> (conc \<sigma> (snd a)) = G \<sigma> (conc \<sigma> (snd a))) \<Longrightarrow> does a G b"
  by (simp add: does_def)

lemma does_compose:
  "does a F b \<Longrightarrow> does b G c \<Longrightarrow> (\<And>\<sigma>. G \<sigma> (F \<sigma> (conc \<sigma> (snd a))) = H \<sigma> (conc \<sigma> (snd a))) \<Longrightarrow> does a H c"
  by (auto simp: does_def)

lemma quiet_conc: "quiet a b \<Longrightarrow> conc \<sigma> (snd b) = conc \<sigma> (snd a)"
  by (simp add: does_def)

lemma quiet_status: "quiet a b \<Longrightarrow> st_status (snd a) \<noteq> HALTED \<Longrightarrow> st_status (snd b) \<noteq> HALTED"
  by (auto simp: does_def)

lemma quiet_not_normal: "quiet a b \<Longrightarrow> st_status (snd a) \<noteq> HALTED \<Longrightarrow> st_status (snd b) \<noteq> NORMAL \<Longrightarrow> st_status (snd b) = BROKEN"
  by (cases "st_status (snd b)") (auto simp: does_def)

lemma does_wf: "does c F c' \<Longrightarrow> wf_ctx c'"
  by (simp add: does_def)

text \<open>An instruction may also break the state, and then promises only the invariant.\<close>

definition executes :: "ctx \<Rightarrow> (assignment \<Rightarrow> lc3 \<Rightarrow> lc3) \<Rightarrow> ctx \<Rightarrow> bool" where
  "executes c F c' \<longleftrightarrow> wf_ctx c' \<and> st_constraints (snd c') = st_constraints (snd c) \<and>
     (st_status (snd c') \<noteq> BROKEN \<longrightarrow> (\<forall>\<sigma>. conc \<sigma> (snd c') = F \<sigma> (conc \<sigma> (snd c))))"

lemma does_executes: "does c F c' \<Longrightarrow> executes c F c'"
  by (simp add: does_def executes_def)

lemma quiet_executes: "quiet a b \<Longrightarrow> executes b F c \<Longrightarrow> executes a F c"
  by (auto simp: does_def executes_def)

lemma executes_cong: "executes a F b \<Longrightarrow> (\<And>\<sigma>. F \<sigma> (conc \<sigma> (snd a)) = G \<sigma> (conc \<sigma> (snd a))) \<Longrightarrow> executes a G b"
  by (simp add: executes_def)

lemma does_then_executes: "does a F b \<Longrightarrow> executes b G c \<Longrightarrow> executes a (\<lambda>\<sigma> m. G \<sigma> (F \<sigma> m)) c"
  by (auto simp: does_def executes_def)

lemma quiet_broken: "quiet c c' \<Longrightarrow> st_status (snd c') = BROKEN \<Longrightarrow> executes c F c'"
  by (auto simp: does_def executes_def)

subsection \<open>Reporting an issue\<close>

lemma reports_quiet:
  assumes "wf_ctx c" "reports c c'" "st_status (snd c) \<noteq> HALTED"
  shows "quiet c c'"
proof -
  obtain ip s ip' s' where c: "c = (ip, s)" "c' = (ip', s')" by fastforce
  obtain b st where s': "s' = s\<lparr>st_triggerNewIssue := b, st_status := st\<rparr>" and st: "st = st_status s \<or> st = BROKEN"
    and ip': "ip_level ip' = ip_level ip"
    using assms(2) unfolding reports_def c by auto
  have "levels_fixed ip'" using assms(1) ip' by (simp add: wf_ctx_def c levels_fixed_def levels_ok_def)
  moreover have "wf_state s'" using assms(1) by (simp add: wf_ctx_def c s' wf_state_def)
  moreover have "conc \<sigma> s' = conc \<sigma> s" for \<sigma>
    using assms(3) st by (auto simp: conc_def s' c State_getCCExpr_def)
  ultimately show ?thesis using st by (auto simp: does_def c s' wf_ctx_def)
qed

lemma reports_keeps:
  assumes "reports c c'"
  shows "st_reg (snd c') = st_reg (snd c)" "st_mem (snd c') = st_mem (snd c)" "st_ccRef (snd c') = st_ccRef (snd c)"
    "st_memStoringUninitReg (snd c') = st_memStoringUninitReg (snd c)" "st_pc (snd c') = st_pc (snd c)"
    "st_lc3Out (snd c') = st_lc3Out (snd c)"
proof -
  have *: "snd c' = (snd c)\<lparr>st_triggerNewIssue := st_triggerNewIssue (snd c'), st_status := st_status (snd c')\<rparr>"
    using assms by (simp add: reports_def)
  show "st_reg (snd c') = st_reg (snd c)" "st_mem (snd c') = st_mem (snd c)" "st_ccRef (snd c') = st_ccRef (snd c)"
    "st_memStoringUninitReg (snd c') = st_memStoringUninitReg (snd c)" "st_pc (snd c') = st_pc (snd c)"
    "st_lc3Out (snd c') = st_lc3Out (snd c)"
    by (subst *; simp)+
qed

lemma issue_returns:
  assumes "wf_ctx c" "has_default_level t" "st_status (snd c) \<noteq> HALTED"
  shows "returns (newStateIssue t loc c) (\<lambda>c'. quiet c c' \<and> reports c c')"
proof -
  obtain ip s where c: "c = (ip, s)" by fastforce
  obtain l where "ip_level ip t = Some l"
    using assms(1,2) by (auto simp: c wf_ctx_def levels_fixed_def levels_ok_def)
  then obtain ip' s' where "newStateIssue t loc c = Inr (ip', s')" "reports c (ip', s')"
    unfolding c by (rule newStateIssue_total)
  then show ?thesis using reports_quiet [OF assms(1) _ assms(3)] by simp
qed

lemma issue_quiet:
  "wf_ctx c \<Longrightarrow> has_default_level t \<Longrightarrow> st_status (snd c) \<noteq> HALTED \<Longrightarrow> returns (newStateIssue t loc c) (quiet c)"
  using issue_returns by (rule returns_weaken) auto

lemma error_returns:
  assumes "wf_ctx c" "st_status (snd c) \<noteq> HALTED"
    and "t \<in> {ERR_EXECUTE_DATA_AS_INST, ERR_OVERWRITE_INST, ERR_SYMBOLIC_PC, ERR_EXECUTE_UNINITIALIZED_MEMORY}"
  shows "returns (newStateIssue t loc c) (\<lambda>c'. quiet c c' \<and> st_status (snd c') = BROKEN)"
proof -
  obtain ip s where c: "c = (ip, s)" by fastforce
  have "ip_level ip t = Some ERROR" using assms(1,3) by (auto simp: c wf_ctx_def levels_fixed_def)
  then obtain ip' s' where "newStateIssue t loc c = Inr (ip', s')" "reports c (ip', s')" "st_status s' = BROKEN"
    unfolding c by (metis newStateIssue_total)
  then show ?thesis using reports_quiet [OF assms(1) _ assms(2)] by simp
qed

lemmas level_simps = has_default_level_iff

subsection \<open>Registers\<close>

lemma getReg_bypass: "r \<le> R_R7 \<Longrightarrow> getReg r ir True c = Inr (st_reg (snd c) r, c)"
  by (cases c) (simp add: getReg_def State_getReg_def)

lemma zero_register_quiet:
  assumes "wf_ctx (ip, s)" "\<And>\<sigma>. oval \<sigma> (st_reg s r) = 0"
  shows "quiet (ip, s) (ip, s\<lparr>st_reg := (st_reg s)(r := Some (buildConstant 0))\<rparr>)"
proof -
  let ?s = "s\<lparr>st_reg := (st_reg s)(r := Some (buildConstant 0))\<rparr>"
  have "wf_state ?s" using assms(1) by (simp add: wf_ctx_def wf_state_def)
  moreover have "conc \<sigma> ?s = conc \<sigma> s" for \<sigma>
    using assms(2) by (auto simp: conc_def State_getCCExpr_def)
  ultimately show ?thesis using assms(1) by (simp add: does_def wf_ctx_def)
qed

lemma getReg_returns:
  assumes "wf_ctx c" "st_status (snd c) \<noteq> HALTED" "r \<le> R_R7"
  shows "returns (getReg r ir False c) (\<lambda>(v, c'). quiet c c' \<and> st_ccRef (snd c') = st_ccRef (snd c) \<and>
    (\<exists>e. v = Some e \<and> good e \<and> (\<forall>\<sigma>. val \<sigma> e = l_reg (conc \<sigma> (snd c)) r) \<and> (is_ConstantExpr e \<or> c' = c)))"
proof -
  obtain ip s where c: "c = (ip, s)" by fastforce
  show ?thesis
  proof (cases "st_reg s r")
    case (Some e)
    moreover have "good e" using Some assms(1) by (auto simp: c wf_ctx_def wf_state_def)
    ultimately show ?thesis using assms by (simp add: c getReg_def State_getReg_def quiet_refl)
  next
    case None
    have issue: "returns (if mv_belongsToOS ir then Inr (ip, s)
        else newStateIssue WARN_USE_UNINITIALIZED_REGISTER (Some ir) (ip, s))
        (\<lambda>c'. quiet (ip, s) c' \<and> st_reg (snd c') r = None \<and> st_ccRef (snd c') = st_ccRef s)"
      using issue_returns [of "(ip, s)" WARN_USE_UNINITIALIZED_REGISTER "Some ir"] assms None
      by (auto simp: c level_simps quiet_refl dest: reports_keeps(1,3) elim!: returns_weaken)
    have zero: "returns (State_setReg (snd c') r (Some (buildConstant 0))) (\<lambda>s'. quiet (ip, s) (fst c', s') \<and> st_ccRef s' = st_ccRef s)"
      if q: "quiet (ip, s) c'" and r: "st_reg (snd c') r = None" and "st_ccRef (snd c') = st_ccRef s" for c'
      using quiet_trans [OF q, of "(fst c', _)"] zero_register_quiet [of "fst c'" "snd c'" r] does_wf [OF q] that(2,3) assms(3)
      by (simp add: State_setReg_def)
    have e: "getReg r ir False (ip, s) = rbind (if mv_belongsToOS ir then Inr (ip, s)
        else newStateIssue WARN_USE_UNINITIALIZED_REGISTER (Some ir) (ip, s)) (\<lambda>c.
        rbind (State_setReg (snd c) r (Some (buildConstant 0))) (\<lambda>s. Inr (Some (buildConstant 0), (fst c, s))))"
      using None assms(3) by (simp add: getReg_def State_getReg_def case_prod_unfold)
    show ?thesis
      unfolding c e using zero None
      by (intro returns_bindI [OF issue]) (auto intro: returns_weaken)
  qed
qed


text \<open>Storing into a register.\<close>

lemma setReg_plain:
  "r \<le> R_R7 \<Longrightarrow> setReg r v ir s = Inr (location_change r ir (s\<lparr>st_reg := (st_reg s)(r := v)\<rparr>))"
  "r \<le> R_R7 \<Longrightarrow> setReg_word r w ir s = Inr (location_change r ir (s\<lparr>st_reg := (st_reg s)(r := Some (buildConstant w))\<rparr>))"
  by (simp_all add: setReg_def setReg_word_def State_setReg_def)

lemma location_change_view [simp]:
  "conc \<sigma> (location_change r ir s) = conc \<sigma> s" "wf_state (location_change r ir s) = wf_state s"
  "st_constraints (location_change r ir s) = st_constraints s" "st_status (location_change r ir s) = st_status s"
  "st_latestNonOSInst (location_change r ir s) = st_latestNonOSInst s" "st_pc (location_change r ir s) = st_pc s"
  "st_ccRef (location_change r ir s) = st_ccRef s" "st_mem (location_change r ir s) = st_mem s"
  "st_reg (location_change r ir s) = st_reg s" "st_lc3Out (location_change r ir s) = st_lc3Out s"
  by (simp_all add: location_change_def conc_def State_getCCExpr_def wf_state_def)

lemma set_register:
  assumes "wf_state s" "r \<le> R_R7" "\<And>e. v = Some e \<Longrightarrow> good e"
  shows "wf_state (s\<lparr>st_reg := (st_reg s)(r := v)\<rparr>)"
    and "st_ccRef s \<noteq> r \<Longrightarrow> conc \<sigma> (s\<lparr>st_reg := (st_reg s)(r := v)\<rparr>) =
      (conc \<sigma> s)\<lparr>l_reg := (l_reg (conc \<sigma> s))(r := oval \<sigma> v)\<rparr>"
    and "conc \<sigma> (setCC r ir (s\<lparr>st_reg := (st_reg s)(r := v)\<rparr>)) = set_result r (oval \<sigma> v) (conc \<sigma> s)"
  using assms by (auto simp: wf_state_def conc_def State_getCCExpr_def set_result_def setCC_def)

lemma wf_setCC: "wf_state s \<Longrightarrow> r \<le> R_R7 \<Longrightarrow> wf_state (setCC r ir s)"
  by (simp add: wf_state_def setCC_def)

lemma setReg_CC_returns:
  assumes "wf_ctx c" "r \<le> R_R7" "\<And>e. v = Some e \<Longrightarrow> good e"
  shows "returns (setReg_CC r v ir c) (does c (\<lambda>\<sigma>. set_result r (oval \<sigma> v)))"
proof -
  obtain ip s where c: "c = (ip, s)" by fastforce
  let ?s = "s\<lparr>st_reg := (st_reg s)(r := v)\<rparr>"
  have w: "wf_state s" using assms(1) by (simp add: c wf_ctx_def)
  have "conc \<sigma> (setCC r ir (location_change r ir ?s)) = conc \<sigma> (setCC r ir ?s)" for \<sigma>
    by (simp add: conc_def setCC_def State_getCCExpr_def location_change_def)
  moreover have "wf_state (setCC r ir (location_change r ir ?s))"
    using wf_setCC set_register(1) [OF w assms(2,3)] assms(2) by simp
  ultimately show ?thesis
    using assms(1,2) set_register(3) [OF w assms(2,3)]
    by (simp add: c setReg_CC_def setReg_plain does_def wf_ctx_def setCC_def location_change_def)
qed

end
