(* ===== verification/Klc3_Instructions.thy ===== *)
theory Klc3_Instructions
  imports Klc3_Abstraction
begin

text \<open>
  The instructions that do not fork, against the concrete machine: each returns, keeps the invariant, and
  unless it breaks the state it does to every represented machine what the ISA says.
\<close>

unbundle bit_operations_syntax

subsection \<open>Operands and results\<close>

lemma second_operand_returns:
  assumes "wf_ctx c" "st_status (snd c) \<noteq> HALTED" "inst_sr2 ir \<le> R_R7"
  shows "returns (second_operand ir c) (\<lambda>(v, c'). quiet c c' \<and> (\<exists>e. v = Some e \<and> good e \<and>
    (\<forall>\<sigma>. val \<sigma> e = (if id_format (mv_def ir) = FMT_RRR then l_reg (conc \<sigma> (snd c)) (inst_sr2 ir) else inst_imm5 ir))))"
  using getReg_returns [OF assms, of ir] quiet_refl [OF assms(1)]
  by (auto simp: second_operand_def elim!: returns_weaken)

lemma deref_Some [simp]: "deref (Some e) = Inr e"
  by (simp add: deref_def)

lemma executeADD_returns:
  assumes "wf_ctx c" "st_status (snd c) \<noteq> HALTED" "inst_dr ir \<le> R_R7" "inst_sr1 ir \<le> R_R7" "inst_sr2 ir \<le> R_R7"
  shows "returns (executeADD ir c) (does c (\<lambda>\<sigma> m. set_result (inst_dr ir)
    (l_reg m (inst_sr1 ir) + (if id_format (mv_def ir) = FMT_RRR then l_reg m (inst_sr2 ir) else inst_imm5 ir)) m))"
    (is "returns _ (does c ?F)")
  unfolding executeADD_def
proof (rule returns_bindI [OF getReg_returns [OF assms(1,2,4)]], clarify)
  fix c1 e1 assume q1: "quiet c c1" and e1: "good e1" "\<forall>\<sigma>. val \<sigma> e1 = l_reg (conc \<sigma> (snd c)) (inst_sr1 ir)"
  note c1 = does_wf [OF q1] quiet_status [OF q1 assms(2)]
  show "returns (rbind (second_operand ir c1) (\<lambda>(op2, c). rbind (deref (Some e1)) (\<lambda>op1. rbind (deref op2) (\<lambda>op2.
      rbind (add_operands op1 op2) (\<lambda>result. setReg_CC (inst_dr ir) (Some result) ir c))))) (does c ?F)"
  proof (rule returns_bindI [OF second_operand_returns [OF c1 assms(5)]], clarify)
    fix c2 e2 assume q2: "quiet c1 c2" and e2: "good e2" "\<forall>\<sigma>. val \<sigma> e2 =
      (if id_format (mv_def ir) = FMT_RRR then l_reg (conc \<sigma> (snd c1)) (inst_sr2 ir) else inst_imm5 ir)"
    have "returns (add_operands e1 e2) (\<lambda>r. returns (setReg_CC (inst_dr ir) (Some r) ir c2) (does c ?F))"
    proof (rule returns_weaken [OF add_operands_returns [OF e1(1) e2(1)]])
      fix r assume r: "good r \<and> (\<forall>\<sigma>. val \<sigma> r = val \<sigma> e1 + val \<sigma> e2)"
      have "returns (setReg_CC (inst_dr ir) (Some r) ir c2) (does c2 (\<lambda>\<sigma>. set_result (inst_dr ir) (val \<sigma> r)))"
        using setReg_CC_returns [OF does_wf [OF q2] assms(3), of "Some r" ir] r by simp
      then show "returns (setReg_CC (inst_dr ir) (Some r) ir c2) (does c ?F)"
        by (rule returns_weaken) (use r e1 e2 quiet_conc [OF q1] in
            \<open>auto intro!: does_cong [OF quiet_does [OF quiet_trans [OF q1 q2]]]\<close>)
    qed
    then show "returns (rbind (deref (Some e1)) (\<lambda>op1. rbind (deref (Some e2)) (\<lambda>op2. rbind (add_operands op1 op2)
        (\<lambda>result. setReg_CC (inst_dr ir) (Some result) ir c2)))) (does c ?F)"
      by simp
  qed
qed

lemma executeNOT_returns:
  assumes "wf_ctx c" "st_status (snd c) \<noteq> HALTED" "inst_dr ir \<le> R_R7" "inst_sr1 ir \<le> R_R7"
  shows "returns (executeNOT ir c) (does c (\<lambda>\<sigma> m. set_result (inst_dr ir) (NOT (l_reg m (inst_sr1 ir))) m))"
  unfolding executeNOT_def
proof (rule returns_bindI [OF getReg_returns [OF assms(1,2,4)]], clarify)
  fix c1 e assume q: "quiet c c1" and e: "good e" "\<forall>\<sigma>. val \<sigma> e = l_reg (conc \<sigma> (snd c)) (inst_sr1 ir)"
  have "returns (setReg_CC (inst_dr ir) (Some (builder_Not e)) ir c1)
      (does c1 (\<lambda>\<sigma>. set_result (inst_dr ir) (NOT (val \<sigma> e))))"
    using setReg_CC_returns [OF does_wf [OF q] assms(3), of "Some (builder_Not e)" ir] good_Not [OF e(1)] by simp
  then show "returns (rbind (deref (Some e)) (\<lambda>op. setReg_CC (inst_dr ir) (Some (builder_Not op)) ir c1))
      (does c (\<lambda>\<sigma> m. set_result (inst_dr ir) (NOT (l_reg m (inst_sr1 ir))) m))"
    by simp (rule returns_weaken, assumption, use e in \<open>auto intro!: does_cong [OF quiet_does [OF q]]\<close>)
qed

lemma executeLEA_returns:
  assumes "wf_ctx c" "inst_dr ir \<le> R_R7"
  shows "returns (executeLEA ir c) (does c (\<lambda>\<sigma> m. set_result (inst_dr ir) (l_pc m + inst_imm9 ir) m))"
proof -
  obtain ip s where c: "c = (ip, s)" by fastforce
  have "executeLEA ir c = setReg_CC (inst_dr ir) (Some (buildConstant (st_pc s + inst_imm9 ir))) ir c"
    using assms(2) by (simp add: c executeLEA_def setReg_CC_def setReg_plain)
  then show ?thesis
    using setReg_CC_returns [OF assms, of "Some (buildConstant (st_pc s + inst_imm9 ir))" ir]
    by (auto simp: c intro: does_cong elim!: returns_weaken)
qed

subsection \<open>AND\<close>

lemma and_operand_returns:
  assumes "wf_ctx c" "st_status (snd c) \<noteq> HALTED" "r \<le> R_R7"
    and "op = None \<Longrightarrow> (\<And>\<sigma>. l_reg (conc \<sigma> (snd c)) r = 0)"
  shows "returns (and_operand r op other ir c) (quiet c)"
proof (cases "op = None \<and> (case other of None \<Rightarrow> True | Some e \<Rightarrow> \<not> isZero e) \<and> \<not> mv_belongsToOS ir")
  case False
  then show ?thesis
    using quiet_refl [OF assms(1)] unfolding and_operand_def case_prod_unfold if_not_P [OF False] by simp
next
  case True
  have z: "returns (setReg_word r 0 ir (snd c1)) (\<lambda>s. quiet c (fst c1, s))" if q: "quiet c c1" for c1
  proof -
    have "quiet c1 (fst c1, (snd c1)\<lparr>st_reg := (st_reg (snd c1))(r := Some (buildConstant 0))\<rparr>)"
      using zero_register_quiet [of "fst c1" "snd c1" r] does_wf [OF q] quiet_conc [OF q] assms(4) True
      by (metis conc_sel(1) prod.collapse)
    from quiet_trans [OF q this] show ?thesis
      using assms(3) by (simp add: setReg_plain does_def wf_ctx_def)
  qed
  have "returns (newStateIssue WARN_USE_UNINITIALIZED_REGISTER (Some ir) c) (\<lambda>c'. quiet c c' \<and> reports c c')"
    using issue_returns [OF assms(1) _ assms(2)] by (simp add: level_simps)
  then show ?thesis
    unfolding and_operand_def case_prod_unfold if_P [OF True]
    by (simp, elim returns_weaken) (use z in simp)
qed

lemma or_zero_good:
  assumes "wf_state s" shows "good (or_zero (st_reg s r))" "val \<sigma> (or_zero (st_reg s r)) = oval \<sigma> (st_reg s r)"
  using assms by (auto simp: or_zero_def wf_state_def split: option.splits)

lemma executeAND_returns:
  assumes "wf_ctx c" "st_status (snd c) \<noteq> HALTED" "inst_dr ir \<le> R_R7" "inst_sr1 ir \<le> R_R7" "inst_sr2 ir \<le> R_R7"
  shows "returns (executeAND ir c) (does c (\<lambda>\<sigma> m. set_result (inst_dr ir)
    (l_reg m (inst_sr1 ir) AND (if id_format (mv_def ir) = FMT_RRR then l_reg m (inst_sr2 ir) else inst_imm5 ir)) m))"
    (is "returns _ (does c ?F)")
proof -
  let ?op1 = "st_reg (snd c) (inst_sr1 ir)"
  let ?op2 = "if id_format (mv_def ir) = FMT_RRR then st_reg (snd c) (inst_sr2 ir) else Some (buildConstant (inst_imm5 ir))"
  let ?r = "builder_binary And (or_zero ?op1) (or_zero ?op2)"
  have w: "wf_state (snd c)" using assms(1) by (simp add: wf_ctx_def)
  have e: "executeAND ir c = rbind (and_operand (inst_sr1 ir) ?op1 ?op2 ir c) (\<lambda>c.
      rbind (and_operand (inst_sr2 ir) ?op2 ?op1 ir c) (\<lambda>c. setReg_CC (inst_dr ir) (Some ?r) ir c))"
    using assms(4,5) by (simp add: executeAND_def State_getReg_def)
  have op2: "good (or_zero ?op2)" "val \<sigma> (or_zero ?op2) =
      (if id_format (mv_def ir) = FMT_RRR then l_reg (conc \<sigma> (snd c)) (inst_sr2 ir) else inst_imm5 ir)" for \<sigma>
    using or_zero_good [OF w] by (auto simp: or_zero_def)
  note r = good_binary(3,4) [OF or_zero_good(1) [OF w, of "inst_sr1 ir"] op2(1)]
  show ?thesis
    unfolding e
  proof (rule returns_bindI [OF and_operand_returns [OF assms(1,2,4)]])
    fix c1 assume q1: "quiet c c1"
    show "returns (rbind (and_operand (inst_sr2 ir) ?op2 ?op1 ir c1) (\<lambda>c. setReg_CC (inst_dr ir) (Some ?r) ir c)) (does c ?F)"
    proof (rule returns_bindI [OF and_operand_returns [OF does_wf [OF q1] quiet_status [OF q1 assms(2)] assms(5)]])
      fix c2 assume q2: "quiet c1 c2"
      have "returns (setReg_CC (inst_dr ir) (Some ?r) ir c2) (does c2 (\<lambda>\<sigma>. set_result (inst_dr ir) (val \<sigma> ?r)))"
        using setReg_CC_returns [OF does_wf [OF q2] assms(3), of "Some ?r" ir] r(1) by simp
      then show "returns (setReg_CC (inst_dr ir) (Some ?r) ir c2) (does c ?F)"
        by (rule returns_weaken) (use r(2) op2(2) or_zero_good(2) [OF w] in
            \<open>auto intro!: does_cong [OF quiet_does [OF quiet_trans [OF q1 q2]]]\<close>)
    qed (use quiet_conc [OF q1] in \<open>auto split: if_splits\<close>)
  qed simp
qed

subsection \<open>The program counter\<close>

definition set_pc :: "16 word \<Rightarrow> lc3 \<Rightarrow> lc3" where
  "set_pc w m = m\<lparr>l_pc := w\<rparr>"

definition set_r7 :: "16 word \<Rightarrow> lc3 \<Rightarrow> lc3" where
  "set_r7 w m = m\<lparr>l_reg := (l_reg m)(7 := w)\<rparr>"

lemma pc_view:
  "conc \<sigma> (s\<lparr>st_pc := w\<rparr>) = set_pc w (conc \<sigma> s)" "wf_state (s\<lparr>st_pc := w\<rparr>) = wf_state s"
  "conc \<sigma> (s\<lparr>st_ir := v\<rparr>) = conc \<sigma> s" "wf_state (s\<lparr>st_ir := v\<rparr>) = wf_state s"
  "conc \<sigma> (s\<lparr>st_pc := w, st_ir := v\<rparr>) = set_pc w (conc \<sigma> s)" "wf_state (s\<lparr>st_pc := w, st_ir := v\<rparr>) = wf_state s"
  by (simp_all add: conc_def State_getCCExpr_def wf_state_def set_pc_def)

lemma set_pc_does:
  assumes "wf_ctx (ip, s)"
  shows "returns (setReg_word R_PC w ir s) (\<lambda>s'. does (ip, s) (\<lambda>\<sigma>. set_pc w) (ip, s'))"
    and "good e \<Longrightarrow> is_ConstantExpr e \<Longrightarrow>
      returns (setReg R_PC (Some e) ir s) (\<lambda>s'. does (ip, s) (\<lambda>\<sigma>. set_pc (val \<sigma> e)) (ip, s'))"
proof -
  show "returns (setReg_word R_PC w ir s) (\<lambda>s'. does (ip, s) (\<lambda>\<sigma>. set_pc w) (ip, s'))"
    using assms by (simp add: setReg_word_def does_def wf_ctx_def pc_view)
  show "returns (setReg R_PC (Some e) ir s) (\<lambda>s'. does (ip, s) (\<lambda>\<sigma>. set_pc (val \<sigma> e)) (ip, s'))"
    if "good e" "is_ConstantExpr e"
  proof -
    have e: "castConstant e = Inr (val \<sigma> e)" for \<sigma>
      using castConstant_const(1) [OF that(2) goodD(1,2) [OF that(1)], of \<sigma>] by (simp add: val_def)
    then obtain w where "castConstant e = Inr w" "\<And>\<sigma>. val \<sigma> e = w" by (metis Inr_inject)
    then show ?thesis using assms that(2) by (simp add: setReg_def does_def wf_ctx_def pc_view)
  qed
qed

lemma set_r7_does:
  assumes "wf_ctx (ip, s)" "st_ccRef s \<noteq> R_R7"
  shows "returns (setReg_word R_R7 w ir s) (\<lambda>s'. does (ip, s) (\<lambda>\<sigma>. set_r7 w) (ip, s') \<and> st_pc s' = st_pc s)"
  using assms set_register(1,2) [of s R_R7 "Some (buildConstant w)"]
  by (simp add: setReg_plain does_def wf_ctx_def set_r7_def)

lemma symbolic_pc_returns:
  assumes "wf_ctx c" "st_status (snd c) \<noteq> HALTED"
  shows "returns (symbolic_pc ir c) (executes c F)"
proof -
  have "returns (newStateIssue ERR_SYMBOLIC_PC (Some ir) c) (\<lambda>c'. quiet c c' \<and> st_status (snd c') = BROKEN)"
    by (rule error_returns [OF assms]) simp
  then show ?thesis unfolding symbolic_pc_def case_prod_unfold
    by (simp, elim returns_weaken) (simp add: quiet_broken)
qed

lemma executeJSR_returns:
  assumes "wf_ctx c" "st_ccRef (snd c) \<noteq> R_R7"
  shows "returns (executeJSR ir c) (does c (\<lambda>\<sigma> m. set_pc (l_pc m + inst_imm11 ir) (set_r7 (l_pc m) m)))"
proof -
  obtain ip s where c: "c = (ip, s)" by fastforce
  show ?thesis
    unfolding c executeJSR_def prod.case
  proof (rule returns_bindI [OF set_r7_does])
    fix s1 assume s1: "does (ip, s) (\<lambda>\<sigma>. set_r7 (st_pc s)) (ip, s1) \<and> st_pc s1 = st_pc s"
    have "returns (setReg_word R_PC (st_pc s1 + inst_imm11 ir) ir s1)
        (\<lambda>s'. does (ip, s1) (\<lambda>\<sigma>. set_pc (st_pc s + inst_imm11 ir)) (ip, s'))"
      using set_pc_does(1) [of ip s1 "st_pc s1 + inst_imm11 ir" ir] s1 does_wf by fastforce
    then show "returns (rbind (setReg_word R_PC (st_pc s1 + inst_imm11 ir) ir s1) (\<lambda>s. Inr (ip, s)))
        (does (ip, s) (\<lambda>\<sigma> m. set_pc (l_pc m + inst_imm11 ir) (set_r7 (l_pc m) m)))"
      by simp (erule returns_weaken, rule does_compose [OF conjunct1 [OF s1]], simp_all)
  qed (use assms c in simp_all)
qed

lemma executeJSRR_returns:
  assumes "wf_ctx c" "st_status (snd c) \<noteq> HALTED" "st_ccRef (snd c) \<noteq> R_R7" "inst_baseR ir \<le> R_R7"
  shows "returns (executeJSRR ir c) (executes c (\<lambda>\<sigma> m. set_pc (l_reg m (inst_baseR ir)) (set_r7 (l_pc m) m)))"
    (is "returns _ (executes c ?F)")
  unfolding executeJSRR_def
proof (rule returns_bindI [OF getReg_returns [OF assms(1,2,4)]], clarify)
  fix ip s e
  assume q: "quiet c (ip, s)" and e: "good e" "\<forall>\<sigma>. val \<sigma> e = l_reg (conc \<sigma> (snd c)) (inst_baseR ir)"
    and cc: "st_ccRef (snd (ip, s)) = st_ccRef (snd c)"
  have w: "wf_ctx (ip, s)" using does_wf [OF q] .
  have pc: "st_pc s = l_pc (conc \<sigma> (snd c))" for \<sigma> using quiet_conc [OF q, of \<sigma>] by (metis conc_sel(2) snd_conv)
  show "returns (rbind (deref (Some e)) (\<lambda>e. if \<not> is_ConstantExpr e then symbolic_pc ir (ip, s)
      else rbind (setReg_word R_R7 (st_pc s) ir s) (\<lambda>s. rbind (setReg R_PC (Some e) ir s) (\<lambda>s. Inr (ip, s)))))
      (executes c ?F)"
  proof (cases "is_ConstantExpr e")
    case False
    have "returns (symbolic_pc ir (ip, s)) (executes (ip, s) ?F)"
      by (rule symbolic_pc_returns [OF w quiet_status [OF q assms(2)]])
    then show ?thesis using False by simp (erule returns_weaken, rule quiet_executes [OF q])
  next
    case True
    have "returns (rbind (setReg_word R_R7 (st_pc s) ir s) (\<lambda>s. rbind (setReg R_PC (Some e) ir s) (\<lambda>s. Inr (ip, s))))
        (does (ip, s) (\<lambda>\<sigma> m. set_pc (val \<sigma> e) (set_r7 (st_pc s) m)))"
    proof (rule returns_bindI [OF set_r7_does [OF w]])
      fix s1 assume s1: "does (ip, s) (\<lambda>\<sigma>. set_r7 (st_pc s)) (ip, s1) \<and> st_pc s1 = st_pc s"
      have "returns (setReg R_PC (Some e) ir s1) (\<lambda>s'. does (ip, s1) (\<lambda>\<sigma>. set_pc (val \<sigma> e)) (ip, s'))"
        by (rule set_pc_does(2) [OF does_wf [OF conjunct1 [OF s1]] e(1) True])
      then show "returns (rbind (setReg R_PC (Some e) ir s1) (\<lambda>s. Inr (ip, s)))
          (does (ip, s) (\<lambda>\<sigma> m. set_pc (val \<sigma> e) (set_r7 (st_pc s) m)))"
        by simp (erule returns_weaken, rule does_compose [OF conjunct1 [OF s1]], simp_all)
    qed (use cc assms(3) in simp)
    then have "returns (rbind (setReg_word R_R7 (st_pc s) ir s) (\<lambda>s. rbind (setReg R_PC (Some e) ir s) (\<lambda>s. Inr (ip, s))))
        (executes c ?F)"
      by (rule returns_weaken) (use e(2) pc in \<open>auto intro!: does_executes does_cong [OF quiet_does [OF q]]\<close>)
    then show ?thesis using True by simp
  qed
qed

lemma executeJMP_returns:
  assumes "wf_ctx c" "st_status (snd c) = NORMAL" "inst_baseR ir \<le> R_R7"
  shows "returns (executeJMP ir c) (executes c (\<lambda>\<sigma> m. set_pc (l_reg m (inst_baseR ir)) m))"
    (is "returns _ (executes c ?F)")
proof -
  have jump: "returns (rbind (getReg (inst_baseR ir) ir False c1) (\<lambda>(newPC, (ip, s)). rbind (deref newPC) (\<lambda>e.
      if \<not> is_ConstantExpr e then symbolic_pc ir (ip, s)
      else rbind (setReg R_PC (Some e) ir s) (\<lambda>s. Inr (ip, s))))) (executes c1 ?F)"
    if c1: "wf_ctx c1" "st_status (snd c1) \<noteq> HALTED" for c1
  proof (rule returns_bindI [OF getReg_returns [OF c1 assms(3)]], clarify)
    fix ip s e
    assume q: "quiet c1 (ip, s)" and e: "good e" "\<forall>\<sigma>. val \<sigma> e = l_reg (conc \<sigma> (snd c1)) (inst_baseR ir)"
    have s: "returns (symbolic_pc ir (ip, s)) (executes c1 ?F)"
      using symbolic_pc_returns [OF does_wf [OF q] quiet_status [OF q c1(2)]]
      by (rule returns_weaken) (rule quiet_executes [OF q])
    have "returns (setReg R_PC (Some e) ir s) (\<lambda>s'. executes c1 ?F (ip, s'))" if "is_ConstantExpr e"
      by (rule returns_weaken [OF set_pc_does(2) [OF does_wf [OF q] e(1) that]])
        (use e(2) in \<open>auto intro!: does_executes does_cong [OF quiet_does [OF q]]\<close>)
    then show "returns (rbind (deref (Some e)) (\<lambda>e. if \<not> is_ConstantExpr e then symbolic_pc ir (ip, s)
        else rbind (setReg R_PC (Some e) ir s) (\<lambda>s. Inr (ip, s)))) (executes c1 ?F)"
      using s by simp
  qed
  have messed: "quiet (ip, s) c' \<Longrightarrow> quiet (ip, s) (fst c', (snd c')\<lparr>st_stackHasMessedUp := b\<rparr>)" for ip s c' b
    by (simp add: does_def wf_ctx_def)
  obtain ip s where c: "c = (ip, s)" by fastforce
  have "returns (newStateIssue ERR_RET_IN_MAIN_CODE (Some ir) (ip, s)) (\<lambda>c'. quiet (ip, s) c' \<and> reports (ip, s) c')"
    using issue_returns [OF assms(1), of ERR_RET_IN_MAIN_CODE] assms(2) by (simp add: level_simps c)
  then have first: "returns (if P then rbind (newStateIssue ERR_RET_IN_MAIN_CODE (Some ir) (ip, s))
      (\<lambda>(ip, s). Inr (ip, s\<lparr>st_stackHasMessedUp := True\<rparr>)) else Inr (ip, s)) (quiet c)" for P
    using quiet_refl [OF assms(1)] messed unfolding c by (auto elim!: returns_weaken)
  show ?thesis
    unfolding c executeJMP_def prod.case
  proof (rule returns_bindI [OF first], unfold c [symmetric], clarify)
    fix ip1 s1 assume q: "quiet c (ip1, s1)"
    show "returns (if st_status s1 = NORMAL then rbind (getReg (inst_baseR ir) ir False (ip1, s1))
        (\<lambda>(newPC, (ip, s)). rbind (deref newPC) (\<lambda>e. if \<not> is_ConstantExpr e then symbolic_pc ir (ip, s)
          else rbind (setReg R_PC (Some e) ir s) (\<lambda>s. Inr (ip, s)))) else Inr (ip1, s1)) (executes c ?F)"
    proof (cases "st_status s1 = NORMAL")
      case True
      then show ?thesis
        using returns_weaken [OF jump [OF does_wf [OF q]] quiet_executes [OF q]] by simp
    next
      case False
      then show ?thesis using quiet_not_normal [OF q] assms(2) quiet_broken [OF q] by simp
    qed
  qed
qed

end
