(* ===== verification/Klc3_Accesses.thy ===== *)
theory Klc3_Accesses
  imports Klc3_Instructions
begin

text \<open>
  Memory accesses of a state against the concrete machine: reading and writing at a concrete
  address, the load and store instructions with a fixed address, and \<open>TRAP\<close>.
\<close>

unbundle bit_operations_syntax

subsection \<open>Reading\<close>

lemma quiet_erase:
  "quiet c c' \<Longrightarrow> quiet c (fst c', (snd c')\<lparr>st_memStoringUninitReg := u\<rparr>)"
  by (simp add: does_def wf_ctx_def)

text \<open>What a read may deliver: the stored expression, zero, or null for a null value.\<close>

definition delivers :: "memory \<Rightarrow> addr \<Rightarrow> expr option \<Rightarrow> bool" where
  "delivers m a v \<longleftrightarrow> v = None \<or> v = Some (buildConstant 0) \<or> (\<exists>x. mem_read m a = Some x \<and> mv_e x = v)"

lemma memReadData_returns:
  assumes "wf_ctx c" "st_status (snd c) \<noteq> HALTED"
  shows "returns (memReadData a ir dr c) (\<lambda>(v, c'). quiet c c' \<and> (\<forall>e. v = Some e \<longrightarrow> good e) \<and>
    (dr = None \<longrightarrow> v \<noteq> None) \<and> (\<forall>\<sigma>. oval \<sigma> v = l_mem (conc \<sigma> (snd c)) a) \<and> delivers (st_mem (snd c)) a v)"
    (is "returns _ ?Q")
proof -
  obtain ip s where c: "c = (ip, s)" by fastforce
  note issue = issue_returns [OF assms(1) _ assms(2), unfolded c level_simps]
  show ?thesis
  proof (cases "mem_read (st_mem s) a")
    case None
    have "returns (newStateIssue WARN_POSSIBLE_WILD_READ (Some ir) (ip, s)) (\<lambda>c'. quiet (ip, s) c' \<and> reports (ip, s) c')"
      by (rule issue) simp
    then show ?thesis
      using None by (auto simp: c memReadData_def delivers_def elim!: returns_weaken)
  next
    case (Some x)
    have x: "good_value x" using Some assms(1) by (auto simp: c wf_ctx_def wf_state_def)
    let ?warn = "if mv_type x = MEM_DATA \<and> mv_forWrite x
                 then newStateIssue WARN_READ_UNINITIALIZED_MEMORY (Some ir) (ip, s)
                 else if mv_type x = MEM_INST then newStateIssue WARN_READ_INST_AS_DATA (Some ir) (ip, s)
                 else Inr (ip, s)"
    let ?rest = "\<lambda>(ip, s). case mv_e x of
           Some e \<Rightarrow> Inr (Some e, (ip, s))
         | None \<Rightarrow> (case st_memStoringUninitReg s a of
             None \<Rightarrow> Inr (Some (buildConstant 0), (ip, s))
           | Some (r, stored) \<Rightarrow>
               if dr = Some r then Inr (None, (ip, s))
               else rbind (newStateIssue WARN_USE_UNINITIALIZED_REGISTER (Some ir) (ip, s)) (\<lambda>(ip, s).
                 Inr (Some (buildConstant 0),
                   (ip, s\<lparr>st_memStoringUninitReg := (st_memStoringUninitReg s)(a := None)\<rparr>))))"
    have warn: "returns ?warn (quiet (ip, s))"
      using issue_quiet [OF assms(1) _ assms(2)] quiet_refl [OF assms(1)] by (simp add: c level_simps)
    have rest: "returns (?rest c1) ?Q" if q: "quiet (ip, s) c1" for c1
    proof (cases "mv_e x")
      case e: (Some e)
      then show ?thesis using q x Some by (auto simp: c good_value_def delivers_def case_prod_unfold)
    next
      case e: None
      have w: "wf_ctx c1" "st_status (snd c1) \<noteq> HALTED"
        using does_wf [OF q] quiet_status [OF q] assms(2) by (simp_all add: c)
      have "returns (newStateIssue WARN_USE_UNINITIALIZED_REGISTER (Some ir) c1) (quiet (ip, s))"
        by (rule returns_weaken [OF issue_quiet [OF w(1) _ w(2)] quiet_trans [OF q]]) (simp_all add: level_simps)
      then have "returns (rbind (newStateIssue WARN_USE_UNINITIALIZED_REGISTER (Some ir) c1) (\<lambda>(ip, s).
          Inr (Some (buildConstant 0), (ip, s\<lparr>st_memStoringUninitReg := (st_memStoringUninitReg s)(a := None)\<rparr>)))) ?Q"
        using Some e quiet_erase unfolding returns_simps
        by (elim returns_weaken) (auto simp: c delivers_def)
      then show ?thesis
        using q Some e by (auto simp: c delivers_def case_prod_unfold split: option.split)
    qed
    have e: "memReadData a ir dr (ip, s) = rbind ?warn ?rest"
      using Some by (simp add: memReadData_def)
    show ?thesis using returns_bindI [OF warn rest] unfolding c e .
  qed
qed

lemma load_from_returns:
  assumes "wf_ctx c" "st_status (snd c) \<noteq> HALTED" "DR \<le> R_R7"
  shows "returns (load_from DR ir a c) (executes c (\<lambda>\<sigma> m. set_result DR (l_mem m a) m))"
    (is "returns _ (executes c ?F)")
  unfolding load_from_def
proof (rule returns_bindI [OF memReadData_returns [OF assms(1,2)]], clarify)
  fix v c1
  assume q: "quiet c c1" and v: "\<forall>e. v = Some e \<longrightarrow> good e" "\<forall>\<sigma>. oval \<sigma> v = l_mem (conc \<sigma> (snd c)) a"
  show "returns (if st_status (snd c1) \<noteq> NORMAL then Inr c1 else setReg_CC DR v ir c1) (executes c ?F)"
  proof (cases "st_status (snd c1) = NORMAL")
    case False
    then show ?thesis using quiet_not_normal [OF q assms(2)] quiet_broken [OF q] by simp
  next
    case True
    have "returns (setReg_CC DR v ir c1) (does c1 (\<lambda>\<sigma>. set_result DR (oval \<sigma> v)))"
      using setReg_CC_returns [OF does_wf [OF q] assms(3)] v(1) by blast
    then have "returns (setReg_CC DR v ir c1) (executes c ?F)"
      by (rule returns_weaken) (use v(2) in \<open>auto intro!: does_executes does_cong [OF quiet_does [OF q]]\<close>)
    then show ?thesis using True by simp
  qed
qed

lemma executeLD_returns:
  assumes "wf_ctx c" "st_status (snd c) \<noteq> HALTED" "inst_dr ir \<le> R_R7"
  shows "returns (executeLD ir c) (executes c (\<lambda>\<sigma> m. set_result (inst_dr ir) (l_mem m (l_pc m + inst_imm9 ir)) m))"
  using load_from_returns [OF assms, of ir "st_pc (snd c) + inst_imm9 ir"] unfolding executeLD_def
  by (rule returns_weaken) (auto elim!: executes_cong)

text \<open>The entry of the trap vector table must be a constant, as the operating system's are.\<close>

definition vector_constant :: "memory \<Rightarrow> addr \<Rightarrow> bool" where
  "vector_constant m a \<longleftrightarrow> (\<forall>x e. mem_read m a = Some x \<longrightarrow> mv_e x = Some e \<longrightarrow> is_ConstantExpr e)"

lemma executeTRAP_returns:
  assumes "wf_ctx c" "st_status (snd c) = NORMAL" "st_ccRef (snd c) \<noteq> R_R7"
    "mv_sourceContent ir \<noteq> ''INSTANT_HALT''" "vector_constant (st_mem (snd c)) (inst_vec8 ir)"
  shows "returns (executeTRAP ir c) (executes c (\<lambda>\<sigma> m. set_pc (l_mem m (inst_vec8 ir)) (set_r7 (l_pc m) m)))"
    (is "returns _ (executes c ?F)")
proof -
  obtain ip s where c: "c = (ip, s)" by fastforce
  let ?s = "location_change R_R7 ir (s\<lparr>st_reg := (st_reg s)(R_R7 := Some (buildConstant (st_pc s)))\<rparr>)"
  have s1: "setReg_word R_R7 (st_pc s) ir s = Inr ?s" by (simp add: setReg_plain)
  have d: "does (ip, s) (\<lambda>\<sigma>. set_r7 (st_pc s)) (ip, ?s)"
    using set_r7_does [of ip s "st_pc s" ir] assms(1,3) s1 by (simp add: c)
  have w: "wf_ctx (ip, ?s)" "st_status (snd (ip, ?s)) \<noteq> HALTED" using does_wf [OF d] assms(2) by (simp_all add: c)
  have e: "executeTRAP ir (ip, s) = rbind (memReadData (inst_vec8 ir) ir None (ip, ?s)) (\<lambda>(newPC, (ip, s)).
      if st_status s \<noteq> NORMAL then Inr (ip, s) else rbind (deref newPC) (\<lambda>e. rbind (castConstant e) (\<lambda>w.
        rbind (setReg_word R_PC w ir s) (\<lambda>s. Inr (ip, s)))))"
    using assms(4) s1 by (simp add: executeTRAP_def)
  show ?thesis
    unfolding c e
  proof (rule returns_bindI [OF memReadData_returns [OF w]], clarify)
    fix v ip2 s2
    assume q: "quiet (ip, ?s) (ip2, s2)" and v: "\<forall>e. v = Some e \<longrightarrow> good e" "None = None \<longrightarrow> v \<noteq> None"
      "\<forall>\<sigma>. oval \<sigma> v = l_mem (conc \<sigma> (snd (ip, ?s))) (inst_vec8 ir)" "delivers (st_mem (snd (ip, ?s))) (inst_vec8 ir) v"
    obtain e where e: "v = Some e" "good e" using v(1,2) by auto
    have const: "is_ConstantExpr e"
      using v(4) assms(5) e(1) by (auto simp: delivers_def vector_constant_def c)
    obtain w where w: "castConstant e = Inr w" "\<And>\<sigma>. val \<sigma> e = w"
      using castConstant_const(1) [OF const goodD(1,2) [OF e(2)]] by (metis Inr_inject val_def)
    have m: "mval \<sigma> (mem_read (st_mem s) (inst_vec8 ir)) = w" for \<sigma>
      using v(3) w(2) e(1) by (simp add: location_change_def)
    show "returns (if st_status s2 \<noteq> NORMAL then Inr (ip2, s2) else rbind (deref v) (\<lambda>e. rbind (castConstant e) (\<lambda>w.
        rbind (setReg_word R_PC w ir s2) (\<lambda>s. Inr (ip2, s))))) (executes (ip, s) ?F)"
    proof (cases "st_status s2 = NORMAL")
      case False
      then have "executes (ip, ?s) ?F (ip2, s2)"
        using quiet_not_normal [OF q] assms(2) by (intro quiet_broken [OF q]) (simp_all add: c)
      then show ?thesis using False d q assms(2) by (auto simp: executes_def does_def c)
    next
      case True
      have "does (ip, s) (\<lambda>\<sigma> m. set_pc w (set_r7 (st_pc s) m)) (ip2, s')"
        if "does (ip2, s2) (\<lambda>\<sigma>. set_pc w) (ip2, s')" for s'
        using does_trans [OF d quiet_does [OF q that]] .
      then have "returns (setReg_word R_PC w ir s2) (\<lambda>s'. executes (ip, s) ?F (ip2, s'))"
        using set_pc_does(1) [OF does_wf [OF q], of w ir] m
        by (elim returns_weaken) (rule does_executes, rule does_cong, auto)
      then show ?thesis using True e(1) w(1) by simp
    qed
  qed
qed

subsection \<open>Writing\<close>

lemma check_write_returns:
  assumes "wf_ctx c" "st_status (snd c) \<noteq> HALTED"
  shows "returns (check_write a ir c) (\<lambda>(go, c'). quiet c c' \<and> st_mem (snd c') = st_mem (snd c) \<and>
    (\<not> go \<longrightarrow> st_status (snd c') = BROKEN))"
proof -
  obtain ip s where c: "c = (ip, s)" by fastforce
  have warn: "has_default_level t \<Longrightarrow> returns (newStateIssue t (Some ir) (ip, s))
      (\<lambda>c'. quiet (ip, s) c' \<and> st_mem (snd c') = st_mem s)" for t
    using issue_returns [OF assms(1) _ assms(2), of t "Some ir"] reports_keeps(2) [of "(ip, s)"]
    by (auto simp: c elim!: returns_weaken)
  have err: "returns (newStateIssue ERR_OVERWRITE_INST (Some ir) (ip, s))
      (\<lambda>c'. (quiet (ip, s) c' \<and> st_status (snd c') = BROKEN) \<and> quiet (ip, s) c' \<and> st_mem (snd c') = st_mem s)"
    using returns_conj [OF error_returns [OF assms, of ERR_OVERWRITE_INST "Some ir"] warn [of ERR_OVERWRITE_INST, folded c]]
    by (simp add: c level_simps)
  show ?thesis
  proof (cases "mem_read (st_mem s) a")
    case None
    then show ?thesis
      using warn [of WARN_POSSIBLE_WILD_WRITE] by (simp add: c check_write_def level_simps)
  next
    case (Some x)
    have "returns (newStateIssue ERR_OVERWRITE_INST (Some ir) (ip, s)) (\<lambda>(ip', s'). st_status s' = BROKEN \<and>
        quiet (ip, s) (ip', s') \<and> st_mem s' = st_mem s \<and> st_status s' = BROKEN)"
      using err by (rule returns_weaken) auto
    then show ?thesis
      using Some warn [of WARN_WRITE_READ_ONLY_DATA] quiet_refl [OF assms(1)]
      by (simp add: c check_write_def level_simps case_prod_unfold)
  qed
qed

lemma reports_executes:
  assumes "wf_ctx c" "reports c c'"
  shows "executes c (\<lambda>\<sigma> m. m) c'"
proof -
  have s: "snd c' = (snd c)\<lparr>st_triggerNewIssue := st_triggerNewIssue (snd c'), st_status := st_status (snd c')\<rparr>"
    and l: "ip_level (fst c') = ip_level (fst c)" and st: "st_status (snd c') = BROKEN \<or> st_status (snd c') = st_status (snd c)"
    using assms(2) by (simp_all add: reports_def)
  have "wf_state (t\<lparr>st_triggerNewIssue := b, st_status := k\<rparr>) = wf_state t" for t b k by (simp add: wf_state_def)
  then have "wf_state (snd c')" using assms(1) s by (metis wf_ctx_def)
  moreover have "conc \<sigma> (t\<lparr>st_triggerNewIssue := b, st_status := st_status t\<rparr>) = conc \<sigma> t" for \<sigma> t b
    by (simp add: conc_def State_getCCExpr_def)
  then have "conc \<sigma> (snd c') = conc \<sigma> (snd c)" if "st_status (snd c') \<noteq> BROKEN" for \<sigma>
    using s st that by metis
  moreover have "levels_fixed (fst c')" using assms(1) l by (simp add: wf_ctx_def levels_fixed_def levels_ok_def)
  moreover have "st_constraints (snd c') = st_constraints (snd c)" by (subst s) simp
  ultimately show ?thesis by (simp add: executes_def wf_ctx_def)
qed

lemma good_DataValue: "(\<And>e. v = Some e \<Longrightarrow> good e) \<Longrightarrow> good_value (DataValue_alloc a v b d)"
  by (simp add: good_value_def DataValue_alloc_def MemValue_def)

lemma mv_e_DataValue [simp]: "mv_e (DataValue_alloc a v b d) = v"
  by (simp add: DataValue_alloc_def MemValue_def)

text \<open>A write to plain memory and to the ignored device registers.\<close>

lemma plain_write:
  assumes "wf_state s" "\<And>e. v = Some e \<Longrightarrow> good e" "a \<noteq> 0xFE06" "a \<noteq> 0xFFFE"
  obtains m where "mem_writeData (st_mem s) a v = Inr (WRITE_SUCCESS, m)" "wf_state (s\<lparr>st_mem := m\<rparr>)"
    "\<And>\<sigma>. conc \<sigma> (s\<lparr>st_mem := m\<rparr>) = lc3_store a (oval \<sigma> v) (conc \<sigma> s)"
proof -
  let ?v = "DataValue_alloc a v False False"
  obtain m where m: "mem_write (st_mem s) a ?v = Inr (WRITE_SUCCESS, m)"
    using assms(3,4) by (cases "device a") (auto simp: mem_write_def device_def)
  have rd: "mem_read m b = (if b = a \<and> \<not> device a then Some ?v else mem_read (st_mem s) b)" for b
    using mm.read_written [of a _ ?v] mm.special_unchanged [of a _ ?v] m by (cases "device a") auto
  have "wf_state (s\<lparr>st_mem := m\<rparr>)"
    using assms(1) good_DataValue [OF assms(2)] by (auto simp: wf_state_def rd)
  moreover have "(\<lambda>b. mval \<sigma> (mem_read m b)) =
      (if device a then \<lambda>b. mval \<sigma> (mem_read (st_mem s) b) else (\<lambda>b. mval \<sigma> (mem_read (st_mem s) b))(a := oval \<sigma> v))" for \<sigma>
    by (auto simp: rd fun_eq_iff)
  then have "conc \<sigma> (s\<lparr>st_mem := m\<rparr>) = lc3_store a (oval \<sigma> v) (conc \<sigma> s)" for \<sigma>
    using assms(3,4) by (simp add: conc_def lc3_store_def State_getCCExpr_def)
  ultimately show ?thesis using that m by (simp add: mem_writeData_def)
qed

lemma display_write:
  assumes "wf_ctx c" "st_status (snd c) \<noteq> HALTED" "\<And>e. v = Some e \<Longrightarrow> good e"
  shows "returns (after_write WRITE_DDR v ir c) (executes c (\<lambda>\<sigma>. lc3_store 0xFE06 (oval \<sigma> v)))"
proof -
  have out: "executes c (\<lambda>\<sigma>. lc3_store 0xFE06 (val \<sigma> e)) (fst c', (snd c')\<lparr>st_lc3Out := st_lc3Out (snd c') @ [e]\<rparr>)"
    if q: "quiet c c'" and e: "good e" for c' e
  proof -
    have "does c' (\<lambda>\<sigma>. lc3_store 0xFE06 (val \<sigma> e)) (fst c', (snd c')\<lparr>st_lc3Out := st_lc3Out (snd c') @ [e]\<rparr>)"
      using does_wf [OF q] e by (auto simp: does_def wf_ctx_def wf_state_def conc_def State_getCCExpr_def lc3_store_def)
    then show ?thesis by (intro does_executes quiet_does [OF q])
  qed
  show ?thesis
  proof (cases v)
    case None
    have "returns (newStateIssue WARN_USE_UNINITIALIZED_REGISTER (Some ir) c) (quiet c)"
      by (rule issue_quiet [OF assms(1) _ assms(2)]) (simp add: level_simps)
    then show ?thesis
      using None out [of _ "buildConstant 0"]
      by (auto simp: after_write_def case_prod_unfold elim!: returns_weaken)
  next
    case (Some e)
    then show ?thesis using out [OF quiet_refl [OF assms(1)], of e] assms(3) by (simp add: after_write_def case_prod_unfold)
  qed
qed

lemma halt_write:
  assumes "wf_ctx c" "fst (st_latestNonOSInst (snd c)) \<noteq> None" "\<And>\<sigma>. \<not> bit (oval \<sigma> v) 15"
  shows "returns (after_write WRITE_HALT v ir c) (executes c (\<lambda>\<sigma>. lc3_store 0xFFFE (oval \<sigma> v)))"
proof -
  obtain ip s i where c: "c = (ip, s)" "fst (st_latestNonOSInst s) = Some i" using assms(2) by (cases c) auto
  let ?c = "(ip, s\<lparr>st_status := HALTED\<rparr>)"
  have h: "executes c (\<lambda>\<sigma>. lc3_store 0xFFFE (oval \<sigma> v)) ?c" "wf_ctx ?c"
    using assms(1,3) by (simp_all add: c executes_def wf_ctx_def wf_state_def conc_def State_getCCExpr_def lc3_store_def)
  have "executes c (\<lambda>\<sigma>. lc3_store 0xFFFE (oval \<sigma> v)) c'" if "reports ?c c'" for c'
    using reports_executes [OF h(2) that] h(1) that by (auto simp: executes_def reports_def c)
  moreover obtain l where "ip_level ip WARN_MANUAL_HALT = Some l"
    using assms(1) by (auto simp: c wf_ctx_def levels_fixed_def levels_ok_def has_default_level_iff)
  then obtain c' where "newStateIssue WARN_MANUAL_HALT (Some i) ?c = Inr c'" "reports ?c c'"
    using newStateIssue_total [of ip WARN_MANUAL_HALT l "Some i" "snd ?c"] by (metis snd_conv)
  ultimately show ?thesis using h c by (simp add: after_write_def Let_def)
qed

text \<open>
  The condition on a write to the machine control register: the value is a constant.  A null
  value would be dereferenced there, and a symbolic one halts the machine whatever its value is.
\<close>

definition mcr_safe :: "addr \<Rightarrow> expr option \<Rightarrow> bool" where
  "mcr_safe a v \<longleftrightarrow> a = 0xFFFE \<longrightarrow> (\<exists>e. v = Some e \<and> is_ConstantExpr e)"

lemma memWriteData_returns:
  assumes "wf_ctx c" "st_status (snd c) \<noteq> HALTED" "\<And>e. v = Some e \<Longrightarrow> good e" "mcr_safe a v"
    "fst (st_latestNonOSInst (snd c)) \<noteq> None"
  shows "returns (memWriteData a v ir c) (executes c (\<lambda>\<sigma>. lc3_store a (oval \<sigma> v)))"
  unfolding memWriteData_def
proof (rule returns_bindI [OF check_write_returns [OF assms(1,2)]], clarify)
  fix go ip s
  assume q: "quiet c (ip, s)" and b: "\<not> go \<longrightarrow> st_status (snd (ip, s)) = BROKEN"
  let ?s = "s\<lparr>st_memStoringUninitReg := (st_memStoringUninitReg s)(a := if v = None then Some (inst_sr ir, ir) else None)\<rparr>"
  have q1: "quiet c (ip, ?s)" using quiet_erase [OF q] by simp
  note w = does_wf [OF q1] quiet_status [OF q1 assms(2)]
  have n: "fst (st_latestNonOSInst (snd (ip, ?s))) \<noteq> None" using q1 assms(5) by (simp add: does_def)
  have mem: "?s\<lparr>st_mem := st_mem ?s\<rparr> = ?s" by simp
  have "returns (rbind (mem_writeData (st_mem ?s) a v) (\<lambda>(r, m). after_write r v ir (ip, ?s\<lparr>st_mem := m\<rparr>)))
      (executes (ip, ?s) (\<lambda>\<sigma>. lc3_store a (oval \<sigma> v)))"
  proof -
    consider "a = 0xFE06" | (mcr) "a = 0xFFFE" | (plain) "a \<noteq> 0xFE06" "a \<noteq> 0xFFFE" by blast
    then show ?thesis
    proof cases
      case 1
      have "mem_writeData (st_mem ?s) a v = Inr (WRITE_DDR, st_mem ?s)" using 1 by (simp add: mem_writeData_def mem_write_def)
      then show ?thesis using display_write [OF w assms(3)] 1 mem by simp
    next
      case mcr
      obtain e where e: "v = Some e" "is_ConstantExpr e" "good e" using assms(3,4) mcr by (auto simp: mcr_safe_def)
      then obtain k where k: "castConstant e = Inr k" "\<And>\<sigma>. val \<sigma> e = k"
        using castConstant_const(1) [OF e(2) goodD(1,2) [OF e(3)]] by (metis Inr_inject val_def)
      have r: "mem_writeData (st_mem ?s) a v = Inr (if bit k 15 then WRITE_SUCCESS else WRITE_HALT, st_mem ?s)"
        using mcr e k(1) by (simp add: mem_writeData_def mem_write_def single_bit_numerals)
      show ?thesis
      proof (cases "bit k 15")
        case True
        have "executes (ip, ?s) (\<lambda>\<sigma>. lc3_store a (oval \<sigma> v)) (ip, ?s)"
          using w(1) True mcr e(1) k(2) by (simp add: executes_def lc3_store_def conc_def)
        then show ?thesis using r True mem by (simp add: after_write_def)
      next
        case False
        then show ?thesis using halt_write [OF w(1) n, of v ir] r mem mcr e(1) k(2) by simp
      qed
    next
      case plain
      have ws: "wf_state ?s" using w(1) by (simp add: wf_ctx_def)
      obtain m where m: "mem_writeData (st_mem ?s) a v = Inr (WRITE_SUCCESS, m)" "wf_state (?s\<lparr>st_mem := m\<rparr>)"
        "\<And>\<sigma>. conc \<sigma> (?s\<lparr>st_mem := m\<rparr>) = lc3_store a (oval \<sigma> v) (conc \<sigma> ?s)"
        using plain_write [OF ws assms(3) plain] by blast
      then show ?thesis using w(1) by (simp add: after_write_def executes_def wf_ctx_def)
    qed
  qed
  then have "returns (rbind (mem_writeData (st_mem ?s) a v) (\<lambda>(r, m). after_write r v ir (ip, ?s\<lparr>st_mem := m\<rparr>)))
      (executes c (\<lambda>\<sigma>. lc3_store a (oval \<sigma> v)))"
    by (rule returns_weaken) (rule quiet_executes [OF q1])
  then show "returns (if \<not> go then Inr (ip, s) else let s = ?s in
      rbind (mem_writeData (st_mem s) a v) (\<lambda>(result, m). after_write result v ir (ip, s\<lparr>st_mem := m\<rparr>)))
      (executes c (\<lambda>\<sigma>. lc3_store a (oval \<sigma> v)))"
    using b quiet_broken [OF q] by (simp add: Let_def)
qed

lemma executeST_returns:
  assumes "wf_ctx c" "st_status (snd c) \<noteq> HALTED" "inst_sr ir \<le> R_R7"
    "mcr_safe (st_pc (snd c) + inst_imm9 ir) (st_reg (snd c) (inst_sr ir))" "fst (st_latestNonOSInst (snd c)) \<noteq> None"
  shows "returns (executeST ir c) (executes c (\<lambda>\<sigma> m. lc3_store (l_pc m + inst_imm9 ir) (l_reg m (inst_sr ir)) m))"
proof -
  have "\<And>e. st_reg (snd c) (inst_sr ir) = Some e \<Longrightarrow> good e" using assms(1) by (auto simp: wf_ctx_def wf_state_def)
  from memWriteData_returns [OF assms(1,2) this assms(4,5)] show ?thesis
    unfolding executeST_def getReg_bypass [OF assms(3)]
    by simp (rule returns_weaken, assumption, erule executes_cong, simp)
qed

end
