(* ===== verification/Klc3_Forking.thy ===== *)
theory Klc3_Forking
  imports Klc3_Accesses
begin

text \<open>
  The operations that fork: accesses at a symbolic address and conditional branches.  \<open>splits\<close> says that
  the successor states partition the models of the state's constraints, and that each of them, unless
  broken, represents the machines that the ISA makes of those the state represents.
\<close>

unbundle bit_operations_syntax

subsection \<open>Successor states\<close>

definition wf_exec :: "executor \<Rightarrow> bool" where
  "wf_exec ex \<longleftrightarrow> levels_fixed (ex_issues ex) \<and> wf_constraints (ex_initConstraints ex) \<and>
     cache_ok (ex_initConstraints ex) (ex_cache ex)"

definition extends_init :: "executor \<Rightarrow> state \<Rightarrow> bool" where
  "extends_init ex s \<longleftrightarrow> (\<forall>\<sigma>. sat \<sigma> (st_constraints s) \<longrightarrow> sat \<sigma> (ex_initConstraints ex))"

definition successor :: "(assignment \<Rightarrow> lc3 \<Rightarrow> lc3) \<Rightarrow> state \<Rightarrow> state \<Rightarrow> bool" where
  "successor F s t \<longleftrightarrow> wf_state t \<and> (\<forall>\<sigma>. sat \<sigma> (st_constraints t) \<longrightarrow> sat \<sigma> (st_constraints s) \<and>
     (st_status t \<noteq> BROKEN \<longrightarrow> conc \<sigma> t = F \<sigma> (conc \<sigma> s)))"

definition partitions :: "constraints \<Rightarrow> state list \<Rightarrow> bool" where
  "partitions cs ts \<longleftrightarrow> (\<forall>\<sigma>. sat \<sigma> cs \<longrightarrow> (\<exists>!i. i < length ts \<and> sat \<sigma> (st_constraints (ts ! i))))"

definition splits :: "executor \<Rightarrow> state \<Rightarrow> (assignment \<Rightarrow> lc3 \<Rightarrow> lc3) \<Rightarrow> executor \<times> state list \<Rightarrow> bool" where
  "splits ex s F r \<longleftrightarrow> wf_exec (fst r) \<and> ex_initConstraints (fst r) = ex_initConstraints ex \<and>
     (\<forall>t \<in> set (snd r). successor F s t) \<and> partitions (st_constraints s) (snd r)"

lemma executes_splits:
  assumes "executes (ip, s) F (ip', s')" "wf_exec ex"
  shows "splits ex s F (ex\<lparr>ex_issues := ip'\<rparr>, [s'])"
  using assms by (auto simp: splits_def executes_def wf_exec_def wf_ctx_def successor_def partitions_def)

lemma single_splits:
  assumes "returns (f (ex_issues ex, s)) (executes (ex_issues ex, s) F)" "wf_exec ex"
  shows "returns (single f ex s) (splits ex s F)"
  unfolding single_def case_prod_unfold using assms(1)
  by simp (erule returns_weaken, use executes_splits [OF _ assms(2)] in auto)

lemma splits_cong:
  "splits ex s F r \<Longrightarrow> (\<And>\<sigma>. sat \<sigma> (st_constraints s) \<Longrightarrow> F \<sigma> (conc \<sigma> s) = G \<sigma> (conc \<sigma> s)) \<Longrightarrow> splits ex s G r"
  by (auto simp: splits_def successor_def)

lemma splits_quiet:
  assumes "quiet (ip, s) (ip', s')" "splits ex' s' F r" "ex_initConstraints ex' = ex_initConstraints ex"
  shows "splits ex s F r"
  using assms by (auto simp: splits_def successor_def does_def)

subsection \<open>One state per value of an address\<close>

definition instance_of :: "state \<Rightarrow> expr \<Rightarrow> int \<Rightarrow> addr \<times> state \<Rightarrow> bool" where
  "instance_of s e v x \<longleftrightarrow> fst x = word_of_int v \<and> wf_state (snd x) \<and>
     (\<forall>\<sigma>. sat \<sigma> (st_constraints (snd x)) \<longleftrightarrow> sat \<sigma> (st_constraints s) \<and> eval \<sigma> e = v) \<and>
     (\<forall>\<sigma>. conc \<sigma> (snd x) = conc \<sigma> s) \<and> st_status (snd x) = NORMAL \<and>
     st_latestNonOSInst (snd x) = st_latestNonOSInst s"

lemma constraints_view:
  "conc \<sigma> (s\<lparr>st_constraints := cs\<rparr>) = conc \<sigma> s"
  "wf_state s \<Longrightarrow> wf_constraints cs \<Longrightarrow> \<exists>\<sigma>. sat \<sigma> cs \<Longrightarrow> wf_state (s\<lparr>st_constraints := cs\<rparr>)"
  by (simp_all add: conc_def State_getCCExpr_def wf_state_def)

lemma fork_view:
  "conc \<sigma> (s\<lparr>st_triggerNewIssue := a, st_coveredNewEdge := b, st_coveredNewSegment := c, st_avoidLoopReductionPostpone := d\<rparr>)
    = conc \<sigma> s"
  "wf_state (s\<lparr>st_triggerNewIssue := a, st_coveredNewEdge := b, st_coveredNewSegment := c, st_avoidLoopReductionPostpone := d\<rparr>)
    = wf_state s"
  by (simp_all add: conc_def State_getCCExpr_def wf_state_def)

text \<open>A state narrowed by a constraint that some of its models satisfy.\<close>

lemma narrow_returns:
  assumes "wf_state s" "wf_constraint c" "sat \<tau> (st_constraints s)" "eval \<tau> c = 1"
  shows "returns (State_addConstraint s c) (\<lambda>t. wf_state t \<and> (\<forall>\<sigma>. conc \<sigma> t = conc \<sigma> s) \<and>
    (\<forall>\<sigma>. sat \<sigma> (st_constraints t) \<longleftrightarrow> sat \<sigma> (st_constraints s) \<and> eval \<sigma> c = 1) \<and>
    st_status t = st_status s \<and> st_latestNonOSInst t = st_latestNonOSInst s \<and> st_pc t = st_pc s)"
proof -
  have w: "wf_constraints (st_constraints s)" using assms(1) by (simp add: wf_state_def)
  obtain cs where cs: "addConstraint (st_constraints s) c = Inr cs" using addConstraint_sat [OF w assms(2-4)] .
  note n = addConstraint_Inr [OF cs w assms(2)]
  have "\<exists>\<sigma>. sat \<sigma> cs" using n(2) assms(3,4) by blast
  with constraints_view(2) [OF assms(1) n(1)] have "wf_state (s\<lparr>st_constraints := cs\<rparr>)" by simp
  then show ?thesis using cs n constraints_view(1) by (simp add: State_addConstraint_def)
qed

lemma allocator_fork_returns:
  assumes "st_status s = NORMAL" "wf_state s"
  shows "returns (allocator_fork al s) (\<lambda>(al', t). wf_state t \<and> (\<forall>\<sigma>. conc \<sigma> t = conc \<sigma> s) \<and>
    st_constraints t = st_constraints s \<and> st_status t = NORMAL \<and> st_latestNonOSInst t = st_latestNonOSInst s)"
  using assms fork_view by (simp add: allocator_fork_def State_fork_def)

lemma instance_returns:
  assumes "wf_state s" "st_status s = NORMAL" "wt e" "getWidth e = Int16" "possible (st_constraints t) e v"
    and "wf_state t" "st_status t = NORMAL" "\<And>\<sigma>. conc \<sigma> t = conc \<sigma> s" "st_constraints t = st_constraints s"
    and "st_latestNonOSInst t = st_latestNonOSInst s"
  shows "returns (State_addConstraint t (snd (selected e v))) (\<lambda>t. instance_of s e v (word_of_int v, t))"
proof -
  obtain \<tau> where tau: "sat \<tau> (st_constraints t)" "eval \<tau> e = v" using assms(5) by (auto simp: possible_def)
  have b: "0 \<le> v" "v < 65536" using possible_bounds [OF assms(3-5)] by auto
  note sel = selected_sound [OF assms(3,4) b]
  have "eval \<tau> (snd (selected e v)) = 1" using sel(2) tau(2) by simp
  from narrow_returns [OF assms(6) sel(1) tau(1) this] show ?thesis
    using sel(2) assms(7-10) by (auto simp: instance_of_def elim!: returns_weaken)
qed

lemma fork_values_returns:
  assumes "wf_state s" "st_status s = NORMAL" "wt e" "getWidth e = Int16"
    and "\<forall>v \<in> set L. possible (st_constraints s) e v"
  shows "returns (fork_values True s (map (selected e) L) al) (\<lambda>(al', xs). list_all2 (instance_of s e) L xs)"
  using assms(5)
proof (induction L arbitrary: al)
  case (Cons v L)
  have sel: "selected e v = (word_of_int v, snd (selected e v))" by (simp add: selected_def)
  have inst: "returns (State_addConstraint t (snd (selected e v))) (\<lambda>t. instance_of s e v (word_of_int v, t))"
    if "wf_state t" "st_status t = NORMAL" "\<And>\<sigma>. conc \<sigma> t = conc \<sigma> s" "st_constraints t = st_constraints s"
      "st_latestNonOSInst t = st_latestNonOSInst s" for t
    by (rule instance_returns [OF assms(1-4)]) (use that Cons.prems in auto)
  show ?case
  proof (cases L)
    case Nil
    show ?thesis
      using inst [OF assms(1,2)] unfolding Nil list.map by (subst sel) (auto elim!: returns_weaken)
  next
    case (Cons w K)
    let ?rest = "map (selected e) L"
    have "fork_values True s (map (selected e) (v # L)) al = rbind (allocator_fork al s) (\<lambda>(al, t).
        rbind (State_addConstraint t (snd (selected e v))) (\<lambda>t. rbind (fork_values True s ?rest al)
          (\<lambda>(al, ts). Inr (al, (word_of_int v, t) # ts))))"
      unfolding Cons list.map by (subst sel) simp
    moreover have "returns (rbind (State_addConstraint t (snd (selected e v))) (\<lambda>t. rbind (fork_values True s ?rest al1)
          (\<lambda>(al, ts). Inr (al, (word_of_int v, t) # ts)))) (\<lambda>(al', xs). list_all2 (instance_of s e) (v # L) xs)"
      if t: "wf_state t \<and> (\<forall>\<sigma>. conc \<sigma> t = conc \<sigma> s) \<and> st_constraints t = st_constraints s \<and> st_status t = NORMAL \<and>
        st_latestNonOSInst t = st_latestNonOSInst s" for t al1
    proof (rule returns_bindI [OF inst])
      fix t1 assume i: "instance_of s e v (word_of_int v, t1)"
      have "returns (fork_values True s ?rest al1) (\<lambda>(al', xs). list_all2 (instance_of s e) L xs)"
        using Cons.IH [of al1] Cons.prems by simp
      then show "returns (rbind (fork_values True s ?rest al1) (\<lambda>(al, ts). Inr (al, (word_of_int v, t1) # ts)))
          (\<lambda>(al', xs). list_all2 (instance_of s e) (v # L) xs)"
        using i by (auto elim!: returns_weaken)
    qed (use t in auto)
    ultimately show ?thesis
      by (simp only:) (rule returns_bindI [OF allocator_fork_returns [OF assms(2,1)]], auto)
  qed
qed simp

end
