(* ===== verification/Klc3_Addressing.thy ===== *)
theory Klc3_Addressing
  imports Klc3_Forking
begin

text \<open>
  Loads and stores at a symbolic address: \<open>forkOnRange\<close> makes one state per possible address, and the
  access is done in each of them.  The successors partition the models of the state, and each has the
  effect of the ISA for the addresses its constraints allow.
\<close>

unbundle bit_operations_syntax

subsection \<open>Accesses at a symbolic address\<close>

lemma forkOnRange_returns:
  assumes "sound_solver (cf_solver cf)" "wf_exec ex" "extends_init ex s" "wf_state s" "st_status s = NORMAL"
    and "wt e" "getWidth e = Int16"
  shows "returns (forkOnRange cf e ex s) (\<lambda>(ex', xs). wf_exec ex' \<and> ex_initConstraints ex' = ex_initConstraints ex \<and>
    ex_issues ex' = ex_issues ex \<and>
    (\<exists>L. distinct L \<and> (\<forall>v. v \<in> set L \<longleftrightarrow> possible (st_constraints s) e v) \<and> list_all2 (instance_of s e) L xs))"
    (is "returns _ ?Q")
proof -
  define L where "L = filter (possible (st_constraints s) e) [0..65535]"
  have L: "distinct L" "\<And>v. v \<in> set L \<longleftrightarrow> possible (st_constraints s) e v"
    using possible_bounds [OF assms(6,7)] by (fastforce simp: L_def)+
  have vs: "all_values (st_constraints s) e = map (selected e) L"
    by (simp add: L_def all_values_def values_in_def)
  obtain \<sigma> where sat: "sat \<sigma> (st_constraints s)" using assms(4) by (auto simp: wf_state_def)
  have w: "wf_constraints (st_constraints s)" using assms(4) by (simp add: wf_state_def)
  obtain vc k where c: "evalPossibleValuesWithCache (cf_solver cf) (cf_threshold cf) (ex_initConstraints ex) e
      (st_constraints s) (ex_cache ex) (st_solverCount s) = Inr (map (selected e) L, vc, k)"
      "cache_ok (ex_initConstraints ex) vc"
    using sound_solver.withCache_correct [OF assms(1) w _ assms(6,7) sat] assms(2,3) vs
    by (metis wf_exec_def extends_init_def)
  let ?s = "s\<lparr>st_solverCount := k\<rparr>"
  have inst: "list_all2 (instance_of s e) L xs" if "list_all2 (instance_of ?s e) L xs" for xs
    using that by (rule list_all2_mono) (simp add: instance_of_def)
  have forks: "returns (fork_values (length L \<noteq> 1) ?s (map (selected e) L) al) (\<lambda>(al, xs). list_all2 (instance_of s e) L xs)" for al
  proof (cases "length L = 1")
    case True
    then obtain v where v: "L = [v]" by (cases L) auto
    then have "eval \<tau> e = v" if "sat \<tau> (st_constraints s)" for \<tau>
      using that L(2) by (auto simp: possible_def)
    then have "instance_of s e v (word_of_int v, ?s)" using assms(4,5) by (auto simp: instance_of_def)
    then show ?thesis by (simp add: v selected_def)
  next
    case False
    then show ?thesis
      using fork_values_returns [of ?s e L al] assms(4-7) L(2) inst by (auto elim!: returns_weaken)
  qed
  show ?thesis
    unfolding forkOnRange_def using c assms(2) L forks [of "ex_allocator ex"]
    by (auto simp: Let_def wf_exec_def elim!: returns_weaken intro!: exI [of _ L])
qed

definition instance_step :: "(addr \<Rightarrow> assignment \<Rightarrow> lc3 \<Rightarrow> lc3) \<Rightarrow> addr \<times> state \<Rightarrow> state \<Rightarrow> bool" where
  "instance_step G x t \<longleftrightarrow> wf_state t \<and> st_constraints t = st_constraints (snd x) \<and>
     (st_status t \<noteq> BROKEN \<longrightarrow> (\<forall>\<sigma>. conc \<sigma> t = G (fst x) \<sigma> (conc \<sigma> (snd x))))"

lemma for_instances_returns:
  assumes "\<And>a t ip. (a, t) \<in> set xs \<Longrightarrow> levels_fixed ip \<Longrightarrow> returns (f a (ip, t)) (executes (ip, t) (G a))"
    and "levels_fixed ip"
  shows "returns (for_instances f xs ip) (\<lambda>(ip', ts). levels_fixed ip' \<and> list_all2 (instance_step G) xs ts)"
  using assms
proof (induction xs arbitrary: ip)
  case (Cons x xs)
  obtain a t where x: "x = (a, t)" by fastforce
  have rest: "returns (for_instances f xs ip) (\<lambda>(ip', ts). levels_fixed ip' \<and> list_all2 (instance_step G) xs ts)"
    if "levels_fixed ip" for ip
    using that Cons.IH Cons.prems(1) by simp
  have "returns (f a (ip, t)) (executes (ip, t) (G a))" using Cons.prems x by simp
  then show ?case
    unfolding x for_instances.simps
  proof (rule returns_bindI, clarify)
    fix ip1 t1 assume e: "executes (ip, t) (G a) (ip1, t1)"
    then have "levels_fixed ip1" "instance_step G (a, t) t1"
      by (auto simp: executes_def wf_ctx_def instance_step_def)
    then show "returns (rbind (for_instances f xs ip1) (\<lambda>(ip, ts). Inr (ip, t1 # ts)))
      (\<lambda>(ip', ts). levels_fixed ip' \<and> list_all2 (instance_step G) ((a, t) # xs) ts)"
      using rest [of ip1] by (auto elim!: returns_weaken)
  qed
qed simp

lemma instances_partition:
  assumes "distinct L" "\<And>v. v \<in> set L \<longleftrightarrow> possible (st_constraints s) e v"
    and "list_all2 (instance_of s e) L xs" "list_all2 (instance_step G) xs ts"
  shows "partitions (st_constraints s) ts" "t \<in> set ts \<Longrightarrow> successor (\<lambda>\<sigma>. G (word_of_int (eval \<sigma> e)) \<sigma>) s t"
proof -
  have len: "length xs = length L" "length ts = length L"
    using assms(3,4) [THEN list_all2_lengthD] by simp_all
  have i: "instance_of s e (L ! i) (xs ! i)" "instance_step G (xs ! i) (ts ! i)" if "i < length L" for i
    using that assms(3,4) len by (auto simp: list_all2_conv_all_nth)
  have sat: "sat \<sigma> (st_constraints (ts ! i)) \<longleftrightarrow> sat \<sigma> (st_constraints s) \<and> eval \<sigma> e = L ! i" if "i < length L" for i \<sigma>
    using i [OF that] by (auto simp: instance_of_def instance_step_def)
  show "partitions (st_constraints s) ts"
    unfolding partitions_def
  proof clarify
    fix \<sigma> assume s: "sat \<sigma> (st_constraints s)"
    then have "eval \<sigma> e \<in> set L" using assms(2) by (auto simp: possible_def)
    then obtain i where "i < length L" "eval \<sigma> e = L ! i" by (metis in_set_conv_nth)
    then show "\<exists>!i. i < length ts \<and> sat \<sigma> (st_constraints (ts ! i))"
      using s sat len assms(1) by (metis nth_eq_iff_index_eq)
  qed
  assume "t \<in> set ts"
  then obtain j where j: "j < length L" "t = ts ! j" using len by (metis in_set_conv_nth)
  show "successor (\<lambda>\<sigma>. G (word_of_int (eval \<sigma> e)) \<sigma>) s t"
    using i [OF j(1)] sat [OF j(1)] j(2) by (auto simp: successor_def instance_of_def instance_step_def)
qed

lemma at_address_splits:
  assumes "sound_solver (cf_solver cf)" "wf_exec ex" "extends_init ex s" "wf_state s" "st_status s \<noteq> HALTED" "good addr"
    and n: "st_status s = NORMAL \<or> is_ConstantExpr addr"
    and f: "\<And>a t ip. wf_ctx (ip, t) \<Longrightarrow> st_status t \<noteq> HALTED \<Longrightarrow> st_latestNonOSInst t = st_latestNonOSInst s \<Longrightarrow>
      \<exists>\<sigma>. sat \<sigma> (st_constraints s) \<and> val \<sigma> addr = a \<Longrightarrow> returns (f a (ip, t)) (executes (ip, t) (G a))"
  shows "returns (at_address cf f addr ex s) (splits ex s (\<lambda>\<sigma>. G (val \<sigma> addr) \<sigma>))"
proof (cases "is_ConstantExpr addr")
  case True
  note g = goodD(1,2) [OF assms(6)]
  obtain a where a: "castConstant addr = Inr a" "\<And>\<sigma>. val \<sigma> addr = a"
    using castConstant_const(1) [OF True g] by (metis Inr_inject val_def)
  have "returns (f a (ex_issues ex, s)) (executes (ex_issues ex, s) (G a))"
    using assms(2,4,5) a(2) by (intro f) (auto simp: wf_ctx_def wf_exec_def wf_state_def)
  then have "returns (single (f a) ex s) (splits ex s (G a))" using assms(2) by (rule single_splits)
  then show ?thesis using True a by (simp add: at_address_def single_def)
next
  case False
  note g = goodD(1,2) [OF assms(6)]
  have normal: "st_status s = NORMAL" using n False by simp
  show ?thesis
    unfolding at_address_def if_not_P [OF False]
  proof (rule returns_bindI [OF forkOnRange_returns [OF assms(1-4) normal g]], clarify)
    fix ex' xs L
    assume ex': "wf_exec ex'" "ex_initConstraints ex' = ex_initConstraints ex" and L: "distinct L"
      "\<forall>v. v \<in> set L \<longleftrightarrow> possible (st_constraints s) addr v" "list_all2 (instance_of s addr) L xs"
    obtain \<sigma> where "sat \<sigma> (st_constraints s)" using assms(4) by (auto simp: wf_state_def)
    then have "eval \<sigma> addr \<in> set L" using L(2) by (auto simp: possible_def)
    then have ne: "xs \<noteq> []" using L(3) by auto
    have "returns (f a (ip, t)) (executes (ip, t) (G a))" if x: "(a, t) \<in> set xs" "levels_fixed ip" for a t ip
    proof -
      obtain i where "i < length xs" "xs ! i = (a, t)" using x(1) by (auto simp: in_set_conv_nth)
      then have i: "i < length L" "instance_of s addr (L ! i) (a, t)"
        using L(3) by (auto simp: list_all2_conv_all_nth)
      then have "possible (st_constraints s) addr (L ! i)" using L(2) nth_mem by blast
      then show ?thesis using i(2) x(2)
        by (intro f) (auto simp: instance_of_def wf_ctx_def possible_def val_def)
    qed
    then have "returns (for_instances f xs (ex_issues ex')) (\<lambda>(ip', ts). levels_fixed ip' \<and> list_all2 (instance_step G) xs ts)"
      using ex'(1) by (intro for_instances_returns) (auto simp: wf_exec_def)
    then show "returns (rbind (assert_that (xs \<noteq> []) ''Immediate address evaluate to no range'') (\<lambda>_.
        rbind (for_instances f xs (ex_issues ex')) (\<lambda>(ip, ts). Inr (ex'\<lparr>ex_issues := ip\<rparr>, ts))))
        (splits ex s (\<lambda>\<sigma>. G (val \<sigma> addr) \<sigma>))"
      using ne instances_partition [OF L(1) _ L(3)] L(2) ex'
      by (auto simp: splits_def wf_exec_def val_def elim!: returns_weaken)
  qed
qed

text \<open>What remains true for the rest of a handler after a quiet operation.\<close>

lemma after_quiet:
  assumes "quiet (ex_issues ex, s) (ip', s')" "wf_exec ex" "extends_init ex s" "st_status s = NORMAL"
  shows "wf_exec (ex\<lparr>ex_issues := ip'\<rparr>)" "extends_init (ex\<lparr>ex_issues := ip'\<rparr>) s'" "wf_state s'" "st_status s' \<noteq> HALTED"
  using assms by (auto simp: wf_exec_def extends_init_def does_def wf_ctx_def)

lemma handleExprLD_splits:
  assumes "sound_solver (cf_solver cf)" "wf_exec ex" "extends_init ex s" "wf_state s" "st_status s \<noteq> HALTED" "good addr"
    and "st_status s = NORMAL \<or> is_ConstantExpr addr" "DR \<le> R_R7"
  shows "returns (handleExprLD cf DR addr ir ex s) (splits ex s (\<lambda>\<sigma> m. set_result DR (l_mem m (val \<sigma> addr)) m))"
  unfolding handleExprLD_def
  by (rule at_address_splits [OF assms(1-7)], rule load_from_returns) (use assms(8) in auto)

lemma handleExprST_splits:
  assumes "sound_solver (cf_solver cf)" "wf_exec ex" "extends_init ex s" "wf_state s" "st_status s \<noteq> HALTED" "good addr"
    and "st_status s = NORMAL \<or> is_ConstantExpr addr" "\<And>e. v = Some e \<Longrightarrow> good e"
    and "\<And>\<sigma>. sat \<sigma> (st_constraints s) \<Longrightarrow> mcr_safe (val \<sigma> addr) v" "fst (st_latestNonOSInst s) \<noteq> None"
  shows "returns (handleExprST cf addr v ir ex s) (splits ex s (\<lambda>\<sigma>. lc3_store (val \<sigma> addr) (oval \<sigma> v)))"
  unfolding handleExprST_def
  by (rule at_address_splits [OF assms(1-7)], rule memWriteData_returns) (use assms(8-10) in auto)

text \<open>The address \<open>base + offset\<close> is a constant when the base is.\<close>

lemma base_offset:
  assumes "good b"
  shows "good (builder_binary Add b (buildConstant w))"
    and "val \<sigma> (builder_binary Add b (buildConstant w)) = val \<sigma> b + w"
    and "is_ConstantExpr b \<Longrightarrow> is_ConstantExpr (builder_binary Add b (buildConstant w))"
proof -
  have c: "good (buildConstant w)" by simp
  show "good (builder_binary Add b (buildConstant w))" "val \<sigma> (builder_binary Add b (buildConstant w)) = val \<sigma> b + w"
    using good_binary [OF assms c] by simp_all
  show "is_ConstantExpr b \<Longrightarrow> is_ConstantExpr (builder_binary Add b (buildConstant w))"
    by (cases b) (simp_all add: buildConstant_def ConstantExpr_alloc_def builder_Add.simps ConstantExpr_op_def)
qed

lemma executeLDR_splits:
  assumes "sound_solver (cf_solver cf)" "wf_exec ex" "extends_init ex s" "wf_state s" "st_status s = NORMAL"
    and "inst_baseR ir \<le> R_R7" "inst_dr ir \<le> R_R7"
  shows "returns (executeLDR cf ir ex s)
    (splits ex s (\<lambda>\<sigma> m. set_result (inst_dr ir) (l_mem m (l_reg m (inst_baseR ir) + inst_imm6 ir)) m))"
    (is "returns _ (splits ex s ?F)")
proof -
  have w: "wf_ctx (ex_issues ex, s)" using assms(2,4) by (simp add: wf_ctx_def wf_exec_def)
  have h: "st_status (snd (ex_issues ex, s)) \<noteq> HALTED" using assms(5) by simp
  show ?thesis
    unfolding executeLDR_def
  proof (rule returns_bindI [OF getReg_returns [OF w h assms(6)]], clarify)
    fix e ip' s'
    assume q: "quiet (ex_issues ex, s) (ip', s')" and e: "good e" "\<forall>\<sigma>. val \<sigma> e = l_reg (conc \<sigma> (snd (ex_issues ex, s))) (inst_baseR ir)"
      and c: "is_ConstantExpr e \<or> (ip', s') = (ex_issues ex, s)"
    let ?a = "builder_binary Add e (buildConstant (inst_imm6 ir))" and ?ex = "ex\<lparr>ex_issues := ip'\<rparr>"
    have n: "st_status s' = NORMAL \<or> is_ConstantExpr ?a" using c base_offset(3) [OF e(1)] assms(5) by auto
    have "returns (handleExprLD cf (inst_dr ir) ?a ir ?ex s') (splits ex s ?F)"
      using handleExprLD_splits [OF assms(1) after_quiet [OF q assms(2,3,5)] base_offset(1) [OF e(1)] n assms(7)]
      by (rule returns_weaken) (erule splits_cong [OF splits_quiet [OF q]], use e base_offset(2) in auto)
    then show "returns (rbind (deref (Some e)) (\<lambda>base. handleExprLD cf (inst_dr ir)
        (builder_binary Add base (buildConstant (inst_imm6 ir))) ir ?ex s')) (splits ex s ?F)"
      by (simp add: deref_def)
  qed
qed

lemma executeLDI_splits:
  assumes "sound_solver (cf_solver cf)" "wf_exec ex" "extends_init ex s" "wf_state s" "st_status s = NORMAL"
    and "inst_dr ir \<le> R_R7"
  shows "returns (executeLDI cf ir ex s)
    (splits ex s (\<lambda>\<sigma> m. set_result (inst_dr ir) (l_mem m (l_mem m (l_pc m + inst_imm9 ir))) m))"
    (is "returns _ (splits ex s ?F)")
proof -
  have w: "wf_ctx (ex_issues ex, s)" using assms(2,4) by (simp add: wf_ctx_def wf_exec_def)
  have h: "st_status (snd (ex_issues ex, s)) \<noteq> HALTED" using assms(5) by simp
  show ?thesis
    unfolding executeLDI_def Let_def
  proof (rule returns_bindI [OF memReadData_returns [OF w h]], clarify)
    fix v ip' s'
    assume q: "quiet (ex_issues ex, s) (ip', s')" and v: "\<forall>e. v = Some e \<longrightarrow> good e" "None = None \<longrightarrow> v \<noteq> None"
      "\<forall>\<sigma>. oval \<sigma> v = l_mem (conc \<sigma> (snd (ex_issues ex, s))) (st_pc s + inst_imm9 ir)"
    obtain e where e: "v = Some e" "good e" using v(1,2) by auto
    let ?ex = "ex\<lparr>ex_issues := ip'\<rparr>"
    show "returns (if st_status s' \<noteq> NORMAL then Inr (?ex, [s'])
        else rbind (deref v) (\<lambda>midAddr. handleExprLD cf (inst_dr ir) midAddr ir ?ex s')) (splits ex s ?F)"
    proof (cases "st_status s' = NORMAL")
      case True
      have "returns (handleExprLD cf (inst_dr ir) e ir ?ex s') (splits ex s ?F)"
        using handleExprLD_splits [OF assms(1) after_quiet [OF q assms(2,3,5)] e(2) disjI1 [OF True] assms(6)]
        by (rule returns_weaken) (erule splits_cong [OF splits_quiet [OF q]], use e v(3) in auto)
      then show ?thesis using True e by (simp add: deref_def)
    next
      case False
      then have "executes (ex_issues ex, s) ?F (ip', s')"
        using quiet_not_normal [OF q h] by (intro quiet_broken [OF q]) simp
      then show ?thesis using False executes_splits assms(2) by simp
    qed
  qed
qed

text \<open>Which registers these operations can change.\<close>

lemma newStateIssue_reg: "newStateIssue t loc c = Inr c' \<Longrightarrow> st_reg (snd c') = st_reg (snd c)"
  by (cases c) (auto simp: newStateIssue_def Let_def rbind_def split: sum.splits if_splits)

lemma memReadData_reg: "\<forall>x. memReadData a ir dr c = Inr x \<longrightarrow> st_reg (snd (snd x)) = st_reg (snd c)"
proof (intro allI impI)
  fix x assume "memReadData a ir dr c = Inr x"
  then show "st_reg (snd (snd x)) = st_reg (snd c)"
    by (cases c) (auto simp: memReadData_def rbind_def dest!: newStateIssue_reg split: sum.splits if_splits option.splits)
qed

definition registers_kept :: "ctx \<Rightarrow> expr option \<times> ctx \<Rightarrow> bool" where
  "registers_kept c x \<longleftrightarrow> (\<forall>r. st_reg (snd (snd x)) r = st_reg (snd c) r \<or> st_reg (snd (snd x)) r = Some (buildConstant 0))"

lemma getReg_reg: "\<forall>x. getReg r ir b c = Inr x \<longrightarrow> registers_kept c x"
proof (intro allI impI)
  fix x assume "getReg r ir b c = Inr x"
  then show "registers_kept c x"
    by (cases c) (auto simp: registers_kept_def getReg_def rbind_def State_setReg_def dest!: newStateIssue_reg split: sum.splits if_splits)
qed

lemma returns_also: "returns r P \<Longrightarrow> \<forall>x. r = Inr x \<longrightarrow> Q x \<Longrightarrow> returns r (\<lambda>x. P x \<and> Q x)"
  by (auto simp: returns_def)

lemma executeSTR_splits:
  assumes "sound_solver (cf_solver cf)" "wf_exec ex" "extends_init ex s" "wf_state s" "st_status s = NORMAL"
    and "inst_baseR ir \<le> R_R7" "inst_sr ir \<le> R_R7" "fst (st_latestNonOSInst s) \<noteq> None"
    and safe: "\<And>\<sigma>. sat \<sigma> (st_constraints s) \<Longrightarrow>
      mcr_safe (l_reg (conc \<sigma> s) (inst_baseR ir) + inst_imm6 ir) (st_reg s (inst_sr ir))"
  shows "returns (executeSTR cf ir ex s)
    (splits ex s (\<lambda>\<sigma> m. lc3_store (l_reg m (inst_baseR ir) + inst_imm6 ir) (l_reg m (inst_sr ir)) m))"
    (is "returns _ (splits ex s ?F)")
proof -
  have w: "wf_ctx (ex_issues ex, s)" using assms(2,4) by (simp add: wf_ctx_def wf_exec_def)
  have h: "st_status (snd (ex_issues ex, s)) \<noteq> HALTED" using assms(5) by simp
  show ?thesis
    unfolding executeSTR_def
  proof (rule returns_bindI [OF returns_also [OF getReg_returns [OF w h assms(6)] getReg_reg]], clarify)
    fix e ip' s'
    assume q: "quiet (ex_issues ex, s) (ip', s')" and e: "good e" "\<forall>\<sigma>. val \<sigma> e = l_reg (conc \<sigma> (snd (ex_issues ex, s))) (inst_baseR ir)"
      and c: "is_ConstantExpr e \<or> (ip', s') = (ex_issues ex, s)"
      and "registers_kept (ex_issues ex, s) (Some e, (ip', s'))"
    then have r: "st_reg s' r = st_reg s r \<or> st_reg s' r = Some (buildConstant 0)" for r by (simp add: registers_kept_def)
    let ?a = "builder_binary Add e (buildConstant (inst_imm6 ir))" and ?ex = "ex\<lparr>ex_issues := ip'\<rparr>" and ?v = "st_reg s' (inst_sr ir)"
    note a = after_quiet [OF q assms(2,3,5)]
    have n: "st_status s' = NORMAL \<or> is_ConstantExpr ?a" using c base_offset(3) [OF e(1)] assms(5) by auto
    have g: "\<And>e. ?v = Some e \<Longrightarrow> good e" using a(3) by (auto simp: wf_state_def)
    have "mcr_safe (val \<sigma> ?a) ?v" if "sat \<sigma> (st_constraints s')" for \<sigma>
      using safe [of \<sigma>] that q e base_offset(2) [OF e(1)] r [of "inst_sr ir"] by (auto simp: does_def mcr_safe_def)
    moreover have "fst (st_latestNonOSInst s') \<noteq> None" using q assms(8) by (simp add: does_def)
    moreover have "conc \<sigma> s' = conc \<sigma> s" for \<sigma> using quiet_conc [OF q] by simp
    then have "oval \<sigma> ?v = l_reg (conc \<sigma> s) (inst_sr ir)" for \<sigma> by (metis conc_sel(1))
    ultimately have "returns (handleExprST cf ?a ?v ir ?ex s') (splits ex s ?F)"
      by (intro returns_weaken [OF handleExprST_splits [OF assms(1) a base_offset(1) [OF e(1)] n g]])
        (auto intro!: splits_cong [OF splits_quiet [OF q]] simp: e(2) [simplified snd_conv] base_offset(2) [OF e(1), unfolded builder_binary.simps] simp del: conc_sel)
    then show "returns (rbind (deref (Some e)) (\<lambda>base. rbind (getReg (inst_sr ir) ir True (ip', s')) (\<lambda>(value, (ip, s)).
        handleExprST cf (builder_binary Add base (buildConstant (inst_imm6 ir))) value ir (ex\<lparr>ex_issues := ip\<rparr>) s))) (splits ex s ?F)"
      by (simp add: deref_def getReg_bypass [OF assms(7)])
  qed
qed

lemma executeSTI_splits:
  assumes "sound_solver (cf_solver cf)" "wf_exec ex" "extends_init ex s" "wf_state s" "st_status s = NORMAL"
    and "inst_sr ir \<le> R_R7" "fst (st_latestNonOSInst s) \<noteq> None"
    and safe: "\<And>\<sigma>. sat \<sigma> (st_constraints s) \<Longrightarrow>
      mcr_safe (l_mem (conc \<sigma> s) (l_pc (conc \<sigma> s) + inst_imm9 ir)) (st_reg s (inst_sr ir))"
  shows "returns (executeSTI cf ir ex s)
    (splits ex s (\<lambda>\<sigma> m. lc3_store (l_mem m (l_pc m + inst_imm9 ir)) (l_reg m (inst_sr ir)) m))"
    (is "returns _ (splits ex s ?F)")
proof -
  have w: "wf_ctx (ex_issues ex, s)" using assms(2,4) by (simp add: wf_ctx_def wf_exec_def)
  have h: "st_status (snd (ex_issues ex, s)) \<noteq> HALTED" using assms(5) by simp
  show ?thesis
    unfolding executeSTI_def
  proof (rule returns_bindI [OF returns_also [OF memReadData_returns [OF w h] memReadData_reg]], clarify)
    fix v ip' s'
    assume q: "quiet (ex_issues ex, s) (ip', s')" and v: "\<forall>e. v = Some e \<longrightarrow> good e" "None = None \<longrightarrow> v \<noteq> None"
      "\<forall>\<sigma>. oval \<sigma> v = l_mem (conc \<sigma> (snd (ex_issues ex, s))) (st_pc s + inst_imm9 ir)"
      and r: "st_reg (snd (snd (v, ip', s'))) = st_reg (snd (ex_issues ex, s))"
    obtain e where e: "v = Some e" "good e" using v(1,2) by auto
    let ?ex = "ex\<lparr>ex_issues := ip'\<rparr>" and ?v = "st_reg s' (inst_sr ir)"
    note a = after_quiet [OF q assms(2,3,5)]
    show "returns (if st_status s' \<noteq> NORMAL then Inr (?ex, [s'])
        else rbind (deref v) (\<lambda>midAddr. rbind (getReg (inst_sr ir) ir True (ip', s')) (\<lambda>(value, (ip, s)).
          handleExprST cf midAddr value ir (ex\<lparr>ex_issues := ip\<rparr>) s))) (splits ex s ?F)"
    proof (cases "st_status s' = NORMAL")
      case True
      have g: "\<And>e. ?v = Some e \<Longrightarrow> good e" using a(3) by (auto simp: wf_state_def)
      have "mcr_safe (val \<sigma> e) ?v" if "sat \<sigma> (st_constraints s')" for \<sigma>
        using safe [of \<sigma>] that q e v(3) r by (simp add: does_def)
      moreover have "fst (st_latestNonOSInst s') \<noteq> None" using q assms(7) by (simp add: does_def)
      ultimately have "returns (handleExprST cf e ?v ir ?ex s') (splits ex s ?F)"
        by (intro returns_weaken [OF handleExprST_splits [OF assms(1) a e(2) disjI1 [OF True] g]])
          (auto intro!: splits_cong [OF splits_quiet [OF q]] simp: r [simplified] v(3) [unfolded e(1), simplified])
      then show ?thesis using True e by (simp add: deref_def getReg_bypass [OF assms(6)])
    next
      case False
      then have "executes (ex_issues ex, s) ?F (ip', s')"
        using quiet_not_normal [OF q h] by (intro quiet_broken [OF q]) simp
      then show ?thesis using False executes_splits assms(2) by simp
    qed
  qed
qed

end
