(* ===== verification/Klc3_Branches.thy ===== *)
theory Klc3_Branches
  imports Klc3_Addressing
begin

text \<open>
  Conditional branches.  The condition that \<open>solveBRCond\<close> builds for the bits \<open>nzp\<close> is that of the
  ISA, and \<open>executeBR\<close> takes the branch, falls through, or splits the state in two.
\<close>

unbundle bit_operations_syntax

subsection \<open>The condition\<close>

definition cc_holds :: "nat \<Rightarrow> 16 word \<Rightarrow> bool" where
  "cc_holds cc x \<longleftrightarrow> bit cc 2 \<and> sint x < 0 \<or> bit cc 1 \<and> x = 0 \<or> bit cc 0 \<and> 0 < sint x"

lemma cc_of_bits: "bit (cc_of w) k \<longleftrightarrow> k < 3 \<and> bit w (k + 9)"
proof -
  have "cc_of w = fld 9 w" by (simp add: cc_of_def fld_def take_bit_mask_numerals)
  then show ?thesis by (auto simp: fld_def bit_simps ac_simps dest: bit_imp_le_length)
qed

lemma cc_of_lt: "cc_of w < 8"
proof -
  have "cc_of w = fld 9 w" by (simp add: cc_of_def fld_def take_bit_mask_numerals)
  then show ?thesis using fld_le(1) [of w] by simp
qed

lemma taken_cc: "taken w x \<longleftrightarrow> cc_holds (cc_of w) x"
  by (simp add: taken_def cc_holds_def cc_of_bits)

lemma sint_val: "good e \<Longrightarrow> sint (val \<sigma> e) = apint_signed 16 (eval \<sigma> e)"
  by (simp add: val_def apint_signed_def sint_uint signed_take_bit_take_bit unsigned_of_int)

lemma val_zero:
  assumes "good e" shows "val \<sigma> e = 0 \<longleftrightarrow> eval \<sigma> e = 0"
proof -
  have "0 \<le> eval \<sigma> e" "eval \<sigma> e < 65536" using eval_bounds [of e \<sigma>] goodD [OF assms] by auto
  then have "uint (val \<sigma> e) = eval \<sigma> e" by (simp add: val_def unsigned_of_int take_bit_int_eq_self)
  then show ?thesis by (metis uint_0_iff)
qed

lemma compare_zero_sound:
  assumes "good e" "k = Slt \<or> k = Sle"
  shows "wf_constraint (builder_binary k e (buildConstant 0))" "wf_constraint (builder_binary k (buildConstant 0) e)"
    and "eval \<sigma> (builder_binary k e (buildConstant 0)) = apint_op k 16 (eval \<sigma> e) 0"
    and "eval \<sigma> (builder_binary k (buildConstant 0) e) = apint_op k 16 0 (eval \<sigma> e)"
  using assms(2) goodD [OF assms(1)]
    folding.bin_wt [of k e "buildConstant 0"] folding.bin_width [of k e "buildConstant 0"] folding.bin_eval [of k e "buildConstant 0" \<sigma>]
    folding.bin_wt [of k "buildConstant 0" e] folding.bin_width [of k "buildConstant 0" e] folding.bin_eval [of k "buildConstant 0" e \<sigma>]
  by (auto simp: wf_constraint_def)

lemma is_zero_sound:
  assumes "good e"
  shows "wf_constraint (createIsZero e)" "eval \<sigma> (createIsZero e) = of_bool (eval \<sigma> e = 0)"
    and "wf_constraint (createIsZero (createIsZero e))" "eval \<sigma> (createIsZero (createIsZero e)) = of_bool (eval \<sigma> e \<noteq> 0)"
proof -
  note z = sem_eqD [OF createIsZero_sound [OF goodD(1) [OF assms]]]
  show "wf_constraint (createIsZero e)" "eval \<sigma> (createIsZero e) = of_bool (eval \<sigma> e = 0)"
    using z(1,2) z(3) [of \<sigma>] by (simp_all add: wf_constraint_def)
  then show "wf_constraint (createIsZero (createIsZero e))" "eval \<sigma> (createIsZero (createIsZero e)) = of_bool (eval \<sigma> e \<noteq> 0)"
    using createIsZero_bool [of "createIsZero e"] by (simp_all add: wf_constraint_def)
qed

lemma cc_cases:
  assumes "cc < 8" "cc \<noteq> 0" "cc \<noteq> (7::nat)"
  obtains "cc = 1" | "cc = 2" | "cc = 3" | "cc = 4" | "cc = 5" | "cc = 6"
  using assms by linarith

lemma br_condition_sound:
  assumes "good e" "cc < 8" "cc \<noteq> 0" "cc \<noteq> 7"
  shows "wf_constraint (br_condition cc e)" "eval \<sigma> (br_condition cc e) = of_bool (cc_holds cc (val \<sigma> e))"
proof -
  note c = compare_zero_sound [OF assms(1)] is_zero_sound [OF assms(1)]
  have z: "apint_signed 16 0 = 0" by (simp add: apint_signed_def)
  have s: "eval \<sigma> e = 0 \<longleftrightarrow> apint_signed 16 (eval \<sigma> e) = 0"
    using val_zero [OF assms(1)] sint_val [OF assms(1), of \<sigma>] by (metis signed_0 signed_eq_0_iff)
  show "wf_constraint (br_condition cc e)"
    using assms(2-4) by (cases rule: cc_cases) (simp_all add: br_condition_def c del: builder_binary.simps)
  show "eval \<sigma> (br_condition cc e) = of_bool (cc_holds cc (val \<sigma> e))"
    using assms(2-4)
    by (cases rule: cc_cases)
      (auto simp: br_condition_def c cc_holds_def sint_val [OF assms(1)] val_zero [OF assms(1)] s z bit_0 simp del: builder_binary.simps)
qed

lemma br_condition_zero:
  assumes "cc < 8" "cc \<noteq> 0" "cc \<noteq> 7"
  shows "isTrue (br_condition cc (buildConstant 0)) \<or> isFalse (br_condition cc (buildConstant 0))"
  using assms by (cases rule: cc_cases) (simp_all, code_simp+)

subsection \<open>Reading the condition code\<close>

lemma getCCExpr_returns:
  assumes "wf_ctx c" "st_status (snd c) \<noteq> HALTED"
  shows "returns (getCCExpr ir c) (\<lambda>(e, c'). quiet c c' \<and> good e \<and> (\<forall>\<sigma>. val \<sigma> e = l_cc (conc \<sigma> (snd c))) \<and>
    (e = buildConstant 0 \<or> c' = c))"
proof -
  obtain ip s where c: "c = (ip, s)" by fastforce
  have ref: "st_ccRef s \<le> R_R7 \<or> st_ccRef s = NUM_REGS" using assms(1) by (simp add: c wf_ctx_def wf_state_def)
  show ?thesis
  proof (cases "State_getCCExpr s")
    case (Some e)
    then have "good e" using assms(1) by (auto simp: c wf_ctx_def wf_state_def State_getCCExpr_def split: if_splits)
    then show ?thesis using Some quiet_refl [OF assms(1)] by (simp add: c getCCExpr_def conc_def)
  next
    case None
    have l: "l_cc (conc \<sigma> s) = 0" for \<sigma> using None by (simp add: conc_def)
    have i: "returns (newStateIssue t (Some ir) c) (\<lambda>c'. quiet c c' \<and> reports c c')"
      if "t = WARN_USE_UNINITIALIZED_CC \<or> t = WARN_USE_UNINITIALIZED_REGISTER" for t
      using issue_returns [OF assms(1) _ assms(2)] that by (auto simp: level_simps)
    have k: "st_ccRef (snd c') = st_ccRef s" if "reports c c'" for c' using reports_keeps(3) [OF that] by (simp add: c)
    have zero: "quiet c (fst c', (snd c')\<lparr>st_reg := (st_reg (snd c'))(st_ccRef s := Some (buildConstant 0)), st_ccRef := st_ccRef s\<rparr>)"
      if q: "quiet c c'" "reports c c'" and r: "st_ccRef s \<le> R_R7" for c'
    proof -
      have "st_reg (snd c') (st_ccRef s) = None"
        using reports_keeps(1) [OF q(2)] None r by (simp add: c State_getCCExpr_def)
      then have "quiet (fst c', snd c') (fst c', (snd c')\<lparr>st_reg := (st_reg (snd c'))(st_ccRef s := Some (buildConstant 0))\<rparr>)"
        using does_wf [OF q(1)] by (intro zero_register_quiet) simp_all
      then show ?thesis using quiet_trans [OF q(1)] by (simp flip: k [OF q(2)])
    qed
    show ?thesis
    proof (cases "st_ccRef s = NUM_REGS")
      case True
      then show ?thesis
        using i [of WARN_USE_UNINITIALIZED_CC] None l unfolding c getCCExpr_def by (auto elim!: returns_weaken)
    next
      case False
      then have r: "st_ccRef s \<le> R_R7" using ref by simp
      have e: "getCCExpr ir c = rbind (newStateIssue WARN_USE_UNINITIALIZED_REGISTER (Some ir) c) (\<lambda>c'.
          Inr (buildConstant 0, (fst c', (snd c')\<lparr>st_reg := (st_reg (snd c'))(st_ccRef s := Some (buildConstant 0)),
            st_ccRef := st_ccRef s\<rparr>)))"
        using None False r by (simp add: c getCCExpr_def Let_def State_setReg_def case_prod_unfold)
      show ?thesis
        unfolding e using zero [OF _ _ r] l by (intro returns_bindI [OF i]) (auto simp: c)
    qed
  qed
qed

subsection \<open>Deciding the branch\<close>

definition decides :: "mem_value \<Rightarrow> state \<Rightarrow> validity \<Rightarrow> expr option \<Rightarrow> bool" where
  "decides ir s br brCond \<longleftrightarrow> (case br of
       VTrue \<Rightarrow> \<forall>\<sigma>. sat \<sigma> (st_constraints s) \<longrightarrow> cc_holds (inst_cc ir) (l_cc (conc \<sigma> s))
     | VFalse \<Rightarrow> \<forall>\<sigma>. sat \<sigma> (st_constraints s) \<longrightarrow> \<not> cc_holds (inst_cc ir) (l_cc (conc \<sigma> s))
     | VUnknown \<Rightarrow> st_status s = NORMAL \<and> (\<exists>b \<tau> \<tau>'. brCond = Some b \<and> wf_constraint b \<and>
         (\<forall>\<sigma>. eval \<sigma> b = of_bool (cc_holds (inst_cc ir) (l_cc (conc \<sigma> s)))) \<and>
         sat \<tau> (st_constraints s) \<and> eval \<tau> b = 1 \<and> sat \<tau>' (st_constraints s) \<and> eval \<tau>' b = 0))"

lemma const_conditions: "isTrue b \<Longrightarrow> wf_constraint b \<Longrightarrow> eval \<sigma> b = 1" "isFalse b \<Longrightarrow> eval \<sigma> b = 0"
proof -
  assume "isTrue b" "wf_constraint b"
  then have "eval \<sigma> b \<noteq> 0" "wt b" "getWidth b = BoolWidth"
    by (auto simp: isTrue_def wf_constraint_def split: expr.splits)
  then show "eval \<sigma> b = 1" using eval_bool_disj [of b \<sigma>] by auto
qed (auto simp: isFalse_def split: expr.splits)

lemma solveBRCond_returns:
  assumes "sound_solver (cf_solver cf)" "wf_ctx c" "st_status (snd c) = NORMAL"
  shows "returns (solveBRCond cf ir c) (\<lambda>(br, brCond, c'). quiet c c' \<and> decides ir (snd c') br brCond)"
proof (cases "inst_cc ir = 0 \<or> inst_cc ir = 7")
  case True
  have bits: "\<not> cc_holds 0 x" "cc_holds 7 x" for x
    using signed_eq_0_iff [of x] by (auto simp: cc_holds_def bit_0)
  from True show ?thesis
    using quiet_refl [OF assms(2)] bits by (auto simp: solveBRCond_def decides_def)
next
  case False
  have h: "st_status (snd c) \<noteq> HALTED" using assms(3) by simp
  have cc: "inst_cc ir < 8" "inst_cc ir \<noteq> 0" "inst_cc ir \<noteq> 7" using False cc_of_lt by (simp_all add: inst_cc_def)
  have e: "solveBRCond cf ir c = rbind (getCCExpr ir c) (\<lambda>(e, (ip, s)).
        let brCond = br_condition (inst_cc ir) e in
        if isTrue brCond then Inr (VTrue, Some brCond, (ip, s))
        else if isFalse brCond then Inr (VFalse, Some brCond, (ip, s))
        else rbind (query (evaluate (cf_solver cf) (st_constraints s) brCond)) (\<lambda>ret.
          Inr (ret, Some brCond, (ip, s\<lparr>st_solverCount := st_solverCount s + 1\<rparr>))))"
    using False by (simp add: solveBRCond_def)
  show ?thesis
    unfolding e
  proof (rule returns_bindI [OF getCCExpr_returns [OF assms(2) h]], clarify)
    fix e ip s
    assume q: "quiet c (ip, s)" and g: "good e" "\<forall>\<sigma>. val \<sigma> e = l_cc (conc \<sigma> (snd c))"
      and e: "e = buildConstant 0 \<or> (ip, s) = c"
    let ?b = "br_condition (inst_cc ir) e"
    have b: "wf_constraint ?b" "\<And>\<sigma>. eval \<sigma> ?b = of_bool (cc_holds (inst_cc ir) (l_cc (conc \<sigma> s)))"
      using br_condition_sound [OF g(1) cc] g(2) quiet_conc [OF q] by simp_all
    have w: "wf_constraints (st_constraints s)" "\<exists>\<sigma>. sat \<sigma> (st_constraints s)"
      using does_wf [OF q] by (auto simp: wf_ctx_def wf_state_def)
    have t: "decides ir s VTrue (Some ?b)" if "follows (st_constraints s) ?b"
      using that b(2) by (auto simp: decides_def follows_def split: if_splits)
    have f: "decides ir s VFalse (Some ?b)" if "refuted (st_constraints s) ?b"
      using that b(2) by (auto simp: decides_def refuted_def)
    have u: "decides ir s VUnknown (Some ?b)"
      if n: "\<not> follows (st_constraints s) ?b" "\<not> refuted (st_constraints s) ?b" "\<not> isTrue ?b" "\<not> isFalse ?b"
    proof -
      have "st_status s = NORMAL" using n(3,4) e br_condition_zero [OF cc] assms(3) by auto
      moreover obtain \<tau> where "sat \<tau> (st_constraints s)" "eval \<tau> ?b = 1"
        using n(2) b(2) by (auto simp: refuted_def)
      moreover obtain \<tau>' where "sat \<tau>' (st_constraints s)" "eval \<tau>' ?b = 0"
        using n(1) b(2) by (auto simp: follows_def)
      ultimately show ?thesis using b by (auto simp: decides_def)
    qed
    have v: "query (evaluate (cf_solver cf) (st_constraints s) ?b) = Inr (if follows (st_constraints s) ?b then VTrue
        else if refuted (st_constraints s) ?b then VFalse else VUnknown)"
      using sound_solver.evaluate_iff [OF assms(1) w(1) b(1) w(2)] .
    have d: "decides ir (s\<lparr>st_solverCount := n\<rparr>) br x = decides ir s br x" for n br x
      by (cases br) (simp_all add: decides_def)
    have q2: "quiet c (ip, s\<lparr>st_solverCount := n\<rparr>)" for n using q by (simp add: does_def wf_ctx_def)
    consider "isTrue ?b" | "isFalse ?b" "\<not> isTrue ?b" | "\<not> isTrue ?b" "\<not> isFalse ?b" by blast
    then show "returns (let brCond = ?b in
        if isTrue brCond then Inr (VTrue, Some brCond, (ip, s))
        else if isFalse brCond then Inr (VFalse, Some brCond, (ip, s))
        else rbind (query (evaluate (cf_solver cf) (st_constraints s) brCond)) (\<lambda>ret.
          Inr (ret, Some brCond, (ip, s\<lparr>st_solverCount := st_solverCount s + 1\<rparr>))))
        (\<lambda>(br, brCond, c'). quiet c c' \<and> decides ir (snd c') br brCond)"
    proof cases
      case 1
      then have "follows (st_constraints s) ?b" using const_conditions(1) b(1) by (simp add: follows_def)
      then show ?thesis using 1 q t by simp
    next
      case 2
      then have "refuted (st_constraints s) ?b" using const_conditions(2) by (simp add: refuted_def)
      then show ?thesis using 2 q f by simp
    next
      case 3
      then show ?thesis using v t f u q2 by (simp add: d Let_def)
    qed
  qed
qed

subsection \<open>Executing the branch\<close>

definition br_effect :: "mem_value \<Rightarrow> lc3 \<Rightarrow> lc3" where
  "br_effect ir m = (if cc_holds (inst_cc ir) (l_cc m) then set_pc (l_pc m + inst_imm9 ir) m else m)"

lemma executeBR_fork:
  assumes "wf_exec ex" "wf_state s" "st_status s = NORMAL" "wf_constraint b"
    and b: "\<And>\<sigma>. eval \<sigma> b = of_bool (cc_holds (inst_cc ir) (l_cc (conc \<sigma> s)))"
    and m: "sat \<tau> (st_constraints s)" "eval \<tau> b = 1" "sat \<tau>' (st_constraints s)" "eval \<tau>' b = 0"
  shows "returns (rbind (allocator_fork (ex_allocator ex) s) (\<lambda>(al, continueState).
         rbind (State_addConstraint s b) (\<lambda>branchState.
         rbind (State_addConstraint continueState (createIsZero b)) (\<lambda>continueState.
         rbind (setReg_word R_PC (st_pc branchState + inst_imm9 ir) ir branchState) (\<lambda>branchState.
         Inr (ex\<lparr>ex_allocator := al\<rparr>, [continueState, branchState])))))) (splits ex s (\<lambda>\<sigma>. br_effect ir))"
proof (rule returns_bindI [OF allocator_fork_returns [OF assms(3,2)]], clarify)
  fix al t
  assume t: "wf_state t" "\<forall>\<sigma>. conc \<sigma> t = conc \<sigma> s" "st_constraints t = st_constraints s" "st_status t = NORMAL"
  have n: "wf_constraint (createIsZero b)" "\<And>\<sigma>. eval \<sigma> (createIsZero b) = 1 - eval \<sigma> b"
    using createIsZero_bool assms(4) by (auto simp: wf_constraint_def)
  have z: "eval \<tau>' (createIsZero b) = 1" using n(2) m(4) by simp
  have st: "sat \<tau>' (st_constraints t)" using m(3) t(3) by simp
  show "returns (rbind (State_addConstraint s b) (\<lambda>branchState.
         rbind (State_addConstraint t (createIsZero b)) (\<lambda>continueState.
         rbind (setReg_word R_PC (st_pc branchState + inst_imm9 ir) ir branchState) (\<lambda>branchState.
         Inr (ex\<lparr>ex_allocator := al\<rparr>, [continueState, branchState]))))) (splits ex s (\<lambda>\<sigma>. br_effect ir))"
  proof (rule returns_bindI [OF narrow_returns [OF assms(2,4) m(1,2)]],
      rule returns_bindI [OF narrow_returns [OF t(1) n(1) st z]])
    fix x y
    assume x: "wf_state x \<and> (\<forall>\<sigma>. conc \<sigma> x = conc \<sigma> s) \<and>
        (\<forall>\<sigma>. sat \<sigma> (st_constraints x) \<longleftrightarrow> sat \<sigma> (st_constraints s) \<and> eval \<sigma> b = 1) \<and>
        st_status x = st_status s \<and> st_latestNonOSInst x = st_latestNonOSInst s \<and> st_pc x = st_pc s"
      and y: "wf_state y \<and> (\<forall>\<sigma>. conc \<sigma> y = conc \<sigma> t) \<and>
        (\<forall>\<sigma>. sat \<sigma> (st_constraints y) \<longleftrightarrow> sat \<sigma> (st_constraints t) \<and> eval \<sigma> (createIsZero b) = 1) \<and>
        st_status y = st_status t \<and> st_latestNonOSInst y = st_latestNonOSInst t \<and> st_pc y = st_pc t"
    have sy: "successor (\<lambda>\<sigma>. br_effect ir) s y"
      using y t n(2) b by (auto simp: successor_def br_effect_def split: if_splits)
    have py: "sat \<sigma> (st_constraints y) \<longleftrightarrow> sat \<sigma> (st_constraints s) \<and> eval \<sigma> b \<noteq> 1" for \<sigma>
      using y t(3) n(2) b by auto
    have wx: "wf_ctx (ex_issues ex, x)" using x assms(1) by (simp add: wf_ctx_def wf_exec_def)
    show "returns (rbind (setReg_word R_PC (st_pc x + inst_imm9 ir) ir x) (\<lambda>x. Inr (ex\<lparr>ex_allocator := al\<rparr>, [y, x])))
        (splits ex s (\<lambda>\<sigma>. br_effect ir))"
    proof (rule returns_bindI [OF set_pc_does(1) [OF wx]])
      fix x'
      assume d: "does (ex_issues ex, x) (\<lambda>\<sigma>. set_pc (st_pc x + inst_imm9 ir)) (ex_issues ex, x')"
      have px: "sat \<sigma> (st_constraints x') \<longleftrightarrow> sat \<sigma> (st_constraints s) \<and> eval \<sigma> b = 1" for \<sigma>
        using x d by (simp add: does_def)
      have sx: "successor (\<lambda>\<sigma>. br_effect ir) s x'"
        using px b x d by (auto simp: successor_def br_effect_def does_def wf_ctx_def split: if_splits)
      have "partitions (st_constraints s) [y, x']"
        unfolding partitions_def
      proof clarify
        fix \<sigma> assume "sat \<sigma> (st_constraints s)"
        then show "\<exists>!i. i < length [y, x'] \<and> sat \<sigma> (st_constraints ([y, x'] ! i))"
          using px py by (cases "eval \<sigma> b = 1") (auto simp: less_Suc_eq_0_disj)
      qed
      then show "returns (Inr (ex\<lparr>ex_allocator := al\<rparr>, [y, x'])) (splits ex s (\<lambda>\<sigma>. br_effect ir))"
        using sx sy assms(1) by (simp add: splits_def wf_exec_def)
    qed
  qed
qed

lemma executeBR_splits:
  assumes "sound_solver (cf_solver cf)" "wf_exec ex" "wf_state s" "st_status s = NORMAL"
  shows "returns (executeBR cf ir ex s) (splits ex s (\<lambda>\<sigma>. br_effect ir))"
proof -
  have w: "wf_ctx (ex_issues ex, s)" using assms(2,3) by (simp add: wf_ctx_def wf_exec_def)
  have n: "st_status (snd (ex_issues ex, s)) = NORMAL" using assms(4) by simp
  show ?thesis
    unfolding executeBR_def Let_def
  proof (rule returns_bindI [OF solveBRCond_returns [OF assms(1) w n, where ir = ir]], clarify)
    fix br brCond ip s'
    assume q: "quiet (ex_issues ex, s) (ip, s')" and d: "decides ir (snd (ip, s')) br brCond"
    let ?ex = "ex\<lparr>ex_issues := ip\<rparr>"
    have ex: "wf_exec ?ex" and s': "wf_state s'"
      using assms(2) does_wf [OF q] by (simp_all add: wf_exec_def wf_ctx_def)
    have lift: "splits ex s (\<lambda>\<sigma>. br_effect ir) r" if "splits ?ex s' (\<lambda>\<sigma>. br_effect ir) r" for r
      using splits_quiet [OF q that] by simp
    show "returns (case br of
       VTrue \<Rightarrow> rbind (setReg_word R_PC (st_pc s' + inst_imm9 ir) ir s') (\<lambda>s. Inr (?ex, [s]))
     | VFalse \<Rightarrow> Inr (?ex, [s'])
     | VUnknown \<Rightarrow>
         rbind (allocator_fork (ex_allocator ?ex) s') (\<lambda>(al, continueState).
         rbind (deref brCond) (\<lambda>brCond.
         rbind (State_addConstraint s' brCond) (\<lambda>branchState.
         rbind (State_addConstraint continueState (createIsZero brCond)) (\<lambda>continueState.
         rbind (setReg_word R_PC (st_pc branchState + inst_imm9 ir) ir branchState) (\<lambda>branchState.
         Inr (?ex\<lparr>ex_allocator := al\<rparr>, [continueState, branchState]))))))) (splits ex s (\<lambda>\<sigma>. br_effect ir))"
    proof (cases br)
      case VTrue
      have "splits ?ex s' (\<lambda>\<sigma>. br_effect ir) (?ex\<lparr>ex_issues := ip\<rparr>, [t])"
        if "does (ip, s') (\<lambda>\<sigma>. set_pc (st_pc s' + inst_imm9 ir)) (ip, t)" for t
        using executes_splits [OF does_executes [OF that] ex]
        by (rule splits_cong) (use d VTrue in \<open>auto simp: decides_def br_effect_def\<close>)
      then show ?thesis
        using set_pc_does(1) [OF does_wf [OF q], of "st_pc s' + inst_imm9 ir" ir] lift VTrue
        by (auto elim!: returns_weaken)
    next
      case VFalse
      have "splits ?ex s' (\<lambda>\<sigma>. br_effect ir) (?ex\<lparr>ex_issues := ip\<rparr>, [s'])"
        using executes_splits [OF does_executes [OF quiet_refl [OF does_wf [OF q]]] ex]
        by (rule splits_cong) (use d VFalse in \<open>auto simp: decides_def br_effect_def\<close>)
      then show ?thesis using lift VFalse by simp
    next
      case VUnknown
      then obtain b \<tau> \<tau>' where b: "brCond = Some b" "wf_constraint b"
        "\<And>\<sigma>. eval \<sigma> b = of_bool (cc_holds (inst_cc ir) (l_cc (conc \<sigma> s')))" "sat \<tau> (st_constraints s')" "eval \<tau> b = 1"
        "sat \<tau>' (st_constraints s')" "eval \<tau>' b = 0" "st_status s' = NORMAL"
        using d by (auto simp: decides_def)
      show ?thesis
        using returns_weaken [OF executeBR_fork [OF ex s' b(8,2-7)] lift] VUnknown
        by (simp add: b(1) deref_def)
    qed
  qed
qed

end
