(* ===== verification/Klc3_Simulation.thy ===== *)
theory Klc3_Simulation
  imports Klc3_Branches
begin

text \<open>
  A step of the executor simulates the LC-3.  \<open>safe_inst\<close> collects what the simulation needs of an
  instruction: each conjunct excludes one case in which the executor deviates from the ISA or fails.
\<close>

unbundle bit_operations_syntax

subsection \<open>Decoded instructions\<close>

definition decoded :: "mem_value \<Rightarrow> 16 word \<Rightarrow> bool" where
  "decoded ir w \<longleftrightarrow> mv_e ir = Some (buildConstant w) \<and> matchInst w = Some (mv_def ir)"

lemma decoded_fields:
  assumes "decoded ir w"
  shows "inst_ir ir = w" "inst_dr ir = fld 9 w" "inst_sr ir = fld 9 w" "inst_sr1 ir = fld 6 w" "inst_baseR ir = fld 6 w"
    "inst_sr2 ir = fld 0 w" "inst_imm5 ir = signed_take_bit 4 w" "inst_imm6 ir = signed_take_bit 5 w"
    "inst_imm9 ir = signed_take_bit 8 w" "inst_imm11 ir = signed_take_bit 10 w" "inst_vec8 ir = take_bit 8 w"
    "inst_cc ir = cc_of w"
proof -
  show i: "inst_ir ir = w" using assms by (simp add: decoded_def inst_ir_def buildConstant_def ConstantExpr_alloc_def)
  show "inst_dr ir = fld 9 w" "inst_sr ir = fld 9 w" "inst_sr1 ir = fld 6 w" "inst_baseR ir = fld 6 w"
    "inst_sr2 ir = fld 0 w" "inst_imm5 ir = signed_take_bit 4 w" "inst_imm6 ir = signed_take_bit 5 w"
    "inst_imm9 ir = signed_take_bit 8 w" "inst_imm11 ir = signed_take_bit 10 w" "inst_vec8 ir = take_bit 8 w"
    "inst_cc ir = cc_of w"
    by (simp_all add: i fields_spec imm_sext inst_dr_def inst_sr_def inst_sr1_def inst_baseR_def inst_sr2_def
        inst_imm5_def inst_imm6_def inst_imm9_def inst_imm11_def inst_vec8_def inst_cc_def)
qed

lemma decoded_id: "decoded ir w \<Longrightarrow> decode_spec w = Some (inst_id ir)"
  by (simp add: decoded_def inst_id_def flip: matchInst_decode)

lemma decoded_format: "decoded ir w \<Longrightarrow> id_format (mv_def ir) = FMT_RRR \<longleftrightarrow> inst_id ir = I_ADD \<or> inst_id ir = I_AND"
  by (auto simp: decoded_def inst_id_def format_RRR dest!: matchInst_table)

lemma decoded_regs:
  assumes "decoded ir w"
  shows "inst_dr ir \<le> R_R7" "inst_sr ir \<le> R_R7" "inst_sr1 ir \<le> R_R7" "inst_sr2 ir \<le> R_R7" "inst_baseR ir \<le> R_R7"
  using fld_le [of w] by (simp_all add: decoded_fields [OF assms])

subsection \<open>Executing one instruction\<close>

definition safe_inst :: "mem_value \<Rightarrow> state \<Rightarrow> bool" where
  "safe_inst ir s \<longleftrightarrow> inst_id ir \<noteq> I_RTI \<and>
     (inst_id ir \<in> {I_JSR, I_JSRR, I_TRAP} \<longrightarrow> st_ccRef s \<noteq> R_R7) \<and>
     (inst_id ir = I_TRAP \<longrightarrow> mv_sourceContent ir \<noteq> ''INSTANT_HALT'' \<and> vector_constant (st_mem s) (inst_vec8 ir)) \<and>
     (\<forall>\<sigma> a. sat \<sigma> (st_constraints s) \<longrightarrow> lc3_target (inst_id ir) (inst_ir ir) (conc \<sigma> s) = Some a \<longrightarrow>
        mcr_safe a (st_reg s (inst_sr ir)))"

lemma single_does:
  assumes "returns (f (ex_issues ex, s)) (does (ex_issues ex, s) F)" "wf_exec ex"
  shows "returns (single f ex s) (splits ex s F)"
  using assms(1) by (intro single_splits [OF _ assms(2)]) (erule returns_weaken, rule does_executes)

text \<open>What a handler finds when the instruction has been fetched.\<close>

definition ready :: "config \<Rightarrow> mem_value \<Rightarrow> 16 word \<Rightarrow> executor \<Rightarrow> state \<Rightarrow> bool" where
  "ready cf ir w ex s \<longleftrightarrow> sound_solver (cf_solver cf) \<and> wf_exec ex \<and> extends_init ex s \<and> wf_state s \<and>
     st_status s = NORMAL \<and> decoded ir w \<and> fst (st_latestNonOSInst s) \<noteq> None \<and> safe_inst ir s"

lemma readyD:
  assumes "ready cf ir w ex s"
  shows "sound_solver (cf_solver cf)" "wf_exec ex" "extends_init ex s" "wf_state s" "st_status s = NORMAL" "decoded ir w"
    "fst (st_latestNonOSInst s) \<noteq> None" "safe_inst ir s" "wf_ctx (ex_issues ex, s)"
    "st_status (snd (ex_issues ex, s)) = NORMAL" "st_status (snd (ex_issues ex, s)) \<noteq> HALTED"
  using assms by (simp_all add: ready_def wf_ctx_def wf_exec_def)

lemma splits_effect: "returns x (splits ex s F) \<Longrightarrow> (\<And>\<sigma> m. F \<sigma> m = G \<sigma> m) \<Longrightarrow> returns x (splits ex s G)"
  by (erule returns_weaken) (erule splits_cong, simp)

lemma operate_splits:
  assumes "ready cf ir w ex s" "inst_id ir \<in> {I_ADD, I_ADDi, I_AND, I_ANDi, I_NOT, I_LEA}"
  shows "returns (execute_inst cf ir ex s) (splits ex s (\<lambda>\<sigma>. lc3_exec (inst_id ir) w))"
proof -
  note p = readyD [OF assms(1)]
  note w = p(9) and n = p(10,11) and safe = p(8) and r = decoded_regs [OF p(6)]
  note fields = decoded_fields [OF p(6)] decoded_format [OF p(6)]
  consider (I_ADD) "inst_id ir = I_ADD" | (I_ADDi) "inst_id ir = I_ADDi" | (I_AND) "inst_id ir = I_AND" | (I_ANDi) "inst_id ir = I_ANDi" | (I_NOT) "inst_id ir = I_NOT" | (I_LEA) "inst_id ir = I_LEA" using assms(2) by blast
  then show ?thesis
  proof cases
    case I_ADD
    then show ?thesis
      using single_does [of "executeADD ir", OF executeADD_returns [OF w n(2) r(1,3,4)] p(2)]
      by (simp add: execute_inst_def) (erule splits_effect, simp add: fields)
  next
    case I_ADDi
    then show ?thesis
      using single_does [of "executeADD ir", OF executeADD_returns [OF w n(2) r(1,3,4)] p(2)]
      by (simp add: execute_inst_def) (erule splits_effect, simp add: fields)
  next
    case I_AND
    then show ?thesis
      using single_does [of "executeAND ir", OF executeAND_returns [OF w n(2) r(1,3,4)] p(2)]
      by (simp add: execute_inst_def) (erule splits_effect, simp add: fields)
  next
    case I_ANDi
    then show ?thesis
      using single_does [of "executeAND ir", OF executeAND_returns [OF w n(2) r(1,3,4)] p(2)]
      by (simp add: execute_inst_def) (erule splits_effect, simp add: fields)
  next
    case I_NOT
    then show ?thesis
      using single_does [of "executeNOT ir", OF executeNOT_returns [OF w n(2) r(1,3)] p(2)]
      by (simp add: execute_inst_def) (erule splits_effect, simp add: fields)
  next
    case I_LEA
    then show ?thesis
      using single_does [of "executeLEA ir", OF executeLEA_returns [OF w r(1)] p(2)]
      by (simp add: execute_inst_def) (erule splits_effect, simp add: fields)
  qed
qed

lemma memory_splits:
  assumes "ready cf ir w ex s" "inst_id ir \<in> {I_LD, I_LDI, I_LDR, I_ST, I_STI, I_STR}"
  shows "returns (execute_inst cf ir ex s) (splits ex s (\<lambda>\<sigma>. lc3_exec (inst_id ir) w))"
proof -
  note p = readyD [OF assms(1)]
  note w = p(9) and n = p(10,11) and safe = p(8) and r = decoded_regs [OF p(6)]
  note fields = decoded_fields [OF p(6)] decoded_format [OF p(6)]
  consider (I_LD) "inst_id ir = I_LD" | (I_LDI) "inst_id ir = I_LDI" | (I_LDR) "inst_id ir = I_LDR" | (I_ST) "inst_id ir = I_ST" | (I_STI) "inst_id ir = I_STI" | (I_STR) "inst_id ir = I_STR" using assms(2) by blast
  then show ?thesis
  proof cases
    case I_LD
    then show ?thesis
      using single_splits [of "executeLD ir", OF executeLD_returns [OF w n(2) r(1)] p(2)]
      by (simp add: execute_inst_def) (erule splits_effect, simp add: fields)
  next
    case I_LDI
    then show ?thesis
      using executeLDI_splits [OF p(1-5) r(1)]
      by (simp add: execute_inst_def) (erule splits_effect, simp add: fields)
  next
    case I_LDR
    then show ?thesis
      using executeLDR_splits [OF p(1-5) r(5,1)]
      by (simp add: execute_inst_def) (erule splits_effect, simp add: fields)
  next
    case I_ST
    have m: "mcr_safe (st_pc (snd (ex_issues ex, s)) + inst_imm9 ir) (st_reg (snd (ex_issues ex, s)) (inst_sr ir))"
      using safe I_ST p(4) by (auto simp: safe_inst_def fields wf_state_def)
    show ?thesis
      using single_splits [of "executeST ir", OF executeST_returns [OF w n(2) r(2) m] p(2)] p(7) I_ST
      by (simp add: execute_inst_def) (erule splits_effect, simp add: fields)
  next
    case I_STI
    have m: "mcr_safe (l_mem (conc \<sigma> s) (l_pc (conc \<sigma> s) + inst_imm9 ir)) (st_reg s (inst_sr ir))"
      if "sat \<sigma> (st_constraints s)" for \<sigma>
      using safe that I_STI by (auto simp: safe_inst_def fields)
    show ?thesis
      using executeSTI_splits [OF p(1-5) r(2) p(7) m] I_STI
      by (simp add: execute_inst_def) (erule splits_effect, simp add: fields)
  next
    case I_STR
    have m: "mcr_safe (l_reg (conc \<sigma> s) (inst_baseR ir) + inst_imm6 ir) (st_reg s (inst_sr ir))"
      if "sat \<sigma> (st_constraints s)" for \<sigma>
      using safe that I_STR by (auto simp: safe_inst_def fields)
    show ?thesis
      using executeSTR_splits [OF p(1-5) r(5,2) p(7) m] I_STR
      by (simp add: execute_inst_def) (erule splits_effect, simp add: fields)
  qed
qed

lemma control_splits:
  assumes "ready cf ir w ex s" "inst_id ir \<in> {I_BR, I_JMP, I_JSR, I_JSRR, I_TRAP}"
  shows "returns (execute_inst cf ir ex s) (splits ex s (\<lambda>\<sigma>. lc3_exec (inst_id ir) w))"
proof -
  note p = readyD [OF assms(1)]
  note w = p(9) and n = p(10,11) and safe = p(8) and r = decoded_regs [OF p(6)]
  note fields = decoded_fields [OF p(6)] decoded_format [OF p(6)]
  consider (I_BR) "inst_id ir = I_BR" | (I_JMP) "inst_id ir = I_JMP" | (I_JSR) "inst_id ir = I_JSR" | (I_JSRR) "inst_id ir = I_JSRR" | (I_TRAP) "inst_id ir = I_TRAP" using assms(2) by blast
  then show ?thesis
  proof cases
    case I_BR
    then show ?thesis
      using executeBR_splits [OF p(1,2,4,5), of ir]
      by (simp add: execute_inst_def) (erule splits_effect, simp add: fields br_effect_def taken_cc set_pc_def)
  next
    case I_JMP
    then show ?thesis
      using single_splits [of "executeJMP ir", OF executeJMP_returns [OF w n(1) r(5)] p(2)]
      by (simp add: execute_inst_def) (erule splits_effect, simp add: fields set_pc_def)
  next
    case I_JSR
    then have "st_ccRef (snd (ex_issues ex, s)) \<noteq> R_R7" using safe by (simp add: safe_inst_def)
    then show ?thesis
      using single_does [of "executeJSR ir", OF executeJSR_returns [OF w] p(2)] I_JSR
      by (simp add: execute_inst_def) (erule splits_effect, simp add: fields set_pc_def set_r7_def)
  next
    case I_JSRR
    then have "st_ccRef (snd (ex_issues ex, s)) \<noteq> R_R7" using safe by (simp add: safe_inst_def)
    then show ?thesis
      using single_splits [of "executeJSRR ir", OF executeJSRR_returns [OF w n(2) _ r(5)] p(2)] I_JSRR
      by (simp add: execute_inst_def) (erule splits_effect, simp add: fields set_pc_def set_r7_def)
  next
    case I_TRAP
    then have "st_ccRef (snd (ex_issues ex, s)) \<noteq> R_R7" "mv_sourceContent ir \<noteq> ''INSTANT_HALT''"
      "vector_constant (st_mem (snd (ex_issues ex, s))) (inst_vec8 ir)" using safe by (simp_all add: safe_inst_def)
    then show ?thesis
      using single_splits [of "executeTRAP ir", OF executeTRAP_returns [OF w n(1)] p(2)] I_TRAP
      by (simp add: execute_inst_def) (erule splits_effect, simp add: fields set_pc_def set_r7_def)
  qed
qed

lemma execute_inst_splits:
  assumes "ready cf ir w ex s"
  shows "returns (execute_inst cf ir ex s) (splits ex s (\<lambda>\<sigma>. lc3_exec (inst_id ir) w))"
  using operate_splits [OF assms] memory_splits [OF assms] control_splits [OF assms] readyD(8) [OF assms]
  by (cases "inst_id ir") (simp_all add: safe_inst_def)

subsection \<open>A whole step\<close>

text \<open>The state between fetching and executing an instruction.\<close>

definition fetched :: "mem_value \<Rightarrow> state \<Rightarrow> state \<Rightarrow> bool" where
  "fetched ir s t \<longleftrightarrow> (wf_state s \<longrightarrow> wf_state t) \<and> st_constraints t = st_constraints s \<and> st_status t = st_status s \<and>
     st_ccRef t = st_ccRef s \<and> st_mem t = st_mem s \<and> st_reg t = st_reg s \<and>
     (\<forall>\<sigma>. conc \<sigma> t = (conc \<sigma> s)\<lparr>l_pc := st_pc s + 1\<rparr>) \<and>
     fst (st_latestNonOSInst t) = (if mv_belongsToOS ir then fst (st_latestNonOSInst s) else Some ir)"

lemma updateIRAndPC_fetched: "returns (updateIRAndPC ir (update_path ir s)) (fetched ir s)"
  by (simp add: updateIRAndPC_def setReg_def setReg_word_def fetched_def location_change_def update_path_def Let_def
      conc_def State_getCCExpr_def wf_state_def)

definition safe_step :: "state \<Rightarrow> bool" where
  "safe_step s \<longleftrightarrow> (case mem_read (st_mem s) (st_pc s) of None \<Rightarrow> True
     | Some ir \<Rightarrow> mv_type ir = MEM_INST \<longrightarrow> safe_inst ir (s\<lparr>st_pc := st_pc s + 1\<rparr>) \<and>
         (mv_belongsToOS ir \<longrightarrow> fst (st_latestNonOSInst s) \<noteq> None))"

lemma safe_inst_fetched:
  assumes "fetched ir s t" "safe_inst ir (s\<lparr>st_pc := st_pc s + 1\<rparr>)"
  shows "safe_inst ir t"
proof -
  have "conc \<sigma> (s\<lparr>st_pc := st_pc s + 1\<rparr>) = conc \<sigma> t" for \<sigma>
    using assms(1) by (simp add: fetched_def pc_view set_pc_def)
  then show ?thesis using assms by (simp add: safe_inst_def fetched_def)
qed

lemma lc3_step_decoded:
  assumes "mem_read (st_mem s) (st_pc s) = Some ir" "decoded ir w" "inst_id ir \<noteq> I_RTI"
  shows "lc3_step (conc \<sigma> s) = Some (lc3_exec (inst_id ir) w ((conc \<sigma> s)\<lparr>l_pc := st_pc s + 1\<rparr>))"
  using assms decoded_id [OF assms(2)] by (simp add: lc3_step_def Let_def decoded_def)

text \<open>What the successors of a state promise.\<close>

definition advances :: "executor \<Rightarrow> state \<Rightarrow> executor \<times> state list \<Rightarrow> bool" where
  "advances ex s r \<longleftrightarrow> wf_exec (fst r) \<and> ex_initConstraints (fst r) = ex_initConstraints ex \<and>
     partitions (st_constraints s) (snd r) \<and>
     (\<forall>t \<in> set (snd r). wf_state t \<and> (\<forall>\<sigma>. sat \<sigma> (st_constraints t) \<longrightarrow> sat \<sigma> (st_constraints s) \<and>
        (st_status t \<noteq> BROKEN \<longrightarrow> lc3_step (conc \<sigma> s) = Some (conc \<sigma> t))))"

lemma broken_advances:
  assumes "quiet (ex_issues ex, s) (ip, s')" "st_status s' = BROKEN" "wf_exec ex"
  shows "advances ex s (ex\<lparr>ex_issues := ip\<rparr>, [s'])"
  using assms by (auto simp: advances_def does_def wf_ctx_def wf_exec_def partitions_def)

lemma run_inst_advances:
  assumes "sound_solver (cf_solver cf)" "wf_exec ex" "extends_init ex s" "wf_state s" "st_status s = NORMAL"
    and f: "mem_read (st_mem s) (st_pc s) = Some ir" "mv_type ir = MEM_INST" and safe: "safe_step s"
  shows "returns (run_inst cf ir ex s) (advances ex s)"
  unfolding run_inst_def
proof (rule returns_bindI [OF updateIRAndPC_fetched])
  fix t assume t: "fetched ir s t"
  have "good_value ir" using assms(4) f(1) by (auto simp: wf_state_def)
  then obtain w where d: "decoded ir w" using f(2) by (auto simp: good_value_def decoded_def)
  have si: "safe_inst ir t" using safe_inst_fetched [OF t] safe f by (simp add: safe_step_def)
  have "extends_init ex t" "fst (st_latestNonOSInst t) \<noteq> None"
    using t assms(3) safe f by (auto simp: fetched_def extends_init_def safe_step_def)
  then have r: "ready cf ir w ex t" using assms(1,2,4,5) t d si by (simp add: ready_def fetched_def)
  have "advances ex s r" if "splits ex t (\<lambda>\<sigma>. lc3_exec (inst_id ir) w) r" for r
    using that t lc3_step_decoded [OF f(1) d] si
    by (auto simp: advances_def splits_def successor_def fetched_def safe_inst_def)
  then show "returns (if st_status t \<noteq> NORMAL then Inr (ex, [t]) else execute_inst cf ir ex t) (advances ex s)"
    using returns_weaken [OF execute_inst_splits [OF r]] t assms(5) by (simp add: fetched_def)
qed

lemma fetch_failure:
  assumes "wf_exec ex" "wf_state s" "st_status s = NORMAL"
    and "\<And>ir. mem_read (st_mem s) (st_pc s) = Some ir \<Longrightarrow> mv_type ir \<noteq> MEM_INST"
  shows "returns (step cf b ex s) (\<lambda>(ex', out). \<exists>t. out = Stepped [t] \<and> st_status t = BROKEN \<and> advances ex s (ex', [t]))"
proof -
  have w: "wf_ctx (ex_issues ex, s)" "st_status (snd (ex_issues ex, s)) \<noteq> HALTED"
    using assms(1-3) by (simp_all add: wf_ctx_def wf_exec_def)
  have "returns (fetchInst (ex_issues ex, s)) (\<lambda>(ir, c). quiet (ex_issues ex, s) c \<and> st_status (snd c) = BROKEN)"
  proof (cases "mem_read (st_mem s) (st_pc s)")
    case None
    then show ?thesis using error_returns [OF w, of ERR_EXECUTE_UNINITIALIZED_MEMORY "fst (st_latestNonOSInst s)"]
      by (auto simp: fetchInst_def elim!: returns_weaken)
  next
    case (Some ir)
    then show ?thesis using error_returns [OF w, of ERR_EXECUTE_DATA_AS_INST "fst (st_latestNonOSInst s)"] assms(4)
      by (auto simp: fetchInst_def elim!: returns_weaken)
  qed
  then show ?thesis
    unfolding step_def by (simp add: Let_def) (erule returns_weaken, auto simp: broken_advances [OF _ _ assms(1)])
qed

lemma step_fetches:
  assumes "mem_read (st_mem s) (st_pc s) = Some ir" "mv_type ir = MEM_INST" "st_status s = NORMAL"
  shows "step cf False ex s = rbind (run_inst cf ir ex s) (\<lambda>(ex, ts). Inr (ex, Stepped ts))"
  using assms by (simp add: step_def fetchInst_def Let_def)

lemma step_advances:
  assumes "sound_solver (cf_solver cf)" "wf_exec ex" "extends_init ex s" "wf_state s" "st_status s = NORMAL" "safe_step s"
  shows "returns (step cf False ex s) (\<lambda>(ex', out). \<exists>ts. out = Stepped ts \<and> advances ex s (ex', ts))"
proof (cases "\<exists>ir. mem_read (st_mem s) (st_pc s) = Some ir \<and> mv_type ir = MEM_INST")
  case True
  then obtain ir where ir: "mem_read (st_mem s) (st_pc s) = Some ir" "mv_type ir = MEM_INST" by blast
  show ?thesis
    unfolding step_fetches [OF ir assms(5)] using run_inst_advances [OF assms(1-5) ir assms(6)]
    by (auto elim!: returns_weaken)
next
  case False
  then show ?thesis using fetch_failure [OF assms(2,4,5)] by (fastforce elim!: returns_weaken)
qed

end
