(* ===== verification/Klc3_Start.thy ===== *)
theory Klc3_Start
  imports Klc3_Simulation
begin

text \<open>
  The initial state, and the correctness of the executor as it is used: \<open>createInitState\<close> gives a
  state from which the invariants hold, and every step from such a state simulates the machine.
\<close>

unbundle bit_operations_syntax

subsection \<open>Loading the initial constraints\<close>

definition good_base :: "(addr \<Rightarrow> mem_value option) \<Rightarrow> bool" where
  "good_base base \<longleftrightarrow> (\<forall>a v. base a = Some v \<longrightarrow> good_value v)"

definition unsatisfiable_message :: string where
  "unsatisfiable_message = ''Initial constraints are provably unsatisfiable! Failed to create initial state!''"

lemma fresh_state:
  assumes "good_base base"
  shows "wf_state (State base pc uid)"
  using assms
  by (auto simp: wf_state_def State_def mem_read_def MemoryManager_def good_base_def good_value_def DataValue_alloc_def MemValue_def
      split: if_splits)

lemma load_constraint_cases:
  assumes "sound_solver (cf_solver cf)" "wf_state s" "wf_constraint c"
  shows "if \<exists>\<sigma>. sat \<sigma> (st_constraints s) \<and> eval \<sigma> c = 1
    then returns (load_constraint cf c s) (\<lambda>t. wf_state t \<and> (\<forall>\<sigma>. conc \<sigma> t = conc \<sigma> s) \<and>
      (\<forall>\<sigma>. sat \<sigma> (st_constraints t) \<longleftrightarrow> sat \<sigma> (st_constraints s) \<and> eval \<sigma> c = 1) \<and> st_status t = st_status s \<and> st_pc t = st_pc s)
    else load_constraint cf c s = Inl (ProgExit unsatisfiable_message)"
proof -
  have w: "wf_constraints (st_constraints s)" using assms(2) by (simp add: wf_state_def)
  have bool: "eval \<sigma> c = 0 \<or> eval \<sigma> c = 1" for \<sigma>
    using eval_bool_disj [of c \<sigma>] assms(3) by (auto simp: wf_constraint_def)
  note q = sound_solver.mustBeFalse_iff [OF assms(1) w assms(3)]
  let ?s = "s\<lparr>st_solverCount := st_solverCount s + 1\<rparr>"
  show ?thesis
  proof (cases "\<exists>\<sigma>. sat \<sigma> (st_constraints s) \<and> eval \<sigma> c = 1")
    case True
    then obtain \<tau> where t: "sat \<tau> (st_constraints ?s)" "eval \<tau> c = 1" by auto
    have "wf_state ?s" using assms(2) by simp
    from narrow_returns [OF this assms(3) t] True t show ?thesis
      by (auto simp: load_constraint_def q refuted_def Let_def elim!: returns_weaken)
  next
    case False
    then have "refuted (st_constraints s) c" using bool by (auto simp: refuted_def)
    then show ?thesis using False by (simp add: load_constraint_def q unsatisfiable_message_def)
  qed
qed

lemma load_constraints_cases:
  assumes "sound_solver (cf_solver cf)" "wf_state s" "\<forall>c \<in> set cs. wf_constraint c"
  shows "if \<exists>\<sigma>. sat \<sigma> (st_constraints s) \<and> sat \<sigma> cs
    then returns (rfold (load_constraint cf) cs s) (\<lambda>t. wf_state t \<and> (\<forall>\<sigma>. conc \<sigma> t = conc \<sigma> s) \<and>
      (\<forall>\<sigma>. sat \<sigma> (st_constraints t) \<longleftrightarrow> sat \<sigma> (st_constraints s) \<and> sat \<sigma> cs) \<and> st_status t = st_status s \<and> st_pc t = st_pc s)
    else rfold (load_constraint cf) cs s = Inl (ProgExit unsatisfiable_message)"
  using assms(2,3)
proof (induction cs arbitrary: s)
  case Nil
  then show ?case by (auto simp: wf_state_def)
next
  case (Cons c cs)
  have wc: "wf_constraint c" using Cons.prems(2) by simp
  note one = load_constraint_cases [OF assms(1) Cons.prems(1) wc]
  show ?case
  proof (cases "\<exists>\<sigma>. sat \<sigma> (st_constraints s) \<and> eval \<sigma> c = 1")
    case False
    then show ?thesis using one by auto
  next
    case True
    then obtain t where t: "load_constraint cf c s = Inr t" "wf_state t" "\<And>\<sigma>. conc \<sigma> t = conc \<sigma> s"
      "\<And>\<sigma>. sat \<sigma> (st_constraints t) \<longleftrightarrow> sat \<sigma> (st_constraints s) \<and> eval \<sigma> c = 1" "st_status t = st_status s" "st_pc t = st_pc s"
      using one by (auto simp: returns_def)
    then show ?thesis using Cons.IH [of t] Cons.prems(2) by (auto simp: conj_assoc split: if_splits elim!: returns_weaken)
  qed
qed

lemma createInitState_cases:
  assumes "sound_solver (cf_solver cf)" "\<forall>c \<in> set cs. wf_constraint c" "good_base base" "levels_fixed ip"
  shows "if \<exists>\<sigma>. sat \<sigma> cs
    then returns (createInitState cf cs pc (Executor base ip)) (\<lambda>(ex, s). wf_exec ex \<and> extends_init ex s \<and> wf_state s \<and>
      st_status s = NORMAL \<and> st_pc s = pc \<and> (\<forall>\<sigma>. sat \<sigma> (st_constraints s) \<longleftrightarrow> sat \<sigma> cs) \<and>
      (\<forall>\<sigma>. conc \<sigma> s = conc \<sigma> (State base pc 0)))
    else createInitState cf cs pc (Executor base ip) = Inl (ProgExit unsatisfiable_message)"
proof -
  have i: "createInitState cf cs pc (Executor base ip) = rbind (rfold (load_constraint cf) cs (State base pc 0)) (\<lambda>s.
      Inr ((Executor base ip)\<lparr>ex_allocator := fst (allocator_createInitState StateAllocator base pc),
        ex_initConstraints := st_constraints s\<rparr>, s))"
    by (simp add: createInitState_def Executor_def allocator_createInitState_def StateAllocator_def)
  have s: "sat \<sigma> (st_constraints (State base pc 0))" "st_status (State base pc 0) = NORMAL" "st_pc (State base pc 0) = pc" for \<sigma>
    by (simp_all add: State_def)
  show ?thesis
    unfolding i
    using load_constraints_cases [OF assms(1) fresh_state [OF assms(3)] assms(2), of pc 0] assms(4) s
    by (auto simp: wf_exec_def extends_init_def Executor_def cache_ok_empty wf_state_def split: if_splits elim!: returns_weaken)
qed

subsection \<open>An example program\<close>

definition demo_inst :: "16 word \<Rightarrow> mem_value" where
  "demo_inst w = MemValue 0x3000 (Some (buildConstant w)) MEM_INST (case matchInst w of Some d \<Rightarrow> d | None \<Rightarrow> no_def)"

definition demo_base :: "16 word \<Rightarrow> addr \<Rightarrow> mem_value option" where
  "demo_base w = [0x3000 \<mapsto> demo_inst w]"

definition demo_config :: config where
  "demo_config = \<lparr>cf_solver = reference_solver, cf_threshold = 0\<rparr>"

abbreviation demo_ex :: "16 word \<Rightarrow> executor" where
  "demo_ex w \<equiv> Executor (demo_base w) IssuePackage"

abbreviation demo_state :: "16 word \<Rightarrow> state" where
  "demo_state w \<equiv> State (demo_base w) 0x3000 0"

lemma demo_sound: "sound_solver (cf_solver demo_config)"
  using ref_solver.sound_solver_axioms by (simp add: demo_config_def)

lemma levels_fixed_initial: "levels_fixed IssuePackage"
  using levels_ok_initial by (simp add: levels_fixed_def IssuePackage_def default_levels_def)

lemma demo_good: "matchInst w \<noteq> None \<Longrightarrow> good_base (demo_base w)"
  by (auto simp: good_base_def demo_base_def demo_inst_def MemValue_def good_value_def)

lemma demo_wf:
  assumes "matchInst w \<noteq> None"
  shows "wf_exec (demo_ex w)" "extends_init (demo_ex w) (demo_state w)" "wf_state (demo_state w)" "st_status (demo_state w) = NORMAL"
  using fresh_state [OF demo_good [OF assms]] levels_fixed_initial
  by (simp_all add: wf_exec_def Executor_def cache_ok_empty extends_init_def State_def)

lemma demo_fetch: "mem_read (st_mem (demo_state w)) (st_pc (demo_state w)) = Some (demo_inst w)"
  by (simp add: State_def mem_read_def MemoryManager_def demo_base_def)

lemma match_demos: "matchInst 0x1021 \<noteq> None" "matchInst 0x4801 \<noteq> None" "matchInst 0x0C01 \<noteq> None" "matchInst 0xC000 \<noteq> None"
  by code_simp+

lemma id_demos: "inst_id (demo_inst 0x1021) = I_ADDi" "inst_id (demo_inst 0x4801) = I_JSR" "inst_id (demo_inst 0x0C01) = I_BR"
  by code_simp+

subsection \<open>Properties\<close>

text \<open>
  C1: a step refines the LC-3 instruction set architecture.  With a sound solver, from a \<open>NORMAL\<close> state that satisfies the invariant and
  whose next instruction is safe, \<open>step\<close> returns.  Its successors satisfy the invariant and partition the
  models of the state's constraints: every input that the state stands for is covered by exactly one
  successor.  For each input of a successor that is not \<open>BROKEN\<close>, the concrete machine represented by
  the successor is the one the architecture reaches in one step from the machine represented by the state.
\<close>
theorem step_refines_lc3:
  assumes "sound_solver (cf_solver cf)" "wf_exec ex" "extends_init ex s" "wf_state s" "st_status s = NORMAL" "safe_step s"
  shows "\<exists>ex' ts. step cf False ex s = Inr (ex', Stepped ts) \<and> wf_exec ex' \<and> partitions (st_constraints s) ts \<and>
    (\<forall>t \<in> set ts. wf_state t \<and> extends_init ex' t \<and> (\<forall>\<sigma>. sat \<sigma> (st_constraints t) \<longrightarrow> sat \<sigma> (st_constraints s) \<and>
       (st_status t \<noteq> BROKEN \<longrightarrow> lc3_step (conc \<sigma> s) = Some (conc \<sigma> t))))"
  using step_advances [OF assms] assms(3) unfolding returns_def advances_def extends_init_def by fastforce

theorem step_refines_lc3_witness:
  "\<exists>ex' ts. step demo_config False (demo_ex 0x1021) (demo_state 0x1021) = Inr (ex', Stepped ts) \<and> wf_exec ex'"
proof -
  have "safe_step (demo_state 0x1021)"
    by (simp add: safe_step_def demo_fetch safe_inst_def id_demos) (simp add: demo_inst_def MemValue_def)
  from step_refines_lc3 [OF demo_sound demo_wf [OF match_demos(1)] this] show ?thesis by blast
qed

text \<open>
  C33: the initial state.  When the initial constraints are satisfiable, \<open>createInitState\<close> returns a \<open>NORMAL\<close>
  state at the initial program counter that stands for exactly the inputs satisfying them and for which
  the invariants of the executor hold; otherwise it exits with the message that they are unsatisfiable.
\<close>
theorem createInitState_correct:
  assumes "sound_solver (cf_solver cf)" "\<forall>c \<in> set cs. wf_constraint c" "good_base base" "levels_fixed ip"
  shows "if \<exists>\<sigma>. sat \<sigma> cs
    then \<exists>ex s. createInitState cf cs pc (Executor base ip) = Inr (ex, s) \<and> wf_exec ex \<and> extends_init ex s \<and> wf_state s \<and>
      st_status s = NORMAL \<and> st_pc s = pc \<and> (\<forall>\<sigma>. sat \<sigma> (st_constraints s) \<longleftrightarrow> sat \<sigma> cs)
    else createInitState cf cs pc (Executor base ip) = Inl (ProgExit unsatisfiable_message)"
  using createInitState_cases [OF assms, of pc] by (auto simp: returns_def split: if_splits)

theorem createInitState_correct_witness:
  "(\<exists>ex s. createInitState demo_config [BinaryExpr Ule demo_read (ConstantExpr 16 1)] 0x3000 (demo_ex 0x1021) = Inr (ex, s) \<and> wf_state s) \<and>
   createInitState demo_config [ConstantExpr 1 0] 0x3000 (demo_ex 0x1021) = Inl (ProgExit unsatisfiable_message)"
proof -
  have w: "\<forall>c \<in> set [BinaryExpr Ule demo_read (ConstantExpr 16 1)]. wf_constraint c" "\<forall>c \<in> set [ConstantExpr 1 0]. wf_constraint c"
    by (simp_all add: wf_constraint_def demo_read_def)
  have s: "\<exists>\<sigma>. sat \<sigma> [BinaryExpr Ule demo_read (ConstantExpr 16 1)]" "\<not> (\<exists>\<sigma>. sat \<sigma> [ConstantExpr 1 0])"
    by (auto simp: demo_read_def intro: exI [of _ "\<lambda>a i. 0"])
  show ?thesis
    using createInitState_correct [OF demo_sound w(1) demo_good [OF match_demos(1)] levels_fixed_initial, of "0x3000"] s(1)
      createInitState_correct [OF demo_sound w(2) demo_good [OF match_demos(1)] levels_fixed_initial, of "0x3000"] s(2)
    by auto
qed



text \<open>
  C38: the condition code follows the register it was set from.  When that register is \<open>R7\<close>, \<open>JSR\<close> changes the
  condition code of the represented machine to the return address, while the architecture keeps it.
\<close>
theorem jsr_changes_condition_code:
  assumes "st_ccRef s = R_R7"
  shows "\<exists>s'. executeJSR ir (ip, s) = Inr (ip, s') \<and> l_cc (conc \<sigma> s') = st_pc s \<and>
    l_cc (lc3_exec I_JSR (inst_ir ir) (conc \<sigma> s)) = l_cc (conc \<sigma> s)"
  using assms
  by (simp add: executeJSR_def setReg_word_def State_setReg_def location_change_def conc_def State_getCCExpr_def)

theorem jsr_changes_condition_code_witness:
  "\<exists>s'. executeJSR (demo_inst 0x4801) (IssuePackage, setCC R_R7 (demo_inst 0x4801) (demo_state 0x4801)) = Inr (IssuePackage, s') \<and>
    l_cc (conc (\<lambda>a i. 0) s') = 0x3000 \<and> l_cc (conc (\<lambda>a i. 0) (setCC R_R7 (demo_inst 0x4801) (demo_state 0x4801))) = 0"
  using jsr_changes_condition_code [of "setCC R_R7 (demo_inst 0x4801) (demo_state 0x4801)" "demo_inst 0x4801" IssuePackage "\<lambda>a i. 0"]
  by (auto simp: setCC_def State_def conc_def State_getCCExpr_def)

text \<open>
  C37: the issue table has no level for \<open>ERR_INVALID_INST\<close>, so executing \<open>RTI\<close>, or any word that decodes to it,
  ends in the assertion of \<open>getIssueLevel\<close> instead of breaking the state.
\<close>
theorem rti_aborts:
  assumes "ip_level (ex_issues ex) ERR_INVALID_INST = ip_level IssuePackage ERR_INVALID_INST" "inst_id ir = I_RTI"
  shows "execute_inst cf ir ex s = Inl (AssertFailed ''Unknown issue type'')"
proof -
  have "ip_level IssuePackage ERR_INVALID_INST = None" by (simp add: IssuePackage_def default_levels_def)
  then show ?thesis
    using assms by (simp add: execute_inst_def single_def execute_RTI_def newStateIssue_def raiseIssue_def getIssueLevel_def Let_def)
qed

theorem rti_aborts_witness:
  "execute_inst demo_config (demo_inst 0x8000) (demo_ex 0x8000) (demo_state 0x8000) = Inl (AssertFailed ''Unknown issue type'')"
proof -
  have "ip_level (ex_issues (demo_ex 0x8000)) ERR_INVALID_INST = ip_level IssuePackage ERR_INVALID_INST"
    by (simp add: Executor_def)
  moreover have "inst_id (demo_inst 0x8000) = I_RTI" by code_simp
  ultimately show ?thesis by (rule rti_aborts)
qed

end
