(* ===== verification/Klc3_Searcher.thy ===== *)
theory Klc3_Searcher
  imports Klc3_State "HOL-Library.Multiset"
begin

text \<open>
  The searchers (\<open>include/klc3/Searcher/Searcher.h\<close>), which choose the state to execute next.  A searcher
  holds pointers of states and reads the states through them: the functions are polymorphic in the
  type of pointers and take the dereference \<open>view\<close>.  The locale \<open>searcher\<close> is the contract the main
  loop relies on: one round of \<open>fetch\<close> and \<open>push\<close> replaces the state that was fetched by its
  successors and loses no other, and \<open>fetch\<close> gives up only when no normal state is left.
\<close>

subsection \<open>The base class\<close>

definition completes :: "('p \<Rightarrow> state) \<Rightarrow> 'p \<Rightarrow> bool" where
  "completes view p \<longleftrightarrow> st_status (view p) \<noteq> NORMAL"

definition eraseCompletedStates :: "('p \<Rightarrow> state) \<Rightarrow> 'p \<Rightarrow> 'p set \<Rightarrow> 'p set res" where
  "eraseCompletedStates view p completed =
     rbind (assert_that (st_status (view p) = HALTED \<or> st_status (view p) = BROKEN)
       ''s->status == State::HALTED || s->status == State::BROKEN'') (\<lambda>_. Inr (completed - {p}))"

subsection \<open>Queue and stack\<close>

record 'p simple_searcher =
  ss_normal :: "'p list"
  ss_completed :: "'p set"

definition simple_push :: "('p \<Rightarrow> state) \<Rightarrow> 'p list \<Rightarrow> 'p simple_searcher \<Rightarrow> 'p simple_searcher" where
  "simple_push view ps q = foldl (\<lambda>q p.
     if st_status (view p) = NORMAL then q\<lparr>ss_normal := ss_normal q @ [p]\<rparr>
     else q\<lparr>ss_completed := insert p (ss_completed q)\<rparr>) q ps"

definition fifo_fetch :: "'p simple_searcher \<Rightarrow> 'p option \<times> 'p simple_searcher" where
  "fifo_fetch q = (case ss_normal q of
       [] \<Rightarrow> (None, q)
     | p # ps \<Rightarrow> (Some p, q\<lparr>ss_normal := ps\<rparr>))"

definition filo_fetch :: "'p simple_searcher \<Rightarrow> 'p option \<times> 'p simple_searcher" where
  "filo_fetch q =
     (if ss_normal q = [] then (None, q)
      else (Some (last (ss_normal q)), q\<lparr>ss_normal := butlast (ss_normal q)\<rparr>))"

definition simple_getNormalStates :: "'p simple_searcher \<Rightarrow> 'p list" where
  "simple_getNormalStates q = ss_normal q"

subsection \<open>Two stacks by priority\<close>

record 'p prioritized_searcher =
  ps_s0 :: "'p list"
  ps_s1 :: "'p list"
  ps_completed :: "'p set"

definition prioritized_fetch :: "'p prioritized_searcher \<Rightarrow> 'p option \<times> 'p prioritized_searcher" where
  "prioritized_fetch q =
     (if ps_s0 q \<noteq> [] then (Some (last (ps_s0 q)), q\<lparr>ps_s0 := butlast (ps_s0 q)\<rparr>)
      else if ps_s1 q \<noteq> [] then (Some (last (ps_s1 q)), q\<lparr>ps_s1 := butlast (ps_s1 q)\<rparr>)
      else (None, q))"

definition prioritized_push :: "('p \<Rightarrow> state) \<Rightarrow> 'p list \<Rightarrow> 'p prioritized_searcher \<Rightarrow> 'p prioritized_searcher" where
  "prioritized_push view ps q = foldl (\<lambda>q p.
     if st_status (view p) = NORMAL then
       if st_coveredNewEdge (view p) \<or> st_coveredNewSegment (view p)
       then q\<lparr>ps_s0 := ps_s0 q @ [p]\<rparr> else q\<lparr>ps_s1 := ps_s1 q @ [p]\<rparr>
     else q\<lparr>ps_completed := insert p (ps_completed q)\<rparr>) q ps"

definition prioritized_getNormalStates :: "'p prioritized_searcher \<Rightarrow> 'p list" where
  "prioritized_getNormalStates q = ps_s1 q @ ps_s0 q"

subsection \<open>Random picking\<close>

text \<open>\<open>rp_rand\<close> is the sequence of values that \<open>std::rand\<close> returns, \<open>rp_calls\<close> the number of calls so far.\<close>

record 'p random_searcher =
  rp_picked :: "'p option"
  rp_other :: "'p list"
  rp_completed :: "'p set"
  rp_rand :: "nat \<Rightarrow> nat"
  rp_calls :: nat

definition swap_back :: "nat \<Rightarrow> 'p list \<Rightarrow> 'p list" where
  "swap_back i ps = ps[i := last ps, length ps - 1 := ps ! i]"

definition random_fetch :: "'p random_searcher \<Rightarrow> 'p option \<times> 'p random_searcher" where
  "random_fetch q =
     (if rp_picked q = None \<and> rp_other q \<noteq> [] then
        let i = rp_rand q (rp_calls q) mod length (rp_other q);
            ps = swap_back i (rp_other q);
            q = q\<lparr>rp_calls := rp_calls q + 1, rp_picked := Some (last ps), rp_other := butlast ps\<rparr>
        in (rp_picked q, q)
      else (rp_picked q, q))"

text \<open>The state that was picked before the push stays the picked one when it is seen again.\<close>

definition random_add :: "('p \<Rightarrow> state) \<Rightarrow> 'p option \<Rightarrow> 'p random_searcher \<Rightarrow> 'p \<Rightarrow> 'p random_searcher" where
  "random_add view lastPickedState q p = (if st_status (view p) = NORMAL then
       if lastPickedState = Some p then q\<lparr>rp_picked := Some p\<rparr> else q\<lparr>rp_other := rp_other q @ [p]\<rparr>
     else q\<lparr>rp_completed := insert p (rp_completed q)\<rparr>)"

definition random_push :: "('p \<Rightarrow> state) \<Rightarrow> 'p list \<Rightarrow> 'p random_searcher \<Rightarrow> 'p random_searcher" where
  "random_push view ps q = foldl (random_add view (rp_picked q)) (q\<lparr>rp_picked := None\<rparr>) ps"

definition random_getNormalStates :: "'p random_searcher \<Rightarrow> 'p list" where
  "random_getNormalStates q = rp_other q @ (case rp_picked q of None \<Rightarrow> [] | Some p \<Rightarrow> [p])"

subsection \<open>The contract\<close>

text \<open>\<open>fetched\<close> describes what a searcher may forget between a \<open>fetch\<close> and the \<open>push\<close> that follows it.\<close>

locale searcher =
  fixes fetch :: "'q \<Rightarrow> 'p option \<times> 'q"
    and push :: "('p \<Rightarrow> state) \<Rightarrow> 'p list \<Rightarrow> 'q \<Rightarrow> 'q"
    and normals :: "'q \<Rightarrow> 'p list"
    and completed :: "'q \<Rightarrow> 'p set"
  assumes fetch_none: "fetch q = (None, q') \<Longrightarrow> normals q = [] \<and> normals q' = [] \<and> completed q' = completed q"
    and fetch_some: "fetch q = (Some p, q') \<Longrightarrow> p \<in> set (normals q)"
    and round_normals: "fetch q = (Some p, q') \<Longrightarrow> distinct ps \<Longrightarrow>
      mset (normals (push view ps q')) = mset (normals q) - {#p#} + filter_mset (\<lambda>p. st_status (view p) = NORMAL) (mset ps)"
    and round_completed: "fetch q = (Some p, q') \<Longrightarrow>
      completed (push view ps q') = completed q \<union> set (filter (completes view) ps)"
begin

text \<open>Every state is still known after a round, except the one that was executed.\<close>

lemma round_all:
  assumes "fetch q = (Some p, q')" "distinct ps" "distinct (normals q)"
  shows "set (normals (push view ps q')) \<union> completed (push view ps q') =
    (set (normals q) - {p}) \<union> completed q \<union> set ps"
proof -
  have "set (normals (push view ps q')) = set_mset (mset (normals q) - {#p#} + filter_mset (\<lambda>p. st_status (view p) = NORMAL) (mset ps))"
    using round_normals [OF assms(1,2)] by (metis set_mset_mset)
  also have "\<dots> = (set (normals q) - {p}) \<union> {x \<in> set ps. st_status (view x) = NORMAL}"
    using assms(3) by (simp add: mset_remove1 [symmetric] del: mset_remove1)
  finally show ?thesis using round_completed [OF assms(1)] by (auto simp: completes_def)
qed

lemma round_distinct:
  assumes "fetch q = (Some p, q')" "distinct ps" "distinct (normals q)"
    and "set ps \<inter> (set (normals q) - {p}) = {}"
  shows "distinct (normals (push view ps q'))"
proof -
  have "mset (normals (push view ps q')) = mset (remove1 p (normals q) @ filter (\<lambda>p. st_status (view p) = NORMAL) ps)"
    using round_normals [OF assms(1,2)] by simp
  from mset_eq_imp_distinct_iff [OF this] show ?thesis using assms(2-4) by auto
qed

end

lemma simple_push_eq:
  "simple_push view ps q = q\<lparr>ss_normal := ss_normal q @ filter (\<lambda>p. st_status (view p) = NORMAL) ps,
     ss_completed := ss_completed q \<union> set (filter (completes view) ps)\<rparr>"
  unfolding simple_push_def by (induction ps arbitrary: q) (auto simp: completes_def)

lemma prioritized_push_eq:
  "prioritized_push view ps q = q\<lparr>
     ps_s0 := ps_s0 q @ filter (\<lambda>p. st_status (view p) = NORMAL \<and> (st_coveredNewEdge (view p) \<or> st_coveredNewSegment (view p))) ps,
     ps_s1 := ps_s1 q @ filter (\<lambda>p. st_status (view p) = NORMAL \<and> \<not> (st_coveredNewEdge (view p) \<or> st_coveredNewSegment (view p))) ps,
     ps_completed := ps_completed q \<union> set (filter (completes view) ps)\<rparr>"
  unfolding prioritized_push_def by (induction ps arbitrary: q) (auto simp: completes_def)

lemma last_butlast_mset: "xs \<noteq> [] \<Longrightarrow> mset (butlast xs) = mset xs - {#last xs#}"
  by (metis add_diff_cancel_right' append_butlast_last_id mset.simps mset_append)

interpretation fifo: searcher fifo_fetch simple_push simple_getNormalStates ss_completed
  by unfold_locales
    (auto simp: fifo_fetch_def simple_push_eq simple_getNormalStates_def split: list.splits)

interpretation filo: searcher filo_fetch simple_push simple_getNormalStates ss_completed
  by unfold_locales
    (auto simp: filo_fetch_def simple_push_eq simple_getNormalStates_def last_butlast_mset split: if_splits)

lemma split_filter_mset:
  "filter_mset (\<lambda>x. P x \<and> Q x) M + filter_mset (\<lambda>x. P x \<and> \<not> Q x) M = filter_mset P M"
  by (induction M) auto

interpretation prioritized: searcher prioritized_fetch prioritized_push prioritized_getNormalStates ps_completed
proof unfold_locales
  fix q q' :: "'p prioritized_searcher" and p ps and view :: "'p \<Rightarrow> state"
  assume f: "prioritized_fetch q = (Some p, q')"
  have *: "mset (ps_s1 q') + mset (ps_s0 q') = mset (ps_s1 q) + mset (ps_s0 q) - {#p#}"
    using f by (auto simp: prioritized_fetch_def last_butlast_mset split: if_splits)
  then show "mset (prioritized_getNormalStates (prioritized_push view ps q')) =
    mset (prioritized_getNormalStates q) - {#p#} + filter_mset (\<lambda>p. st_status (view p) = NORMAL) (mset ps)"
    unfolding split_filter_mset [of "\<lambda>p. st_status (view p) = NORMAL" "\<lambda>p. st_coveredNewEdge (view p) \<or> st_coveredNewSegment (view p)", symmetric]
    by (simp add: prioritized_getNormalStates_def prioritized_push_eq ac_simps)
qed (auto simp: prioritized_fetch_def prioritized_push_eq prioritized_getNormalStates_def split: if_splits)

text \<open>Swapping with the back and popping takes one element out.\<close>

lemma swap_back_mset:
  assumes "i < length ps"
  shows "mset (butlast (swap_back i ps)) = mset ps - {#last (swap_back i ps)#}" "last (swap_back i ps) = ps ! i"
proof -
  have ne: "ps \<noteq> []" "swap_back i ps \<noteq> []" using assms by (auto simp: swap_back_def)
  have "mset (swap_back i ps) = mset ps"
    using assms ne(1) mset_swap [of "length ps - 1" ps i] by (simp add: swap_back_def last_conv_nth)
  then show "mset (butlast (swap_back i ps)) = mset ps - {#last (swap_back i ps)#}"
    using last_butlast_mset [OF ne(2)] by simp
  show "last (swap_back i ps) = ps ! i" using assms by (simp add: swap_back_def last_conv_nth ne)
qed

lemma random_fetch_some:
  assumes "random_fetch q = (Some p, q')"
  shows "rp_picked q' = Some p" "mset (rp_other q') = mset (random_getNormalStates q) - {#p#}"
    "rp_completed q' = rp_completed q" "p \<in> set (random_getNormalStates q)"
proof -
  have i: "rp_rand q (rp_calls q) mod length (rp_other q) < length (rp_other q)" if "rp_other q \<noteq> []" using that by simp
  have m: "last (swap_back (rp_rand q (rp_calls q) mod length (rp_other q)) (rp_other q)) \<in> set (rp_other q)" if "rp_other q \<noteq> []"
    using nth_mem [OF i [OF that]] by (simp only: swap_back_mset(2) [OF i [OF that]])
  show "rp_picked q' = Some p" "mset (rp_other q') = mset (random_getNormalStates q) - {#p#}"
    "rp_completed q' = rp_completed q" "p \<in> set (random_getNormalStates q)"
    using assms swap_back_mset(1) [OF i] m
    by (auto simp: random_fetch_def random_getNormalStates_def Let_def split: if_splits)
qed

lemma random_add_completed: "rp_completed (foldl (random_add view pk) q ps) = rp_completed q \<union> set (filter (completes view) ps)"
  by (induction ps arbitrary: q) (auto simp: random_add_def completes_def)

lemma random_add_normals:
  assumes "distinct ps" "rp_picked q = None \<or> (\<exists>x. pk = Some x \<and> x \<notin> set ps)"
  shows "mset (random_getNormalStates (foldl (random_add view pk) q ps)) =
      mset (random_getNormalStates q) + filter_mset (\<lambda>p. st_status (view p) = NORMAL) (mset ps)"
  using assms
proof (induction ps arbitrary: q)
  case (Cons p ps)
  let ?q = "random_add view pk q p"
  have d: "distinct ps" "rp_picked ?q = None \<or> (\<exists>x. pk = Some x \<and> x \<notin> set ps)"
    using Cons.prems by (auto simp: random_add_def)
  show ?case
    using Cons.IH [OF d] Cons.prems(2) by (auto simp: random_add_def random_getNormalStates_def split: option.splits)
qed simp

interpretation random: searcher random_fetch random_push random_getNormalStates rp_completed
proof unfold_locales
  fix q q' :: "'p random_searcher" and p ps and view :: "'p \<Rightarrow> state"
  assume f: "random_fetch q = (Some p, q')"
  note r = random_fetch_some [OF f]
  show "p \<in> set (random_getNormalStates q)" by (rule r(4))
  show "mset (random_getNormalStates (random_push view ps q')) =
      mset (random_getNormalStates q) - {#p#} + filter_mset (\<lambda>p. st_status (view p) = NORMAL) (mset ps)" if "distinct ps"
    using random_add_normals [OF that, of "q'\<lparr>rp_picked := None\<rparr>" "rp_picked q'" view] r(2)
    by (simp add: random_push_def) (simp add: random_getNormalStates_def)
  show "rp_completed (random_push view ps q') = rp_completed q \<union> set (filter (completes view) ps)"
    using r(3) by (simp add: random_push_def random_add_completed)
qed (auto simp: random_fetch_def random_getNormalStates_def Let_def split: if_splits)

subsection \<open>No state waits for ever\<close>

text \<open>The states that the queue hands out in a sequence of rounds; \<open>pss\<close> holds the states that are pushed after each fetch, and the store at that time.\<close>

primrec fifo_rounds :: "(('p \<Rightarrow> state) \<times> 'p list) list \<Rightarrow> 'p simple_searcher \<Rightarrow> 'p list" where
  "fifo_rounds [] q = []"
| "fifo_rounds (vp # pss) q = (case fifo_fetch q of
       (None, q') \<Rightarrow> []
     | (Some p, q') \<Rightarrow> p # fifo_rounds pss (simple_push (fst vp) (snd vp) q'))"

text \<open>
  C35: the queue starves no state.  Whatever is pushed in between, the state at position \<open>k\<close> of the queue is the one that is fetched after \<open>k\<close>
  further rounds.
\<close>
theorem fifo_no_starvation:
  assumes "k < length (ss_normal q)" "k < length pss"
  shows "k < length (fifo_rounds pss q) \<and> fifo_rounds pss q ! k = ss_normal q ! k"
  using assms
proof (induction pss arbitrary: q k)
  case (Cons vp pss)
  obtain p ps where n: "ss_normal q = p # ps" using Cons.prems(1) by (cases "ss_normal q") auto
  let ?q = "simple_push (fst vp) (snd vp) (q\<lparr>ss_normal := ps\<rparr>)"
  have r: "fifo_rounds (vp # pss) q = p # fifo_rounds pss ?q" by (simp add: fifo_fetch_def n)
  show ?case
  proof (cases k)
    case (Suc j)
    have j: "j < length ps" "j < length pss" using Cons.prems Suc n by simp_all
    have s: "ss_normal ?q = ps @ filter (\<lambda>p. st_status (fst vp p) = NORMAL) (snd vp)" by (simp add: simple_push_eq)
    have "j < length (ss_normal ?q)" "ss_normal ?q ! j = ps ! j" using j(1) unfolding s by (simp_all add: nth_append)
    then show ?thesis using Cons.IH [of j ?q] j(2) Suc n r by (simp del: fifo_rounds.simps)
  qed (simp add: r n del: fifo_rounds.simps)
qed simp

theorem fifo_no_starvation_witness:
  "fifo_rounds [(\<lambda>_. State (\<lambda>_. None) 0x3000 0, [7, 8]), (\<lambda>_. State (\<lambda>_. None) 0x3000 0, [9])] \<lparr>ss_normal = [1 :: nat, 2], ss_completed = {}\<rparr> ! 1 = 2"
  using fifo_no_starvation [of 1 "\<lparr>ss_normal = [1 :: nat, 2], ss_completed = {}\<rparr>" "[(\<lambda>_. State (\<lambda>_. None) 0x3000 0, [7, 8]), (\<lambda>_. State (\<lambda>_. None) 0x3000 0, [9])]"] by (simp del: fifo_rounds.simps)

end
