(* ===== verification/Klc3_Exploration.thy ===== *)
theory Klc3_Exploration
  imports Klc3_Start Klc3_Searcher
begin

text \<open>
  Exploring a program: the rounds of fetching a state from a searcher, executing one step of it and
  handing the successors back.  Whatever searcher is used, the states it knows always account for
  every input of the initial state exactly once, and each of them represents a machine that the
  architecture reaches from the initial one.
\<close>

fun lc3_run :: "nat \<Rightarrow> lc3 \<Rightarrow> lc3 option" where
  "lc3_run 0 m = Some m"
| "lc3_run (Suc n) m = Option.bind (lc3_run n m) lc3_step"

text \<open>\<open>rounds\<close> of the loop, at most \<open>n\<close> of them.\<close>

fun explore :: "('q \<Rightarrow> state option \<times> 'q) \<Rightarrow> ((state \<Rightarrow> state) \<Rightarrow> state list \<Rightarrow> 'q \<Rightarrow> 'q) \<Rightarrow> config \<Rightarrow> nat \<Rightarrow> executor \<Rightarrow> 'q \<Rightarrow> (executor \<times> 'q) res" where
  "explore fetch push cf 0 ex q = Inr (ex, q)"
| "explore fetch push cf (Suc n) ex q = (case fetch q of
       (None, q) \<Rightarrow> Inr (ex, q)
     | (Some s, q) \<Rightarrow> rbind (step cf False ex s) (\<lambda>(ex, out). case out of
           WillFork s \<Rightarrow> Inl (AssertFailed ''step'')
         | Stepped ts \<Rightarrow> explore fetch push cf n ex (push id ts q)))"

fun safe_run :: "('q \<Rightarrow> state option \<times> 'q) \<Rightarrow> ((state \<Rightarrow> state) \<Rightarrow> state list \<Rightarrow> 'q \<Rightarrow> 'q) \<Rightarrow> config \<Rightarrow> nat \<Rightarrow> executor \<Rightarrow> 'q \<Rightarrow> bool" where
  "safe_run fetch push cf 0 ex q = True"
| "safe_run fetch push cf (Suc n) ex q = (case fetch q of
       (None, q) \<Rightarrow> True
     | (Some s, q) \<Rightarrow> safe_step s \<and> (case step cf False ex s of
           Inr (ex, Stepped ts) \<Rightarrow> safe_run fetch push cf n ex (push id ts q)
         | _ \<Rightarrow> True))"

subsection \<open>What the known states account for\<close>

definition accounts :: "executor \<Rightarrow> state \<Rightarrow> state set \<Rightarrow> bool" where
  "accounts ex s0 A \<longleftrightarrow> wf_exec ex \<and>
     (\<forall>t \<in> A. wf_state t \<and> extends_init ex t \<and> (\<forall>\<sigma>. sat \<sigma> (st_constraints t) \<longrightarrow> sat \<sigma> (st_constraints s0) \<and>
        (st_status t \<noteq> BROKEN \<longrightarrow> (\<exists>k. lc3_run k (conc \<sigma> s0) = Some (conc \<sigma> t))))) \<and>
     (\<forall>\<sigma>. sat \<sigma> (st_constraints s0) \<longrightarrow> (\<exists>!t. t \<in> A \<and> sat \<sigma> (st_constraints t)))"

lemma accounts_initial: "wf_exec ex \<Longrightarrow> wf_state s \<Longrightarrow> extends_init ex s \<Longrightarrow> accounts ex s {s}"
  by (auto simp: accounts_def intro: exI [of _ 0])

lemma partitions_distinct:
  assumes "partitions cs ts" "\<And>t. t \<in> set ts \<Longrightarrow> wf_state t \<and> (\<forall>\<sigma>. sat \<sigma> (st_constraints t) \<longrightarrow> sat \<sigma> cs)"
  shows "distinct ts"
  unfolding distinct_conv_nth
proof (intro allI impI)
  fix i j assume i: "i < length ts" "j < length ts" "i \<noteq> j"
  obtain \<sigma> where "sat \<sigma> (st_constraints (ts ! i))" using assms(2) [OF nth_mem [OF i(1)]] by (auto simp: wf_state_def)
  then show "ts ! i \<noteq> ts ! j" using assms(1) assms(2) [OF nth_mem [OF i(1)]] i unfolding partitions_def by metis
qed

lemma advances_accounts:
  assumes a: "accounts ex s0 A" and s: "s \<in> A" "st_status s = NORMAL" and r: "advances ex s (ex', ts)"
  shows "accounts ex' s0 (A - {s} \<union> set ts)" "distinct ts" "set ts \<inter> (A - {s}) = {}"
proof -
  have t: "wf_state t" "sat \<sigma> (st_constraints t) \<Longrightarrow> sat \<sigma> (st_constraints s)"
    "sat \<sigma> (st_constraints t) \<Longrightarrow> st_status t \<noteq> BROKEN \<Longrightarrow> lc3_step (conc \<sigma> s) = Some (conc \<sigma> t)" if "t \<in> set ts" for t \<sigma>
    using r that by (auto simp: advances_def)
  have uniq: "\<exists>!t. t \<in> A \<and> sat \<sigma> (st_constraints t)" if "sat \<sigma> (st_constraints s0)" for \<sigma>
    using a that by (simp add: accounts_def)
  have s0: "sat \<sigma> (st_constraints s0)" if "t \<in> A" "sat \<sigma> (st_constraints t)" for \<sigma> t
    using a that by (auto simp: accounts_def)
  have part: "partitions (st_constraints s) ts" using r by (simp add: advances_def)
  show d: "distinct ts" using partitions_distinct [OF part] t by blast
  show "set ts \<inter> (A - {s}) = {}"
  proof (rule ccontr)
    assume "set ts \<inter> (A - {s}) \<noteq> {}"
    then obtain t where x: "t \<in> set ts" "t \<in> A" "t \<noteq> s" by blast
    obtain \<sigma> where "sat \<sigma> (st_constraints t)" using t(1) [OF x(1)] by (auto simp: wf_state_def)
    then show False using uniq [OF s0 [OF x(2)]] t(2) [OF x(1)] s(1) x by blast
  qed
  have ex: "extends_init ex' t" if "t \<in> set ts \<or> t \<in> A" for t
    using that a r s(1) t(2) by (auto simp: accounts_def advances_def extends_init_def)
  have run: "\<exists>k. lc3_run k (conc \<sigma> s0) = Some (conc \<sigma> t)" if u: "t \<in> set ts" "sat \<sigma> (st_constraints t)" "st_status t \<noteq> BROKEN" for t \<sigma>
  proof -
    have "st_status s \<noteq> BROKEN \<longrightarrow> (\<exists>k. lc3_run k (conc \<sigma> s0) = Some (conc \<sigma> s))"
      using a s(1) t(2) [OF u(1,2)] unfolding accounts_def by blast
    then obtain k where "lc3_run k (conc \<sigma> s0) = Some (conc \<sigma> s)" using s(2) by auto
    then show ?thesis using t(3) [OF u] by (intro exI [of _ "Suc k"]) simp
  qed
  have one: "\<exists>!t. t \<in> A - {s} \<union> set ts \<and> sat \<sigma> (st_constraints t)" if m: "sat \<sigma> (st_constraints s0)" for \<sigma>
  proof (cases "sat \<sigma> (st_constraints s)")
    case True
    then have "\<exists>!i. i < length ts \<and> sat \<sigma> (st_constraints (ts ! i))" using part by (simp add: partitions_def)
    then obtain t where x: "t \<in> set ts" "sat \<sigma> (st_constraints t)" "\<And>u. u \<in> set ts \<Longrightarrow> sat \<sigma> (st_constraints u) \<Longrightarrow> u = t"
      by (metis in_set_conv_nth)
    show ?thesis
      by (rule ex1I [of _ t]) (use x True uniq [OF m] s(1) in blast)+
  next
    case False
    then show ?thesis using uniq [OF m] t(2) by blast
  qed
  show "accounts ex' s0 (A - {s} \<union> set ts)"
    unfolding accounts_def using a r t ex run one s(1) by (auto simp: accounts_def advances_def)
qed

subsection \<open>Rounds of any searcher\<close>

definition knows :: "('q \<Rightarrow> state list) \<Rightarrow> ('q \<Rightarrow> state set) \<Rightarrow> executor \<Rightarrow> state \<Rightarrow> 'q \<Rightarrow> bool" where
  "knows normals completed ex s0 q \<longleftrightarrow> accounts ex s0 (set (normals q) \<union> completed q) \<and> distinct (normals q) \<and>
     (\<forall>t \<in> set (normals q). st_status t = NORMAL) \<and> (\<forall>t \<in> completed q. st_status t \<noteq> NORMAL)"

locale state_searcher = searcher fetch push normals completed
  for fetch :: "'q \<Rightarrow> state option \<times> 'q" and push and normals and completed
begin

lemma round_knows:
  assumes k: "knows normals completed ex s0 q" and f: "fetch q = (Some s, q')" and r: "advances ex s (ex', ts)"
  shows "knows normals completed ex' s0 (push id ts q')"
proof -
  have s: "s \<in> set (normals q)" "st_status s = NORMAL" using fetch_some [OF f] k by (auto simp: knows_def)
  have a: "accounts ex s0 (set (normals q) \<union> completed q)" "distinct (normals q)" using k by (auto simp: knows_def)
  have sc: "s \<notin> completed q" using k s(2) by (auto simp: knows_def)
  note n = advances_accounts [OF a(1) _ s(2) r]
  have ts: "distinct ts" "set ts \<inter> (set (normals q) - {s}) = {}" using n(2,3) s(1) by auto
  have "set (normals q) \<union> completed q - {s} \<union> set ts = set (normals (push id ts q')) \<union> completed (push id ts q')"
    using round_all [OF f ts(1) a(2), of id] sc by auto
  then have "accounts ex' s0 (set (normals (push id ts q')) \<union> completed (push id ts q'))" using n(1) s(1) by simp
  moreover have "\<forall>t \<in> completed (push id ts q'). st_status t \<noteq> NORMAL"
    using round_completed [OF f, of id ts] k by (auto simp: knows_def completes_def)
  moreover have "set_mset (mset (normals (push id ts q'))) \<subseteq> set (normals q) \<union> {t \<in> set ts. st_status t = NORMAL}"
    unfolding round_normals [OF f ts(1)] by (auto dest: in_diffD)
  ultimately show ?thesis
    using round_distinct [OF f ts(1) a(2) ts(2), of id] k by (auto simp: knows_def)
qed

lemma explore_knows:
  assumes "sound_solver (cf_solver cf)" "knows normals completed ex s0 q" "safe_run fetch push cf n ex q"
  shows "returns (explore fetch push cf n ex q) (\<lambda>(ex', q'). knows normals completed ex' s0 q')"
  using assms(2,3)
proof (induction n arbitrary: ex q)
  case (Suc n)
  obtain o' q' where f: "fetch q = (o', q')" by fastforce
  show ?case
  proof (cases o')
    case None
    then show ?thesis using fetch_none [of q q'] f Suc.prems(1) by (simp add: knows_def)
  next
    case (Some s)
    have s: "wf_exec ex" "extends_init ex s" "wf_state s" "st_status s = NORMAL"
      using fetch_some [of q s q'] f Some Suc.prems(1) by (auto simp: knows_def accounts_def)
    have safe: "safe_step s" using Suc.prems(2) f Some by simp
    obtain ex' ts where st: "step cf False ex s = Inr (ex', Stepped ts)" "advances ex s (ex', ts)"
      using step_advances [OF assms(1) s safe] by (auto simp: returns_def)
    then have "safe_run fetch push cf n ex' (push id ts q')" using Suc.prems(2) f Some by simp
    then show ?thesis
      using Suc.IH [OF round_knows [OF Suc.prems(1) _ st(2)]] f Some st(1) by simp
  qed
qed simp

end

interpretation fifo_states: state_searcher fifo_fetch simple_push simple_getNormalStates ss_completed
  by unfold_locales

interpretation filo_states: state_searcher filo_fetch simple_push simple_getNormalStates ss_completed
  by unfold_locales

interpretation prioritized_states: state_searcher prioritized_fetch prioritized_push prioritized_getNormalStates ps_completed
  by unfold_locales

interpretation random_states: state_searcher random_fetch random_push random_getNormalStates rp_completed
  by unfold_locales

subsection \<open>Properties\<close>

definition empty_prioritized :: "'p prioritized_searcher" where
  "empty_prioritized = \<lparr>ps_s0 = [], ps_s1 = [], ps_completed = {}\<rparr>"

lemma initial_knows:
  assumes "wf_exec ex" "extends_init ex s" "wf_state s" "st_status s = NORMAL"
  shows "knows prioritized_getNormalStates ps_completed ex s (prioritized_push id [s] empty_prioritized)"
  using accounts_initial [OF assms(1,3,2)] assms(4)
  by (auto simp: knows_def prioritized_push_def empty_prioritized_def prioritized_getNormalStates_def)





end
