(* ===== verification/Klc3_CrossChecker.thy ===== *)
theory Klc3_CrossChecker
  imports Klc3_Abstraction
begin

text \<open>
  The cross checker (\<open>lib/klc3/Verification/CrossChecker.cpp\<close>): the final state of the program under test is
  compared with the final state of the reference program for the same inputs.  Where two values may differ but need not, the
  inequality is added to the final constraints, so that the inputs that remain show the difference.

  \<open>decides\<close> is the contract that every comparison keeps and that composes.  The texts of the notes and of the
  descriptions that callbacks produce are left out.
\<close>

subsection \<open>Operations\<close>

datatype thing_type = OUTPUT | REG | LAST_INST | MEM

record thing =
  tc_type :: thing_type
  tc_from :: addr
  tc_to :: addr
  tc_dumpGold :: bool

text \<open>\<open>checkLists\<close> is a map that is traversed in the order of the issue types.\<close>

type_synonym check_lists = "(issue_type \<times> thing list) list"

definition default_checkLists :: check_lists where
  "default_checkLists = [(ERR_INCORRECT_OUTPUT, [\<lparr>tc_type = OUTPUT, tc_from = 0, tc_to = 0, tc_dumpGold = True\<rparr>])]"

fun registerThingToCompare :: "issue_type \<Rightarrow> thing \<Rightarrow> check_lists \<Rightarrow> check_lists" where
  "registerThingToCompare t x [] = [(t, [x])]"
| "registerThingToCompare t x ((u, xs) # ls) =
     (if t = u then (u, xs @ [x]) # ls
      else if t < u then (t, [x]) # (u, xs) # ls
      else (u, xs) # registerThingToCompare t x ls)"

definition deleteDefaultOutputCompare :: "check_lists \<Rightarrow> check_lists" where
  "deleteDefaultOutputCompare ls = filter (\<lambda>(t, xs). t \<noteq> ERR_INCORRECT_OUTPUT) ls"

definition exprMustEq :: "solver_impl \<Rightarrow> expr option \<Rightarrow> expr option \<Rightarrow> constraints \<Rightarrow> (bool \<times> constraints) res" where
  "exprMustEq S a b cs = (case (a, b) of
       (None, None) \<Rightarrow> Inr (True, cs)
     | (Some a, Some b) \<Rightarrow>
         let eqExpr = builder_binary Eq a b in
         rbind (query (mayBeFalse S cs eqExpr)) (\<lambda>mayNotEq.
         if mayNotEq then
           rbind (query (mustBeFalse S cs eqExpr)) (\<lambda>mustNotEq.
           if \<not> mustNotEq then rbind (addConstraint cs (createIsZero eqExpr)) (\<lambda>cs. Inr (False, cs))
           else Inr (False, cs))
         else Inr (True, cs))
     | _ \<Rightarrow> Inr (False, cs))"

text \<open>The loops compare all positions, also after a difference (\<open>AS_DIVERGE_AS_POSSIBLE\<close>), and collect those that differ.\<close>

definition differing :: "solver_impl \<Rightarrow> ('k \<Rightarrow> (expr option \<times> expr option) res) \<Rightarrow> 'k list \<Rightarrow> constraints \<Rightarrow> ('k list \<times> constraints) res" where
  "differing S get ks cs = rfold (\<lambda>k (ds, cs).
     rbind (get k) (\<lambda>(a, b).
     rbind (exprMustEq S a b cs) (\<lambda>(eq, cs).
     Inr (if eq then ds else ds @ [k], cs)))) ks ([], cs)"

definition outputDiverge :: "solver_impl \<Rightarrow> state \<Rightarrow> state \<Rightarrow> constraints \<Rightarrow> (bool \<times> constraints) res" where
  "outputDiverge S gold test cs =
     (if length (st_lc3Out gold) \<noteq> length (st_lc3Out test) then Inr (True, cs)
      else rbind (differing S (\<lambda>i. Inr (Some (st_lc3Out gold ! i), Some (st_lc3Out test ! i))) [0..<length (st_lc3Out gold)] cs)
             (\<lambda>(ds, cs). Inr (ds \<noteq> [], cs)))"

definition compareRegisters :: "solver_impl \<Rightarrow> state \<Rightarrow> state \<Rightarrow> addr \<Rightarrow> addr \<Rightarrow> constraints \<Rightarrow> (bool \<times> constraints) res" where
  "compareRegisters S gold test from to cs =
     rbind (differing S (\<lambda>r. rbind (State_getReg gold r) (\<lambda>goldVal. rbind (State_getReg test r) (\<lambda>testVal. Inr (testVal, goldVal))))
              [unat from..<Suc (unat to)] cs)
       (\<lambda>(differentRegs, cs). Inr (differentRegs \<noteq> [], cs))"

definition compareLastInst :: "state \<Rightarrow> state \<Rightarrow> bool" where
  "compareLastInst gold test \<longleftrightarrow> (case (fst (st_latestNonOSInst gold), fst (st_latestNonOSInst test)) of
       (None, None) \<Rightarrow> False
     | (Some goldInst, Some testInst) \<Rightarrow> mv_addr goldInst \<noteq> mv_addr testInst
     | _ \<Rightarrow> True)"

definition read_e :: "state \<Rightarrow> nat \<Rightarrow> expr option res" where
  "read_e s a = (case mem_read (st_mem s) (word_of_nat a) of
       None \<Rightarrow> Inl (NullDeref ''mem.read(addr)'') | Some v \<Rightarrow> Inr (mv_e v))"

definition compareMem :: "solver_impl \<Rightarrow> state \<Rightarrow> state \<Rightarrow> addr \<Rightarrow> addr \<Rightarrow> constraints \<Rightarrow> (bool \<times> constraints) res" where
  "compareMem S gold test from to cs =
     rbind (differing S (\<lambda>a. rbind (read_e gold a) (\<lambda>x. rbind (read_e test a) (\<lambda>y. Inr (x, y)))) [unat from..<Suc (unat to)] cs)
       (\<lambda>(ds, cs). Inr (ds \<noteq> [], cs))"

definition thing_fails :: "solver_impl \<Rightarrow> state \<Rightarrow> state \<Rightarrow> thing \<Rightarrow> constraints \<Rightarrow> (bool \<times> constraints) res" where
  "thing_fails S gold test x cs = (case tc_type x of
       OUTPUT \<Rightarrow> outputDiverge S gold test cs
     | REG \<Rightarrow> compareRegisters S gold test (tc_from x) (tc_to x) cs
     | LAST_INST \<Rightarrow> Inr (compareLastInst gold test, cs)
     | MEM \<Rightarrow> compareMem S gold test (tc_from x) (tc_to x) cs)"

text \<open>\<open>newStateIssue\<close> returns an \<open>IssueInfo\<close> when it records the issue.\<close>

definition recorded :: "issue_package \<Rightarrow> issue_package \<Rightarrow> issue_key \<Rightarrow> bool" where
  "recorded ip ip' k \<longleftrightarrow> ip_issues ip k = None \<and> ip_issues ip' k \<noteq> None"

record comparison =
  ck_ip :: issue_package
  ck_gold :: state
  ck_test :: state
  ck_constraints :: constraints
  ck_ret :: "issue_type list"

definition report_failed :: "issue_type \<Rightarrow> comparison \<Rightarrow> comparison res" where
  "report_failed t c =
     rbind (newStateIssue t None (ck_ip c, ck_test c)) (\<lambda>(ip, test).
     Inr (c\<lparr>ck_ip := ip, ck_test := test, ck_ret := ck_ret c @ [t],
            ck_gold := (if recorded (ck_ip c) ip (issue_key_of t (issue_location (ck_test c) None))
                        then (ck_gold c)\<lparr>st_triggerNewIssue := True\<rparr> else ck_gold c)\<rparr>))"

definition check_list :: "solver_impl \<Rightarrow> issue_type \<times> thing list \<Rightarrow> comparison \<Rightarrow> comparison res" where
  "check_list S = (\<lambda>(t, things) c.
     if t \<noteq> NO_ISSUE then
       rbind (rfold (\<lambda>x (failed, cs). rbind (thing_fails S (ck_gold c) (ck_test c) x cs) (\<lambda>(b, cs).
                Inr (if b then failed @ [x] else failed, cs))) things ([], ck_constraints c)) (\<lambda>(failedThings, cs).
       let c = c\<lparr>ck_constraints := cs\<rparr> in
       if failedThings \<noteq> [] then report_failed t c else Inr c)
     else Inr c)"

definition cross_compare :: "solver_impl \<Rightarrow> check_lists \<Rightarrow> issue_package \<Rightarrow> state \<Rightarrow> state \<Rightarrow> constraints \<Rightarrow> comparison res" where
  "cross_compare S checkLists ip goldState testState finalConstraints =
     rfold (check_list S) checkLists
       \<lparr>ck_ip = ip, ck_gold = goldState, ck_test = testState, ck_constraints = finalConstraints, ck_ret = []\<rparr>"

subsection \<open>The check lists\<close>

lemma register_keys: "fst ` set (registerThingToCompare t x ls) = insert t (fst ` set ls)"
  by (induction t x ls rule: registerThingToCompare.induct) auto

lemma register_sorted:
  "sorted_wrt (<) (map fst ls) \<Longrightarrow> sorted_wrt (<) (map fst (registerThingToCompare t x ls))"
proof (induction t x ls rule: registerThingToCompare.induct)
  case (2 t x u xs ls)
  show ?case
  proof (cases "t \<le> u")
    case False
    then have "\<forall>v \<in> fst ` set (registerThingToCompare t x ls). u < v"
      using "2.prems" unfolding register_keys by auto
    then show ?thesis using 2 False by auto
  qed (use "2.prems" in \<open>fastforce simp: order_le_less\<close>)
qed simp

lemma register_lookup:
  assumes "sorted_wrt (<) (map fst ls)"
  shows "map_of (registerThingToCompare t x ls) =
    (map_of ls)(t \<mapsto> (case map_of ls t of None \<Rightarrow> [] | Some xs \<Rightarrow> xs) @ [x])"
  using assms
proof (induction t x ls rule: registerThingToCompare.induct)
  case (2 t x u xs ls)
  have "map_of ls t = None" if "t < u"
    using "2.prems" that by (auto simp: map_of_eq_None_iff dest!: bspec)
  then show ?case using 2 by (auto simp: fun_eq_iff)
qed simp

subsection \<open>Deciding a difference\<close>

text \<open>
  \<open>decides cs cs' d D\<close>: from the satisfiable constraints \<open>cs\<close> a comparison has gone to \<open>cs'\<close>, which are satisfiable and
  stronger, with the verdict \<open>d\<close>, which is right for every model of \<open>cs'\<close>; without a difference the constraints stay.
\<close>

definition decides :: "constraints \<Rightarrow> constraints \<Rightarrow> bool \<Rightarrow> (assignment \<Rightarrow> bool) \<Rightarrow> bool" where
  "decides cs cs' d D \<longleftrightarrow> wf_constraints cs' \<and> (\<exists>\<sigma>. sat \<sigma> cs') \<and> (\<forall>\<sigma>. sat \<sigma> cs' \<longrightarrow> sat \<sigma> cs \<and> D \<sigma> = d) \<and> (\<not> d \<longrightarrow> cs' = cs)"

lemma decides_or:
  assumes "decides a b d D" "decides b c e E"
  shows "decides a c (d \<or> e) (\<lambda>\<sigma>. D \<sigma> \<or> E \<sigma>)"
  using assms unfolding decides_def by blast

lemma decides_const: "wf_constraints cs \<Longrightarrow> \<exists>\<sigma>. sat \<sigma> cs \<Longrightarrow> decides cs cs d (\<lambda>_. d)"
  by (simp add: decides_def)

text \<open>Two optional expressions agree when both are missing or both have the same value.\<close>

fun agree :: "assignment \<Rightarrow> expr option \<Rightarrow> expr option \<Rightarrow> bool" where
  "agree \<sigma> None None \<longleftrightarrow> True"
| "agree \<sigma> (Some a) (Some b) \<longleftrightarrow> val \<sigma> a = val \<sigma> b"
| "agree \<sigma> _ _ \<longleftrightarrow> False"

lemma good_val_eq:
  assumes "good a" "good b"
  shows "val \<sigma> a = val \<sigma> b \<longleftrightarrow> eval \<sigma> a = eval \<sigma> b"
proof -
  have "take_bit 16 (eval \<sigma> e) = eval \<sigma> e" if "good e" for e
    using that eval_bounds [of e \<sigma>] by (simp add: good_def take_bit_int_eq_self)
  then show ?thesis using assms by (auto simp: val_def word_of_int_eq_iff)
qed

lemma Eq_constraint:
  assumes "good a" "good b"
  shows "wf_constraint (builder_binary Eq a b)" "eval \<sigma> (builder_binary Eq a b) = of_bool (val \<sigma> a = val \<sigma> b)"
  using assms folding.bin_wt [of Eq a b] folding.bin_width [of Eq a b] folding.bin_eval [of Eq a b \<sigma>]
  by (simp_all add: good_def wf_constraint_def good_val_eq [OF assms])

context sound_solver
begin

lemma mayBeFalse_iff:
  assumes "wf_constraints cs" "wf_constraint e"
  shows "query (mayBeFalse S cs e) = Inr (\<not> follows cs e)"
  using mustBeTrue_iff [OF assms] by (cases "mustBeTrue S cs e") (auto simp: mayBeFalse_def query_def split: option.splits)

lemma exprMustEq_decides:
  assumes cs: "wf_constraints cs" "\<exists>\<sigma>. sat \<sigma> cs" and good: "\<And>e. a = Some e \<or> b = Some e \<Longrightarrow> good e"
  shows "returns (exprMustEq S a b cs) (\<lambda>(eq, cs'). decides cs cs' (\<not> eq) (\<lambda>\<sigma>. \<not> agree \<sigma> a b))"
proof (cases "a = None \<or> b = None")
  case True
  then have "exprMustEq S a b cs = Inr (a = b, cs)" "\<And>\<sigma>. agree \<sigma> a b = (a = b)"
    by (cases a; cases b; force simp: exprMustEq_def)+
  then show ?thesis using decides_const [OF cs] by simp
next
  case False
  then obtain x y where xy: "a = Some x" "b = Some y" by auto
  let ?q = "builder_binary Eq x y"
  have q: "wf_constraint ?q" "\<And>\<sigma>. eval \<sigma> ?q = of_bool (val \<sigma> x = val \<sigma> y)"
    using Eq_constraint good xy by auto
  have z: "wf_constraint (createIsZero ?q)" "\<And>\<sigma>. eval \<sigma> (createIsZero ?q) = of_bool (val \<sigma> x \<noteq> val \<sigma> y)"
    using q createIsZero_bool [of ?q] by (auto simp: wf_constraint_def)
  have f: "follows cs ?q \<longleftrightarrow> (\<forall>\<sigma>. sat \<sigma> cs \<longrightarrow> val \<sigma> x = val \<sigma> y)"
    and r: "refuted cs ?q \<longleftrightarrow> (\<forall>\<sigma>. sat \<sigma> cs \<longrightarrow> val \<sigma> x \<noteq> val \<sigma> y)"
    unfolding follows_def refuted_def q(2) by simp_all
  show ?thesis
  proof (cases "follows cs ?q \<or> refuted cs ?q")
    case True
    then have "exprMustEq S a b cs = Inr (follows cs ?q, cs)"
      using cs(2) f r mayBeFalse_iff [OF cs(1) q(1)] mustBeFalse_iff [OF cs(1) q(1)]
      by (auto simp: exprMustEq_def xy Let_def)
    then show ?thesis using True cs f r by (auto simp: decides_def xy)
  next
    case False
    then obtain \<sigma> where \<sigma>: "sat \<sigma> cs" "eval \<sigma> (createIsZero ?q) = 1" using f z(2) by auto
    from addConstraint_sat [OF cs(1) z(1) \<sigma>] obtain cs' where cs': "addConstraint cs (createIsZero ?q) = Inr cs'" .
    have "exprMustEq S a b cs = Inr (False, cs')"
      using False mayBeFalse_iff [OF cs(1) q(1)] mustBeFalse_iff [OF cs(1) q(1)] cs' by (simp add: exprMustEq_def xy Let_def)
    moreover have "wf_constraints cs'" "\<And>\<sigma>. sat \<sigma> cs' \<longleftrightarrow> sat \<sigma> cs \<and> eval \<sigma> (createIsZero ?q) = 1"
      using addConstraint_Inr [OF cs' cs(1) z(1)] by auto
    ultimately show ?thesis using \<sigma> z(2) by (auto simp: decides_def xy)
  qed
qed

lemma differing_decides:
  fixes get :: "'k \<Rightarrow> (expr option \<times> expr option) res"
  assumes "wf_constraints cs" "\<exists>\<sigma>. sat \<sigma> cs"
    and "\<And>k. k \<in> set ks \<Longrightarrow> get k = Inr (f k, g k) \<and> (\<forall>e. f k = Some e \<or> g k = Some e \<longrightarrow> good e)"
  shows "returns (differing S get ks cs) (\<lambda>(ds, cs'). decides cs cs' (ds \<noteq> []) (\<lambda>\<sigma>. \<exists>k \<in> set ks. \<not> agree \<sigma> (f k) (g k)))"
proof -
  let ?step = "\<lambda>k (ds, cs). rbind (get k) (\<lambda>(a, b). rbind (exprMustEq S a b cs) (\<lambda>(eq, cs). Inr (if eq then ds else ds @ [k], cs)))"
  have "returns (rfold ?step ks (ds, cs1)) (\<lambda>(ds', cs'). decides cs cs' (ds' \<noteq> []) (\<lambda>\<sigma>. D \<sigma> \<or> (\<exists>k \<in> set ks. \<not> agree \<sigma> (f k) (g k))))"
    if "decides cs cs1 (ds \<noteq> []) D" for ds cs1 D
    using that assms(3)
  proof (induction ks arbitrary: ds cs1 D)
    case Nil
    then show ?case by simp
  next
    case (Cons k ks)
    have k: "get k = Inr (f k, g k)" "\<And>e. f k = Some e \<or> g k = Some e \<Longrightarrow> good e" using Cons.prems(2) [of k] by auto
    have cs1: "wf_constraints cs1" "\<exists>\<sigma>. sat \<sigma> cs1" using Cons.prems(1) by (auto simp: decides_def)
    have "returns (?step k (ds, cs1)) (\<lambda>(ds', cs'). decides cs cs' (ds' \<noteq> []) (\<lambda>\<sigma>. D \<sigma> \<or> \<not> agree \<sigma> (f k) (g k)))"
    proof -
      obtain eq cs2 where e: "exprMustEq S (f k) (g k) cs1 = Inr (eq, cs2)" "decides cs1 cs2 (\<not> eq) (\<lambda>\<sigma>. \<not> agree \<sigma> (f k) (g k))"
        using exprMustEq_decides [OF cs1, of "f k" "g k"] k(2) by (auto simp: returns_def)
      from decides_or [OF Cons.prems(1) e(2)] show ?thesis by (cases eq) (simp_all add: k(1) e(1))
    qed
    then show ?case
    proof (simp only: rfold.simps, elim returns_bindI)
      fix c :: "'k list \<times> constraints"
      assume c: "case c of (ds', cs') \<Rightarrow> decides cs cs' (ds' \<noteq> []) (\<lambda>\<sigma>. D \<sigma> \<or> \<not> agree \<sigma> (f k) (g k))"
      obtain ds' cs' where c': "c = (ds', cs')" by (cases c)
      have "returns (rfold ?step ks (ds', cs')) (\<lambda>(ds', cs'). decides cs cs' (ds' \<noteq> [])
          (\<lambda>\<sigma>. (D \<sigma> \<or> \<not> agree \<sigma> (f k) (g k)) \<or> (\<exists>k \<in> set ks. \<not> agree \<sigma> (f k) (g k))))"
        by (rule Cons.IH) (use c c' Cons.prems(2) in auto)
      then show "returns (rfold ?step ks c) (\<lambda>(ds', cs'). decides cs cs' (ds' \<noteq> []) (\<lambda>\<sigma>. D \<sigma> \<or> (\<exists>k' \<in> set (k # ks). \<not> agree \<sigma> (f k') (g k'))))"
        by (simp add: c' disj_assoc)
    qed
  qed
  from this [of cs "[]" "\<lambda>_. False"] show ?thesis using decides_const [OF assms(1,2), of False] by (simp add: differing_def)
qed

lemma differing_verdict:
  assumes "wf_constraints cs" "\<exists>\<sigma>. sat \<sigma> cs"
    and "\<And>k. k \<in> set ks \<Longrightarrow> get k = Inr (f k, g k) \<and> (\<forall>e. f k = Some e \<or> g k = Some e \<longrightarrow> good e)"
    and "\<And>\<sigma>. D \<sigma> \<longleftrightarrow> (\<exists>k \<in> set ks. \<not> agree \<sigma> (f k) (g k))"
  shows "returns (rbind (differing S get ks cs) (\<lambda>(ds, cs). Inr (ds \<noteq> [], cs))) (\<lambda>(d, cs'). decides cs cs' d D)"
proof -
  have D: "D = (\<lambda>\<sigma>. \<exists>k \<in> set ks. \<not> agree \<sigma> (f k) (g k))" using assms(4) by (intro ext)
  show ?thesis unfolding D by (rule returns_bindI [OF differing_decides [OF assms(1-3)]]) auto
qed

end

subsection \<open>What a comparison is about\<close>

text \<open>The two states differ at a thing, for given inputs.\<close>

definition differs :: "assignment \<Rightarrow> state \<Rightarrow> state \<Rightarrow> thing \<Rightarrow> bool" where
  "differs \<sigma> gold test x \<longleftrightarrow> (case tc_type x of
       OUTPUT \<Rightarrow> map (val \<sigma>) (st_lc3Out gold) \<noteq> map (val \<sigma>) (st_lc3Out test)
     | REG \<Rightarrow> (\<exists>r \<in> {unat (tc_from x)..unat (tc_to x)}. \<not> agree \<sigma> (st_reg test r) (st_reg gold r))
     | LAST_INST \<Rightarrow> map_option mv_addr (fst (st_latestNonOSInst gold)) \<noteq> map_option mv_addr (fst (st_latestNonOSInst test))
     | MEM \<Rightarrow> (\<exists>a \<in> {unat (tc_from x)..unat (tc_to x)}.
         \<not> agree \<sigma> (Option.bind (mem_read (st_mem gold) (word_of_nat a)) mv_e) (Option.bind (mem_read (st_mem test) (word_of_nat a)) mv_e)))"

text \<open>A thing can be compared: its registers exist, its addresses are specified in both states.\<close>

definition comparable :: "state \<Rightarrow> state \<Rightarrow> thing \<Rightarrow> bool" where
  "comparable gold test x \<longleftrightarrow> (case tc_type x of
       REG \<Rightarrow> tc_to x \<le> 7
     | MEM \<Rightarrow> (\<forall>a \<in> {unat (tc_from x)..unat (tc_to x)}.
         mem_read (st_mem gold) (word_of_nat a) \<noteq> None \<and> mem_read (st_mem test) (word_of_nat a) \<noteq> None)
     | _ \<Rightarrow> True)"

definition same_content :: "state \<Rightarrow> state \<Rightarrow> bool" where
  "same_content s s' \<longleftrightarrow> st_lc3Out s' = st_lc3Out s \<and> st_reg s' = st_reg s \<and> st_mem s' = st_mem s \<and>
     st_latestNonOSInst s' = st_latestNonOSInst s \<and> st_constraints s' = st_constraints s"

definition good_content :: "state \<Rightarrow> bool" where
  "good_content s \<longleftrightarrow> (\<forall>e \<in> set (st_lc3Out s). good e) \<and> (\<forall>r e. st_reg s r = Some e \<longrightarrow> good e) \<and>
     (\<forall>a v e. mem_read (st_mem s) a = Some v \<longrightarrow> mv_e v = Some e \<longrightarrow> good e)"

lemma good_content_wf: "wf_state s \<Longrightarrow> good_content s"
  by (auto simp: wf_state_def good_content_def good_value_def)

lemma same_content_view:
  assumes "same_content gold gold'" "same_content test test'"
  shows "differs \<sigma> gold' test' = differs \<sigma> gold test" "comparable gold' test' = comparable gold test"
    "good_content gold' = good_content gold" "thing_fails S gold' test' = thing_fails S gold test"
proof -
  have gold: "st_lc3Out gold' = st_lc3Out gold" "st_reg gold' = st_reg gold" "st_mem gold' = st_mem gold" "st_latestNonOSInst gold' = st_latestNonOSInst gold"
    and test: "st_lc3Out test' = st_lc3Out test" "st_reg test' = st_reg test" "st_mem test' = st_mem test" "st_latestNonOSInst test' = st_latestNonOSInst test"
    using assms by (simp_all add: same_content_def)
  show "differs \<sigma> gold' test' = differs \<sigma> gold test" "comparable gold' test' = comparable gold test" "good_content gold' = good_content gold"
    unfolding fun_eq_iff differs_def comparable_def good_content_def gold test by (rule allI refl)+
  show "thing_fails S gold' test' = thing_fails S gold test"
    unfolding fun_eq_iff thing_fails_def outputDiverge_def compareRegisters_def compareLastInst_def compareMem_def read_e_def State_getReg_def gold test
    by (rule allI refl)+
qed

lemma out_differs:
  assumes "length xs = length ys"
  shows "map (val \<sigma>) xs \<noteq> map (val \<sigma>) ys \<longleftrightarrow> (\<exists>i \<in> set [0..<length xs]. \<not> agree \<sigma> (Some (xs ! i)) (Some (ys ! i)))"
proof -
  have "map (val \<sigma>) xs = map (val \<sigma>) ys \<longleftrightarrow> (\<forall>i < length xs. val \<sigma> (xs ! i) = val \<sigma> (ys ! i))"
    using assms by (subst list_eq_iff_nth_eq) simp
  then show ?thesis by (simp add: Bex_def)
qed

context sound_solver
begin

lemma thing_fails_decides:
  assumes cs: "wf_constraints cs" "\<exists>\<sigma>. sat \<sigma> cs" and good: "good_content gold" "good_content test" and x: "comparable gold test x"
  shows "returns (thing_fails S gold test x cs) (\<lambda>(d, cs'). decides cs cs' d (\<lambda>\<sigma>. differs \<sigma> gold test x))"
proof (cases "tc_type x")
  case OUTPUT
  show ?thesis
  proof (cases "length (st_lc3Out gold) = length (st_lc3Out test)")
    case True
    then have "\<And>i. i < length (st_lc3Out gold) \<Longrightarrow> good (st_lc3Out gold ! i) \<and> good (st_lc3Out test ! i)"
      using good by (simp add: good_content_def)
    then show ?thesis
      unfolding thing_fails_def OUTPUT thing_type.case outputDiverge_def True if_False simp_thms
      by (intro differing_verdict [OF cs, where f = "\<lambda>i. Some (st_lc3Out gold ! i)" and g = "\<lambda>i. Some (st_lc3Out test ! i)"])
        (use True in \<open>force simp: differs_def OUTPUT out_differs [OF True]\<close>)+
  next
    case False
    then have "differs \<sigma> gold test x" for \<sigma> unfolding differs_def OUTPUT by (auto dest: map_eq_imp_length_eq)
    then show ?thesis using False decides_const [OF cs, of True] by (simp add: thing_fails_def OUTPUT outputDiverge_def)
  qed
next
  case REG
  let ?ks = "[unat (tc_from x)..<Suc (unat (tc_to x))]"
  have "unat (tc_to x) \<le> 7" using x by (simp add: comparable_def REG word_le_nat_alt)
  then have r: "State_getReg gold r = Inr (st_reg gold r) \<and> State_getReg test r = Inr (st_reg test r)" if "r \<in> set ?ks" for r
    using that by (auto simp: State_getReg_def)
  show ?thesis
    unfolding thing_fails_def REG thing_type.case compareRegisters_def
    by (rule differing_verdict [OF cs, where f = "st_reg test" and g = "st_reg gold"])
      (use r good in \<open>auto simp: good_content_def differs_def REG\<close>)
next
  case LAST_INST
  have "compareLastInst gold test = differs \<sigma> gold test x" for \<sigma>
    by (auto simp: compareLastInst_def differs_def LAST_INST split: option.splits)
  then show ?thesis using decides_const [OF cs, of "compareLastInst gold test"] by (simp add: thing_fails_def LAST_INST)
next
  case MEM
  let ?ks = "[unat (tc_from x)..<Suc (unat (tc_to x))]"
  let ?e = "\<lambda>s a. Option.bind (mem_read (st_mem s) (word_of_nat a)) mv_e"
  have r: "read_e gold a = Inr (?e gold a) \<and> read_e test a = Inr (?e test a)" if "a \<in> set ?ks" for a
  proof -
    have "a \<in> {unat (tc_from x)..unat (tc_to x)}" using that by auto
    with x obtain v w where "mem_read (st_mem gold) (word_of_nat a) = Some v" "mem_read (st_mem test) (word_of_nat a) = Some w"
      by (fastforce simp: comparable_def MEM)
    then show ?thesis by (simp add: read_e_def)
  qed
  show ?thesis
    unfolding thing_fails_def MEM thing_type.case compareMem_def
    by (rule differing_verdict [OF cs, where f = "?e gold" and g = "?e test"])
      (use r good in \<open>auto simp: good_content_def differs_def MEM bind_eq_Some_conv\<close>)
qed

lemma things_decide:
  assumes "wf_constraints cs" "\<exists>\<sigma>. sat \<sigma> cs" "good_content gold" "good_content test" "\<forall>x \<in> set xs. comparable gold test x"
  shows "returns (rfold (\<lambda>x (failed, cs). rbind (thing_fails S gold test x cs) (\<lambda>(b, cs).
      Inr (if b then failed @ [x] else failed, cs))) xs ([], cs))
    (\<lambda>(failed, cs'). decides cs cs' (failed \<noteq> []) (\<lambda>\<sigma>. \<exists>x \<in> set xs. differs \<sigma> gold test x))"
proof -
  let ?step = "\<lambda>x (failed, cs). rbind (thing_fails S gold test x cs) (\<lambda>(b, cs). Inr (if b then failed @ [x] else failed, cs))"
  have "returns (rfold ?step xs (failed, cs1)) (\<lambda>(failed', cs'). decides cs cs' (failed' \<noteq> []) (\<lambda>\<sigma>. D \<sigma> \<or> (\<exists>x \<in> set xs. differs \<sigma> gold test x)))"
    if "decides cs cs1 (failed \<noteq> []) D" for failed cs1 D
    using that assms(5)
  proof (induction xs arbitrary: failed cs1 D)
    case (Cons x xs)
    have cs1: "wf_constraints cs1" "\<exists>\<sigma>. sat \<sigma> cs1" using Cons.prems(1) by (auto simp: decides_def)
    obtain b cs2 where b: "thing_fails S gold test x cs1 = Inr (b, cs2)" "decides cs1 cs2 b (\<lambda>\<sigma>. differs \<sigma> gold test x)"
      using thing_fails_decides [OF cs1 assms(3,4), of x] Cons.prems(2) by (auto simp: returns_def)
    have "returns (rfold ?step xs (if b then failed @ [x] else failed, cs2)) (\<lambda>(failed', cs'). decides cs cs' (failed' \<noteq> [])
        (\<lambda>\<sigma>. (D \<sigma> \<or> differs \<sigma> gold test x) \<or> (\<exists>x \<in> set xs. differs \<sigma> gold test x)))"
      by (rule Cons.IH) (use decides_or [OF Cons.prems(1) b(2)] Cons.prems(2) in auto)
    then show ?case by (simp add: b(1) disj_assoc)
  qed simp
  from this [of cs "[]" "\<lambda>_. False"] show ?thesis using decides_const [OF assms(1,2), of False] by simp
qed

end

subsection \<open>The whole comparison\<close>

text \<open>The issues raised so far are right for every model of the constraints.\<close>

definition verdicts :: "check_lists \<Rightarrow> state \<Rightarrow> state \<Rightarrow> constraints \<Rightarrow> comparison \<Rightarrow> bool" where
  "verdicts ls gold test cs c \<longleftrightarrow> same_content gold (ck_gold c) \<and> same_content test (ck_test c) \<and>
     wf_constraints (ck_constraints c) \<and> (\<exists>\<sigma>. sat \<sigma> (ck_constraints c)) \<and> (ck_ret c = [] \<longrightarrow> ck_constraints c = cs) \<and>
     set (ck_ret c) \<subseteq> fst ` set ls \<and>
     (\<forall>\<sigma>. sat \<sigma> (ck_constraints c) \<longrightarrow> sat \<sigma> cs \<and>
        (\<forall>(t, xs) \<in> set ls. t \<noteq> NO_ISSUE \<longrightarrow> (t \<in> set (ck_ret c) \<longleftrightarrow> (\<exists>x \<in> set xs. differs \<sigma> gold test x))))"

lemma report_failed_returns:
  assumes "ip_level (ck_ip c) t \<noteq> None"
  shows "returns (report_failed t c) (\<lambda>c'. ck_ret c' = ck_ret c @ [t] \<and> ck_constraints c' = ck_constraints c \<and>
    ip_level (ck_ip c') = ip_level (ck_ip c) \<and> same_content (ck_gold c) (ck_gold c') \<and> same_content (ck_test c) (ck_test c'))"
proof -
  obtain l where "ip_level (ck_ip c) t = Some l" using assms by blast
  then obtain ip' s' where n: "newStateIssue t None (ck_ip c, ck_test c) = Inr (ip', s')" "reports (ck_ip c, ck_test c) (ip', s')"
    by (rule newStateIssue_total)
  have "same_content (ck_test c) s'" "ip_level ip' = ip_level (ck_ip c)"
    using n(2) unfolding reports_def same_content_def by (cases "ck_test c"; cases s'; simp)+
  then show ?thesis using n(1) by (simp add: report_failed_def same_content_def)
qed

lemma same_content_trans: "same_content a b \<Longrightarrow> same_content b c \<Longrightarrow> same_content a c"
  by (simp add: same_content_def)

context sound_solver
begin

lemma check_list_verdicts:
  assumes v: "verdicts ls gold test cs c" and good: "good_content gold" "good_content test"
    and xs: "\<forall>x \<in> set xs. comparable gold test x" and t: "t \<notin> fst ` set ls" "t \<noteq> NO_ISSUE \<Longrightarrow> ip_level (ck_ip c) t \<noteq> None"
  shows "returns (check_list S (t, xs) c) (\<lambda>c'. verdicts ((t, xs) # ls) gold test cs c' \<and> ip_level (ck_ip c') = ip_level (ck_ip c))"
proof (cases "t = NO_ISSUE")
  case True
  then show ?thesis using v by (auto simp: check_list_def verdicts_def)
next
  case False
  have sc: "same_content gold (ck_gold c)" "same_content test (ck_test c)" and cs1: "wf_constraints (ck_constraints c)" "\<exists>\<sigma>. sat \<sigma> (ck_constraints c)"
    using v by (auto simp: verdicts_def)
  note view = same_content_view [OF sc]
  obtain failed cs2 where f: "rfold (\<lambda>x (failed, cs). rbind (thing_fails S gold test x cs) (\<lambda>(b, cs).
      Inr (if b then failed @ [x] else failed, cs))) xs ([], ck_constraints c) = Inr (failed, cs2)"
    and d: "decides (ck_constraints c) cs2 (failed \<noteq> []) (\<lambda>\<sigma>. \<exists>x \<in> set xs. differs \<sigma> gold test x)"
    using things_decide [OF cs1 good xs] by (auto simp: returns_def)
  have e: "check_list S (t, xs) c = (if failed \<noteq> [] then report_failed t (c\<lparr>ck_constraints := cs2\<rparr>) else Inr (c\<lparr>ck_constraints := cs2\<rparr>))"
    using False f view(4) by (simp add: check_list_def)
  have t': "t \<notin> set (ck_ret c)" using v t(1) by (auto simp: verdicts_def)
  show ?thesis
  proof (cases "failed = []")
    case True
    then have "cs2 = ck_constraints c" "\<And>\<sigma>. sat \<sigma> cs2 \<Longrightarrow> \<not> (\<exists>x \<in> set xs. differs \<sigma> gold test x)" using d by (auto simp: decides_def)
    then show ?thesis using True e v t' unfolding verdicts_def by (auto split: prod.splits)
  next
    case failed: False
    have "verdicts ((t, xs) # ls) gold test cs c'" if "ck_ret c' = ck_ret c @ [t]" "ck_constraints c' = cs2"
      "same_content (ck_gold c) (ck_gold c')" "same_content (ck_test c) (ck_test c')" for c'
    proof -
      have d': "\<exists>\<sigma>. sat \<sigma> cs2" "wf_constraints cs2" "\<And>\<sigma>. sat \<sigma> cs2 \<Longrightarrow> sat \<sigma> (ck_constraints c) \<and> (\<exists>x \<in> set xs. differs \<sigma> gold test x)"
        using d failed by (auto simp: decides_def)
      show ?thesis unfolding verdicts_def that(1,2)
      proof (intro conjI allI impI)
        fix \<sigma> assume \<sigma>: "sat \<sigma> cs2"
        have old: "\<forall>(u, xs) \<in> set ls. u \<noteq> NO_ISSUE \<longrightarrow> (u \<in> set (ck_ret c) \<longleftrightarrow> (\<exists>x \<in> set xs. differs \<sigma> gold test x))" "sat \<sigma> cs"
          using v d'(3) [OF \<sigma>] unfolding verdicts_def by blast+
        show "sat \<sigma> cs" by (rule old(2))
        have "u \<noteq> t" if "(u, ys) \<in> set ls" for u ys using that t(1) by force
        then show "\<forall>(u, ys) \<in> set ((t, xs) # ls). u \<noteq> NO_ISSUE \<longrightarrow> (u \<in> set (ck_ret c @ [t]) \<longleftrightarrow> (\<exists>x \<in> set ys. differs \<sigma> gold test x))"
          using old(1) d'(3) [OF \<sigma>] by fastforce
      qed (use v d' same_content_trans [OF sc(1) that(3)] same_content_trans [OF sc(2) that(4)] in \<open>auto simp: verdicts_def\<close>)
    qed
    then show ?thesis
      using report_failed_returns [of "c\<lparr>ck_constraints := cs2\<rparr>" t] t(2) False failed e by (auto simp: returns_def)
  qed
qed

lemma cross_compare_verdicts:
  assumes "wf_constraints cs" "\<exists>\<sigma>. sat \<sigma> cs" "good_content gold" "good_content test" "distinct (map fst ls)"
    and "\<forall>(t, xs) \<in> set ls. (t \<noteq> NO_ISSUE \<longrightarrow> ip_level ip t \<noteq> None) \<and> (\<forall>x \<in> set xs. comparable gold test x)"
  shows "returns (cross_compare S ls ip gold test cs) (\<lambda>c. verdicts ls gold test cs c)"
proof -
  have "returns (rfold (check_list S) ls c) (\<lambda>c'. verdicts (rev ls @ ms) gold test cs c')"
    if "verdicts ms gold test cs c" "ip_level (ck_ip c) = ip_level ip" "fst ` set ms \<inter> fst ` set ls = {}" for ms c
    using that assms(5,6)
  proof (induction ls arbitrary: ms c)
    case (Cons l ls)
    obtain t xs where l: "l = (t, xs)" by (cases l)
    have "returns (check_list S l c) (\<lambda>c'. verdicts (l # ms) gold test cs c' \<and> ip_level (ck_ip c') = ip_level (ck_ip c))"
      unfolding l by (rule check_list_verdicts) (use Cons.prems assms(3,4) l in auto)
    then show ?case
      unfolding rfold.simps
    proof (rule returns_bindI)
      fix c' assume c': "verdicts (l # ms) gold test cs c' \<and> ip_level (ck_ip c') = ip_level (ck_ip c)"
      show "returns (rfold (check_list S) ls c') (\<lambda>c'. verdicts (rev (l # ls) @ ms) gold test cs c')"
        using Cons.IH [of "l # ms" c'] Cons.prems c' by auto
    qed
  qed simp
  from this [of "[]" "\<lparr>ck_ip = ip, ck_gold = gold, ck_test = test, ck_constraints = cs, ck_ret = []\<rparr>"]
  have "returns (cross_compare S ls ip gold test cs) (\<lambda>c. verdicts (rev ls) gold test cs c)"
    using assms(1,2) by (simp add: cross_compare_def verdicts_def same_content_def)
  then show ?thesis by (rule returns_weaken) (simp add: verdicts_def)
qed

end

subsection \<open>Properties\<close>


definition demo_gold :: state where
  "demo_gold = (State Map.empty 0x3000 0)\<lparr>st_lc3Out := [demo_read]\<rparr>"

definition demo_test :: state where
  "demo_test = (State Map.empty 0x3000 1)\<lparr>st_lc3Out := [buildConstant 65]\<rparr>"

lemma demo_states_wf: "wf_state demo_gold" "wf_state demo_test"
  by (auto simp: wf_state_def demo_gold_def demo_test_def State_def good_def demo_read_def mem_read_def MemoryManager_def
      good_value_def DataValue_alloc_def MemValue_def split: if_splits)




end
