(* ===== verification/Klc3_FlowGraph.thy ===== *)
theory Klc3_FlowGraph
  imports Klc3_State
begin

text \<open>
  The flow graph (\<open>include/klc3/FlowAnalysis/FlowGraph.h\<close>, \<open>lib/klc3/FlowAnalysis/FlowGraph.cpp\<close>).  Nodes and edges are
  numbered in the order of their creation, which is their position in the vectors \<open>nodes\<close> and \<open>edges\<close>; a
  pointer is such a number.  \<open>inst->node\<close> is the node that was created for the instruction's address.

  Warnings printed to the terminal are left out.  The callbacks for new edges are applied by the client
  that registers them.
\<close>

unbundle bit_operations_syntax

subsection \<open>Data\<close>

datatype edge_type =
    NORMAL_EDGE | JMP_EDGE | JSRR_EDGE | JSR_EDGE | RET_EDGE | TRAP_VIRTUAL_EDGE | INIT_PC_ENTRY_EDGE
  | TYPE_RUNTIME_COUNT | SUBROUTINE_VIRTUAL_EDGE | LOOP_H2H_EDGE | LOOP_H2X_EDGE

fun edge_rank :: "edge_type \<Rightarrow> nat" where
  "edge_rank NORMAL_EDGE = 0"
| "edge_rank JMP_EDGE = 1"
| "edge_rank JSRR_EDGE = 2"
| "edge_rank JSR_EDGE = 3"
| "edge_rank RET_EDGE = 4"
| "edge_rank TRAP_VIRTUAL_EDGE = 5"
| "edge_rank INIT_PC_ENTRY_EDGE = 6"
| "edge_rank TYPE_RUNTIME_COUNT = 7"
| "edge_rank SUBROUTINE_VIRTUAL_EDGE = 8"
| "edge_rank LOOP_H2H_EDGE = 9"
| "edge_rank LOOP_H2X_EDGE = 10"

definition is_runtime :: "edge_type \<Rightarrow> bool" where
  "is_runtime t \<longleftrightarrow> edge_rank t < edge_rank TYPE_RUNTIME_COUNT"

definition isAcrossSubroutine :: "edge_type \<Rightarrow> bool" where
  "isAcrossSubroutine t \<longleftrightarrow> edge_rank JSRR_EDGE \<le> edge_rank t \<and> edge_rank t \<le> edge_rank RET_EDGE"

record node =
  nd_name :: string
  nd_addr :: addr
  nd_inst :: mem_value
  nd_runtimeOutEdges :: "nat list"
  nd_allOutEdges :: "nat list"
  nd_uniqueRuntimeOutEdge :: "nat option"
  nd_runtimeInEdges :: "nat list"
  nd_allInEdges :: "nat list"
  nd_subroutineEntry :: bool
  nd_possibleRETPoint :: bool
  nd_subroutineColors :: "addr set"

record edge =
  ed_type :: edge_type
  ed_from :: "nat option"
  ed_to :: "nat option"
  ed_BR_CONTINUE_EDGE :: bool
  ed_BR_BRANCH_EDGE :: bool
  ed_LIKELY_UNCOVERABLE :: bool
  ed_covered :: bool
  ed_isImproperRET :: bool
  ed_associatedEdge :: "nat option"
  ed_isFrontier :: bool
  ed_postponeStateCount :: int

record graph =
  fg_nodes :: "node list"
  fg_edges :: "edge list"
  fg_initPC :: addr
  fg_initPCEdge :: "nat option"
  fg_nodeByAddr :: "addr \<Rightarrow> nat option"
  fg_haveJMPOrJSRR :: bool

definition getNodeByAddr :: "graph \<Rightarrow> addr \<Rightarrow> nat option" where
  "getNodeByAddr g a = fg_nodeByAddr g a"

definition inst_node :: "graph \<Rightarrow> mem_value \<Rightarrow> nat res" where
  "inst_node g v = (case fg_nodeByAddr g (mv_addr v) of Some n \<Rightarrow> Inr n | None \<Rightarrow> Inl (NullDeref ''inst->node''))"

definition upd_node :: "nat \<Rightarrow> (node \<Rightarrow> node) \<Rightarrow> graph \<Rightarrow> graph" where
  "upd_node n f g = g\<lparr>fg_nodes := (fg_nodes g)[n := f (fg_nodes g ! n)]\<rparr>"

definition upd_edge :: "nat \<Rightarrow> (edge \<Rightarrow> edge) \<Rightarrow> graph \<Rightarrow> graph" where
  "upd_edge e f g = g\<lparr>fg_edges := (fg_edges g)[e := f (fg_edges g ! e)]\<rparr>"

subsection \<open>Creating nodes and edges\<close>

definition fresh_node :: "addr \<Rightarrow> mem_value \<Rightarrow> node" where
  "fresh_node a inst = \<lparr>nd_name = getLabel inst, nd_addr = a, nd_inst = inst, nd_runtimeOutEdges = [], nd_allOutEdges = [],
     nd_uniqueRuntimeOutEdge = None, nd_runtimeInEdges = [], nd_allInEdges = [], nd_subroutineEntry = False,
     nd_possibleRETPoint = False, nd_subroutineColors = {}\<rparr>"

definition newNode :: "addr \<Rightarrow> mem_value \<Rightarrow> graph \<Rightarrow> (nat \<times> graph) res" where
  "newNode a inst g =
     rbind (assert_that (mv_addr inst = a) ''Node inst must have consistent address'') (\<lambda>_.
     let n = length (fg_nodes g) in
     rbind (assert_that (n < 10000) ''Too many nodes! Increase MAX_NODE_COUNT!'') (\<lambda>_.
     Inr (n, g\<lparr>fg_nodes := fg_nodes g @ [fresh_node a inst], fg_nodeByAddr := (fg_nodeByAddr g)(a \<mapsto> n)\<rparr>)))"

definition fresh_edge :: "nat option \<Rightarrow> nat option \<Rightarrow> edge_type \<Rightarrow> edge" where
  "fresh_edge from to t = \<lparr>ed_type = t, ed_from = from, ed_to = to, ed_BR_CONTINUE_EDGE = False, ed_BR_BRANCH_EDGE = False,
     ed_LIKELY_UNCOVERABLE = False, ed_covered = False, ed_isImproperRET = False, ed_associatedEdge = None,
     ed_isFrontier = False, ed_postponeStateCount = 0\<rparr>"

definition unique_of :: "nat list \<Rightarrow> nat option" where
  "unique_of es = (case es of [e] \<Rightarrow> Some e | _ \<Rightarrow> None)"

definition add_out :: "nat \<Rightarrow> edge_type \<Rightarrow> node \<Rightarrow> node" where
  "add_out e t n =
     (let n = (if is_runtime t then n\<lparr>nd_runtimeOutEdges := nd_runtimeOutEdges n @ [e]\<rparr> else n);
          n = n\<lparr>nd_allOutEdges := nd_allOutEdges n @ [e]\<rparr>
      in n\<lparr>nd_uniqueRuntimeOutEdge := unique_of (nd_runtimeOutEdges n)\<rparr>)"

definition add_in :: "nat \<Rightarrow> edge_type \<Rightarrow> node \<Rightarrow> node" where
  "add_in e t n =
     (let n = (if is_runtime t then n\<lparr>nd_runtimeInEdges := nd_runtimeInEdges n @ [e]\<rparr> else n)
      in n\<lparr>nd_allInEdges := nd_allInEdges n @ [e]\<rparr>)"

definition newEdge :: "nat option \<Rightarrow> nat option \<Rightarrow> edge_type \<Rightarrow> graph \<Rightarrow> nat \<times> graph" where
  "newEdge from to t g =
     (let e = length (fg_edges g);
          g = g\<lparr>fg_edges := fg_edges g @ [fresh_edge from to t]\<rparr>;
          g = (case from of None \<Rightarrow> g | Some n \<Rightarrow> upd_node n (add_out e t) g);
          g = (case to of None \<Rightarrow> g | Some n \<Rightarrow> upd_node n (add_in e t) g)
      in (e, g))"

definition newEdgeToAddrIfExists :: "nat \<Rightarrow> addr \<Rightarrow> edge_type \<Rightarrow> graph \<Rightarrow> nat option \<times> graph" where
  "newEdgeToAddrIfExists n toAddr t g = (case getNodeByAddr g toAddr of
       None \<Rightarrow> (None, g)
     | Some toNode \<Rightarrow> (case newEdge (Some n) (Some toNode) t g of (e, g) \<Rightarrow> (Some e, g)))"

subsection \<open>Construction from the program\<close>

text \<open>An edge with flags, when its target exists.\<close>

definition br_edge :: "nat \<Rightarrow> addr \<Rightarrow> bool \<Rightarrow> bool \<Rightarrow> graph \<Rightarrow> graph" where
  "br_edge n toAddr cont branch g = (case newEdgeToAddrIfExists n toAddr NORMAL_EDGE g of
       (None, g) \<Rightarrow> g
     | (Some e, g) \<Rightarrow> upd_edge e (\<lambda>x. x\<lparr>ed_BR_CONTINUE_EDGE := cont, ed_BR_BRANCH_EDGE := branch\<rparr>) g)"

definition br_edges :: "nat \<Rightarrow> addr \<Rightarrow> mem_value \<Rightarrow> graph \<Rightarrow> graph res" where
  "br_edges n pc inst g =
     (let continueAddr = (if inst_cc inst \<noteq> 7 then Some pc else None);
          branchAddr = (if inst_cc inst \<noteq> 0 then Some (pc + inst_imm9 inst) else None)
      in case (continueAddr, branchAddr) of
           (Some c, Some b) \<Rightarrow>
             if c = b then Inr (br_edge n c True True g)
             else Inr (br_edge n b False True (br_edge n c True False g))
         | (Some c, None) \<Rightarrow> Inr (br_edge n c True True g)
         | (None, Some b) \<Rightarrow> Inr (br_edge n b True True g)
         | (None, None) \<Rightarrow> Inl (AssertFailed ''Impossible case''))"

definition returning_traps :: "16 word set" where
  "returning_traps = {0x20, 0x21, 0x22, 0x23, 0x24, 0xC3}"

definition mark_RET_point :: "addr \<Rightarrow> graph \<Rightarrow> graph" where
  "mark_RET_point pc g = (case getNodeByAddr g pc of
       Some r \<Rightarrow> upd_node r (\<lambda>x. x\<lparr>nd_possibleRETPoint := True\<rparr>) g
     | None \<Rightarrow> g)"

definition setNodeOutEdgesWithInst :: "mem_value \<Rightarrow> graph \<Rightarrow> graph res" where
  "setNodeOutEdgesWithInst inst g =
     rbind (inst_node g inst) (\<lambda>n.
     let pc = mv_addr inst + 1 in
     rbind (if inst_id inst = I_BR then br_edges n pc inst g
            else if inst_id inst = I_JSR then
              Inr (snd (newEdgeToAddrIfExists n pc SUBROUTINE_VIRTUAL_EDGE
                (snd (newEdgeToAddrIfExists n (pc + inst_imm11 inst) JSR_EDGE g))))
            else if inst_id inst = I_JMP \<or> inst_id inst = I_JSRR then
              Inr (if \<not> isRET inst then g\<lparr>fg_haveJMPOrJSRR := True\<rparr> else g)
            else if inst_id inst = I_TRAP then
              Inr (if inst_vec8 inst \<in> returning_traps then snd (newEdgeToAddrIfExists n pc TRAP_VIRTUAL_EDGE g)
                   else snd (newEdge (Some n) None TRAP_VIRTUAL_EDGE g))
            else Inr (snd (newEdgeToAddrIfExists n pc NORMAL_EDGE g))) (\<lambda>g.
     Inr (if inst_id inst = I_JSR \<or> inst_id inst = I_JSRR then mark_RET_point pc g else g)))"

definition user_inst :: "mem_value \<Rightarrow> bool" where
  "user_inst v \<longleftrightarrow> mv_type v = MEM_INST \<and> \<not> mv_belongsToOS v"

text \<open>The initial memory is the sequence of entries of the map, in the order of their addresses; two passes go over it.\<close>

definition add_user_node :: "addr \<times> mem_value \<Rightarrow> graph \<Rightarrow> graph res" where
  "add_user_node = (\<lambda>(a, v) g. if user_inst v then rbind (newNode a v g) (\<lambda>(n, g). Inr g) else Inr g)"

definition link_user_node :: "addr \<times> mem_value \<Rightarrow> graph \<Rightarrow> graph res" where
  "link_user_node = (\<lambda>(a, v) g. if user_inst v then setNodeOutEdgesWithInst v g else Inr g)"

definition constructFromInitMem :: "(addr \<times> mem_value) list \<Rightarrow> graph \<Rightarrow> graph res" where
  "constructFromInitMem initMem g = rbind (rfold add_user_node initMem g) (rfold link_user_node initMem)"

definition empty_graph :: "addr \<Rightarrow> graph" where
  "empty_graph initPC = \<lparr>fg_nodes = [], fg_edges = [], fg_initPC = initPC, fg_initPCEdge = None,
     fg_nodeByAddr = (\<lambda>_. None), fg_haveJMPOrJSRR = False\<rparr>"

definition constructInitPCEdge :: "addr \<Rightarrow> graph \<Rightarrow> graph" where
  "constructInitPCEdge pc g = (case getNodeByAddr g pc of
       None \<Rightarrow> g
     | Some n \<Rightarrow> (case newEdge None (Some n) INIT_PC_ENTRY_EDGE g of (e, g) \<Rightarrow> g\<lparr>fg_initPCEdge := Some e\<rparr>))"

subsection \<open>Trimming branches that cannot be taken\<close>

definition keeps_cc :: "InstID \<Rightarrow> bool" where
  "keeps_cc i \<longleftrightarrow> i \<in> {I_JMP, I_JSR, I_JSRR, I_ST, I_STI, I_STR, I_TRAP, I_RTI, I_BR}"

primrec getEdgeCoverageCC :: "graph \<Rightarrow> nat \<Rightarrow> nat \<Rightarrow> nat" where
  "getEdgeCoverageCC g 0 e = 7"
| "getEdgeCoverageCC g (Suc depth) e =
     (let edge = fg_edges g ! e in
      case ed_from edge of
        None \<Rightarrow> 7
      | Some n \<Rightarrow>
          let inst = nd_inst (fg_nodes g ! n) in
          if keeps_cc (inst_id inst) then
            let ret = foldl (\<lambda>ret i.
                  let t = ed_type (fg_edges g ! i) in
                  if t = TRAP_VIRTUAL_EDGE \<or> t = SUBROUTINE_VIRTUAL_EDGE then 7
                  else if is_runtime t then ret OR getEdgeCoverageCC g depth i
                  else ret) 0 (nd_allInEdges (fg_nodes g ! n))
            in if inst_id inst = I_BR then
                 ret AND (if ed_BR_CONTINUE_EDGE edge \<and> \<not> ed_BR_BRANCH_EDGE edge then 7 XOR inst_cc inst else inst_cc inst)
               else ret
          else 7)"

definition to_trim :: "graph \<Rightarrow> nat \<Rightarrow> bool" where
  "to_trim g e \<longleftrightarrow> (let edge = fg_edges g ! e in
     is_runtime (ed_type edge) \<and>
     (case ed_from edge of None \<Rightarrow> False | Some n \<Rightarrow> inst_id (nd_inst (fg_nodes g ! n)) = I_BR) \<and>
     \<not> (ed_BR_CONTINUE_EDGE edge \<and> ed_BR_BRANCH_EDGE edge) \<and> getEdgeCoverageCC g 10 e = 0)"

definition trimBREdges :: "graph \<Rightarrow> graph" where
  "trimBREdges g = fold (\<lambda>e. upd_edge e (\<lambda>x. x\<lparr>ed_LIKELY_UNCOVERABLE := True\<rparr>))
     (filter (to_trim g) [0..<length (fg_edges g)]) g"

definition FlowGraph :: "(addr \<times> mem_value) list \<Rightarrow> addr \<Rightarrow> graph res" where
  "FlowGraph initMem initPC =
     rbind (constructFromInitMem initMem (empty_graph initPC)) (\<lambda>g.
     let g = constructInitPCEdge initPC g in
     Inr (if \<not> fg_haveJMPOrJSRR g then trimBREdges g else g))"

subsection \<open>Queries\<close>

definition first_edge :: "graph \<Rightarrow> (edge \<Rightarrow> bool) \<Rightarrow> nat list \<Rightarrow> nat option" where
  "first_edge g P es = find (\<lambda>e. P (fg_edges g ! e)) es"

definition getOnEdge :: "graph \<Rightarrow> state \<Rightarrow> nat option res" where
  "getOnEdge g s = (case fst (st_latestNonOSInst s) of
       None \<Rightarrow> Inr (fg_initPCEdge g)
     | Some i \<Rightarrow>
         rbind (inst_node g i) (\<lambda>n.
         let out = nd_runtimeOutEdges (fg_nodes g ! n) in
         case first_edge g (\<lambda>e. ed_type e = TRAP_VIRTUAL_EDGE) out of
           Some e \<Rightarrow> Inr (Some e)
         | None \<Rightarrow> (case getNodeByAddr g (st_pc s) of
             None \<Rightarrow> Inr None
           | Some t \<Rightarrow> Inr (first_edge g (\<lambda>e. ed_to e = Some t) out))))"

text \<open>Instructions are compared by value where the code compares pointers: an instruction object is never copied.\<close>

definition getJustCoveredEdge :: "graph \<Rightarrow> state \<Rightarrow> nat option res" where
  "getJustCoveredEdge g s = (case st_status s of
       HALTED \<Rightarrow>
         (case fst (st_latestNonOSInst s) of
            None \<Rightarrow> Inl (NullDeref ''latestNonOSInst[0]'')
          | Some i \<Rightarrow> rbind (inst_node g i) (\<lambda>n.
              Inr (first_edge g (\<lambda>e. ed_type e = TRAP_VIRTUAL_EDGE \<and> ed_to e = None) (nd_runtimeOutEdges (fg_nodes g ! n)))))
     | NORMAL \<Rightarrow>
         (case fst (st_latestNonOSInst s) of
            None \<Rightarrow> Inr None
          | Some i \<Rightarrow>
              if Some i \<noteq> fst (st_latestInst s) then Inr None
              else case snd (st_latestNonOSInst s) of
                  None \<Rightarrow> Inr (fg_initPCEdge g)
                | Some j \<Rightarrow> rbind (inst_node g j) (\<lambda>n. rbind (inst_node g i) (\<lambda>t.
                    case first_edge g (\<lambda>e. ed_to e = Some t) (nd_runtimeOutEdges (fg_nodes g ! n)) of
                      Some e \<Rightarrow> Inr (Some e)
                    | None \<Rightarrow> Inl (AssertFailed ''Fail to match covered edge''))))
     | BROKEN \<Rightarrow> Inr None)"

definition getFullGraph :: "graph \<Rightarrow> nat set" where
  "getFullGraph g = set [0..<length (fg_nodes g)]"

subsection \<open>Invariant\<close>

definition out_of :: "graph \<Rightarrow> nat \<Rightarrow> nat list" where
  "out_of g n = filter (\<lambda>e. ed_from (fg_edges g ! e) = Some n) [0..<length (fg_edges g)]"

definition in_of :: "graph \<Rightarrow> nat \<Rightarrow> nat list" where
  "in_of g n = filter (\<lambda>e. ed_to (fg_edges g ! e) = Some n) [0..<length (fg_edges g)]"

definition runtime_of :: "graph \<Rightarrow> nat list \<Rightarrow> nat list" where
  "runtime_of g es = filter (\<lambda>e. is_runtime (ed_type (fg_edges g ! e))) es"

text \<open>The edge lists of a node, as the edges of the graph determine them.\<close>

definition node_ok :: "graph \<Rightarrow> nat \<Rightarrow> bool" where
  "node_ok g n \<longleftrightarrow> (let x = fg_nodes g ! n in
     nd_allOutEdges x = out_of g n \<and> nd_runtimeOutEdges x = runtime_of g (out_of g n) \<and>
     nd_uniqueRuntimeOutEdge x = unique_of (runtime_of g (out_of g n)) \<and>
     nd_allInEdges x = in_of g n \<and> nd_runtimeInEdges x = runtime_of g (in_of g n) \<and>
     mv_addr (nd_inst x) = nd_addr x)"

definition in_graph :: "graph \<Rightarrow> nat option \<Rightarrow> bool" where
  "in_graph g v \<longleftrightarrow> (case v of None \<Rightarrow> True | Some n \<Rightarrow> n < length (fg_nodes g))"

definition wf_graph :: "graph \<Rightarrow> bool" where
  "wf_graph g \<longleftrightarrow> (\<forall>n < length (fg_nodes g). node_ok g n) \<and>
     (\<forall>e \<in> set (fg_edges g). in_graph g (ed_from e) \<and> in_graph g (ed_to e)) \<and>
     (\<forall>a n. fg_nodeByAddr g a = Some n \<longrightarrow> n < length (fg_nodes g) \<and> nd_addr (fg_nodes g ! n) = a) \<and>
     (\<forall>e. fg_initPCEdge g = Some e \<longrightarrow> e < length (fg_edges g) \<and> is_runtime (ed_type (fg_edges g ! e)))"

lemma edges_append:
  assumes "fg_edges g' = fg_edges g @ [x]"
  shows "out_of g' n = out_of g n @ (if ed_from x = Some n then [length (fg_edges g)] else [])"
    and "in_of g' n = in_of g n @ (if ed_to x = Some n then [length (fg_edges g)] else [])"
    and "runtime_of g' (out_of g n) = runtime_of g (out_of g n)" "runtime_of g' (in_of g n) = runtime_of g (in_of g n)"
    and "runtime_of g' [length (fg_edges g)] = (if is_runtime (ed_type x) then [length (fg_edges g)] else [])"
proof -
  have *: "filter (\<lambda>e. P (fg_edges g' ! e)) [0..<length (fg_edges g)] = filter (\<lambda>e. P (fg_edges g ! e)) [0..<length (fg_edges g)]" for P
    by (rule filter_cong) (auto simp: assms nth_append)
  show "out_of g' n = out_of g n @ (if ed_from x = Some n then [length (fg_edges g)] else [])"
    "in_of g' n = in_of g n @ (if ed_to x = Some n then [length (fg_edges g)] else [])"
    using * [of "\<lambda>x. ed_from x = Some n"] * [of "\<lambda>x. ed_to x = Some n"] by (simp_all add: out_of_def in_of_def assms)
  have **: "runtime_of g' es = runtime_of g es" if "set es \<subseteq> {0..<length (fg_edges g)}" for es
    unfolding runtime_of_def by (rule filter_cong) (use that in \<open>auto simp: assms nth_append subset_iff\<close>)
  show "runtime_of g' (out_of g n) = runtime_of g (out_of g n)" "runtime_of g' (in_of g n) = runtime_of g (in_of g n)"
    by (rule **, auto simp: out_of_def in_of_def)+
  show "runtime_of g' [length (fg_edges g)] = (if is_runtime (ed_type x) then [length (fg_edges g)] else [])"
    by (simp add: runtime_of_def assms)
qed

lemma newEdge_view:
  assumes "newEdge from to t g = (e, g')" "in_graph g from" "in_graph g to"
  shows "e = length (fg_edges g)" "fg_edges g' = fg_edges g @ [fresh_edge from to t]"
    "fg_nodeByAddr g' = fg_nodeByAddr g" "fg_initPCEdge g' = fg_initPCEdge g" "fg_initPC g' = fg_initPC g"
    "fg_haveJMPOrJSRR g' = fg_haveJMPOrJSRR g" "length (fg_nodes g') = length (fg_nodes g)"
    "n < length (fg_nodes g) \<Longrightarrow> fg_nodes g' ! n =
      (if to = Some n then add_in e t else id) ((if from = Some n then add_out e t else id) (fg_nodes g ! n))"
  using assms by (auto simp: newEdge_def Let_def upd_node_def in_graph_def nth_list_update split: option.splits)

lemma add_edge_fields:
  "nd_allOutEdges (add_out e t x) = nd_allOutEdges x @ [e]"
  "nd_runtimeOutEdges (add_out e t x) = nd_runtimeOutEdges x @ (if is_runtime t then [e] else [])"
  "nd_uniqueRuntimeOutEdge (add_out e t x) = unique_of (nd_runtimeOutEdges x @ (if is_runtime t then [e] else []))"
  "nd_allInEdges (add_out e t x) = nd_allInEdges x" "nd_runtimeInEdges (add_out e t x) = nd_runtimeInEdges x"
  "nd_addr (add_out e t x) = nd_addr x" "nd_inst (add_out e t x) = nd_inst x"
  "nd_allInEdges (add_in e t x) = nd_allInEdges x @ [e]"
  "nd_runtimeInEdges (add_in e t x) = nd_runtimeInEdges x @ (if is_runtime t then [e] else [])"
  "nd_allOutEdges (add_in e t x) = nd_allOutEdges x" "nd_runtimeOutEdges (add_in e t x) = nd_runtimeOutEdges x"
  "nd_uniqueRuntimeOutEdge (add_in e t x) = nd_uniqueRuntimeOutEdge x"
  "nd_addr (add_in e t x) = nd_addr x" "nd_inst (add_in e t x) = nd_inst x"
  by (simp_all add: add_out_def add_in_def Let_def)

lemma fresh_edge_sel [simp]:
  "ed_type (fresh_edge from to t) = t" "ed_from (fresh_edge from to t) = from" "ed_to (fresh_edge from to t) = to"
  by (simp_all add: fresh_edge_def)

lemma runtime_of_append: "runtime_of g (xs @ ys) = runtime_of g xs @ runtime_of g ys"
  by (simp add: runtime_of_def)

lemma runtime_of_nil [simp]: "runtime_of g [] = []"
  by (simp add: runtime_of_def)

lemma newEdge_wf:
  assumes "newEdge from to t g = (e, g')" "wf_graph g" "in_graph g from" "in_graph g to"
  shows "wf_graph g'"
proof -
  note v = newEdge_view [OF assms(1,3,4)]
  note a = edges_append [OF v(2)]
  have "node_ok g' n" if "n < length (fg_nodes g')" for n
  proof -
    have "n < length (fg_nodes g)" "node_ok g n" using that assms(2) v(7) by (simp_all add: wf_graph_def)
    then show ?thesis
      by (simp add: node_ok_def Let_def v(8) a runtime_of_append add_edge_fields v(1))
  qed
  moreover have "nd_addr (fg_nodes g' ! n) = nd_addr (fg_nodes g ! n)" if "n < length (fg_nodes g)" for n
    using v(8) [OF that] by (simp add: add_edge_fields)
  ultimately show ?thesis
    using assms(2-4) v by (auto simp: wf_graph_def in_graph_def less_Suc_eq nth_append split: option.splits)
qed

text \<open>Changing what the invariant does not see.\<close>

lemma upd_edge_sel [simp]:
  "fg_nodes (upd_edge e f g) = fg_nodes g" "fg_nodeByAddr (upd_edge e f g) = fg_nodeByAddr g"
  "fg_initPCEdge (upd_edge e f g) = fg_initPCEdge g" "length (fg_edges (upd_edge e f g)) = length (fg_edges g)"
  "fg_haveJMPOrJSRR (upd_edge e f g) = fg_haveJMPOrJSRR g" "fg_initPC (upd_edge e f g) = fg_initPC g"
  by (simp_all add: upd_edge_def)

lemma upd_edge_wf:
  assumes "wf_graph g" "\<And>x. ed_type (f x) = ed_type x" "\<And>x. ed_from (f x) = ed_from x" "\<And>x. ed_to (f x) = ed_to x"
  shows "wf_graph (upd_edge e f g)"
proof (cases "e < length (fg_edges g)")
  case True
  have nth: "ed_type (fg_edges (upd_edge e f g) ! i) = ed_type (fg_edges g ! i)" "ed_from (fg_edges (upd_edge e f g) ! i) = ed_from (fg_edges g ! i)"
    "ed_to (fg_edges (upd_edge e f g) ! i) = ed_to (fg_edges g ! i)" for i
    using True assms(2-4) by (cases "i = e"; simp add: upd_edge_def)+
  have "out_of (upd_edge e f g) n = out_of g n" "in_of (upd_edge e f g) n = in_of g n" "runtime_of (upd_edge e f g) es = runtime_of g es" for n es
    by (simp_all add: out_of_def in_of_def runtime_of_def nth)
  then have "node_ok (upd_edge e f g) n = node_ok g n" for n by (simp add: node_ok_def)
  moreover have "in_graph (upd_edge e f g) v = in_graph g v" for v by (cases v) (simp_all add: in_graph_def)
  moreover have "x \<in> set (fg_edges (upd_edge e f g)) \<Longrightarrow> \<exists>y \<in> set (fg_edges g). ed_from x = ed_from y \<and> ed_to x = ed_to y" for x
    using True assms(3,4) by (auto simp: upd_edge_def set_conv_nth nth_list_update)
  ultimately show ?thesis
    using assms(1) nth(1) by (fastforce simp: wf_graph_def)
next
  case False
  then show ?thesis using assms(1) by (simp add: upd_edge_def list_update_beyond)
qed

lemma upd_node_wf:
  assumes "wf_graph g" "\<And>x. nd_allOutEdges (f x) = nd_allOutEdges x" "\<And>x. nd_runtimeOutEdges (f x) = nd_runtimeOutEdges x"
    "\<And>x. nd_uniqueRuntimeOutEdge (f x) = nd_uniqueRuntimeOutEdge x" "\<And>x. nd_allInEdges (f x) = nd_allInEdges x"
    "\<And>x. nd_runtimeInEdges (f x) = nd_runtimeInEdges x" "\<And>x. nd_addr (f x) = nd_addr x" "\<And>x. nd_inst (f x) = nd_inst x"
  shows "wf_graph (upd_node n f g)"
proof (cases "n < length (fg_nodes g)")
  case True
  let ?g = "upd_node n f g"
  have edges: "fg_edges ?g = fg_edges g" "length (fg_nodes ?g) = length (fg_nodes g)" "fg_nodeByAddr ?g = fg_nodeByAddr g"
    "fg_initPCEdge ?g = fg_initPCEdge g"
    by (simp_all add: upd_node_def)
  have nth: "fg_nodes ?g ! i = (if i = n then f (fg_nodes g ! n) else fg_nodes g ! i)" for i
    using True by (simp add: upd_node_def)
  have "out_of ?g i = out_of g i" "in_of ?g i = in_of g i" "runtime_of ?g es = runtime_of g es" for i es
    by (simp_all add: out_of_def in_of_def runtime_of_def edges)
  then have "node_ok ?g i = node_ok g i" for i by (simp add: node_ok_def Let_def nth assms(2-8))
  moreover have "in_graph ?g v = in_graph g v" for v by (cases v) (simp_all add: in_graph_def edges)
  ultimately show ?thesis using assms(1) by (simp add: wf_graph_def edges nth assms(7))
next
  case False
  then show ?thesis using assms(1) by (simp add: upd_node_def list_update_beyond)
qed

lemma newNode_wf:
  assumes "newNode a inst g = Inr (n, g')" "wf_graph g"
  shows "wf_graph g'" "n = length (fg_nodes g)" "fg_nodes g' = fg_nodes g @ [fresh_node a inst]" "fg_edges g' = fg_edges g"
    "fg_nodeByAddr g' = (fg_nodeByAddr g)(a \<mapsto> n)" "mv_addr inst = a" "fg_initPCEdge g' = fg_initPCEdge g"
proof -
  have n: "n = length (fg_nodes g)" "mv_addr inst = a"
    "g' = g\<lparr>fg_nodes := fg_nodes g @ [fresh_node a inst], fg_nodeByAddr := (fg_nodeByAddr g)(a \<mapsto> n)\<rparr>"
    using assms(1) by (auto simp: newNode_def assert_that_def Let_def split: if_splits)
  then show "n = length (fg_nodes g)" "fg_nodes g' = fg_nodes g @ [fresh_node a inst]" "fg_edges g' = fg_edges g"
    "fg_nodeByAddr g' = (fg_nodeByAddr g)(a \<mapsto> n)" "mv_addr inst = a" "fg_initPCEdge g' = fg_initPCEdge g" by simp_all
  have edges: "fg_edges g' = fg_edges g" "fg_nodes g' = fg_nodes g @ [fresh_node a inst]" using n(3) by simp_all
  have w: "x \<in> set (fg_edges g) \<Longrightarrow> in_graph g (ed_from x) \<and> in_graph g (ed_to x)" for x using assms(2) by (simp add: wf_graph_def)
  have "ed_from (fg_edges g ! i) \<noteq> Some (length (fg_nodes g))" "ed_to (fg_edges g ! i) \<noteq> Some (length (fg_nodes g))" if "i < length (fg_edges g)" for i
    using w [OF nth_mem [OF that]] by (auto simp: in_graph_def)
  then have new: "out_of g' (length (fg_nodes g)) = []" "in_of g' (length (fg_nodes g)) = []"
    by (simp_all add: out_of_def in_of_def edges(1))
  have same: "out_of g' i = out_of g i" "in_of g' i = in_of g i" "runtime_of g' es = runtime_of g es" for i es
    by (simp_all add: out_of_def in_of_def runtime_of_def edges)
  have "node_ok g' i" if "i < length (fg_nodes g')" for i
  proof (cases "i = length (fg_nodes g)")
    case True
    then show ?thesis using new n(2) by (simp add: node_ok_def Let_def edges(2) fresh_node_def unique_of_def)
  next
    case False
    then have "i < length (fg_nodes g)" using that edges(2) by simp
    then show ?thesis using assms(2) by (auto simp: wf_graph_def node_ok_def Let_def edges(2) nth_append same)
  qed
  moreover have "in_graph g v \<Longrightarrow> in_graph g' v" for v by (cases v) (auto simp: in_graph_def edges(2))
  ultimately show "wf_graph g'"
    using assms(2) n by (auto simp: wf_graph_def nth_append fresh_node_def less_Suc_eq)
qed

lemma same_view_wf:
  assumes "wf_graph g" "fg_nodes g' = fg_nodes g" "fg_edges g' = fg_edges g" "fg_nodeByAddr g' = fg_nodeByAddr g"
    "\<And>e. fg_initPCEdge g' = Some e \<Longrightarrow> e < length (fg_edges g) \<and> is_runtime (ed_type (fg_edges g ! e))"
  shows "wf_graph g'"
proof -
  have "out_of g' n = out_of g n" "in_of g' n = in_of g n" "runtime_of g' es = runtime_of g es" for n es
    by (simp_all add: out_of_def in_of_def runtime_of_def assms)
  moreover have "in_graph g' v = in_graph g v" for v by (cases v) (simp_all add: in_graph_def assms)
  ultimately show ?thesis using assms by (simp add: wf_graph_def node_ok_def)
qed

subsection \<open>Growing\<close>

definition edge_view :: "edge \<Rightarrow> edge_type \<times> nat option \<times> nat option" where
  "edge_view x = (ed_type x, ed_from x, ed_to x)"

text \<open>Operations on a finished set of nodes add edges and keep everything else.\<close>

definition grows :: "graph \<Rightarrow> graph \<Rightarrow> bool" where
  "grows g g' \<longleftrightarrow> (wf_graph g \<longrightarrow> wf_graph g') \<and> fg_nodeByAddr g' = fg_nodeByAddr g \<and> length (fg_nodes g') = length (fg_nodes g) \<and>
     (\<forall>n < length (fg_nodes g). nd_inst (fg_nodes g' ! n) = nd_inst (fg_nodes g ! n)) \<and>
     (\<exists>xs. map edge_view (fg_edges g') = map edge_view (fg_edges g) @ xs)"

lemma grows_refl: "grows g g"
  by (simp add: grows_def)

lemma grows_trans: "grows a b \<Longrightarrow> grows b c \<Longrightarrow> grows a c"
  by (auto simp: grows_def)

lemma grows_in_graph: "grows a b \<Longrightarrow> in_graph a v \<Longrightarrow> in_graph b v"
  by (cases v) (auto simp: grows_def in_graph_def)

lemma newEdge_grows:
  assumes "newEdge from to t g = (e, g')" "in_graph g from" "in_graph g to"
  shows "grows g g'" "fg_edges g' ! e = fresh_edge from to t" "e < length (fg_edges g')"
proof -
  note v = newEdge_view [OF assms]
  show "fg_edges g' ! e = fresh_edge from to t" "e < length (fg_edges g')" by (simp_all add: v(1,2))
  show "grows g g'"
    using v newEdge_wf [OF assms(1) _ assms(2,3)] by (auto simp: grows_def add_edge_fields)
qed

lemma upd_edge_grows:
  assumes "\<And>x. ed_type (f x) = ed_type x" "\<And>x. ed_from (f x) = ed_from x" "\<And>x. ed_to (f x) = ed_to x"
  shows "grows g (upd_edge e f g)"
proof -
  have "map edge_view ((fg_edges g)[e := f (fg_edges g ! e)]) = map edge_view (fg_edges g)"
    using assms by (cases "e < length (fg_edges g)")
      (auto simp: map_update list_update_beyond edge_view_def intro!: list_update_same_conv [THEN iffD2])
  then show ?thesis using upd_edge_wf [OF _ assms, of g e] by (simp add: grows_def) (simp add: upd_edge_def)
qed

definition has_edge :: "graph \<Rightarrow> nat \<Rightarrow> nat \<Rightarrow> bool" where
  "has_edge g n m \<longleftrightarrow> (\<exists>t. is_runtime t \<and> (t, Some n, Some m) \<in> set (map edge_view (fg_edges g)))"

lemma has_edge_grows: "grows g g' \<Longrightarrow> has_edge g n m \<Longrightarrow> has_edge g' n m"
  unfolding grows_def has_edge_def by (metis UnCI set_append)

lemma has_edge_iff:
  assumes "wf_graph g" "n < length (fg_nodes g)"
  shows "has_edge g n m \<longleftrightarrow> (\<exists>e \<in> set (nd_runtimeOutEdges (fg_nodes g ! n)). ed_to (fg_edges g ! e) = Some m)"
proof -
  have o: "set (nd_runtimeOutEdges (fg_nodes g ! n)) =
      {e. e < length (fg_edges g) \<and> ed_from (fg_edges g ! e) = Some n \<and> is_runtime (ed_type (fg_edges g ! e))}"
    using assms by (auto simp: wf_graph_def node_ok_def Let_def runtime_of_def out_of_def)
  have "x \<in> set (map edge_view (fg_edges g)) \<longleftrightarrow> (\<exists>e < length (fg_edges g). x = edge_view (fg_edges g ! e))" for x
    unfolding in_set_conv_nth length_map by (metis nth_map)
  then show ?thesis unfolding has_edge_def o edge_view_def by (fastforce simp del: set_map)
qed

subsection \<open>The static edges\<close>

text \<open>Where a user instruction can continue in one step, as far as this is known statically.\<close>

definition static_succ :: "mem_value \<Rightarrow> addr set" where
  "static_succ v =
     (let pc = mv_addr v + 1 in
      if inst_id v = I_BR then (if inst_cc v \<noteq> 7 then {pc} else {}) \<union> (if inst_cc v \<noteq> 0 then {pc + inst_imm9 v} else {})
      else if inst_id v = I_JSR then {pc + inst_imm11 v}
      else if inst_id v \<in> {I_JMP, I_JSRR, I_TRAP} then {}
      else {pc})"

definition linked :: "graph \<Rightarrow> mem_value \<Rightarrow> bool" where
  "linked g v \<longleftrightarrow> (\<forall>n q m. fg_nodeByAddr g (mv_addr v) = Some n \<longrightarrow> q \<in> static_succ v \<longrightarrow> fg_nodeByAddr g q = Some m \<longrightarrow> has_edge g n m)"

lemma linked_grows:
  assumes "grows g g'" "linked g v"
  shows "linked g' v"
proof -
  have "fg_nodeByAddr g' = fg_nodeByAddr g" using assms(1) by (simp add: grows_def)
  then show ?thesis using assms(2) has_edge_grows [OF assms(1)] by (simp add: linked_def)
qed

lemma byAddr_in_graph: "wf_graph g \<Longrightarrow> fg_nodeByAddr g a = Some m \<Longrightarrow> in_graph g (Some m)"
  by (simp add: wf_graph_def in_graph_def)

lemma newEdgeToAddr_grows:
  assumes "newEdgeToAddrIfExists n a t g = (e, g')" "wf_graph g" "in_graph g (Some n)"
  shows "grows g g'" "fg_nodeByAddr g a = Some m \<Longrightarrow> is_runtime t \<Longrightarrow> has_edge g' n m"
proof -
  have "grows g g' \<and> (fg_nodeByAddr g a = Some m \<longrightarrow> is_runtime t \<longrightarrow> has_edge g' n m)"
  proof (cases "fg_nodeByAddr g a")
    case None
    then show ?thesis using assms(1) grows_refl by (simp add: newEdgeToAddrIfExists_def getNodeByAddr_def)
  next
    case (Some k)
    obtain i where i: "newEdge (Some n) (Some k) t g = (i, g')"
      using assms(1) Some by (auto simp: newEdgeToAddrIfExists_def getNodeByAddr_def split: prod.splits)
    note v = newEdge_grows [OF i assms(3) byAddr_in_graph [OF assms(2) Some]]
    then show ?thesis using Some newEdge_view(2) [OF i assms(3) byAddr_in_graph [OF assms(2) Some]]
      by (auto simp: has_edge_def edge_view_def)
  qed
  then show "grows g g'" "fg_nodeByAddr g a = Some m \<Longrightarrow> is_runtime t \<Longrightarrow> has_edge g' n m" by blast+
qed

lemma br_edge_grows:
  assumes "wf_graph g" "in_graph g (Some n)"
  shows "grows g (br_edge n a c b g)" "fg_nodeByAddr g a = Some m \<Longrightarrow> has_edge (br_edge n a c b g) n m"
proof -
  obtain i g' where e: "newEdgeToAddrIfExists n a NORMAL_EDGE g = (i, g')" by fastforce
  note v = newEdgeToAddr_grows [OF e assms]
  have u: "grows g' (case i of None \<Rightarrow> g' | Some k \<Rightarrow> upd_edge k (\<lambda>x. x\<lparr>ed_BR_CONTINUE_EDGE := c, ed_BR_BRANCH_EDGE := b\<rparr>) g')"
    by (auto intro!: upd_edge_grows grows_refl split: option.split)
  have eq: "br_edge n a c b g = (case i of None \<Rightarrow> g' | Some k \<Rightarrow> upd_edge k (\<lambda>x. x\<lparr>ed_BR_CONTINUE_EDGE := c, ed_BR_BRANCH_EDGE := b\<rparr>) g')"
    by (simp add: br_edge_def e split: option.split)
  show "grows g (br_edge n a c b g)" using grows_trans [OF v(1) u] by (simp add: eq)
  show "has_edge (br_edge n a c b g) n m" if "fg_nodeByAddr g a = Some m"
    using has_edge_grows [OF u v(2) [OF that]] by (simp add: eq is_runtime_def)
qed

lemma mark_RET_point_grows: "grows g (mark_RET_point pc g)"
proof -
  have "nd_inst ((fg_nodes g)[r := (fg_nodes g ! r)\<lparr>nd_possibleRETPoint := True\<rparr>] ! n) = nd_inst (fg_nodes g ! n)"
    if "n < length (fg_nodes g)" for n r using that by (cases "n = r") simp_all
  then have "grows g (upd_node r (\<lambda>x. x\<lparr>nd_possibleRETPoint := True\<rparr>) g)" for r
    using upd_node_wf [of g "\<lambda>x. x\<lparr>nd_possibleRETPoint := True\<rparr>" r]
    by (simp add: grows_def) (simp add: upd_node_def)
  then show ?thesis using grows_refl by (auto simp: mark_RET_point_def split: option.split)
qed

lemma br_edges_returns:
  assumes "wf_graph g" "in_graph g (Some n)"
  shows "returns (br_edges n pc v g) (\<lambda>g'. grows g g' \<and>
    (\<forall>q m. q \<in> (if inst_cc v \<noteq> 7 then {pc} else {}) \<union> (if inst_cc v \<noteq> 0 then {pc + inst_imm9 v} else {}) \<longrightarrow>
      fg_nodeByAddr g q = Some m \<longrightarrow> has_edge g' n m))"
proof -
  note one = br_edge_grows [OF assms]
  have two: "grows g (br_edge n b x y (br_edge n a c d g))"
    "fg_nodeByAddr g a = Some m \<Longrightarrow> has_edge (br_edge n b x y (br_edge n a c d g)) n m"
    "fg_nodeByAddr g b = Some m \<Longrightarrow> has_edge (br_edge n b x y (br_edge n a c d g)) n m" for a b c d x y m
  proof -
    have w: "wf_graph (br_edge n a c d g)" "in_graph (br_edge n a c d g) (Some n)" "fg_nodeByAddr (br_edge n a c d g) = fg_nodeByAddr g"
      using one(1) [of a c d] assms grows_in_graph by (auto simp: grows_def)
    note t = br_edge_grows [OF w(1,2)]
    show "grows g (br_edge n b x y (br_edge n a c d g))" using grows_trans [OF one(1) t(1)] .
    show "fg_nodeByAddr g a = Some m \<Longrightarrow> has_edge (br_edge n b x y (br_edge n a c d g)) n m"
      using has_edge_grows [OF t(1) one(2)] .
    show "fg_nodeByAddr g b = Some m \<Longrightarrow> has_edge (br_edge n b x y (br_edge n a c d g)) n m"
      using t(2) w(3) by simp
  qed
  show ?thesis using one two by (auto simp: br_edges_def Let_def)
qed

lemma setNodeOutEdges_returns:
  assumes "wf_graph g" "fg_nodeByAddr g (mv_addr v) = Some n"
  shows "returns (setNodeOutEdgesWithInst v g) (\<lambda>g'. grows g g' \<and> linked g' v)"
proof -
  have w: "in_graph g (Some n)" by (rule byAddr_in_graph [OF assms])
  define pc where "pc = mv_addr v + 1"
  define add where "add = (\<lambda>a t g. snd (newEdgeToAddrIfExists n a t g))"
  have add: "grows g' (add a t g')" "fg_nodeByAddr g' a = Some m \<Longrightarrow> is_runtime t \<Longrightarrow> has_edge (add a t g') n m"
    if "wf_graph g'" "in_graph g' (Some n)" for a t g' m
    using newEdgeToAddr_grows [OF _ that, of a t "fst (newEdgeToAddrIfExists n a t g')"] by (simp_all add: add_def)
  have halt: "grows g (snd (newEdge (Some n) None TRAP_VIRTUAL_EDGE g))"
    using newEdge_grows(1) [OF _ w, of None TRAP_VIRTUAL_EDGE] by (metis eq_snd_iff in_graph_def option.simps(4))
  have jsr: "grows g (add pc SUBROUTINE_VIRTUAL_EDGE (add a JSR_EDGE g))"
    "fg_nodeByAddr g a = Some m \<Longrightarrow> has_edge (add pc SUBROUTINE_VIRTUAL_EDGE (add a JSR_EDGE g)) n m" for a m
  proof -
    have x: "grows g (add a JSR_EDGE g)" by (rule add(1) [OF assms(1) w])
    have y: "wf_graph (add a JSR_EDGE g)" "in_graph (add a JSR_EDGE g) (Some n)" using x assms(1) grows_in_graph [OF x w] by (auto simp: grows_def)
    show "grows g (add pc SUBROUTINE_VIRTUAL_EDGE (add a JSR_EDGE g))" using grows_trans [OF x add(1) [OF y]] .
    show "fg_nodeByAddr g a = Some m \<Longrightarrow> has_edge (add pc SUBROUTINE_VIRTUAL_EDGE (add a JSR_EDGE g)) n m"
      using has_edge_grows [OF add(1) [OF y]] add(2) [OF assms(1) w, of a m JSR_EDGE] by (simp add: is_runtime_def)
  qed
  let ?body = "if inst_id v = I_BR then br_edges n pc v g
            else if inst_id v = I_JSR then Inr (add pc SUBROUTINE_VIRTUAL_EDGE (add (pc + inst_imm11 v) JSR_EDGE g))
            else if inst_id v = I_JMP \<or> inst_id v = I_JSRR then Inr (if \<not> isRET v then g\<lparr>fg_haveJMPOrJSRR := True\<rparr> else g)
            else if inst_id v = I_TRAP then
              Inr (if inst_vec8 v \<in> returning_traps then add pc TRAP_VIRTUAL_EDGE g else snd (newEdge (Some n) None TRAP_VIRTUAL_EDGE g))
            else Inr (add pc NORMAL_EDGE g)"
  have flag: "grows g (g\<lparr>fg_haveJMPOrJSRR := True\<rparr>)"
    using same_view_wf [of g "g\<lparr>fg_haveJMPOrJSRR := True\<rparr>"] by (auto simp: grows_def wf_graph_def)
  have body: "returns ?body (\<lambda>g'. grows g g' \<and> (\<forall>q m. q \<in> static_succ v \<longrightarrow> fg_nodeByAddr g q = Some m \<longrightarrow> has_edge g' n m))"
  proof (cases "inst_id v = I_BR")
    case True
    then have "static_succ v = (if inst_cc v \<noteq> 7 then {pc} else {}) \<union> (if inst_cc v \<noteq> 0 then {pc + inst_imm9 v} else {})"
      by (simp add: static_succ_def pc_def Let_def)
    then show ?thesis using br_edges_returns [OF assms(1) w, of pc v] True by (simp only: if_True simp_thms)
  next
    case False
    then show ?thesis
      using add [OF assms(1) w] jsr halt flag grows_refl
      by (auto simp: static_succ_def pc_def Let_def is_runtime_def split: if_splits)
  qed
  have fin: "grows g (f g') \<and> linked (f g') v" if g': "grows g g' \<and> (\<forall>q m. q \<in> static_succ v \<longrightarrow> fg_nodeByAddr g q = Some m \<longrightarrow> has_edge g' n m)"
    and f: "grows g' (f g')" for g' f
  proof -
    have "linked g' v" using g' assms(2) by (auto simp: linked_def grows_def)
    then show ?thesis using grows_trans [OF _ f] linked_grows [OF f] g' by blast
  qed
  have eq: "setNodeOutEdgesWithInst v g = rbind ?body (\<lambda>g. Inr (if inst_id v = I_JSR \<or> inst_id v = I_JSRR then mark_RET_point pc g else g))"
    using assms(2) by (simp add: setNodeOutEdgesWithInst_def inst_node_def Let_def pc_def add_def)
  show ?thesis
    unfolding eq
  proof (rule returns_bindI [OF body], unfold returns_simps)
    fix g'
    assume g': "grows g g' \<and> (\<forall>q m. q \<in> static_succ v \<longrightarrow> fg_nodeByAddr g q = Some m \<longrightarrow> has_edge g' n m)"
    show "grows g (if inst_id v = I_JSR \<or> inst_id v = I_JSRR then mark_RET_point pc g' else g') \<and>
      linked (if inst_id v = I_JSR \<or> inst_id v = I_JSRR then mark_RET_point pc g' else g') v"
      using fin [OF g', of "\<lambda>g. if inst_id v = I_JSR \<or> inst_id v = I_JSRR then mark_RET_point pc g else g"]
        mark_RET_point_grows grows_refl by simp
  qed
qed

subsection \<open>The whole construction\<close>

definition consistent_mem :: "(addr \<times> mem_value) list \<Rightarrow> bool" where
  "consistent_mem mem \<longleftrightarrow> distinct (map fst mem) \<and> (\<forall>(a, v) \<in> set mem. user_inst v \<longrightarrow> mv_addr v = a)"

definition has_node :: "graph \<Rightarrow> mem_value \<Rightarrow> bool" where
  "has_node g v \<longleftrightarrow> (\<exists>n. fg_nodeByAddr g (mv_addr v) = Some n \<and> n < length (fg_nodes g) \<and> nd_inst (fg_nodes g ! n) = v)"

lemma has_node_grows: "grows g g' \<Longrightarrow> has_node g v \<Longrightarrow> has_node g' v"
  by (auto simp: grows_def has_node_def)

lemma add_user_node_step:
  assumes "wf_graph g" "user_inst v \<Longrightarrow> mv_addr v = a" "length (fg_nodes g) < 10000"
  shows "returns (add_user_node (a, v) g) (\<lambda>g'. wf_graph g' \<and> (user_inst v \<longrightarrow> has_node g' v) \<and>
    (\<forall>w. mv_addr w \<noteq> a \<longrightarrow> has_node g w \<longrightarrow> has_node g' w) \<and> length (fg_nodes g') \<le> Suc (length (fg_nodes g)))"
proof (cases "user_inst v")
  case True
  obtain n g' where n: "newNode a v g = Inr (n, g')"
    using assms(2) [OF True] assms(3) by (simp add: newNode_def assert_that_def Let_def)
  note w = newNode_wf [OF n assms(1)]
  have "has_node g' v" using w by (simp add: has_node_def fresh_node_def)
  moreover have "has_node g' x" if "mv_addr x \<noteq> a" "has_node g x" for x
    using that w by (auto simp: has_node_def nth_append)
  ultimately show ?thesis using n w True by (simp add: add_user_node_def)
next
  case False
  then show ?thesis using assms(1) by (simp add: add_user_node_def)
qed

lemma add_user_nodes:
  assumes "wf_graph g" "consistent_mem mem" "length (fg_nodes g) + length mem \<le> 10000"
  shows "returns (rfold add_user_node mem g) (\<lambda>g'. wf_graph g' \<and> (\<forall>(a, v) \<in> set mem. user_inst v \<longrightarrow> has_node g' v) \<and>
    (\<forall>w. mv_addr w \<notin> fst ` set mem \<longrightarrow> has_node g w \<longrightarrow> has_node g' w))"
  using assms
proof (induction mem arbitrary: g)
  case (Cons x mem)
  obtain a v where x: "x = (a, v)" by fastforce
  have c: "consistent_mem mem" "user_inst v \<Longrightarrow> mv_addr v = a" "a \<notin> fst ` set mem"
    using Cons.prems(2) by (auto simp: consistent_mem_def x image_iff)
  have l: "length (fg_nodes g) < 10000" using Cons.prems(3) by simp
  show ?case
    unfolding rfold.simps x
  proof (rule returns_bindI [OF add_user_node_step [OF Cons.prems(1) c(2) l]], assumption, clarify)
    fix g'
    assume g': "wf_graph g'" "user_inst v \<longrightarrow> has_node g' v" "\<forall>w. mv_addr w \<noteq> a \<longrightarrow> has_node g w \<longrightarrow> has_node g' w"
      "length (fg_nodes g') \<le> Suc (length (fg_nodes g))"
    have "length (fg_nodes g') + length mem \<le> 10000" using g'(4) Cons.prems(3) by simp
    from Cons.IH [OF g'(1) c(1) this] show "returns (rfold add_user_node mem g') (\<lambda>g'. wf_graph g' \<and>
        (\<forall>(a, v) \<in> set ((a, v) # mem). user_inst v \<longrightarrow> has_node g' v) \<and>
        (\<forall>w. mv_addr w \<notin> fst ` set ((a, v) # mem) \<longrightarrow> has_node g w \<longrightarrow> has_node g' w))"
      by (rule returns_weaken) (use g'(2,3) c(2,3) in auto)
  qed
qed simp

lemma link_user_nodes:
  assumes "wf_graph g" "\<forall>(a, v) \<in> set mem. user_inst v \<longrightarrow> has_node g v"
  shows "returns (rfold link_user_node mem g) (\<lambda>g'. grows g g' \<and> (\<forall>(a, v) \<in> set mem. user_inst v \<longrightarrow> linked g' v))"
  using assms
proof (induction mem arbitrary: g)
  case Nil
  then show ?case by (simp add: grows_refl)
next
  case (Cons x mem)
  obtain a v where x: "x = (a, v)" by fastforce
  have one: "returns (link_user_node (a, v) g) (\<lambda>g'. grows g g' \<and> (user_inst v \<longrightarrow> linked g' v))"
  proof (cases "user_inst v")
    case True
    then obtain n where "fg_nodeByAddr g (mv_addr v) = Some n" using Cons.prems(2) by (auto simp: x has_node_def)
    from setNodeOutEdges_returns [OF Cons.prems(1) this] show ?thesis using True by (auto simp: link_user_node_def elim!: returns_weaken)
  next
    case False
    then show ?thesis by (simp add: link_user_node_def grows_refl)
  qed
  show ?case
    unfolding rfold.simps x
  proof (rule returns_bindI [OF one], clarify)
    fix g' assume g': "grows g g'" "user_inst v \<longrightarrow> linked g' v"
    have "wf_graph g'" "\<forall>(a, v) \<in> set mem. user_inst v \<longrightarrow> has_node g' v"
      using g'(1) Cons.prems has_node_grows [OF g'(1)] by (auto simp: grows_def)
    from Cons.IH [OF this] show "returns (rfold link_user_node mem g') (\<lambda>g'. grows g g' \<and> (\<forall>(a, v) \<in> set ((a, v) # mem). user_inst v \<longrightarrow> linked g' v))"
      by (rule returns_weaken) (use g' grows_trans linked_grows in \<open>auto; blast\<close>)
  qed
qed

lemma fold_upd_edge_grows: "grows g (fold (\<lambda>e. upd_edge e (\<lambda>x. x\<lparr>ed_LIKELY_UNCOVERABLE := True\<rparr>)) es g)"
proof (induction es arbitrary: g)
  case (Cons e es)
  have "grows g (upd_edge e (\<lambda>x. x\<lparr>ed_LIKELY_UNCOVERABLE := True\<rparr>) g)" by (rule upd_edge_grows) simp_all
  from grows_trans [OF this Cons.IH] show ?case by simp
qed (simp add: grows_refl)

lemma constructInitPCEdge_grows:
  assumes "wf_graph g"
  shows "grows g (constructInitPCEdge pc g)"
proof (cases "fg_nodeByAddr g pc")
  case None
  then show ?thesis by (simp add: constructInitPCEdge_def getNodeByAddr_def grows_refl)
next
  case (Some n)
  obtain e g' where e: "newEdge None (Some n) INIT_PC_ENTRY_EDGE g = (e, g')" by fastforce
  have w: "in_graph g None" by (simp add: in_graph_def)
  note v = newEdge_grows [OF e w byAddr_in_graph [OF assms Some]]
  have "grows g' (g'\<lparr>fg_initPCEdge := Some e\<rparr>)"
    using same_view_wf [of g' "g'\<lparr>fg_initPCEdge := Some e\<rparr>"] v(2,3) by (simp add: grows_def is_runtime_def)
  then show ?thesis using grows_trans [OF v(1)] Some e by (simp add: constructInitPCEdge_def getNodeByAddr_def)
qed

lemma FlowGraph_returns:
  assumes "consistent_mem mem" "length mem \<le> 10000"
  shows "returns (FlowGraph mem pc) (\<lambda>g. wf_graph g \<and> (\<forall>(a, v) \<in> set mem. user_inst v \<longrightarrow> has_node g v \<and> linked g v))"
  unfolding FlowGraph_def constructFromInitMem_def rbind_assoc
proof (rule returns_bindI [OF add_user_nodes [OF _ assms(1)]])
  show "wf_graph (empty_graph pc)" by (simp add: empty_graph_def wf_graph_def)
  show "length (fg_nodes (empty_graph pc)) + length mem \<le> 10000" using assms(2) by (simp add: empty_graph_def)
  fix g
  assume g: "wf_graph g \<and> (\<forall>(a, v) \<in> set mem. user_inst v \<longrightarrow> has_node g v) \<and>
    (\<forall>w. mv_addr w \<notin> fst ` set mem \<longrightarrow> has_node (empty_graph pc) w \<longrightarrow> has_node g w)"
  show "returns (rbind (rfold link_user_node mem g) (\<lambda>g. let g = constructInitPCEdge pc g in
      Inr (if \<not> fg_haveJMPOrJSRR g then trimBREdges g else g)))
    (\<lambda>g. wf_graph g \<and> (\<forall>(a, v) \<in> set mem. user_inst v \<longrightarrow> has_node g v \<and> linked g v))"
  proof (rule returns_bindI [OF link_user_nodes])
    fix g' assume g': "grows g g' \<and> (\<forall>(a, v) \<in> set mem. user_inst v \<longrightarrow> linked g' v)"
    let ?c = "constructInitPCEdge pc g'" and ?h = "if \<not> fg_haveJMPOrJSRR (constructInitPCEdge pc g') then trimBREdges (constructInitPCEdge pc g') else constructInitPCEdge pc g'"
    have w: "wf_graph g'" using g g' by (simp add: grows_def)
    have "grows ?c ?h" by (simp add: trimBREdges_def fold_upd_edge_grows grows_refl)
    then have h: "grows g' ?h" using grows_trans [OF constructInitPCEdge_grows [OF w]] by blast
    then have "wf_graph ?h" using w by (simp add: grows_def)
    then show "returns (let g = ?c in Inr (if \<not> fg_haveJMPOrJSRR g then trimBREdges g else g))
      (\<lambda>g. wf_graph g \<and> (\<forall>(a, v) \<in> set mem. user_inst v \<longrightarrow> has_node g v \<and> linked g v))"
      unfolding Let_def returns_simps using g g' has_node_grows [OF grows_trans [OF _ h]] linked_grows [OF h] by blast
  qed (use g in blast)+
qed

subsection \<open>Properties\<close>

definition inst_at :: "addr \<Rightarrow> 16 word \<Rightarrow> addr \<times> mem_value" where
  "inst_at a w = (a, MemValue a (Some (buildConstant w)) MEM_INST (case matchInst w of Some d \<Rightarrow> d | None \<Rightarrow> no_def))"

text \<open>Three instructions: \<open>ADD R0, R0, #1\<close>, a conditional branch back to it, and \<open>HALT\<close>.\<close>

definition demo_program :: "(addr \<times> mem_value) list" where
  "demo_program = [inst_at 0x3000 0x1021, inst_at 0x3001 0x03FE, inst_at 0x3002 0xF025]"

lemma demo_program_consistent: "consistent_mem demo_program" "length demo_program \<le> 10000"
  by (simp_all add: consistent_mem_def demo_program_def inst_at_def MemValue_def)

text \<open>
  C22: the static flow graph.  For a program of consistent addresses that is not too long, the construction returns a
  well-formed graph: the edge lists of every node are those the edges determine.  Every user instruction has a node, and for every address at which it can continue,
  if there is a node, there is a runtime edge to it.
\<close>
theorem FlowGraph_correct:
  assumes "consistent_mem mem" "length mem \<le> 10000"
  shows "\<exists>g. FlowGraph mem pc = Inr g \<and> wf_graph g \<and> (\<forall>(a, v) \<in> set mem. user_inst v \<longrightarrow>
    (\<exists>n. getNodeByAddr g a = Some n \<and> nd_inst (fg_nodes g ! n) = v \<and>
      (\<forall>q m. q \<in> static_succ v \<longrightarrow> getNodeByAddr g q = Some m \<longrightarrow>
        (\<exists>e \<in> set (nd_runtimeOutEdges (fg_nodes g ! n)). ed_to (fg_edges g ! e) = Some m))))"
proof -
  obtain g where g: "FlowGraph mem pc = Inr g" "wf_graph g" "\<And>a v. (a, v) \<in> set mem \<Longrightarrow> user_inst v \<Longrightarrow> has_node g v \<and> linked g v"
    using FlowGraph_returns [OF assms, of pc] by (auto simp: returns_def)
  have "\<exists>n. getNodeByAddr g a = Some n \<and> nd_inst (fg_nodes g ! n) = v \<and>
      (\<forall>q m. q \<in> static_succ v \<longrightarrow> getNodeByAddr g q = Some m \<longrightarrow>
        (\<exists>e \<in> set (nd_runtimeOutEdges (fg_nodes g ! n)). ed_to (fg_edges g ! e) = Some m))"
    if av: "(a, v) \<in> set mem" "user_inst v" for a v
  proof -
    have a: "mv_addr v = a" using assms(1) av by (auto simp: consistent_mem_def)
    obtain n where n: "fg_nodeByAddr g a = Some n" "n < length (fg_nodes g)" "nd_inst (fg_nodes g ! n) = v"
      using g(3) [OF av] by (auto simp: has_node_def a)
    then show ?thesis
      using g(3) [OF av] has_edge_iff [OF g(2) n(2)] by (auto simp: linked_def getNodeByAddr_def a)
  qed
  then show ?thesis using g(1,2) by blast
qed

theorem FlowGraph_correct_witness:
  "\<exists>g. FlowGraph demo_program 0x3000 = Inr g \<and> wf_graph g \<and> (\<exists>n. getNodeByAddr g 0x3001 = Some n)"
proof -
  obtain g where g: "FlowGraph demo_program 0x3000 = Inr g" "wf_graph g"
    "\<forall>(a, v) \<in> set demo_program. user_inst v \<longrightarrow> (\<exists>n. getNodeByAddr g a = Some n)"
    using FlowGraph_correct [OF demo_program_consistent, of "0x3000"] by blast
  moreover have "inst_at 0x3001 0x03FE \<in> set demo_program" "user_inst (snd (inst_at 0x3001 0x03FE))"
    by (simp_all add: demo_program_def inst_at_def user_inst_def MemValue_def)
  ultimately show ?thesis by (auto simp: inst_at_def)
qed

end
