(* ===== verification/Klc3_Path.thy ===== *)
theory Klc3_Path
  imports Klc3_FlowGraph
begin

text \<open>
  Paths in the flow graph (\<open>class Path\<close>).  A compressed path keeps its first and last edge and the
  guiding edges; the others are the only runtime edges out of their nodes and are found again when the
  path is reconstructed.  The loop of \<open>reconstructedFullPath\<close> need not end on an arbitrary list of
  edges, so it runs on fuel: \<open>None\<close> when the fuel is used up.
\<close>

subsection \<open>Operations\<close>

definition isGuidingEdge :: "graph \<Rightarrow> nat \<Rightarrow> bool res" where
  "isGuidingEdge g e =
     (let edge = fg_edges g ! e in
      if edge_rank (ed_type edge) > edge_rank TYPE_RUNTIME_COUNT then Inr True
      else case ed_from edge of
          None \<Rightarrow> Inl (NullDeref ''from()'')
        | Some n \<Rightarrow>
            if nd_uniqueRuntimeOutEdge (fg_nodes g ! n) = None then Inr True
            else Inr (inst_id (nd_inst (fg_nodes g ! n)) = I_JMP \<or> inst_id (nd_inst (fg_nodes g ! n)) = I_JSRR))"

definition path_src :: "graph \<Rightarrow> nat list \<Rightarrow> nat option" where
  "path_src g es = (case es of [] \<Rightarrow> None | e # _ \<Rightarrow> ed_from (fg_edges g ! e))"

definition path_dest :: "graph \<Rightarrow> nat list \<Rightarrow> nat option" where
  "path_dest g es = (if es = [] then None else ed_to (fg_edges g ! last es))"

definition path_append :: "nat list \<Rightarrow> nat \<Rightarrow> nat list" where
  "path_append es e = es @ [e]"

fun keep_edges :: "graph \<Rightarrow> nat \<Rightarrow> nat \<Rightarrow> nat list \<Rightarrow> nat list res" where
  "keep_edges g front back [] = Inr []"
| "keep_edges g front back (e # es) =
     rbind (if e = front \<or> e = back then Inr True else isGuidingEdge g e) (\<lambda>keep.
     rbind (keep_edges g front back es) (\<lambda>res. Inr (if keep then e # res else res)))"

definition path_compress :: "graph \<Rightarrow> nat list \<Rightarrow> nat list res" where
  "path_compress g es = (if es = [] then Inr [] else keep_edges g (hd es) (last es) es)"

definition appendCompressed :: "graph \<Rightarrow> nat list \<Rightarrow> nat \<Rightarrow> bool \<Rightarrow> (bool \<times> nat list) res" where
  "appendCompressed g es e isLast =
     rbind (if isLast \<or> es = [] then Inr True else isGuidingEdge g e) (\<lambda>b.
     Inr (if b then (True, es @ [e]) else (False, es)))"

fun reconstruct_loop :: "graph \<Rightarrow> nat \<Rightarrow> nat option \<Rightarrow> nat list \<Rightarrow> nat list res option" where
  "reconstruct_loop g fuel curNode [] = Some (Inr [])"
| "reconstruct_loop g 0 curNode (it # its) = None"
| "reconstruct_loop g (Suc fuel) curNode (it # its) = (case curNode of
       None \<Rightarrow> Some (Inl (AssertFailed ''Dead end''))
     | Some n \<Rightarrow>
         if it \<in> set (nd_allOutEdges (fg_nodes g ! n)) then
           map_option (\<lambda>r. rbind r (\<lambda>res. Inr (it # res))) (reconstruct_loop g fuel (ed_to (fg_edges g ! it)) its)
         else case nd_uniqueRuntimeOutEdge (fg_nodes g ! n) of
             None \<Rightarrow> Some (Inl (AssertFailed ''Can not reconstruct the path''))
           | Some u \<Rightarrow> map_option (\<lambda>r. rbind r (\<lambda>res. Inr (u # res))) (reconstruct_loop g fuel (ed_to (fg_edges g ! u)) (it # its)))"

definition reconstructedFullPath :: "graph \<Rightarrow> nat \<Rightarrow> nat list \<Rightarrow> nat list res option" where
  "reconstructedFullPath g fuel es = (case es of
       [] \<Rightarrow> Some (Inr [])
     | e # its \<Rightarrow> map_option (\<lambda>r. rbind r (\<lambda>res. Inr (e # res))) (reconstruct_loop g fuel (ed_to (fg_edges g ! e)) its))"

subsection \<open>Paths that the program can take\<close>

text \<open>Consecutive runtime edges from a node.\<close>

fun runtime_path :: "graph \<Rightarrow> nat option \<Rightarrow> nat list \<Rightarrow> bool" where
  "runtime_path g v [] \<longleftrightarrow> True"
| "runtime_path g v (e # es) \<longleftrightarrow> v \<noteq> None \<and> e < length (fg_edges g) \<and> is_runtime (ed_type (fg_edges g ! e)) \<and>
     ed_from (fg_edges g ! e) = v \<and> runtime_path g (ed_to (fg_edges g ! e)) es"

definition guiding :: "graph \<Rightarrow> nat \<Rightarrow> bool" where
  "guiding g e \<longleftrightarrow> isGuidingEdge g e = Inr True"

lemma runtime_guiding:
  assumes "is_runtime (ed_type (fg_edges g ! e))" "ed_from (fg_edges g ! e) = Some n"
  shows "isGuidingEdge g e = Inr (guiding g e)" "\<not> guiding g e \<Longrightarrow> nd_uniqueRuntimeOutEdge (fg_nodes g ! n) \<noteq> None"
proof -
  have "\<not> edge_rank (ed_type (fg_edges g ! e)) > edge_rank TYPE_RUNTIME_COUNT" using assms(1) by (simp add: is_runtime_def)
  then show "isGuidingEdge g e = Inr (guiding g e)" "\<not> guiding g e \<Longrightarrow> nd_uniqueRuntimeOutEdge (fg_nodes g ! n) \<noteq> None"
    using assms(2) by (auto simp: isGuidingEdge_def guiding_def Let_def split: if_splits)
qed

lemma wf_out:
  assumes "wf_graph g" "n < length (fg_nodes g)"
  shows "e \<in> set (nd_allOutEdges (fg_nodes g ! n)) \<longleftrightarrow> e < length (fg_edges g) \<and> ed_from (fg_edges g ! e) = Some n"
    and "nd_uniqueRuntimeOutEdge (fg_nodes g ! n) = Some u \<Longrightarrow> e < length (fg_edges g) \<Longrightarrow> ed_from (fg_edges g ! e) = Some n \<Longrightarrow>
      is_runtime (ed_type (fg_edges g ! e)) \<Longrightarrow> e = u"
proof -
  have ok: "node_ok g n" using assms by (simp add: wf_graph_def)
  then show "e \<in> set (nd_allOutEdges (fg_nodes g ! n)) \<longleftrightarrow> e < length (fg_edges g) \<and> ed_from (fg_edges g ! e) = Some n"
    by (auto simp: node_ok_def Let_def out_of_def)
  assume "nd_uniqueRuntimeOutEdge (fg_nodes g ! n) = Some u" and e: "e < length (fg_edges g)" "ed_from (fg_edges g ! e) = Some n"
    "is_runtime (ed_type (fg_edges g ! e))"
  then have "runtime_of g (out_of g n) = [u]" using ok by (auto simp: node_ok_def Let_def unique_of_def split: list.splits)
  moreover have "e \<in> set (runtime_of g (out_of g n))" using e by (simp add: runtime_of_def out_of_def)
  ultimately show "e = u" by simp
qed

lemma wf_edge: "wf_graph g \<Longrightarrow> e < length (fg_edges g) \<Longrightarrow> in_graph g (ed_from (fg_edges g ! e)) \<and> in_graph g (ed_to (fg_edges g ! e))"
  by (simp add: wf_graph_def)

lemma runtime_path_mem:
  "runtime_path g v es \<Longrightarrow> e \<in> set es \<Longrightarrow> e < length (fg_edges g) \<and> is_runtime (ed_type (fg_edges g ! e)) \<and> ed_from (fg_edges g ! e) \<noteq> None"
  by (induction es arbitrary: v) auto

text \<open>Reconstruction finds the omitted edges again, whichever guiding edges and further edges were kept.\<close>

lemma reconstruct_kept:
  assumes "wf_graph g" "runtime_path g v es" "length es \<le> fuel" "\<forall>e \<in> set es. guiding g e \<longrightarrow> K e" "es \<noteq> [] \<Longrightarrow> K (last es)"
  shows "reconstruct_loop g fuel v (filter K es) = Some (Inr es)"
  using assms(2-5)
proof (induction es arbitrary: v fuel)
  case (Cons e es)
  obtain n where n: "v = Some n" and e: "e < length (fg_edges g)" "is_runtime (ed_type (fg_edges g ! e))"
    "ed_from (fg_edges g ! e) = Some n" and rest: "runtime_path g (ed_to (fg_edges g ! e)) es"
    using Cons.prems(1) by auto
  have nb: "n < length (fg_nodes g)" using wf_edge [OF assms(1) e(1)] e(3) by (simp add: in_graph_def)
  obtain k where k: "fuel = Suc k" "length es \<le> k" using Cons.prems(2) by (cases fuel) auto
  have ih: "reconstruct_loop g k (ed_to (fg_edges g ! e)) (filter K es) = Some (Inr es)"
    using Cons.IH [OF rest k(2)] Cons.prems(3,4) by (cases es) auto
  show ?case
  proof (cases "K e")
    case True
    then show ?thesis using wf_out(1) [OF assms(1) nb] e ih n k(1) by simp
  next
    case False
    then have ng: "\<not> guiding g e" using Cons.prems(3) by auto
    obtain u where u: "nd_uniqueRuntimeOutEdge (fg_nodes g ! n) = Some u" using runtime_guiding(2) [OF e(2,3) ng] by auto
    have "e = u" using wf_out(2) [OF assms(1) nb u e(1,3,2)] .
    have "es \<noteq> []" "K (last es)" using Cons.prems(4) False by (auto split: if_splits)
    then obtain x xs where x: "filter K es = x # xs" by (metis filter_empty_conv last_in_set list.exhaust)
    have "x \<in> set (filter K es)" unfolding x by simp
    then have "x \<in> set es" "K x" by simp_all
    have "x \<notin> set (nd_allOutEdges (fg_nodes g ! n))"
    proof
      assume "x \<in> set (nd_allOutEdges (fg_nodes g ! n))"
      then have "x = u"
        using wf_out(1) [OF assms(1) nb] wf_out(2) [OF assms(1) nb u] runtime_path_mem [OF rest \<open>x \<in> set es\<close>] by blast
      then show False using \<open>K x\<close> False \<open>e = u\<close> by simp
    qed
    then show ?thesis using ih n k(1) x u False \<open>e = u\<close> by simp
  qed
qed simp

lemma keep_edges_filter:
  assumes "\<forall>e \<in> set es. e = front \<or> e = back \<or> isGuidingEdge g e = Inr (guiding g e)"
  shows "keep_edges g front back es = Inr (filter (\<lambda>e. e = front \<or> e = back \<or> guiding g e) es)"
  using assms
proof (induction es)
  case (Cons e es)
  have "(if e = front \<or> e = back then Inr True else isGuidingEdge g e) = Inr (e = front \<or> e = back \<or> guiding g e)"
    using Cons.prems by (cases "e = front \<or> e = back") (simp_all, blast)
  then show ?case using Cons by (simp only: keep_edges.simps rbind_simps) simp
qed simp

text \<open>A path as the coverage tracker records it: edge by edge, the last one marked.\<close>

fun record_path :: "graph \<Rightarrow> nat list \<Rightarrow> nat list \<Rightarrow> nat list res" where
  "record_path g p [] = Inr p"
| "record_path g p [e] = rbind (appendCompressed g p e True) (\<lambda>(b, p). Inr p)"
| "record_path g p (e # es) = rbind (appendCompressed g p e False) (\<lambda>(b, p). record_path g p es)"

lemma record_path_filter:
  assumes "p \<noteq> []" "es \<noteq> []" "\<forall>e \<in> set es. isGuidingEdge g e = Inr (guiding g e)"
  shows "record_path g p es = Inr (p @ filter (guiding g) (butlast es) @ [last es])"
  using assms
proof (induction es arbitrary: p rule: induct_list012)
  case (3 e f es)
  have "appendCompressed g p e False = Inr (guiding g e, if guiding g e then p @ [e] else p)"
    using 3 by (simp add: appendCompressed_def)
  then show ?case using "3.IH"(2) [of "if guiding g e then p @ [e] else p"] "3.prems" by simp
qed (simp_all add: appendCompressed_def)

subsection \<open>Properties\<close>

lemma demo_path:
  obtains g where "FlowGraph demo_program 0x3000 = Inr g" "wf_graph g" "runtime_path g (ed_to (fg_edges g ! 4)) [0, 2, 0, 1, 3]"
proof -
  obtain g where g: "FlowGraph demo_program 0x3000 = Inr g" "wf_graph g"
    using FlowGraph_returns [OF demo_program_consistent, of "0x3000"] by (auto simp: returns_def)
  have "case FlowGraph demo_program 0x3000 of Inr g \<Rightarrow> runtime_path g (ed_to (fg_edges g ! 4)) [0, 2, 0, 1, 3] | Inl _ \<Rightarrow> False"
    by code_simp
  with g show ?thesis by (intro that) simp_all
qed

text \<open>
  Compressing a path and reconstructing it gives the path back.  For consecutive runtime edges that
  begin anywhere, for instance with the edge to the initial program counter, \<open>compress\<close> returns, and \<open>reconstructedFullPath\<close> ends, in no more
  rounds than the path has edges, with the original path.
\<close>
theorem path_compress_roundtrip:
  assumes "wf_graph g" "runtime_path g (ed_to (fg_edges g ! e)) es" "length es \<le> fuel"
  shows "\<exists>c. path_compress g (e # es) = Inr c \<and> reconstructedFullPath g fuel c = Some (Inr (e # es))"
proof -
  let ?K = "\<lambda>x. x = e \<or> x = last (e # es) \<or> guiding g x"
  have "isGuidingEdge g x = Inr (guiding g x)" if "x \<in> set es" for x
    using runtime_path_mem [OF assms(2) that] runtime_guiding(1) by fastforce
  then have c: "path_compress g (e # es) = Inr (e # filter ?K es)"
    using keep_edges_filter [of "e # es" e "last (e # es)" g] by (simp add: path_compress_def del: last.simps)
  have "reconstruct_loop g fuel (ed_to (fg_edges g ! e)) (filter ?K es) = Some (Inr es)"
    by (rule reconstruct_kept [OF assms]) auto
  then show ?thesis using c by (simp add: reconstructedFullPath_def)
qed

theorem path_compress_roundtrip_witness:
  "\<exists>g c. FlowGraph demo_program 0x3000 = Inr g \<and> path_compress g [4, 0, 2, 0, 1, 3] = Inr c \<and>
    reconstructedFullPath g 5 c = Some (Inr [4, 0, 2, 0, 1, 3])"
proof -
  obtain g where g: "FlowGraph demo_program 0x3000 = Inr g" "wf_graph g" "runtime_path g (ed_to (fg_edges g ! 4)) [0, 2, 0, 1, 3]"
    by (rule demo_path)
  have "\<exists>c. path_compress g [4, 0, 2, 0, 1, 3] = Inr c \<and> reconstructedFullPath g 5 c = Some (Inr [4, 0, 2, 0, 1, 3])"
    by (rule path_compress_roundtrip [OF g(2,3)]) simp
  with g(1) show ?thesis by blast
qed

text \<open>
  C24: the path recorded edge by edge.  When the edges of a run that ends are recorded with \<open>appendCompressed\<close>, the last one
  marked as such, and the last edge is not taken before, reconstruction gives the edges of the run back.
\<close>
theorem recorded_path_roundtrip:
  assumes "wf_graph g" "runtime_path g (ed_to (fg_edges g ! e)) es" "es \<noteq> []" "last es \<notin> set (butlast es)" "length es \<le> fuel"
  shows "\<exists>c. record_path g [] (e # es) = Inr c \<and> reconstructedFullPath g fuel c = Some (Inr (e # es))"
proof -
  let ?K = "\<lambda>x. x = last es \<or> guiding g x"
  have g: "\<forall>x \<in> set es. isGuidingEdge g x = Inr (guiding g x)"
    using runtime_path_mem [OF assms(2)] runtime_guiding(1) by fastforce
  have "record_path g [] (e # es) = record_path g [e] es"
    using assms(3) by (cases es) (simp_all add: appendCompressed_def)
  also have "\<dots> = Inr (e # filter (guiding g) (butlast es) @ [last es])" using record_path_filter [OF _ assms(3) g, of "[e]"] by simp
  also have "filter (guiding g) (butlast es) @ [last es] = filter ?K es"
  proof -
    have "filter ?K (butlast es @ [last es]) = filter (guiding g) (butlast es) @ [last es]"
      using assms(4) by (auto intro!: filter_cong)
    then show ?thesis using assms(3) by simp
  qed
  finally have c: "record_path g [] (e # es) = Inr (e # filter ?K es)" .
  have "reconstruct_loop g fuel (ed_to (fg_edges g ! e)) (filter ?K es) = Some (Inr es)"
    by (rule reconstruct_kept [OF assms(1,2,5)]) auto
  then show ?thesis using c by (simp add: reconstructedFullPath_def)
qed

theorem recorded_path_roundtrip_witness:
  "\<exists>g c. FlowGraph demo_program 0x3000 = Inr g \<and> record_path g [] [4, 0, 2, 0, 1, 3] = Inr c \<and>
    reconstructedFullPath g 5 c = Some (Inr [4, 0, 2, 0, 1, 3])"
proof -
  obtain g where g: "FlowGraph demo_program 0x3000 = Inr g" "wf_graph g" "runtime_path g (ed_to (fg_edges g ! 4)) [0, 2, 0, 1, 3]"
    by (rule demo_path)
  have "\<exists>c. record_path g [] [4, 0, 2, 0, 1, 3] = Inr c \<and> reconstructedFullPath g 5 c = Some (Inr [4, 0, 2, 0, 1, 3])"
    by (rule recorded_path_roundtrip [OF g(2,3)]) simp_all
  with g(1) show ?thesis by blast
qed

end
