(* ===== verification/Klc3_Coverage.thy ===== *)
theory Klc3_Coverage
  imports Klc3_Path Complex_Main
begin

text \<open>
  The coverage tracker (\<open>lib/klc3/FlowAnalysis/CoverageTracker.cpp\<close>), which counts the runtime edges and those
  covered, adds edges that are found during execution and records the path of a state.  The quotient that
  \<open>calculateCoverage\<close> returns is a rational number instead of a \<open>float\<close>, and \<open>None\<close> where the \<open>float\<close> is not a number.
\<close>

record tracker =
  ct_coveredEdgeCount :: int
  ct_totalEdgeToCover :: int

definition CoverageTracker :: "graph \<Rightarrow> tracker res" where
  "CoverageTracker g = rfold (\<lambda>x ct.
     if is_runtime (ed_type x) then
       rbind (assert_that (\<not> ed_covered x) ''!edge->covered'') (\<lambda>_.
       Inr (ct\<lparr>ct_totalEdgeToCover := ct_totalEdgeToCover ct + 1\<rparr>))
     else Inr ct) (fg_edges g) \<lparr>ct_coveredEdgeCount = 0, ct_totalEdgeToCover = 0\<rparr>"

definition newEdgeCallback :: "edge_type \<Rightarrow> tracker \<Rightarrow> tracker" where
  "newEdgeCallback t ct = (if is_runtime t then ct\<lparr>ct_totalEdgeToCover := ct_totalEdgeToCover ct + 1\<rparr> else ct)"

definition calculateCoverage :: "tracker \<Rightarrow> rat option" where
  "calculateCoverage ct = (if ct_totalEdgeToCover ct = 0 then None
     else Some (of_int (ct_coveredEdgeCount ct) / of_int (ct_totalEdgeToCover ct)))"

definition edgeNotCovered :: "edge \<Rightarrow> bool" where
  "edgeNotCovered x \<longleftrightarrow> \<not> ed_covered x"

definition appendEdgeCoverage :: "nat \<Rightarrow> graph \<times> tracker \<times> state \<Rightarrow> (graph \<times> tracker \<times> state) res" where
  "appendEdgeCoverage e = (\<lambda>(g, ct, s).
     rbind (assert_that (is_runtime (ed_type (fg_edges g ! e))) ''Unexpected edge type'') (\<lambda>_.
     let (g, ct, s) = (if \<not> ed_covered (fg_edges g ! e)
           then (upd_edge e (\<lambda>x. x\<lparr>ed_covered := True\<rparr>) g,
                 ct\<lparr>ct_coveredEdgeCount := ct_coveredEdgeCount ct + 1\<rparr>, s\<lparr>st_coveredNewEdge := True\<rparr>)
           else (g, ct, s)) in
     rbind (appendCompressed g (st_statePath s) e (st_status s \<noteq> NORMAL)) (\<lambda>(b, p).
     Inr (g, ct, s\<lparr>st_statePath := p\<rparr>))))"

definition prepareEdgeToPCNode :: "graph \<times> tracker \<times> state \<Rightarrow> (graph \<times> tracker \<times> state) res" where
  "prepareEdgeToPCNode = (\<lambda>(g, ct, s). case fst (st_latestNonOSInst s) of
       None \<Rightarrow> Inl (NullDeref ''executedInst'')
     | Some i \<Rightarrow> (case getNodeByAddr g (st_pc s) of
         None \<Rightarrow> Inr (g, ct, s)
       | Some pcNode \<Rightarrow>
           rbind (inst_node g i) (\<lambda>n.
           if first_edge g (\<lambda>x. ed_to x = Some pcNode) (nd_runtimeOutEdges (fg_nodes g ! n)) \<noteq> None then Inr (g, ct, s)
           else if inst_id i = I_JMP \<or> inst_id i = I_JSRR then
             let t = (if inst_id i = I_JMP then if inst_baseR i = R_R7 then RET_EDGE else JMP_EDGE else JSRR_EDGE);
                 (e, g) = newEdge (Some n) (Some pcNode) t g
             in Inr (g, newEdgeCallback t ct, s)
           else Inl (AssertFailed ''Not JMP/JSRR node but no edge to PC exists''))))"

text \<open>For \<open>INSTANT_HALT\<close> the edge to the halting instruction is covered too.\<close>

definition cover_previous :: "graph \<times> tracker \<times> state \<Rightarrow> (graph \<times> tracker \<times> state) res" where
  "cover_previous = (\<lambda>(g, ct, s). case st_latestNonOSInst s of
       (Some i, Some j) \<Rightarrow>
         rbind (inst_node g j) (\<lambda>n. rbind (inst_node g i) (\<lambda>t.
         case first_edge g (\<lambda>x. ed_to x = Some t) (nd_runtimeOutEdges (fg_nodes g ! n)) of
           Some e \<Rightarrow> appendEdgeCoverage e (g, ct, s)
         | None \<Rightarrow> Inr (g, ct, s)))
     | (None, Some j) \<Rightarrow> Inl (NullDeref ''latestNonOSInst[0]'')
     | _ \<Rightarrow> Inr (g, ct, s))"

definition updateGraphAndCoverage :: "graph \<times> tracker \<times> state \<Rightarrow> (graph \<times> tracker \<times> state) res" where
  "updateGraphAndCoverage = (\<lambda>(g, ct, s).
     if st_status s = BROKEN then Inr (g, ct, s)
     else rbind (getJustCoveredEdge g s) (\<lambda>coveredEdge. case coveredEdge of
         None \<Rightarrow> Inr (g, ct, s)
       | Some e \<Rightarrow>
           if st_status s = HALTED then
             rbind (appendEdgeCoverage e (g, ct, s)) (\<lambda>(g, ct, s).
             case fst (st_latestInst s) of
               Some i \<Rightarrow> if mv_sourceContent i = ''INSTANT_HALT'' then cover_previous (g, ct, s) else Inr (g, ct, s)
             | None \<Rightarrow> Inr (g, ct, s))
           else rbind (appendEdgeCoverage e (g, ct, s)) prepareEdgeToPCNode))"

subsection \<open>The counters\<close>

definition count_edges :: "(edge \<Rightarrow> bool) \<Rightarrow> graph \<Rightarrow> int" where
  "count_edges P g = int (length (filter P (fg_edges g)))"

definition counts_ok :: "graph \<times> tracker \<times> 'a \<Rightarrow> bool" where
  "counts_ok c \<longleftrightarrow> (case c of (g, ct, s) \<Rightarrow>
     ct_totalEdgeToCover ct = count_edges (\<lambda>x. is_runtime (ed_type x)) g \<and>
     ct_coveredEdgeCount ct = count_edges (\<lambda>x. is_runtime (ed_type x) \<and> ed_covered x) g)"

lemma filter_update:
  assumes "i < length xs"
  shows "int (length (filter P (xs[i := x]))) = int (length (filter P xs)) - of_bool (P (xs ! i)) + of_bool (P x)"
  using assms
proof (induction xs arbitrary: i)
  case (Cons y ys)
  then show ?case by (cases i) auto
qed simp

lemma count_update:
  "e < length (fg_edges g) \<Longrightarrow> count_edges P (upd_edge e f g) = count_edges P g - of_bool (P (fg_edges g ! e)) + of_bool (P (f (fg_edges g ! e)))"
  by (simp add: count_edges_def upd_edge_def filter_update)

lemma CoverageTracker_counts:
  assumes "CoverageTracker g = Inr ct"
  shows "counts_ok (g, ct, s)"
proof -
  have "rfold (\<lambda>x ct. if is_runtime (ed_type x) then
       rbind (assert_that (\<not> ed_covered x) ''!edge->covered'') (\<lambda>_.
       Inr (ct\<lparr>ct_totalEdgeToCover := ct_totalEdgeToCover ct + 1\<rparr>)) else Inr ct) es ct0 = Inr ct1 \<Longrightarrow>
     ct_totalEdgeToCover ct1 = ct_totalEdgeToCover ct0 + int (length (filter (\<lambda>x. is_runtime (ed_type x)) es)) \<and>
     ct_coveredEdgeCount ct1 = ct_coveredEdgeCount ct0 \<and> (\<forall>x \<in> set es. is_runtime (ed_type x) \<longrightarrow> \<not> ed_covered x)" for es ct0 ct1
    by (induction es arbitrary: ct0) (auto simp: assert_that_def split: if_splits)
  from this [OF assms [unfolded CoverageTracker_def]] show ?thesis
    by (auto simp: counts_ok_def count_edges_def filter_empty_conv)
qed

subsection \<open>What an update keeps and achieves\<close>

definition tracks :: "graph \<times> tracker \<times> state \<Rightarrow> graph \<times> tracker \<times> state \<Rightarrow> bool" where
  "tracks c c' \<longleftrightarrow> (case (c, c') of ((g, ct, s), (g', ct', s')) \<Rightarrow> grows g g' \<and> wf_graph g' \<and> counts_ok c' \<and>
     st_latestNonOSInst s' = st_latestNonOSInst s \<and> st_pc s' = st_pc s \<and> st_status s' = st_status s)"

lemma tracks_trans: "tracks a b \<Longrightarrow> tracks b c \<Longrightarrow> tracks a c"
  using grows_trans by (auto simp: tracks_def split: prod.splits)

lemma tracks_refl: "wf_graph g \<Longrightarrow> counts_ok (g, ct, s) \<Longrightarrow> tracks (g, ct, s) (g, ct, s)"
  by (simp add: tracks_def grows_refl)

lemma appendEdgeCoverage_returns:
  assumes "wf_graph g" "counts_ok (g, ct, s)" "e < length (fg_edges g)" "is_runtime (ed_type (fg_edges g ! e))"
    and "st_statePath s = [] \<or> ed_from (fg_edges g ! e) \<noteq> None \<or> st_status s \<noteq> NORMAL"
  shows "returns (appendEdgeCoverage e (g, ct, s)) (\<lambda>c. tracks (g, ct, s) c \<and> ed_covered (fg_edges (fst c) ! e))"
proof -
  define g1 where "g1 = (if ed_covered (fg_edges g ! e) then g else upd_edge e (\<lambda>x. x\<lparr>ed_covered := True\<rparr>) g)"
  define ct1 where "ct1 = (if ed_covered (fg_edges g ! e) then ct else ct\<lparr>ct_coveredEdgeCount := ct_coveredEdgeCount ct + 1\<rparr>)"
  define s1 where "s1 = (if ed_covered (fg_edges g ! e) then s else s\<lparr>st_coveredNewEdge := True\<rparr>)"
  have g1: "grows g g1" unfolding g1_def by (auto intro: upd_edge_grows grows_refl)
  have w1: "wf_graph g1" using g1 assms(1) by (simp add: grows_def)
  have c1: "counts_ok (g1, ct1, s')" for s'
    using assms(2-4) by (auto simp: counts_ok_def g1_def ct1_def count_update)
  have cov: "ed_covered (fg_edges g1 ! e)" using assms(3) by (simp add: g1_def upd_edge_def)
  have same: "ed_type (fg_edges g1 ! e) = ed_type (fg_edges g ! e)" "ed_from (fg_edges g1 ! e) = ed_from (fg_edges g ! e)"
    using assms(3) by (simp_all add: g1_def upd_edge_def)
  have s1: "st_statePath s1 = st_statePath s" "st_status s1 = st_status s" "st_latestNonOSInst s1 = st_latestNonOSInst s" "st_pc s1 = st_pc s"
    by (simp_all add: s1_def)
  have "\<exists>b p. appendCompressed g1 (st_statePath s1) e (st_status s1 \<noteq> NORMAL) = Inr (b, p)"
  proof (cases "st_status s \<noteq> NORMAL \<or> st_statePath s = []")
    case True
    then show ?thesis by (auto simp: appendCompressed_def s1)
  next
    case False
    then obtain n where "ed_from (fg_edges g1 ! e) = Some n" using assms(5) same(2) by auto
    with runtime_guiding(1) [of g1 e n] assms(4) same(1) have "isGuidingEdge g1 e = Inr (guiding g1 e)" by simp
    then have "appendCompressed g1 (st_statePath s1) e (st_status s1 \<noteq> NORMAL) =
        Inr (if guiding g1 e then (True, st_statePath s @ [e]) else (False, st_statePath s))"
      using False by (simp add: appendCompressed_def s1)
    then show ?thesis by (cases "guiding g1 e") auto
  qed
  then obtain b p where p: "appendCompressed g1 (st_statePath s1) e (st_status s1 \<noteq> NORMAL) = Inr (b, p)" by blast
  have "appendEdgeCoverage e (g, ct, s) = rbind (appendCompressed g1 (st_statePath s1) e (st_status s1 \<noteq> NORMAL)) (\<lambda>(b, p).
      Inr (g1, ct1, s1\<lparr>st_statePath := p\<rparr>))"
    using assms(4) by (simp add: appendEdgeCoverage_def g1_def ct1_def s1_def)
  then show ?thesis using p g1 w1 c1 cov s1 by (simp add: tracks_def)
qed

lemma first_edge_some:
  assumes "first_edge g P es = Some e"
  shows "e \<in> set es" "P (fg_edges g ! e)"
  using assms by (auto simp: first_edge_def find_Some_iff)

lemma first_edge_none: "first_edge g P es = None \<longleftrightarrow> (\<forall>e \<in> set es. \<not> P (fg_edges g ! e))"
  by (auto simp: first_edge_def find_None_iff)

lemma runtime_out:
  assumes "wf_graph g" "n < length (fg_nodes g)" "e \<in> set (nd_runtimeOutEdges (fg_nodes g ! n))"
  shows "e < length (fg_edges g)" "is_runtime (ed_type (fg_edges g ! e))" "ed_from (fg_edges g ! e) = Some n"
  using assms by (auto simp: wf_graph_def node_ok_def Let_def runtime_of_def out_of_def)

text \<open>The executed instruction is linked to the node of the program counter, or can be linked dynamically.\<close>

definition can_continue :: "graph \<Rightarrow> state \<Rightarrow> mem_value \<Rightarrow> bool" where
  "can_continue g s i \<longleftrightarrow> inst_id i \<in> {I_JMP, I_JSRR} \<or>
     (\<forall>n m. fg_nodeByAddr g (mv_addr i) = Some n \<longrightarrow> fg_nodeByAddr g (st_pc s) = Some m \<longrightarrow> has_edge g n m)"

lemma prepareEdge_returns:
  assumes "wf_graph g" "counts_ok (g, ct, s)" "fst (st_latestNonOSInst s) = Some i" "fg_nodeByAddr g (mv_addr i) = Some n" "can_continue g s i"
  shows "returns (prepareEdgeToPCNode (g, ct, s)) (\<lambda>c. tracks (g, ct, s) c \<and>
    (\<forall>m. fg_nodeByAddr g (st_pc s) = Some m \<longrightarrow> has_edge (fst c) n m))"
proof (cases "fg_nodeByAddr g (st_pc s)")
  case None
  then show ?thesis using assms(3) tracks_refl [OF assms(1,2)] by (simp add: prepareEdgeToPCNode_def getNodeByAddr_def)
next
  case (Some m)
  have n: "n < length (fg_nodes g)" using assms(1,4) by (simp add: wf_graph_def)
  let ?f = "first_edge g (\<lambda>x. ed_to x = Some m) (nd_runtimeOutEdges (fg_nodes g ! n))"
  have f: "?f \<noteq> None \<longleftrightarrow> has_edge g n m" using has_edge_iff [OF assms(1) n] by (auto simp: first_edge_none)
  show ?thesis
  proof (cases "?f = None")
    case False
    then show ?thesis
      using assms(3,4) Some tracks_refl [OF assms(1,2)] f by (simp add: prepareEdgeToPCNode_def getNodeByAddr_def inst_node_def)
  next
    case True
    then have id: "inst_id i = I_JMP \<or> inst_id i = I_JSRR" using f assms(4,5) Some by (auto simp: can_continue_def)
    let ?t = "if inst_id i = I_JMP then if inst_baseR i = R_R7 then RET_EDGE else JMP_EDGE else JSRR_EDGE"
    have rt: "is_runtime ?t" by (simp add: is_runtime_def)
    obtain e g' where e: "newEdge (Some n) (Some m) ?t g = (e, g')" by fastforce
    have w: "in_graph g (Some n)" "in_graph g (Some m)" using byAddr_in_graph [OF assms(1)] assms(4) Some by blast+
    note v = newEdge_view [OF e w] and gr = newEdge_grows(1) [OF e w]
    have "counts_ok (g', newEdgeCallback ?t ct, s)"
      using assms(2) v(2) rt by (simp add: counts_ok_def count_edges_def newEdgeCallback_def fresh_edge_def)
    moreover have "wf_graph g'" using newEdge_wf [OF e assms(1) w] .
    moreover have "has_edge g' n m" using v(2) rt by (auto simp: has_edge_def edge_view_def)
    ultimately show ?thesis
      using assms(3,4) Some True id e gr by (simp add: prepareEdgeToPCNode_def getNodeByAddr_def inst_node_def tracks_def Let_def)
  qed
qed

lemma just_covered:
  assumes "wf_graph g" "st_status s = NORMAL" "st_latestNonOSInst s = (Some i, prev)" "fst (st_latestInst s) = Some i"
    and "prev = None \<Longrightarrow> fg_initPCEdge g \<noteq> None"
    and "\<And>j. prev = Some j \<Longrightarrow> \<exists>k n. fg_nodeByAddr g (mv_addr j) = Some k \<and> fg_nodeByAddr g (mv_addr i) = Some n \<and> has_edge g k n"
  shows "returns (getJustCoveredEdge g s) (\<lambda>r. \<exists>e. r = Some e \<and> e < length (fg_edges g) \<and> is_runtime (ed_type (fg_edges g ! e)) \<and>
    (prev \<noteq> None \<longrightarrow> ed_from (fg_edges g ! e) \<noteq> None))"
proof (cases prev)
  case None
  then obtain e where "fg_initPCEdge g = Some e" using assms(5) by auto
  then show ?thesis using None assms(1-4) by (simp add: getJustCoveredEdge_def wf_graph_def)
next
  case (Some j)
  obtain k n where kn: "fg_nodeByAddr g (mv_addr j) = Some k" "fg_nodeByAddr g (mv_addr i) = Some n" "has_edge g k n"
    using assms(6) [OF Some] by blast
  have k: "k < length (fg_nodes g)" using assms(1) kn(1) by (simp add: wf_graph_def)
  have "first_edge g (\<lambda>x. ed_to x = Some n) (nd_runtimeOutEdges (fg_nodes g ! k)) \<noteq> None"
    using kn(3) has_edge_iff [OF assms(1) k] by (auto simp: first_edge_none)
  then obtain e where e: "first_edge g (\<lambda>x. ed_to x = Some n) (nd_runtimeOutEdges (fg_nodes g ! k)) = Some e"
    by auto
  then show ?thesis
    using Some assms(2-4) kn(1,2) runtime_out [OF assms(1) k first_edge_some(1) [OF e]]
    by (simp add: getJustCoveredEdge_def inst_node_def)
qed

subsection \<open>Properties\<close>

text \<open>
  C23: updating the flow graph after a step.  For a \<open>NORMAL\<close> state that has just executed a user instruction along an
  edge of the graph and continues at an address the instruction is linked to, or has executed \<open>JMP\<close> or \<open>JSRR\<close>, the
  update succeeds: neither the assertion that the covered edge exists nor the one that an edge to
  the program counter exists fails.  Afterwards the graph is well formed, the counters are the numbers of
  runtime edges and of covered runtime edges, and the executed instruction has an edge to the node of the program counter,
  so that the next update finds the edge it covers.
\<close>
theorem coverage_update_correct:
  assumes "wf_graph g" "counts_ok (g, ct, s)" "st_status s = NORMAL" "st_latestNonOSInst s = (Some i, prev)" "fst (st_latestInst s) = Some i"
    and "fg_nodeByAddr g (mv_addr i) = Some n" "can_continue g s i" "st_statePath s = [] \<longleftrightarrow> prev = None"
    and "prev = None \<longrightarrow> fg_initPCEdge g \<noteq> None"
    and "\<forall>j. prev = Some j \<longrightarrow> (\<exists>k. fg_nodeByAddr g (mv_addr j) = Some k \<and> has_edge g k n)"
  shows "\<exists>g' ct' s'. updateGraphAndCoverage (g, ct, s) = Inr (g', ct', s') \<and> wf_graph g' \<and> grows g g' \<and> counts_ok (g', ct', s') \<and>
    (\<forall>m. getNodeByAddr g' (st_pc s') = Some m \<longrightarrow> has_edge g' n m)"
proof -
  have "returns (updateGraphAndCoverage (g, ct, s)) (\<lambda>c. tracks (g, ct, s) c \<and> (\<forall>m. fg_nodeByAddr g (st_pc s) = Some m \<longrightarrow> has_edge (fst c) n m))"
    unfolding updateGraphAndCoverage_def prod.case
  proof (simp add: assms(3) del: returns_simps, rule returns_bindI [OF just_covered [OF assms(1,3,4,5)]])
    show "prev = None \<Longrightarrow> fg_initPCEdge g \<noteq> None" using assms(9) by simp
    show "\<exists>k n. fg_nodeByAddr g (mv_addr j) = Some k \<and> fg_nodeByAddr g (mv_addr i) = Some n \<and> has_edge g k n" if j: "prev = Some j" for j
      using assms(6) assms(10) [rule_format, OF j] by auto
    fix r assume "\<exists>e. r = Some e \<and> e < length (fg_edges g) \<and> is_runtime (ed_type (fg_edges g ! e)) \<and> (prev \<noteq> None \<longrightarrow> ed_from (fg_edges g ! e) \<noteq> None)"
    then obtain e where e: "r = Some e" "e < length (fg_edges g)" "is_runtime (ed_type (fg_edges g ! e))" "prev \<noteq> None \<longrightarrow> ed_from (fg_edges g ! e) \<noteq> None"
      by (elim exE conjE)
    have p: "st_statePath s = [] \<or> ed_from (fg_edges g ! e) \<noteq> None \<or> st_status s \<noteq> NORMAL" using e(4) assms(8) by auto
    have "returns (rbind (appendEdgeCoverage e (g, ct, s)) prepareEdgeToPCNode)
        (\<lambda>c. tracks (g, ct, s) c \<and> (\<forall>m. fg_nodeByAddr g (st_pc s) = Some m \<longrightarrow> has_edge (fst c) n m))"
    proof (rule returns_bindI [OF appendEdgeCoverage_returns [OF assms(1,2) e(2,3) p]])
      fix c assume "tracks (g, ct, s) c \<and> ed_covered (fg_edges (fst c) ! e)"
      then obtain g1 ct1 s1 where c: "c = (g1, ct1, s1)" and t: "tracks (g, ct, s) (g1, ct1, s1)" by (cases c) auto
      have g1: "wf_graph g1" "counts_ok (g1, ct1, s1)" "fst (st_latestNonOSInst s1) = Some i" "fg_nodeByAddr g1 = fg_nodeByAddr g"
        "st_pc s1 = st_pc s" and gr: "grows g g1"
        using t assms(4) by (auto simp: tracks_def grows_def)
      have "can_continue g1 s1 i" using assms(7) has_edge_grows [OF gr] unfolding can_continue_def g1(4,5) by blast
      from prepareEdge_returns [OF g1(1-3) _ this, of n] show "returns (prepareEdgeToPCNode c)
          (\<lambda>c. tracks (g, ct, s) c \<and> (\<forall>m. fg_nodeByAddr g (st_pc s) = Some m \<longrightarrow> has_edge (fst c) n m))"
        using tracks_trans [OF t] g1(4,5) assms(6) by (auto simp: c elim!: returns_weaken)
    qed
    then show "returns (case r of None \<Rightarrow> Inr (g, ct, s) | Some e \<Rightarrow> rbind (appendEdgeCoverage e (g, ct, s)) prepareEdgeToPCNode)
        (\<lambda>c. tracks (g, ct, s) c \<and> (\<forall>m. fg_nodeByAddr g (st_pc s) = Some m \<longrightarrow> has_edge (fst c) n m))"
      by (simp add: e(1))
  qed
  then show ?thesis by (auto simp: returns_def tracks_def grows_def getNodeByAddr_def)
qed

definition demo_state :: state where
  "demo_state = (let i = snd (inst_at 0x3000 0x1021) in
     (State (\<lambda>_. None) 0x3001 0)\<lparr>st_latestInst := (Some i, None), st_latestNonOSInst := (Some i, None)\<rparr>)"

lemma demo_tracker:
  obtains g ct where "FlowGraph demo_program 0x3000 = Inr g" "wf_graph g" "CoverageTracker g = Inr ct" "ct_totalEdgeToCover ct = 5"
    "fg_initPCEdge g \<noteq> None" "fg_nodeByAddr g 0x3000 = Some 0" "fg_nodeByAddr g 0x3001 = Some 1" "has_edge g 0 1"
proof -
  obtain g where g: "FlowGraph demo_program 0x3000 = Inr g" "wf_graph g" using demo_path .
  have c: "case FlowGraph demo_program 0x3000 of Inl _ \<Rightarrow> False | Inr g \<Rightarrow> (case CoverageTracker g of Inl _ \<Rightarrow> False | Inr ct \<Rightarrow>
      ct_totalEdgeToCover ct = 5) \<and> fg_initPCEdge g \<noteq> None \<and> fg_nodeByAddr g 0x3000 = Some 0 \<and> fg_nodeByAddr g 0x3001 = Some 1 \<and>
      length (fg_nodes g) = 3 \<and> list_ex (\<lambda>e. ed_to (fg_edges g ! e) = Some 1) (nd_runtimeOutEdges (fg_nodes g ! 0))"
    by code_simp
  have "0 < length (fg_nodes g)" using c g(1) by simp
  note h = has_edge_iff [OF g(2) this, of 1]
  show ?thesis
  proof (cases "CoverageTracker g")
    case (Inr ct)
    show ?thesis by (rule that [OF g Inr]) (use c g(1) Inr h in \<open>auto simp: list_ex_iff\<close>)
  qed (use c g(1) in simp)
qed

theorem coverage_update_correct_witness:
  "\<exists>g ct g' ct' s'. FlowGraph demo_program 0x3000 = Inr g \<and> CoverageTracker g = Inr ct \<and>
    updateGraphAndCoverage (g, ct, demo_state) = Inr (g', ct', s') \<and> counts_ok (g', ct', s')"
proof -
  obtain g ct where g: "FlowGraph demo_program 0x3000 = Inr g" "wf_graph g" "CoverageTracker g = Inr ct"
    "fg_initPCEdge g \<noteq> None" "fg_nodeByAddr g 0x3000 = Some 0" "fg_nodeByAddr g 0x3001 = Some 1" "has_edge g 0 1" using demo_tracker .
  let ?i = "snd (inst_at 0x3000 0x1021)"
  have s: "st_status demo_state = NORMAL" "st_latestNonOSInst demo_state = (Some ?i, None)" "fst (st_latestInst demo_state) = Some ?i"
    "st_statePath demo_state = []" "st_pc demo_state = 0x3001" "mv_addr ?i = 0x3000"
    by (simp_all add: demo_state_def State_def inst_at_def MemValue_def Let_def)
  have "\<exists>g' ct' s'. updateGraphAndCoverage (g, ct, demo_state) = Inr (g', ct', s') \<and> wf_graph g' \<and> grows g g' \<and> counts_ok (g', ct', s') \<and>
      (\<forall>m. getNodeByAddr g' (st_pc s') = Some m \<longrightarrow> has_edge g' 0 m)"
    by (rule coverage_update_correct [OF g(2) CoverageTracker_counts [OF g(3)] s(1-3)]) (use g s in \<open>simp_all add: can_continue_def\<close>)
  with g(1,3) show ?thesis by blast
qed

text \<open>
  the coverage is a proportion.  Whenever the counters count the edges of the graph, as they do after the construction of
  the tracker, there are at most as many covered edges as edges to cover, and the coverage is a number exactly when there is an edge to
  cover, and then lies between 0 and 1.
\<close>
theorem coverage_bounds:
  assumes "counts_ok (g, ct, s)"
  shows "0 \<le> ct_coveredEdgeCount ct \<and> ct_coveredEdgeCount ct \<le> ct_totalEdgeToCover ct \<and>
    (case calculateCoverage ct of None \<Rightarrow> ct_totalEdgeToCover ct = 0 | Some q \<Rightarrow> 0 < ct_totalEdgeToCover ct \<and> 0 \<le> q \<and> q \<le> 1)"
proof -
  have le: "length (filter (\<lambda>x. P x \<and> Q x) xs) \<le> length (filter P xs)" for P Q and xs :: "edge list"
    by (induction xs) auto
  have c: "0 \<le> ct_coveredEdgeCount ct" "ct_coveredEdgeCount ct \<le> ct_totalEdgeToCover ct"
    using assms le by (auto simp: counts_ok_def count_edges_def)
  then show ?thesis by (simp add: calculateCoverage_def divide_le_eq_1)
qed

theorem coverage_bounds_witness:
  "\<exists>g ct. FlowGraph demo_program 0x3000 = Inr g \<and> CoverageTracker g = Inr ct \<and> ct_totalEdgeToCover ct = 5 \<and>
    (\<exists>q. calculateCoverage ct = Some q \<and> q \<le> 1)"
proof -
  obtain g ct where g: "FlowGraph demo_program 0x3000 = Inr g" "CoverageTracker g = Inr ct" "ct_totalEdgeToCover ct = 5" using demo_tracker .
  with coverage_bounds [OF CoverageTracker_counts [OF g(2)]] show ?thesis by (auto split: option.splits)
qed

end
