(* ===== verification/Klc3_Subroutines.thy ===== *)
theory Klc3_Subroutines
  imports Klc3_Coverage
begin

text \<open>
  The subroutine tracker (\<open>lib/klc3/FlowAnalysis/SubroutineTracker.cpp\<close>).  A color is the address at which a subroutine, or the
  main code, starts; it is propagated along the flow graph, and every state keeps a stack of colors and of the calling
  nodes.

  The recursion of \<open>colorPath\<close> is written with the list of its pending calls, innermost first: \<open>Color n c\<close> is the call for a node
  and a color, \<open>Enter e\<close> the body of the loop over the call edges of a node.  It ends because every call that goes on colors a node
  with a new color.  Messages to the terminal are left out.
\<close>

subsection \<open>State\<close>

record subroutine_info =
  si_name :: string
  si_entry :: nat
  si_color :: addr
  si_exits :: "nat list"
  si_eePairs :: "nat \<Rightarrow> nat list option"

text \<open>The graph with the tracker that has registered a callback for new edges, if one has.\<close>

record sub_tracker =
  sb_graph :: graph
  sb_callback :: "tracker option"
  sb_initPC :: addr
  sb_subroutines :: "addr \<Rightarrow> subroutine_info option"
  sb_nameToColor :: "string \<Rightarrow> addr option"

definition SubroutineInfo :: "string \<Rightarrow> nat \<Rightarrow> addr \<Rightarrow> subroutine_info" where
  "SubroutineInfo name entry color = \<lparr>si_name = name, si_entry = entry, si_color = color, si_exits = [], si_eePairs = Map.empty\<rparr>"

abbreviation sub_node :: "sub_tracker \<Rightarrow> nat \<Rightarrow> node" where
  "sub_node w n \<equiv> fg_nodes (sb_graph w) ! n"

abbreviation sub_edge :: "sub_tracker \<Rightarrow> nat \<Rightarrow> edge" where
  "sub_edge w e \<equiv> fg_edges (sb_graph w) ! e"

definition sub_upd_node :: "nat \<Rightarrow> (node \<Rightarrow> node) \<Rightarrow> sub_tracker \<Rightarrow> sub_tracker" where
  "sub_upd_node n f w = w\<lparr>sb_graph := upd_node n f (sb_graph w)\<rparr>"

text \<open>\<open>getNodeByAddr(addr + 1)\<close>, computed without wrapping: past the last address it reads outside of the table.\<close>

definition node_after :: "sub_tracker \<Rightarrow> addr \<Rightarrow> nat option res" where
  "node_after w a = (if a = - 1 then Inl (NullDeref ''nodeByAddr[0x10000]'') else Inr (getNodeByAddr (sb_graph w) (a + 1)))"

subsection \<open>Coloring a path\<close>

datatype task = Enter nat | Color nat addr

definition is_call :: "mem_value \<Rightarrow> bool" where
  "is_call i \<longleftrightarrow> inst_id i = I_JSR \<or> inst_id i = I_JSRR"

definition is_call_edge :: "edge \<Rightarrow> bool" where
  "is_call_edge x \<longleftrightarrow> ed_type x = JSR_EDGE \<or> ed_type x = JSRR_EDGE"

definition enter_subroutine :: "nat \<Rightarrow> sub_tracker \<Rightarrow> sub_tracker" where
  "enter_subroutine entry w =
     (let x = sub_node w entry;
          t = SubroutineInfo (getLabel (nd_inst x)) entry (nd_addr x);
          w = w\<lparr>sb_subroutines := (sb_subroutines w)(nd_addr x \<mapsto> t), sb_nameToColor := (sb_nameToColor w)(si_name t \<mapsto> si_color t)\<rparr>
      in sub_upd_node entry (\<lambda>x. x\<lparr>nd_subroutineEntry := True\<rparr>) w)"

definition add_color :: "nat \<Rightarrow> addr \<Rightarrow> sub_tracker \<Rightarrow> sub_tracker" where
  "add_color n c w = sub_upd_node n (\<lambda>x. x\<lparr>nd_subroutineColors := insert c (nd_subroutineColors x)\<rparr>) w"

definition record_exit :: "nat \<Rightarrow> addr \<Rightarrow> sub_tracker \<Rightarrow> sub_tracker res" where
  "record_exit n c w =
     (if c \<noteq> sb_initPC w then (case sb_subroutines w c of
          None \<Rightarrow> Inl (AssertFailed ''subroutines.find(color) != subroutines.end()'')
        | Some s \<Rightarrow> Inr (w\<lparr>sb_subroutines := (sb_subroutines w)(c \<mapsto> s\<lparr>si_exits := si_exits s @ [n]\<rparr>)\<rparr>))
      else Inr w)"

text \<open>The calls for the successors of a node that has just been colored.\<close>

definition call_edges :: "sub_tracker \<Rightarrow> nat \<Rightarrow> nat list" where
  "call_edges w n = filter (\<lambda>e. is_call_edge (sub_edge w e)) (nd_runtimeOutEdges (sub_node w n))"

definition flow_targets :: "sub_tracker \<Rightarrow> nat \<Rightarrow> nat list" where
  "flow_targets w n = List.map_filter (\<lambda>e. ed_to (sub_edge w e)) (nd_runtimeOutEdges (sub_node w n))"

definition uncolored :: "sub_tracker \<Rightarrow> nat" where
  "uncolored w = (\<Sum>x\<leftarrow>fg_nodes (sb_graph w). card (- nd_subroutineColors x))"

fun task_weight :: "task \<Rightarrow> nat" where
  "task_weight (Enter e) = 2"
| "task_weight (Color n c) = 1"

lemma add_color_uncolored:
  assumes "n < length (fg_nodes (sb_graph w))" "c \<notin> nd_subroutineColors (sub_node w n)"
  shows "uncolored (add_color n c w) < uncolored w"
proof -
  have "card (- insert c (nd_subroutineColors (sub_node w n))) < card (- nd_subroutineColors (sub_node w n))"
    using assms(2) by (intro psubset_card_mono) auto
  moreover have "card (- nd_subroutineColors (sub_node w n)) \<le> uncolored w"
    unfolding uncolored_def by (rule member_le_sum_list) (use assms(1) in auto)
  ultimately show ?thesis
    using assms(1) by (simp add: uncolored_def add_color_def sub_upd_node_def upd_node_def map_update sum_list_update)
qed

lemma enter_uncolored: "uncolored (enter_subroutine n w) = uncolored w"
proof -
  have "map (\<lambda>x. card (- nd_subroutineColors x)) ((fg_nodes (sb_graph w))[n := (sub_node w n)\<lparr>nd_subroutineEntry := True\<rparr>]) =
      map (\<lambda>x. card (- nd_subroutineColors x)) (fg_nodes (sb_graph w))"
    by (cases "n < length (fg_nodes (sb_graph w))") (auto simp: map_update list_update_beyond intro!: list_update_same_conv [THEN iffD2])
  then show ?thesis by (simp add: uncolored_def enter_subroutine_def sub_upd_node_def upd_node_def Let_def)
qed

lemma record_exit_graph: "record_exit n c w = Inr w' \<Longrightarrow> sb_graph w' = sb_graph w"
  by (auto simp: record_exit_def split: if_splits option.splits)

function colorPath :: "task list \<Rightarrow> sub_tracker \<Rightarrow> sub_tracker res" where
  "colorPath [] w = Inr w"
| "colorPath (Enter e # ts) w = (case ed_to (sub_edge w e) of
       None \<Rightarrow> Inl (AssertFailed ''JSR/JSRR to nullptr node'')
     | Some entry \<Rightarrow> colorPath (Color entry (nd_addr (sub_node w entry)) # ts) (enter_subroutine entry w))"
| "colorPath (Color n c # ts) w =
     (if length (fg_nodes (sb_graph w)) \<le> n then Inl (NullDeref ''node'')
      else if c \<in> nd_subroutineColors (sub_node w n) then colorPath ts w
      else
        let w = add_color n c w; inst = nd_inst (sub_node w n) in
        if is_call inst then
          rbind (node_after w (nd_addr (sub_node w n))) (\<lambda>retToNode.
          colorPath (map Enter (call_edges w n) @ (case retToNode of None \<Rightarrow> [] | Some r \<Rightarrow> [Color r c]) @ ts) w)
        else if isRET inst then rbind (record_exit n c w) (\<lambda>w. colorPath ts w)
        else colorPath (map (\<lambda>t. Color t c) (flow_targets w n) @ ts) w)"
  by pat_completeness auto

termination
proof (relation "measures [\<lambda>(ts, w). uncolored w, \<lambda>(ts, w). sum_list (map task_weight ts)]")
  show "wf (measures [\<lambda>(ts, w). uncolored w, \<lambda>(ts, w). sum_list (map task_weight ts)])" by simp
qed (use add_color_uncolored enter_uncolored record_exit_graph in \<open>fastforce simp: uncolored_def not_le\<close>)+

subsection \<open>Building the tracker\<close>

definition tracked_newEdge :: "nat option \<Rightarrow> nat option \<Rightarrow> edge_type \<Rightarrow> sub_tracker \<Rightarrow> nat \<times> sub_tracker" where
  "tracked_newEdge from to t w = (case newEdge from to t (sb_graph w) of (e, g) \<Rightarrow>
     (e, w\<lparr>sb_graph := g, sb_callback := map_option (newEdgeCallback t) (sb_callback w)\<rparr>))"

definition add_exit_edge :: "nat \<Rightarrow> addr \<Rightarrow> nat \<Rightarrow> nat \<Rightarrow> sub_tracker \<Rightarrow> sub_tracker" where
  "add_exit_edge entryEdge color retToNode exit w = (case tracked_newEdge (Some exit) (Some retToNode) RET_EDGE w of (exitEdge, w) \<Rightarrow>
     let w = w\<lparr>sb_graph := upd_edge exitEdge (\<lambda>x. x\<lparr>ed_associatedEdge := Some entryEdge\<rparr>) (sb_graph w)\<rparr> in
     case sb_subroutines w color of
       None \<Rightarrow> w
     | Some s \<Rightarrow> w\<lparr>sb_subroutines := (sb_subroutines w)(color \<mapsto> s\<lparr>si_eePairs := (si_eePairs s)(entryEdge \<mapsto>
           (case si_eePairs s entryEdge of None \<Rightarrow> [] | Some es \<Rightarrow> es) @ [exitEdge])\<rparr>)\<rparr>)"

definition setUpEntryExitPairs :: "nat \<Rightarrow> sub_tracker \<Rightarrow> sub_tracker res" where
  "setUpEntryExitPairs entryEdge w = (case (ed_to (sub_edge w entryEdge), ed_from (sub_edge w entryEdge)) of
       (Some entry, Some from) \<Rightarrow>
         let color = nd_addr (sub_node w entry) in
         (case sb_subroutines w color of
            None \<Rightarrow> Inl (AssertFailed ''SubroutineInfo has not been set up yet'')
          | Some s \<Rightarrow>
              rbind (assert_that (si_eePairs s entryEdge = None) ''setUpEntryExitPairs for twice'') (\<lambda>_.
              let w = w\<lparr>sb_subroutines := (sb_subroutines w)(color \<mapsto> s\<lparr>si_eePairs := (si_eePairs s)(entryEdge \<mapsto> [])\<rparr>)\<rparr> in
              rbind (node_after w (nd_addr (sub_node w from))) (\<lambda>retToNode.
              case retToNode of
                None \<Rightarrow> Inr w
              | Some r \<Rightarrow> Inr (fold (add_exit_edge entryEdge color r) (si_exits s) w))))
     | _ \<Rightarrow> Inl (NullDeref ''entryEdge''))"

definition pair_edge :: "nat \<Rightarrow> sub_tracker \<Rightarrow> sub_tracker res" where
  "pair_edge e w =
     (if is_call_edge (sub_edge w e) then
        (case ed_to (sub_edge w e) of
           None \<Rightarrow> Inl (NullDeref ''edge->to()'')
         | Some t \<Rightarrow> if sb_subroutines w (nd_addr (sub_node w t)) = None then Inr w else setUpEntryExitPairs e w)
      else Inr w)"

definition colorFlowGraph :: "sub_tracker \<Rightarrow> sub_tracker res" where
  "colorFlowGraph w = (case getNodeByAddr (sb_graph w) (sb_initPC w) of
       None \<Rightarrow> Inr w
     | Some pcNode \<Rightarrow>
         let w = w\<lparr>sb_subroutines := (sb_subroutines w)(sb_initPC w \<mapsto> SubroutineInfo ''(main)'' pcNode (sb_initPC w)),
                   sb_nameToColor := (sb_nameToColor w)(''(main)'' \<mapsto> sb_initPC w)\<rparr> in
         rbind (colorPath [Color pcNode (sb_initPC w)] w) (\<lambda>w.
         rfold pair_edge [0..<length (fg_edges (sb_graph w))] w))"

definition SubroutineTracker :: "graph \<Rightarrow> sub_tracker res" where
  "SubroutineTracker g = colorFlowGraph \<lparr>sb_graph = g, sb_callback = None, sb_initPC = fg_initPC g,
     sb_subroutines = Map.empty, sb_nameToColor = Map.empty\<rparr>"

definition setupInitState :: "sub_tracker \<Rightarrow> state \<Rightarrow> sub_tracker \<times> state" where
  "setupInitState w s =
     (let s = s\<lparr>st_colorStack := sb_initPC w # st_colorStack s\<rparr> in
      case getNodeByAddr (sb_graph w) (sb_initPC w) of
        None \<Rightarrow> (w, s)
      | Some pcNode \<Rightarrow> (add_color pcNode (hd (st_colorStack s)) w, s))"

subsection \<open>Updating the colors after a step\<close>

text \<open>The stacks are lists with the top first.  A tracker, the issues and a state are threaded.\<close>

type_synonym sub_ctx = "sub_tracker \<times> issue_package \<times> state"

definition update_call :: "nat \<Rightarrow> nat \<Rightarrow> sub_ctx \<Rightarrow> sub_ctx res" where
  "update_call executedNode pcNode = (\<lambda>(w, ip, s).
     let newColor = st_pc s in
     rbind (if sb_subroutines w newColor = None then
              let t = SubroutineInfo (getLabel (nd_inst (sub_node w pcNode))) pcNode newColor;
                  w = w\<lparr>sb_subroutines := (sb_subroutines w)(newColor \<mapsto> t)\<rparr>;
                  w = sub_upd_node pcNode (\<lambda>x. x\<lparr>nd_subroutineEntry := True\<rparr>) w in
              rbind (colorPath [Color pcNode newColor] w) (\<lambda>w.
              rbind (getOnEdge (sb_graph w) s) (\<lambda>e. case e of
                None \<Rightarrow> Inl (NullDeref ''entryEdge'') | Some e \<Rightarrow> setUpEntryExitPairs e w))
            else Inr w) (\<lambda>w.
     Inr (w, ip, s\<lparr>st_colorStack := newColor # st_colorStack s, st_jsrStack := executedNode # st_jsrStack s\<rparr>)))"

definition mark_improper :: "sub_tracker \<Rightarrow> state \<Rightarrow> sub_tracker res" where
  "mark_improper w s = rbind (getOnEdge (sb_graph w) s) (\<lambda>onEdge. case onEdge of
       None \<Rightarrow> Inr w
     | Some e \<Rightarrow> Inr (w\<lparr>sb_graph := upd_edge e (\<lambda>x. x\<lparr>ed_isImproperRET := True\<rparr>) (sb_graph w)\<rparr>))"

definition update_return :: "nat \<Rightarrow> sub_ctx \<Rightarrow> sub_ctx res" where
  "update_return executedNode = (\<lambda>(w, ip, s).
     let inst = nd_inst (sub_node w executedNode) in
     case st_colorStack s of
       tp # second # colors \<Rightarrow>
         if st_stackHasMessedUp s then Inr (w, ip, s)
         else (case st_jsrStack s of
             [] \<Rightarrow> Inl (AssertFailed ''jsrStack should not be empty when state->colorStack.size() >= 2'')
           | jsr # jsrs \<Rightarrow>
               if nd_addr (sub_node w jsr) \<noteq> -1 \<and> nd_addr (sub_node w jsr) + 1 = st_pc s then
                 rbind (assert_that (second \<in> nd_subroutineColors (sub_node w jsr)) ''Color inconsistent'') (\<lambda>_.
                 Inr (w, ip, s\<lparr>st_colorStack := second # colors, st_jsrStack := jsrs\<rparr>))
               else
                 rbind (newStateIssue WARN_IMPROPER_RET (Some inst) (ip, s)) (\<lambda>(ip, s).
                 let s = s\<lparr>st_colorStack := tp # st_colorStack s\<rparr> in
                 rbind (mark_improper w s) (\<lambda>w.
                 Inr (w, ip, s\<lparr>st_stackHasMessedUp := True\<rparr>))))
     | [] \<Rightarrow> Inl (AssertFailed ''Why colorStack can be empty?'')
     | [tp] \<Rightarrow>
         rbind (newStateIssue ERR_RET_IN_MAIN_CODE (Some inst) (ip, s)) (\<lambda>(ip, s).
         Inr (w, ip, s\<lparr>st_stackHasMessedUp := True\<rparr>)))"

definition updateColors :: "sub_ctx \<Rightarrow> sub_ctx res" where
  "updateColors = (\<lambda>(w, ip, s). case fst (st_latestNonOSInst s) of
       None \<Rightarrow> Inr (w, ip, s)
     | Some i \<Rightarrow>
         rbind (inst_node (sb_graph w) i) (\<lambda>executedNode.
         case getNodeByAddr (sb_graph w) (st_pc s) of
           None \<Rightarrow> Inr (w, ip, s)
         | Some pcNode \<Rightarrow>
             let inst = nd_inst (sub_node w executedNode) in
             rbind (if is_call inst then update_call executedNode pcNode (w, ip, s)
                    else if inst_id inst = I_JMP \<and> inst_baseR inst = R_R7 then update_return executedNode (w, ip, s)
                    else Inr (w, ip, s)) (\<lambda>(w, ip, s).
             if \<not> st_stackHasMessedUp s then
               (case st_colorStack s of
                  [] \<Rightarrow> Inl (NullDeref ''colorStack.top()'')
                | tp # _ \<Rightarrow> rbind (colorPath [Color pcNode tp] w) (\<lambda>w. Inr (w, ip, s)))
             else Inr (w, ip, s))))"

definition postCheckState :: "sub_ctx \<Rightarrow> sub_ctx res" where
  "postCheckState = (\<lambda>(w, ip, s).
     if st_stackHasMessedUp s then Inr (w, ip, s)
     else (case st_colorStack s of
         [] \<Rightarrow> Inl (NullDeref ''colorStack.top()'')
       | tp # _ \<Rightarrow>
           if tp \<noteq> fg_initPC (sb_graph w)
           then rbind (newStateIssue WARN_HALT_IN_SUBROUTINE (fst (st_latestNonOSInst s)) (ip, s)) (\<lambda>(ip, s). Inr (w, ip, s))
           else Inr (w, ip, s)))"

subsection \<open>Shared code\<close>

text \<open>The recursion over the nodes, again with its pending calls; the notes of the issues are left out.\<close>

function checkPaths :: "graph \<Rightarrow> (nat \<times> addr set) list \<Rightarrow> nat set \<times> issue_package \<Rightarrow> (nat set \<times> issue_package) res" where
  "checkPaths g [] st = Inr st"
| "checkPaths g ((n, lastColors) # ts) (checked, ip) =
     (if length (fg_nodes g) \<le> n then Inl (NullDeref ''node'')
      else if n \<in> checked then checkPaths g ts (checked, ip)
      else
        let x = fg_nodes g ! n in
        rbind (if nd_subroutineColors x \<noteq> lastColors \<and> card (nd_subroutineColors x) > 1
               then rbind (newGlobalIssue ip WARN_REUSE_CODE_ACROSS_SUBROUTINES (Some (nd_inst x))) (\<lambda>(acc, ip). Inr ip)
               else Inr ip) (\<lambda>ip.
        checkPaths g (map (\<lambda>t. (t, nd_subroutineColors x)) (List.map_filter (\<lambda>e. ed_to (fg_edges g ! e)) (nd_runtimeOutEdges x)) @ ts)
          (insert n checked, ip)))"
  by pat_completeness auto

termination
proof (relation "measures [\<lambda>(g, ts, checked, ip). card ({0..<length (fg_nodes g)} - checked), \<lambda>(g, ts, st). length ts]")
  fix g :: graph and n :: nat and ts :: "(nat \<times> addr set) list" and checked :: "nat set" and ip ip' :: issue_package and us lastColors
  assume "\<not> length (fg_nodes g) \<le> n" "n \<notin> checked"
  then have "card ({0..<length (fg_nodes g)} - insert n checked) < card ({0..<length (fg_nodes g)} - checked)"
    by (subst Diff_insert) (simp add: card_Diff1_less del: card_Diff_insert)
  then show "((g, us @ ts, insert n checked, ip'), g, (n, lastColors) # ts, checked, ip)
      \<in> measures [\<lambda>(g, ts, checked, ip). card ({0..<length (fg_nodes g)} - checked), \<lambda>(g, ts, st). length ts]"
    by simp
qed auto

definition checkDuplicateColors :: "graph \<Rightarrow> issue_package \<Rightarrow> issue_package res" where
  "checkDuplicateColors g ip =
     rbind (rfold (\<lambda>n (checked, ip). if n \<notin> checked then checkPaths g [(n, {})] (checked, ip) else Inr (checked, ip))
       [0..<length (fg_nodes g)] ({}, ip)) (\<lambda>(checked, ip). Inr ip)"

subsection \<open>Queries\<close>

definition getLabelByAddr :: "sub_tracker \<Rightarrow> addr \<Rightarrow> string res" where
  "getLabelByAddr w a = (case getNodeByAddr (sb_graph w) a of
       None \<Rightarrow> Inl (NullDeref ''getNodeByAddr(addr)'')
     | Some n \<Rightarrow>
         let inst = nd_inst (sub_node w n) in
         Inr (if mv_labels inst = [] then if a = sb_initPC w then ''(main)'' else toLC3Hex (mv_addr inst)
              else join ''/'' (mv_labels inst)))"

definition getSubroutineColor :: "sub_tracker \<Rightarrow> string \<Rightarrow> addr res" where
  "getSubroutineColor w label = (case sb_nameToColor w label of
       None \<Rightarrow> Inl (AssertFailed ''Unknown subroutine name'') | Some c \<Rightarrow> Inr c)"

definition getSubroutineInfo :: "sub_tracker \<Rightarrow> addr \<Rightarrow> subroutine_info res" where
  "getSubroutineInfo w color = (case sb_subroutines w color of
       None \<Rightarrow> Inl (AssertFailed ''Unknown subroutine color'') | Some s \<Rightarrow> Inr s)"

definition getSubroutineEntry :: "sub_tracker \<Rightarrow> string \<Rightarrow> nat res" where
  "getSubroutineEntry w label = rbind (getSubroutineColor w label) (\<lambda>c. rbind (getSubroutineInfo w c) (\<lambda>s. Inr (si_entry s)))"

definition getSubroutineSubgraph :: "sub_tracker \<Rightarrow> string \<Rightarrow> nat set res" where
  "getSubroutineSubgraph w label = rbind (getSubroutineColor w label) (\<lambda>c.
     Inr (set (filter (\<lambda>n. c \<in> nd_subroutineColors (sub_node w n)) [0..<length (fg_nodes (sb_graph w))])))"

definition getSubroutines :: "sub_tracker \<Rightarrow> subroutine_info list" where
  "getSubroutines w = List.map_filter (\<lambda>a. sb_subroutines w (word_of_nat a)) [0..<65536]"

end
