(* ===== verification/Klc3_Coloring.thy ===== *)
theory Klc3_Coloring
  imports Klc3_Subroutines
begin

text \<open>
  What the coloring of the flow graph computes.  \<open>succs\<close> is the specification of one propagation step on pairs of a node and a
  color; \<open>colorPath\<close> adds exactly the pairs that are reachable from the pending calls, always returns, and changes
  nothing of the graph but colors and entry marks.
\<close>

subsection \<open>The frame\<close>

definition recolored :: "node \<Rightarrow> node \<Rightarrow> bool" where
  "recolored x y \<longleftrightarrow> y = x\<lparr>nd_subroutineEntry := nd_subroutineEntry y, nd_subroutineColors := nd_subroutineColors y\<rparr>"

definition frame :: "sub_tracker \<Rightarrow> sub_tracker \<Rightarrow> bool" where
  "frame w w' \<longleftrightarrow> sb_initPC w' = sb_initPC w \<and> sb_callback w' = sb_callback w \<and>
     (\<exists>ns. sb_graph w' = (sb_graph w)\<lparr>fg_nodes := ns\<rparr> \<and> list_all2 recolored (fg_nodes (sb_graph w)) ns)"

lemma recolored_refl: "recolored x x"
  by (simp add: recolored_def)

lemma recolored_trans: "recolored x y \<Longrightarrow> recolored y z \<Longrightarrow> recolored x z"
  by (cases x; cases y; cases z) (simp add: recolored_def)

lemma frame_refl: "frame w w"
  by (auto simp: frame_def recolored_refl intro!: exI [of _ "fg_nodes (sb_graph w)"] list_all2_refl)

lemma frame_trans:
  assumes "frame a b" "frame b c"
  shows "frame a c"
proof -
  obtain ns ms where g: "sb_graph b = (sb_graph a)\<lparr>fg_nodes := ns\<rparr>" "list_all2 recolored (fg_nodes (sb_graph a)) ns"
    "sb_graph c = (sb_graph b)\<lparr>fg_nodes := ms\<rparr>" "list_all2 recolored (fg_nodes (sb_graph b)) ms"
    using assms by (auto simp: frame_def)
  have "list_all2 recolored (fg_nodes (sb_graph a)) ms"
    using list_all2_trans [of recolored recolored recolored, OF recolored_trans g(2)] g(1,4) by simp
  then show ?thesis using assms g by (auto simp: frame_def intro!: exI [of _ ms])
qed

lemma frame_fields:
  assumes "frame w w'"
  shows "sb_initPC w' = sb_initPC w" "sb_callback w' = sb_callback w" "fg_edges (sb_graph w') = fg_edges (sb_graph w)"
    "fg_nodeByAddr (sb_graph w') = fg_nodeByAddr (sb_graph w)" "fg_initPC (sb_graph w') = fg_initPC (sb_graph w)"
    "fg_initPCEdge (sb_graph w') = fg_initPCEdge (sb_graph w)" "length (fg_nodes (sb_graph w')) = length (fg_nodes (sb_graph w))"
  using assms by (auto simp: frame_def dest: list_all2_lengthD)

lemma frame_node:
  assumes "frame w w'" "n < length (fg_nodes (sb_graph w))"
  shows "nd_addr (sub_node w' n) = nd_addr (sub_node w n)" "nd_inst (sub_node w' n) = nd_inst (sub_node w n)"
    "nd_runtimeOutEdges (sub_node w' n) = nd_runtimeOutEdges (sub_node w n)"
    "nd_allOutEdges (sub_node w' n) = nd_allOutEdges (sub_node w n)" "nd_uniqueRuntimeOutEdge (sub_node w' n) = nd_uniqueRuntimeOutEdge (sub_node w n)"
    "nd_runtimeInEdges (sub_node w' n) = nd_runtimeInEdges (sub_node w n)" "nd_allInEdges (sub_node w' n) = nd_allInEdges (sub_node w n)"
proof -
  obtain ns where "sb_graph w' = (sb_graph w)\<lparr>fg_nodes := ns\<rparr>" "list_all2 recolored (fg_nodes (sb_graph w)) ns"
    using assms(1) by (auto simp: frame_def)
  then have "recolored (sub_node w n) (sub_node w' n)" using assms(2) by (simp add: list_all2_nthD)
  then show "nd_addr (sub_node w' n) = nd_addr (sub_node w n)" "nd_inst (sub_node w' n) = nd_inst (sub_node w n)"
    "nd_runtimeOutEdges (sub_node w' n) = nd_runtimeOutEdges (sub_node w n)"
    "nd_allOutEdges (sub_node w' n) = nd_allOutEdges (sub_node w n)" "nd_uniqueRuntimeOutEdge (sub_node w' n) = nd_uniqueRuntimeOutEdge (sub_node w n)"
    "nd_runtimeInEdges (sub_node w' n) = nd_runtimeInEdges (sub_node w n)" "nd_allInEdges (sub_node w' n) = nd_allInEdges (sub_node w n)"
    by (cases "sub_node w n"; cases "sub_node w' n"; simp add: recolored_def)+
qed

lemma frame_wf:
  assumes "frame w w'" "wf_graph (sb_graph w)"
  shows "wf_graph (sb_graph w')"
proof -
  note f = frame_fields [OF assms(1)] and n = frame_node [OF assms(1)]
  have "node_ok (sb_graph w') k = node_ok (sb_graph w) k" if "k < length (fg_nodes (sb_graph w))" for k
    using n [OF that] by (simp add: node_ok_def Let_def out_of_def in_of_def runtime_of_def f)
  moreover have "in_graph (sb_graph w') = in_graph (sb_graph w)" by (auto simp: fun_eq_iff in_graph_def f split: option.split)
  ultimately show ?thesis using assms(2) n by (auto simp: wf_graph_def f)
qed

lemma frame_upd_node:
  assumes "\<And>x. recolored x (f x)"
  shows "frame w (sub_upd_node n f w)"
proof -
  have "list_all2 recolored (fg_nodes (sb_graph w)) ((fg_nodes (sb_graph w))[n := f (sub_node w n)])"
    by (cases "n < length (fg_nodes (sb_graph w))")
      (auto simp: list_all2_conv_all_nth nth_list_update assms recolored_refl list_update_beyond)
  then show ?thesis by (auto simp: frame_def sub_upd_node_def upd_node_def)
qed

lemma frame_steps:
  "frame w (add_color n c w)" "frame w (enter_subroutine n w)" "record_exit n c w = Inr w' \<Longrightarrow> frame w w'"
proof -
  show "frame w (add_color n c w)" unfolding add_color_def by (rule frame_upd_node) (simp add: recolored_def)
  have "frame w (w\<lparr>sb_subroutines := ss, sb_nameToColor := ns\<rparr>)" for ss ns
    using frame_refl [of w] by (simp add: frame_def)
  then show "frame w (enter_subroutine n w)"
    unfolding enter_subroutine_def Let_def by (rule frame_trans) (rule frame_upd_node, simp add: recolored_def)
  show "frame w w'" if "record_exit n c w = Inr w'"
    using that frame_refl [of w] by (auto simp: record_exit_def frame_def split: if_splits option.splits)
qed

subsection \<open>Propagation\<close>

definition colored :: "sub_tracker \<Rightarrow> (nat \<times> addr) set" where
  "colored w = {(n, c). n < length (fg_nodes (sb_graph w)) \<and> c \<in> nd_subroutineColors (sub_node w n)}"

definition callees :: "sub_tracker \<Rightarrow> nat \<Rightarrow> (nat \<times> addr) set" where
  "callees w n = {(t, nd_addr (sub_node w t)) |e t. e \<in> set (call_edges w n) \<and> ed_to (sub_edge w e) = Some t}"

definition after_call :: "sub_tracker \<Rightarrow> nat \<Rightarrow> nat option" where
  "after_call w n = (if nd_addr (sub_node w n) = - 1 then None else getNodeByAddr (sb_graph w) (nd_addr (sub_node w n) + 1))"

definition succs :: "sub_tracker \<Rightarrow> nat \<times> addr \<Rightarrow> (nat \<times> addr) set" where
  "succs w p = (case p of (n, c) \<Rightarrow>
     if is_call (nd_inst (sub_node w n)) then callees w n \<union> (\<lambda>r. (r, c)) ` set_option (after_call w n)
     else if isRET (nd_inst (sub_node w n)) then {}
     else (\<lambda>t. (t, c)) ` set (flow_targets w n))"

definition reach :: "sub_tracker \<Rightarrow> (nat \<times> addr) set \<Rightarrow> (nat \<times> addr) set" where
  "reach w P = {(p, q). q \<in> succs w p}\<^sup>* `` P"

fun task_target :: "sub_tracker \<Rightarrow> task \<Rightarrow> (nat \<times> addr) set" where
  "task_target w (Enter e) = (\<lambda>t. (t, nd_addr (sub_node w t))) ` set_option (ed_to (sub_edge w e))"
| "task_target w (Color n c) = {(n, c)}"

definition targets :: "sub_tracker \<Rightarrow> task list \<Rightarrow> (nat \<times> addr) set" where
  "targets w ts = (\<Union>t \<in> set ts. task_target w t)"

lemma targets_simps [simp]:
  "targets w [] = {}" "targets w (t # ts) = task_target w t \<union> targets w ts" "targets w (ts @ us) = targets w ts \<union> targets w us"
  by (auto simp: targets_def)

lemma reach_simps: "reach w {} = {}" "reach w (P \<union> Q) = reach w P \<union> reach w Q" "P \<subseteq> reach w P"
  by (auto simp: reach_def)

lemma reach_step: "reach w {p} = insert p (reach w (succs w p))"
proof -
  let ?R = "{(p, q). q \<in> succs w p}"
  have "(p, q) \<in> ?R\<^sup>* \<longleftrightarrow> p = q \<or> (\<exists>r \<in> succs w p. (r, q) \<in> ?R\<^sup>*)" for q
    by (auto elim: converse_rtranclE intro: converse_rtrancl_into_rtrancl)
  then show ?thesis by (auto simp: reach_def)
qed

text \<open>The colors are propagated, except into the pending calls.\<close>

definition closed_upto :: "sub_tracker \<Rightarrow> (nat \<times> addr) set \<Rightarrow> bool" where
  "closed_upto w P \<longleftrightarrow> (\<forall>p \<in> colored w. succs w p \<subseteq> colored w \<union> P)"

lemma closed_upto_reach:
  assumes "closed_upto w P" "p \<in> colored w"
  shows "reach w {p} \<subseteq> colored w \<union> reach w P"
proof
  fix q assume "q \<in> reach w {p}"
  then have "(p, q) \<in> {(p, q). q \<in> succs w p}\<^sup>*" by (simp add: reach_def)
  then show "q \<in> colored w \<union> reach w P"
  proof (induction rule: rtrancl_induct)
    case (step y z)
    show ?case
    proof (cases "y \<in> colored w")
      case True
      then show ?thesis using assms(1) step(2) reach_simps(3) [of P w] by (auto simp: closed_upto_def)
    next
      case False
      then have "y \<in> reach w P" using step by blast
      then show ?thesis using step(2) by (auto simp: reach_def intro: rtrancl_into_rtrancl)
    qed
  qed (use assms(2) in simp)
qed

lemma frame_propagation:
  assumes "frame w w'"
  shows "n < length (fg_nodes (sb_graph w)) \<Longrightarrow> call_edges w' n = call_edges w n"
    "n < length (fg_nodes (sb_graph w)) \<Longrightarrow> flow_targets w' n = flow_targets w n"
    "n < length (fg_nodes (sb_graph w)) \<Longrightarrow> after_call w' n = after_call w n"
  using frame_fields [OF assms] frame_node [OF assms] by (simp_all add: call_edges_def flow_targets_def after_call_def getNodeByAddr_def)

text \<open>Call edges lead from calls to a node, trap edges come from traps, and no call stands at the last address.\<close>

definition edge_origin :: "graph \<Rightarrow> edge \<Rightarrow> bool" where
  "edge_origin g x \<longleftrightarrow>
     (is_call_edge x \<longrightarrow> ed_to x \<noteq> None \<and> (\<exists>n < length (fg_nodes g). ed_from x = Some n \<and> is_call (nd_inst (fg_nodes g ! n)))) \<and>
     (ed_type x = TRAP_VIRTUAL_EDGE \<longrightarrow> (\<exists>n < length (fg_nodes g). ed_from x = Some n \<and> inst_id (nd_inst (fg_nodes g ! n)) = I_TRAP))"

definition calls_ok :: "sub_tracker \<Rightarrow> bool" where
  "calls_ok w \<longleftrightarrow> wf_graph (sb_graph w) \<and> (\<forall>x \<in> set (fg_edges (sb_graph w)). edge_origin (sb_graph w) x) \<and>
     (\<forall>x \<in> set (fg_nodes (sb_graph w)). is_call (nd_inst x) \<longrightarrow> nd_addr x \<noteq> - 1)"

definition known :: "sub_tracker \<Rightarrow> addr \<Rightarrow> bool" where
  "known w c \<longleftrightarrow> c = sb_initPC w \<or> sb_subroutines w c \<noteq> None"

fun task_ok :: "sub_tracker \<Rightarrow> task \<Rightarrow> bool" where
  "task_ok w (Enter e) \<longleftrightarrow> (\<exists>t. ed_to (sub_edge w e) = Some t \<and> t < length (fg_nodes (sb_graph w)))"
| "task_ok w (Color n c) \<longleftrightarrow> n < length (fg_nodes (sb_graph w)) \<and> known w c"

text \<open>The exits of a subroutine are \<open>RET\<close> nodes, and its entry-exit pairs belong to edges in \<open>K\<close>.\<close>

definition infos_ok :: "(addr \<Rightarrow> nat set) \<Rightarrow> sub_tracker \<Rightarrow> bool" where
  "infos_ok K w \<longleftrightarrow> (\<forall>c s. sb_subroutines w c = Some s \<longrightarrow>
     (\<forall>n \<in> set (si_exits s). n < length (fg_nodes (sb_graph w)) \<and> isRET (nd_inst (sub_node w n))) \<and> dom (si_eePairs s) \<subseteq> K c)"

lemma frame_calls_ok:
  assumes "frame w w'" "calls_ok w"
  shows "calls_ok w'"
proof -
  have "is_call (nd_inst x) \<longrightarrow> nd_addr x \<noteq> - 1" if x: "x \<in> set (fg_nodes (sb_graph w'))" for x
  proof -
    obtain n where n: "n < length (fg_nodes (sb_graph w))" "x = sub_node w' n"
      using x frame_fields(7) [OF assms(1)] by (auto simp: in_set_conv_nth)
    then show ?thesis using assms(2) frame_node(1,2) [OF assms(1) n(1)] by (auto simp: calls_ok_def)
  qed
  moreover have "edge_origin (sb_graph w') x" if "edge_origin (sb_graph w) x" for x
    using that frame_fields(7) [OF assms(1)] frame_node(2) [OF assms(1)] unfolding edge_origin_def by metis
  ultimately show ?thesis using assms frame_wf [OF assms(1)] frame_fields(3) [OF assms(1)] by (auto simp: calls_ok_def)
qed

lemma edge_target:
  assumes "wf_graph g" "e < length (fg_edges g)" "ed_to (fg_edges g ! e) = Some t"
  shows "t < length (fg_nodes g)"
proof -
  have "in_graph g (ed_to (fg_edges g ! e))" using assms(1) nth_mem [OF assms(2)] by (simp add: wf_graph_def)
  then show ?thesis by (simp add: in_graph_def assms(3))
qed

lemma out_edges:
  assumes "wf_graph g" "n < length (fg_nodes g)" "e \<in> set (nd_runtimeOutEdges (fg_nodes g ! n))"
  shows "e < length (fg_edges g)"
  using assms runtime_out(1) by blast

lemma call_edges_ok:
  assumes "calls_ok w" "n < length (fg_nodes (sb_graph w))" "e \<in> set (call_edges w n)"
  shows "task_ok w (Enter e)"
proof -
  have e: "e < length (fg_edges (sb_graph w))" "is_call_edge (sub_edge w e)"
    using assms out_edges [of "sb_graph w" n e] by (auto simp: call_edges_def calls_ok_def)
  then obtain t where "ed_to (sub_edge w e) = Some t" using assms(1) nth_mem [OF e(1)] by (auto simp: calls_ok_def edge_origin_def)
  then show ?thesis using edge_target [OF _ e(1)] assms(1) by (simp add: calls_ok_def)
qed

lemma flow_targets_ok:
  assumes "wf_graph (sb_graph w)" "n < length (fg_nodes (sb_graph w))" "t \<in> set (flow_targets w n)"
  shows "t < length (fg_nodes (sb_graph w))"
proof -
  obtain e where "e \<in> set (nd_runtimeOutEdges (sub_node w n))" "ed_to (sub_edge w e) = Some t"
    using assms(3) by (auto simp: flow_targets_def List.map_filter_def)
  then show ?thesis using edge_target [OF assms(1) out_edges [OF assms(1,2)]] by blast
qed

lemma enter_fields:
  assumes "t < length (fg_nodes (sb_graph w))"
  shows "colored (enter_subroutine t w) = colored w" "known (enter_subroutine t w) (nd_addr (sub_node w t))"
    "\<And>c. known w c \<Longrightarrow> known (enter_subroutine t w) c" "infos_ok K w \<Longrightarrow> infos_ok K (enter_subroutine t w)"
    "sb_subroutines (enter_subroutine t w) = (sb_subroutines w)(nd_addr (sub_node w t) \<mapsto> SubroutineInfo (getLabel (nd_inst (sub_node w t))) t (nd_addr (sub_node w t)))"
  using assms
  by (auto simp: enter_subroutine_def Let_def sub_upd_node_def upd_node_def colored_def known_def infos_ok_def SubroutineInfo_def
      nth_list_update split: if_splits)

lemma add_color_fields:
  assumes "n < length (fg_nodes (sb_graph w))"
  shows "colored (add_color n c w) = insert (n, c) (colored w)" "known (add_color n c w) = known w" "infos_ok K (add_color n c w) = infos_ok K w"
    "sb_subroutines (add_color n c w) = sb_subroutines w"
proof -
  have "nd_inst (sub_node (add_color n c w) k) = nd_inst (sub_node w k)" for k
    using assms by (simp add: add_color_def sub_upd_node_def upd_node_def nth_list_update)
  then show "infos_ok K (add_color n c w) = infos_ok K w" by (simp add: infos_ok_def add_color_def sub_upd_node_def upd_node_def)
  show "colored (add_color n c w) = insert (n, c) (colored w)" "known (add_color n c w) = known w"
    "sb_subroutines (add_color n c w) = sb_subroutines w"
    using assms by (auto simp: add_color_def sub_upd_node_def upd_node_def colored_def known_def fun_eq_iff nth_list_update split: if_splits)
qed

lemma record_exit_returns:
  assumes "known w c" "n < length (fg_nodes (sb_graph w))" "isRET (nd_inst (sub_node w n))"
  shows "returns (record_exit n c w) (\<lambda>w'. frame w w' \<and> sb_graph w' = sb_graph w \<and> (\<forall>d. known w d \<longrightarrow> known w' d) \<and>
    (\<forall>d. sb_subroutines w d \<noteq> None \<longrightarrow> sb_subroutines w' d \<noteq> None) \<and> (\<forall>K. infos_ok K w \<longrightarrow> infos_ok K w'))"
proof (cases "c = sb_initPC w")
  case False
  then obtain s where "sb_subroutines w c = Some s" using assms(1) by (auto simp: known_def)
  with False obtain w' where w': "record_exit n c w = Inr w'" "w' = w\<lparr>sb_subroutines := (sb_subroutines w)(c \<mapsto> s\<lparr>si_exits := si_exits s @ [n]\<rparr>)\<rparr>"
    and s: "sb_subroutines w c = Some s" by (simp add: record_exit_def)
  then show ?thesis using frame_steps(3) [OF w'(1)] assms(2,3) by (auto simp: known_def infos_ok_def)
qed (simp add: record_exit_def frame_refl)

subsection \<open>The coloring is the closure\<close>

text \<open>What the calls \<open>ts\<close> achieve from \<open>w\<close> to \<open>w'\<close>.\<close>

definition colors_tasks :: "task list \<Rightarrow> sub_tracker \<Rightarrow> sub_tracker \<Rightarrow> bool" where
  "colors_tasks ts w w' \<longleftrightarrow> frame w w' \<and> (\<forall>c. known w c \<longrightarrow> known w' c) \<and>
     (\<forall>c. sb_subroutines w c \<noteq> None \<longrightarrow> sb_subroutines w' c \<noteq> None) \<and> (\<forall>K. infos_ok K w \<longrightarrow> infos_ok K w') \<and>
     colored w \<union> targets w ts \<subseteq> colored w' \<and>
     (closed_upto w (targets w ts) \<longrightarrow> colored w' = colored w \<union> reach w (targets w ts))"

lemma task_target_frame:
  assumes "frame w w'" "task_ok w t"
  shows "task_target w' t = task_target w t"
  using assms(2) frame_fields(3) [OF assms(1)] frame_node(1) [OF assms(1)] by (cases t) auto

lemma task_ok_frame: "frame w w' \<Longrightarrow> (\<And>c. known w c \<Longrightarrow> known w' c) \<Longrightarrow> task_ok w t \<Longrightarrow> task_ok w' t"
  using frame_fields(3,7) [of w w'] by (cases t) auto

lemma targets_frame:
  assumes "frame w w'" "\<forall>t \<in> set ts. task_ok w t"
  shows "targets w' ts = targets w ts"
  using assms task_target_frame [OF assms(1)] by (simp add: targets_def)

lemma succs_frame:
  assumes "frame w w'" "calls_ok w" "n < length (fg_nodes (sb_graph w))"
  shows "succs w' (n, c) = succs w (n, c)"
proof -
  have e: "fg_edges (sb_graph w') = fg_edges (sb_graph w)" using frame_fields(3) [OF assms(1)] .
  have "nd_addr (sub_node w' t) = nd_addr (sub_node w t)" if "e \<in> set (call_edges w n)" "ed_to (sub_edge w e) = Some t" for e t
    using call_edges_ok [OF assms(2,3) that(1)] that(2) frame_node(1) [OF assms(1)] by auto
  then have "callees w' n = callees w n" using frame_propagation(1) [OF assms(1,3)] e by (auto simp: callees_def)
  then show ?thesis using frame_propagation(2,3) [OF assms(1,3)] frame_node(2) [OF assms(1,3)] by (simp add: succs_def)
qed

lemma succs_in_graph:
  assumes "calls_ok w" "n < length (fg_nodes (sb_graph w))" "q \<in> succs w (n, c)"
  shows "fst q < length (fg_nodes (sb_graph w))"
proof -
  have wf: "wf_graph (sb_graph w)" using assms(1) by (simp add: calls_ok_def)
  have "r < length (fg_nodes (sb_graph w))" if "after_call w n = Some r" for r
    using wf that by (auto simp: after_call_def getNodeByAddr_def wf_graph_def split: if_splits)
  moreover have "t < length (fg_nodes (sb_graph w))" if "(t, d) \<in> callees w n" for t d
    using that call_edges_ok [OF assms(1,2)] by (fastforce simp: callees_def)
  ultimately show ?thesis
    using assms(3) flow_targets_ok [OF wf assms(2)] by (cases q) (auto simp: succs_def split: if_splits)
qed

lemma reach_frame:
  assumes "frame w w'" "calls_ok w" "\<forall>p \<in> P. fst p < length (fg_nodes (sb_graph w))"
  shows "reach w' P = reach w P"
proof -
  have inside: "fst q < length (fg_nodes (sb_graph w)) \<and> (p, q) \<in> {(p, q). q \<in> succs w' p}\<^sup>* \<longleftrightarrow>
      fst q < length (fg_nodes (sb_graph w)) \<and> (p, q) \<in> {(p, q). q \<in> succs w p}\<^sup>*" if "p \<in> P" for p q
  proof -
    have p: "fst p < length (fg_nodes (sb_graph w))" using assms(3) that by blast
    have 1: "(p, q) \<in> {(p, q). q \<in> succs w' p}\<^sup>* \<Longrightarrow> fst q < length (fg_nodes (sb_graph w)) \<and> (p, q) \<in> {(p, q). q \<in> succs w p}\<^sup>*"
    proof (induction rule: rtrancl_induct)
      case (step y z)
      then have "z \<in> succs w y" using succs_frame [OF assms(1,2), of "fst y" "snd y"] by simp
      then show ?case using step.IH succs_in_graph [OF assms(2), of "fst y" z "snd y"] by (auto intro: rtrancl_into_rtrancl)
    qed (use p in simp)
    have 2: "(p, q) \<in> {(p, q). q \<in> succs w p}\<^sup>* \<Longrightarrow> fst q < length (fg_nodes (sb_graph w)) \<and> (p, q) \<in> {(p, q). q \<in> succs w' p}\<^sup>*"
    proof (induction rule: rtrancl_induct)
      case (step y z)
      then have "z \<in> succs w' y" using succs_frame [OF assms(1,2), of "fst y" "snd y"] by simp
      then show ?case using step succs_in_graph [OF assms(2), of "fst y" z "snd y"] by (auto intro: rtrancl_into_rtrancl)
    qed (use p in simp)
    from 1 2 show ?thesis by blast
  qed
  have "fst q < length (fg_nodes (sb_graph w))" if "p \<in> P" "(p, q) \<in> {(p, q). q \<in> succs v p}\<^sup>*" "v = w \<or> v = w'" for p q v
    using that(2)
  proof (induction rule: rtrancl_induct)
    case (step y z)
    then show ?case
      using that(3) succs_in_graph [OF assms(2), of "fst y" z "snd y"] succs_frame [OF assms(1,2), of "fst y" "snd y"] by auto
  qed (use assms(3) that(1) in blast)
  then show ?thesis using inside unfolding reach_def by blast
qed

lemma closed_upto_frame:
  assumes "frame w w'" "calls_ok w"
  shows "closed_upto w' P \<longleftrightarrow> (\<forall>p \<in> colored w'. succs w p \<subseteq> colored w' \<union> P)"
  unfolding closed_upto_def
proof (rule ball_cong [OF refl])
  fix p assume "p \<in> colored w'"
  then have "fst p < length (fg_nodes (sb_graph w))" using frame_fields(7) [OF assms(1)] by (auto simp: colored_def)
  then show "(succs w' p \<subseteq> colored w' \<union> P) = (succs w p \<subseteq> colored w' \<union> P)"
    using succs_frame [OF assms, of "fst p" "snd p"] by simp
qed

lemma colors_tasks_via:
  assumes w1: "frame w w1" "\<And>d. known w d \<Longrightarrow> known w1 d" "\<And>d. sb_subroutines w d \<noteq> None \<Longrightarrow> sb_subroutines w1 d \<noteq> None"
      "\<And>K. infos_ok K w \<Longrightarrow> infos_ok K w1"
    and cover: "colored w \<union> targets w ts \<subseteq> colored w1 \<union> targets w1 ts1"
    and closed: "closed_upto w (targets w ts) \<Longrightarrow> closed_upto w1 (targets w1 ts1) \<and>
      colored w1 \<union> reach w1 (targets w1 ts1) = colored w \<union> reach w (targets w ts)"
    and rest: "colors_tasks ts1 w1 w'"
  shows "colors_tasks ts w w'"
  using assms frame_trans [OF w1(1)] unfolding colors_tasks_def by blast

lemma targets_in_graph:
  assumes "\<forall>t \<in> set ts. task_ok w t" "p \<in> targets w ts"
  shows "fst p < length (fg_nodes (sb_graph w))"
proof -
  obtain t where t: "t \<in> set ts" "p \<in> task_target w t" using assms(2) by (auto simp: targets_def)
  have "task_ok w t" using assms(1) t(1) by blast
  then show ?thesis using t(2) by (cases t) auto
qed

lemma colors_tasks_node:
  assumes ok: "calls_ok w" "n < length (fg_nodes (sb_graph w))" "\<forall>t \<in> set ts. task_ok w t"
    and w1: "frame w w1" "\<And>d. known w d \<Longrightarrow> known w1 d" "\<And>d. sb_subroutines w d \<noteq> None \<Longrightarrow> sb_subroutines w1 d \<noteq> None"
      "\<And>K. infos_ok K w \<Longrightarrow> infos_ok K w1" "colored w1 = insert (n, c) (colored w)"
    and ts1: "targets w1 ts1 = succs w (n, c) \<union> targets w ts"
    and rest: "colors_tasks ts1 w1 w'"
  shows "colors_tasks (Color n c # ts) w w'"
proof (rule colors_tasks_via [OF w1(1-4)])
  show "colors_tasks ts1 w1 w'" by (rule rest)
  show "colored w \<union> targets w (Color n c # ts) \<subseteq> colored w1 \<union> targets w1 ts1" by (auto simp: w1(5) ts1)
next
  assume cl: "closed_upto w (targets w (Color n c # ts))"
  have "\<forall>p \<in> targets w1 ts1. fst p < length (fg_nodes (sb_graph w))"
    using succs_in_graph [OF ok(1,2)] targets_in_graph [OF ok(3)] by (auto simp: ts1)
  then have "reach w1 (targets w1 ts1) = reach w (succs w (n, c)) \<union> reach w (targets w ts)"
    using reach_frame [OF w1(1) ok(1)] by (simp add: ts1 reach_simps)
  moreover have "closed_upto w1 (targets w1 ts1)"
    unfolding closed_upto_frame [OF w1(1) ok(1)] w1(5) ts1 using cl by (auto simp: closed_upto_def)
  ultimately show "closed_upto w1 (targets w1 ts1) \<and>
      colored w1 \<union> reach w1 (targets w1 ts1) = colored w \<union> reach w (targets w (Color n c # ts))"
    using reach_step [of w "(n, c)"] reach_simps(2) [of w "{(n, c)}"] by (auto simp: w1(5))
qed

lemma colors_tasks_enter:
  assumes ok: "calls_ok w" "\<forall>t \<in> set (Enter e # ts). task_ok w t"
    and t: "ed_to (sub_edge w e) = Some t" "t < length (fg_nodes (sb_graph w))"
    and rest: "colors_tasks (Color t (nd_addr (sub_node w t)) # ts) (enter_subroutine t w) w'"
  shows "colors_tasks (Enter e # ts) w w'"
proof -
  let ?w = "enter_subroutine t w" and ?ts = "Color t (nd_addr (sub_node w t)) # ts"
  have f: "frame w ?w" by (rule frame_steps)
  have T: "targets ?w ?ts = targets w (Enter e # ts)" using targets_frame [OF f] ok(2) by (simp add: t(1))
  have R: "reach ?w (targets ?w ?ts) = reach w (targets w (Enter e # ts))"
    unfolding T using reach_frame [OF f ok(1)] targets_in_graph [OF ok(2)] by blast
  have C: "closed_upto ?w P \<longleftrightarrow> closed_upto w P" for P
    using closed_upto_frame [OF f ok(1), of P] by (simp add: closed_upto_def [of w] enter_fields(1) [OF t(2)])
  show ?thesis
    by (rule colors_tasks_via [OF f _ _ _ _ _ rest]) (use enter_fields [OF t(2)] R C T in auto)
qed

lemma colors_tasks_skip:
  assumes p: "(n, c) \<in> colored w" and rest: "colors_tasks ts w w'"
  shows "colors_tasks (Color n c # ts) w w'"
proof (rule colors_tasks_via [OF frame_refl _ _ _ _ _ rest])
  assume "closed_upto w (targets w (Color n c # ts))"
  then have cl: "closed_upto w (targets w ts)" using p by (auto simp: closed_upto_def)
  have "reach w (targets w (Color n c # ts)) = reach w {(n, c)} \<union> reach w (targets w ts)"
    using reach_simps(2) [of w "{(n, c)}" "targets w ts"] by simp
  then show "closed_upto w (targets w ts) \<and> colored w \<union> reach w (targets w ts) = colored w \<union> reach w (targets w (Color n c # ts))"
    using cl closed_upto_reach [OF cl p] by blast
qed (use p in auto)

text \<open>The calls that follow the coloring of a node: they aim at the successors.\<close>

definition node_tasks :: "sub_tracker \<Rightarrow> nat \<Rightarrow> addr \<Rightarrow> task list" where
  "node_tasks w n c =
     (if is_call (nd_inst (sub_node w n)) then map Enter (call_edges w n) @ (case after_call w n of None \<Rightarrow> [] | Some r \<Rightarrow> [Color r c])
      else if isRET (nd_inst (sub_node w n)) then []
      else map (\<lambda>t. Color t c) (flow_targets w n))"

lemma node_tasks_targets: "targets w (node_tasks w n c) = succs w (n, c)"
  by (auto simp: node_tasks_def succs_def targets_def callees_def split: option.splits)

lemma node_tasks_ok:
  assumes "calls_ok w" "n < length (fg_nodes (sb_graph w))" "known w c"
  shows "\<forall>t \<in> set (node_tasks w n c). task_ok w t"
proof -
  have wf: "wf_graph (sb_graph w)" using assms(1) by (simp add: calls_ok_def)
  have "r < length (fg_nodes (sb_graph w))" if "after_call w n = Some r" for r
    using wf that by (auto simp: after_call_def getNodeByAddr_def wf_graph_def split: if_splits)
  then show ?thesis
    using call_edges_ok [OF assms(1,2)] flow_targets_ok [OF wf assms(2)] assms(3)
    by (auto simp: node_tasks_def simp del: task_ok.simps(1) split: option.splits)
qed

lemma colorPath_node:
  assumes w: "calls_ok w" and n: "n < length (fg_nodes (sb_graph w))" "c \<notin> nd_subroutineColors (sub_node w n)"
  shows "colorPath (Color n c # ts) w =
    (if \<not> is_call (nd_inst (sub_node w n)) \<and> isRET (nd_inst (sub_node w n)) then rbind (record_exit n c (add_color n c w)) (\<lambda>w. colorPath ts w)
     else colorPath (node_tasks (add_color n c w) n c @ ts) (add_color n c w))"
proof -
  let ?w = "add_color n c w"
  have f: "frame w ?w" by (rule frame_steps)
  have i: "nd_inst (sub_node ?w n) = nd_inst (sub_node w n)" using frame_node(2) [OF f n(1)] .
  have "node_after ?w (nd_addr (sub_node ?w n)) = Inr (after_call ?w n)" if "is_call (nd_inst (sub_node w n))"
  proof -
    have "nd_addr (sub_node ?w n) \<noteq> - 1" using w that nth_mem [OF n(1)] frame_node(1) [OF f n(1)] by (auto simp: calls_ok_def)
    then show ?thesis by (simp add: node_after_def after_call_def)
  qed
  then show ?thesis using n i by (simp add: node_tasks_def Let_def)
qed

declare colorPath.simps(3) [simp del]

lemma colorPath_colored: "n < length (fg_nodes (sb_graph w)) \<Longrightarrow> c \<in> nd_subroutineColors (sub_node w n) \<Longrightarrow> colorPath (Color n c # ts) w = colorPath ts w"
  by (simp add: colorPath.simps(3))

lemma colorPath_colors:
  assumes "calls_ok w" "\<forall>t \<in> set ts. task_ok w t"
  shows "returns (colorPath ts w) (colors_tasks ts w)"
  using assms
proof (induction ts w rule: colorPath.induct)
  case (1 w)
  then show ?case by (simp add: colors_tasks_def frame_refl reach_simps)
next
  case (2 e ts w)
  obtain t where t: "ed_to (sub_edge w e) = Some t" "t < length (fg_nodes (sb_graph w))" using "2.prems"(2) by auto
  let ?w = "enter_subroutine t w"
  have f: "frame w ?w" by (rule frame_steps)
  have "\<forall>x \<in> set (Color t (nd_addr (sub_node w t)) # ts). task_ok ?w x"
    using "2.prems"(2) task_ok_frame [OF f enter_fields(3) [OF t(2)]] enter_fields(2) [OF t(2)] t(2) frame_fields(7) [OF f] by auto
  from "2.IH" [OF t(1) frame_calls_ok [OF f "2.prems"(1)] this] show ?case
    using colors_tasks_enter [OF "2.prems" t] by (auto simp: t(1) elim: returns_weaken)
next
  case (3 n c ts w)
  have n: "n < length (fg_nodes (sb_graph w))" and c: "known w c" and ts: "\<forall>t \<in> set ts. task_ok w t" using "3.prems"(2) by auto
  show ?case
  proof (cases "c \<in> nd_subroutineColors (sub_node w n)")
    case True
    then have "(n, c) \<in> colored w" using n by (simp add: colored_def)
    moreover have "returns (colorPath ts w) (colors_tasks ts w)" using "3.IH"(1) n True "3.prems"(1) ts by auto
    ultimately show ?thesis using colors_tasks_skip colorPath_colored [OF n True] by (auto elim: returns_weaken)
  next
    case False
    let ?w = "add_color n c w" and ?i = "nd_inst (sub_node w n)"
    note a = add_color_fields [OF n, where c = c]
    have f: "frame w ?w" and w: "calls_ok ?w" using frame_steps(1) frame_calls_ok "3.prems"(1) by blast+
    have n': "n < length (fg_nodes (sb_graph ?w))" and i: "nd_inst (sub_node ?w n) = ?i"
      using n frame_fields(7) [OF f] frame_node(2) [OF f n] by simp_all
    have ts': "\<forall>t \<in> set (node_tasks ?w n c @ ts). task_ok ?w t"
      using ts task_ok_frame [OF f] a(2) node_tasks_ok [OF w n'] c by auto
    have T: "targets ?w (node_tasks ?w n c @ ts) = succs w (n, c) \<union> targets w ts"
      using targets_frame [OF f ts] succs_frame [OF f "3.prems"(1) n] by (simp add: node_tasks_targets)
    note node = colors_tasks_node [OF "3.prems"(1) n ts, of _ c]
    show ?thesis
    proof (cases "\<not> is_call ?i \<and> isRET ?i")
      case True
      have "returns (record_exit n c ?w) (\<lambda>w'. record_exit n c ?w = Inr w' \<and> frame ?w w' \<and> sb_graph w' = sb_graph ?w \<and> (\<forall>d. known ?w d \<longrightarrow> known w' d) \<and>
          (\<forall>d. sb_subroutines ?w d \<noteq> None \<longrightarrow> sb_subroutines w' d \<noteq> None) \<and> (\<forall>K. infos_ok K ?w \<longrightarrow> infos_ok K w'))"
        using record_exit_returns [of ?w c n] c a(2) n' i True by (auto simp: returns_def)
      then have "returns (rbind (record_exit n c ?w) (colorPath ts)) (colors_tasks (Color n c # ts) w)"
      proof (rule returns_bindI)
        fix w' assume w': "record_exit n c ?w = Inr w' \<and> frame ?w w' \<and> sb_graph w' = sb_graph ?w \<and> (\<forall>d. known ?w d \<longrightarrow> known w' d) \<and>
          (\<forall>d. sb_subroutines ?w d \<noteq> None \<longrightarrow> sb_subroutines w' d \<noteq> None) \<and> (\<forall>K. infos_ok K ?w \<longrightarrow> infos_ok K w')"
        have f': "frame w w'" using frame_trans [OF f] w' by blast
        have "targets w' ts = succs w (n, c) \<union> targets w ts" "colored w' = insert (n, c) (colored w)"
          using targets_frame [OF f' ts] True w' a(1) by (simp_all add: succs_def colored_def)
        moreover have "returns (colorPath ts w') (colors_tasks ts w')"
          by (rule "3.IH"(3) [OF _ False refl refl]) (use n i True w' frame_calls_ok [OF _ w] ts' task_ok_frame in auto)
        ultimately show "returns (colorPath ts w') (colors_tasks (Color n c # ts) w)"
          using node [OF f'] w' a(2-4) by (auto elim: returns_weaken)
      qed
      then show ?thesis using colorPath_node [OF "3.prems"(1) n False] True by simp
    next
      case no_ret: False
      have "returns (colorPath (node_tasks ?w n c @ ts) ?w) (colors_tasks (node_tasks ?w n c @ ts) ?w)"
      proof (cases "is_call ?i")
        case True
        have "nd_addr (sub_node ?w n) \<noteq> - 1" using w True nth_mem [OF n'] i by (auto simp: calls_ok_def)
        then have r: "node_after ?w (nd_addr (sub_node ?w n)) = Inr (after_call ?w n)" by (simp add: node_after_def after_call_def)
        have e: "node_tasks ?w n c @ ts = map Enter (call_edges ?w n) @ (case after_call ?w n of None \<Rightarrow> [] | Some r \<Rightarrow> [Color r c]) @ ts"
          using True by (simp add: node_tasks_def i)
        show ?thesis unfolding e by (rule "3.IH"(2) [OF _ False refl refl _ r w]) (use n i True ts' e in auto)
      next
        case nc: False
        then have e: "node_tasks ?w n c @ ts = map (\<lambda>t. Color t c) (flow_targets ?w n) @ ts" using no_ret by (simp add: node_tasks_def i)
        show ?thesis unfolding e by (rule "3.IH"(4) [OF _ False refl refl _ _ w]) (use n i nc no_ret ts' e in auto)
      qed
      then show ?thesis using colorPath_node [OF "3.prems"(1) n False] no_ret node [OF f _ _ _ a(1) T] a(2-4) by (auto elim: returns_weaken)
    qed
  qed
qed

end
