(* ===== verification/Klc3_Stacks.thy ===== *)
theory Klc3_Stacks
  imports Klc3_Coloring
begin

text \<open>
  Construction of the subroutine tracker, and the update of the color stack and the stack of calling nodes after every
  step.  Adding the edges from the exits of a subroutine extends the graph (\<open>extends\<close>) and keeps the colors and the counts of the
  coverage tracker.
\<close>

subsection \<open>Pairs of entries and exits\<close>

definition extends :: "sub_tracker \<Rightarrow> sub_tracker \<Rightarrow> bool" where
  "extends w w' \<longleftrightarrow> grows (sb_graph w) (sb_graph w') \<and> (calls_ok w \<longrightarrow> calls_ok w') \<and> sb_initPC w' = sb_initPC w \<and>
     fg_initPC (sb_graph w') = fg_initPC (sb_graph w) \<and>
     (\<forall>n < length (fg_nodes (sb_graph w)). nd_subroutineColors (sub_node w' n) = nd_subroutineColors (sub_node w n)) \<and>
     (\<forall>c. sb_subroutines w' c = None \<longleftrightarrow> sb_subroutines w c = None) \<and>
     (\<forall>ct s. sb_callback w = Some ct \<longrightarrow> counts_ok (sb_graph w, ct, s :: state) \<longrightarrow>
        (\<exists>ct'. sb_callback w' = Some ct' \<and> counts_ok (sb_graph w', ct', s)))"

lemma extends_refl: "extends w w"
  by (simp add: extends_def grows_refl)

lemma extends_trans:
  assumes "extends a b" "extends b c"
  shows "extends a c"
  unfolding extends_def
proof (intro conjI allI impI)
  have ab: "grows (sb_graph a) (sb_graph b)" and bc: "grows (sb_graph b) (sb_graph c)" using assms by (simp_all add: extends_def)
  then show "grows (sb_graph a) (sb_graph c)" by (rule grows_trans)
  show "nd_subroutineColors (sub_node c n) = nd_subroutineColors (sub_node a n)" if "n < length (fg_nodes (sb_graph a))" for n
    using assms that ab by (simp add: extends_def grows_def)
  show "\<exists>ct'. sb_callback c = Some ct' \<and> counts_ok (sb_graph c, ct', s)" if "sb_callback a = Some ct" "counts_ok (sb_graph a, ct, s :: state)" for ct s
    using assms that unfolding extends_def by meson
qed (use assms in \<open>simp_all add: extends_def\<close>)

lemma count_newEdge:
  assumes "newEdge from to t g = (e, g')" "in_graph g from" "in_graph g to" "counts_ok (g, ct, s)"
  shows "counts_ok (g', newEdgeCallback t ct, s)"
  using assms(4) newEdge_view(2) [OF assms(1-3)] by (simp add: counts_ok_def count_edges_def newEdgeCallback_def fresh_edge_def)

lemma counts_upd_edge:
  assumes "\<And>x. ed_type (f x) = ed_type x" "\<And>x. ed_covered (f x) = ed_covered x"
  shows "counts_ok (upd_edge e f g, ct, s) = counts_ok (g, ct, s)"
proof -
  have "length (filter P (fg_edges (upd_edge e f g))) = length (filter P (fg_edges g))" if "\<And>x. P (f x) = P x" for P
  proof (cases "e < length (fg_edges g)")
    case True
    then show ?thesis using count_update [OF True, of P f] that by (simp add: count_edges_def)
  qed (simp add: upd_edge_def list_update_beyond)
  then show ?thesis using assms by (simp add: counts_ok_def count_edges_def)
qed

lemma add_exit_edge_extends:
  assumes "exit < length (fg_nodes (sb_graph w))" "r < length (fg_nodes (sb_graph w))"
  shows "extends w (add_exit_edge e c r exit w)"
proof -
  obtain x g1 where x: "newEdge (Some exit) (Some r) RET_EDGE (sb_graph w) = (x, g1)" by fastforce
  let ?g = "upd_edge x (\<lambda>y. y\<lparr>ed_associatedEdge := Some e\<rparr>) g1"
  have i: "in_graph (sb_graph w) (Some exit)" "in_graph (sb_graph w) (Some r)" using assms by (simp_all add: in_graph_def)
  note v = newEdge_view [OF x i] and gr = newEdge_grows [OF x i]
  let ?w = "add_exit_edge e c r exit w"
  have g: "sb_graph ?w = ?g" "sb_initPC ?w = sb_initPC w" "sb_callback ?w = map_option (newEdgeCallback RET_EDGE) (sb_callback w)"
    "\<And>d. sb_subroutines ?w d = None \<longleftrightarrow> sb_subroutines w d = None"
    by (auto simp: add_exit_edge_def tracked_newEdge_def x Let_def split: option.splits)
  have G: "grows (sb_graph w) ?g" by (rule grows_trans [OF gr(1) upd_edge_grows]) simp_all
  have "nd_subroutineColors (fg_nodes ?g ! n) = nd_subroutineColors (sub_node w n) \<and> nd_addr (fg_nodes ?g ! n) = nd_addr (sub_node w n)
      \<and> nd_inst (fg_nodes ?g ! n) = nd_inst (sub_node w n)"
    if "n < length (fg_nodes (sb_graph w))" for n
    using v(8) [OF that] by (auto simp: upd_edge_def add_out_def add_in_def Let_def)
  note nodes = this
  have "calls_ok ?w" if "calls_ok w"
  proof -
    have "edge_origin ?g y" if "y \<in> set (fg_edges ?g)" for y
    proof -
      have "y \<in> set (fg_edges (sb_graph w)) \<or> y = (fg_edges g1 ! x)\<lparr>ed_associatedEdge := Some e\<rparr> \<or> y = fresh_edge (Some exit) (Some r) RET_EDGE"
        using that set_update_subset_insert [of "fg_edges g1" x] by (auto simp: upd_edge_def v(2))
      moreover have "edge_origin ?g y" if "edge_origin (sb_graph w) y"
        using that nodes v(7) unfolding edge_origin_def by (auto simp: upd_edge_def)
      ultimately show ?thesis using \<open>calls_ok w\<close> gr(2) by (auto simp: calls_ok_def edge_origin_def is_call_edge_def fresh_edge_def)
    qed
    moreover have "is_call (nd_inst y) \<longrightarrow> nd_addr y \<noteq> - 1" if y: "y \<in> set (fg_nodes ?g)" for y
    proof -
      obtain n where "n < length (fg_nodes (sb_graph w))" "y = fg_nodes ?g ! n" using y v(7) by (auto simp: upd_edge_def in_set_conv_nth)
      then show ?thesis using nodes \<open>calls_ok w\<close> by (auto simp: calls_ok_def)
    qed
    ultimately show ?thesis using \<open>calls_ok w\<close> G by (simp add: calls_ok_def g(1) grows_def)
  qed
  moreover have "counts_ok (?g, newEdgeCallback RET_EDGE ct, s :: state)" if "counts_ok (sb_graph w, ct, s)" for ct s
    using count_newEdge [OF x i that] by (simp add: counts_upd_edge)
  ultimately show ?thesis using G nodes g v(5) by (auto simp: extends_def upd_edge_def)
qed

lemma extends_fields:
  assumes "extends w w'"
  shows "length (fg_nodes (sb_graph w')) = length (fg_nodes (sb_graph w))" "fg_nodeByAddr (sb_graph w') = fg_nodeByAddr (sb_graph w)"
    "n < length (fg_nodes (sb_graph w)) \<Longrightarrow> nd_inst (sub_node w' n) = nd_inst (sub_node w n)"
    "sb_subroutines w' c = None \<longleftrightarrow> sb_subroutines w c = None" "known w' c = known w c" "colored w' = colored w"
  using assms by (auto simp: extends_def grows_def known_def colored_def)

lemma add_exit_edge_infos:
  assumes "infos_ok K w" "e \<in> K c" "exit < length (fg_nodes (sb_graph w))" "r < length (fg_nodes (sb_graph w))"
  shows "infos_ok K (add_exit_edge e c r exit w)"
proof -
  let ?w = "add_exit_edge e c r exit w"
  note x = extends_fields(1,3) [OF add_exit_edge_extends [OF assms(3,4)]]
  have s: "\<exists>t. sb_subroutines w d = Some t \<and> si_exits s = si_exits t \<and> dom (si_eePairs s) \<subseteq> dom (si_eePairs t) \<union> (if d = c then {e} else {})"
    if "sb_subroutines ?w d = Some s" for d s
    using that by (auto simp: add_exit_edge_def tracked_newEdge_def Let_def split: prod.splits option.splits if_splits)
  show ?thesis
    unfolding infos_ok_def
  proof (intro allI impI)
    fix d t assume "sb_subroutines ?w d = Some t"
    from s [OF this] obtain t' where t': "sb_subroutines w d = Some t'" "si_exits t = si_exits t'"
      "dom (si_eePairs t) \<subseteq> dom (si_eePairs t') \<union> (if d = c then {e} else {})" by blast
    have ok: "\<forall>n \<in> set (si_exits t'). n < length (fg_nodes (sb_graph w)) \<and> isRET (nd_inst (sub_node w n))" "dom (si_eePairs t') \<subseteq> K d"
      using assms(1) t'(1) by (simp_all add: infos_ok_def)
    have "dom (si_eePairs t) \<subseteq> K d" using t'(3) ok(2) assms(2) by (cases "d = c") (simp_all, blast+)
    then show "(\<forall>n \<in> set (si_exits t). n < length (fg_nodes (sb_graph ?w)) \<and> isRET (nd_inst (sub_node ?w n))) \<and> dom (si_eePairs t) \<subseteq> K d"
      using t'(2) x ok(1) by simp
  qed
qed

lemma exit_edges_extend:
  assumes "\<forall>n \<in> set xs. n < length (fg_nodes (sb_graph w))" "r < length (fg_nodes (sb_graph w))" "infos_ok K w" "e \<in> K c"
  shows "extends w (fold (add_exit_edge e c r) xs w) \<and> infos_ok K (fold (add_exit_edge e c r) xs w)"
  using assms
proof (induction xs arbitrary: w)
  case (Cons n xs)
  let ?w = "add_exit_edge e c r n w"
  have x: "extends w ?w" "infos_ok K ?w" using Cons.prems add_exit_edge_extends add_exit_edge_infos by simp_all
  with Cons.IH [of ?w] Cons.prems extends_fields(1) [OF x(1)] show ?case by (auto intro: extends_trans)
qed (simp add: extends_refl)

lemma setUpEntryExitPairs_returns:
  assumes "calls_ok w" "infos_ok K w" "ed_to (sub_edge w e) = Some m" "ed_from (sub_edge w e) = Some k" "nd_addr (sub_node w k) \<noteq> - 1"
    and "sb_subroutines w (nd_addr (sub_node w m)) = Some s" "si_eePairs s e = None"
  shows "returns (setUpEntryExitPairs e w) (\<lambda>w'. extends w w' \<and> infos_ok (K(nd_addr (sub_node w m) := insert e (K (nd_addr (sub_node w m))))) w')"
proof -
  let ?c = "nd_addr (sub_node w m)"
  let ?K = "K(?c := insert e (K ?c))"
  let ?w = "w\<lparr>sb_subroutines := (sb_subroutines w)(?c \<mapsto> s\<lparr>si_eePairs := (si_eePairs s)(e \<mapsto> [])\<rparr>)\<rparr>"
  have x: "extends w ?w" using assms(6) by (auto simp: extends_def grows_refl calls_ok_def)
  have i: "infos_ok ?K ?w" using assms(2,6) by (fastforce simp: infos_ok_def)
  have xs: "\<forall>n \<in> set (si_exits s). n < length (fg_nodes (sb_graph ?w))" using assms(2,6) by (auto simp: infos_ok_def)
  have r: "r < length (fg_nodes (sb_graph ?w))" if "getNodeByAddr (sb_graph w) a = Some r" for r a
    using assms(1) that by (simp add: calls_ok_def wf_graph_def getNodeByAddr_def)
  show ?thesis
    using assms(3-7) x i exit_edges_extend [OF xs r i, of _ _ e ?c] extends_trans [OF x]
    by (auto simp: setUpEntryExitPairs_def node_after_def Let_def split: option.split)
qed

subsection \<open>The constructor\<close>

lemma extends_edge:
  assumes "extends w w'" "e < length (fg_edges (sb_graph w))"
  shows "e < length (fg_edges (sb_graph w'))" "ed_type (sub_edge w' e) = ed_type (sub_edge w e)"
    "ed_from (sub_edge w' e) = ed_from (sub_edge w e)" "ed_to (sub_edge w' e) = ed_to (sub_edge w e)"
proof -
  obtain xs where x: "map edge_view (fg_edges (sb_graph w')) = map edge_view (fg_edges (sb_graph w)) @ xs"
    using assms(1) by (auto simp: extends_def grows_def)
  have l: "length (fg_edges (sb_graph w')) = length (fg_edges (sb_graph w)) + length xs" using arg_cong [OF x, of length] by simp
  then show e: "e < length (fg_edges (sb_graph w'))" using assms(2) by simp
  have "edge_view (sub_edge w' e) = edge_view (sub_edge w e)"
    using arg_cong [OF x, of "\<lambda>xs. xs ! e"] assms(2) e by (simp add: nth_append)
  then show "ed_type (sub_edge w' e) = ed_type (sub_edge w e)" "ed_from (sub_edge w' e) = ed_from (sub_edge w e)"
    "ed_to (sub_edge w' e) = ed_to (sub_edge w e)" by (simp_all add: edge_view_def)
qed

lemma extends_edges: "extends w w' \<Longrightarrow> length (fg_edges (sb_graph w)) \<le> length (fg_edges (sb_graph w'))"
  unfolding extends_def grows_def by (metis length_append length_map le_add1)

lemma infos_ok_mono: "infos_ok K w \<Longrightarrow> (\<And>c. K c \<subseteq> L c) \<Longrightarrow> infos_ok L w"
  unfolding infos_ok_def by (meson subset_trans)

lemma pair_edge_returns:
  assumes "calls_ok w" "infos_ok (\<lambda>_. {0..<e}) w" "e < length (fg_edges (sb_graph w))"
  shows "returns (pair_edge e w) (\<lambda>w'. extends w w' \<and> calls_ok w' \<and> infos_ok (\<lambda>_. {0..<Suc e}) w')"
proof -
  have mono: "infos_ok (\<lambda>_. {0..<Suc e}) w'" if "infos_ok ((\<lambda>_. {0..<e})(c := insert e {0..<e})) w'" for c w'
    using that by (rule infos_ok_mono) auto
  have same: "infos_ok (\<lambda>_. {0..<Suc e}) w" using assms(2) by (rule infos_ok_mono) auto
  show ?thesis
  proof (cases "is_call_edge (sub_edge w e)")
    case False
    then show ?thesis using assms(1) same by (simp add: pair_edge_def extends_refl)
  next
    case True
    then obtain m k where mk: "ed_to (sub_edge w e) = Some m" "ed_from (sub_edge w e) = Some k" "k < length (fg_nodes (sb_graph w))"
      "is_call (nd_inst (sub_node w k))" using assms(1) nth_mem [OF assms(3)] by (auto simp: calls_ok_def edge_origin_def)
    then have k: "nd_addr (sub_node w k) \<noteq> - 1" using assms(1) nth_mem [OF mk(3)] by (auto simp: calls_ok_def)
    show ?thesis
    proof (cases "sb_subroutines w (nd_addr (sub_node w m))")
      case None
      then show ?thesis using True mk assms(1) same by (simp add: pair_edge_def extends_refl)
    next
      case (Some s)
      have "dom (si_eePairs s) \<subseteq> {0..<e}" using assms(2) Some by (auto simp: infos_ok_def)
      then have "si_eePairs s e = None" by (auto simp: domIff)
      then show ?thesis
        using setUpEntryExitPairs_returns [OF assms(1,2) mk(1,2) k Some] True mk(1) Some mono assms(1)
        by (auto simp: pair_edge_def extends_def elim!: returns_weaken)
    qed
  qed
qed

lemma pair_edges_return:
  assumes "calls_ok w" "infos_ok (\<lambda>_. {0..<k}) w" "k + n \<le> length (fg_edges (sb_graph w))"
  shows "returns (rfold pair_edge [k..<k + n] w) (\<lambda>w'. extends w w' \<and> calls_ok w' \<and> infos_ok (\<lambda>_. {0..<k + n}) w')"
  using assms
proof (induction n arbitrary: k w)
  case (Suc n)
  have "returns (pair_edge k w) (\<lambda>w'. extends w w' \<and> calls_ok w' \<and> infos_ok (\<lambda>_. {0..<Suc k}) w')"
    by (rule pair_edge_returns) (use Suc.prems in auto)
  moreover have "[k..<k + Suc n] = k # [Suc k..<Suc k + n]" using upt_conv_Cons [of k "k + Suc n"] by simp
  ultimately show ?case
  proof (simp only: rfold.simps, elim returns_bindI)
    fix w' assume w': "extends w w' \<and> calls_ok w' \<and> infos_ok (\<lambda>_. {0..<Suc k}) w'"
    have "returns (rfold pair_edge [Suc k..<Suc k + n] w') (\<lambda>w''. extends w' w'' \<and> calls_ok w'' \<and> infos_ok (\<lambda>_. {0..<Suc k + n}) w'')"
    proof (rule Suc.IH)
      show "Suc k + n \<le> length (fg_edges (sb_graph w'))" using extends_edges [of w w'] w' Suc.prems(3) by simp
    qed (use w' in simp_all)
    then show "returns (rfold pair_edge [Suc k..<Suc k + n] w') (\<lambda>w''. extends w w'' \<and> calls_ok w'' \<and> infos_ok (\<lambda>_. {0..<k + Suc n}) w'')"
      using w' extends_trans by (auto elim!: returns_weaken)
  qed
qed (simp add: extends_refl)

text \<open>The specification of the colors: a color starts at the main code or at the target of a call, flows along edges, skips over calls and stops at returns.\<close>

inductive has_color :: "graph \<Rightarrow> nat \<Rightarrow> addr \<Rightarrow> bool" for g where
  main: "getNodeByAddr g (fg_initPC g) = Some n \<Longrightarrow> has_color g n (fg_initPC g)"
| flow: "has_color g n c \<Longrightarrow> \<not> is_call (nd_inst (fg_nodes g ! n)) \<Longrightarrow> \<not> isRET (nd_inst (fg_nodes g ! n)) \<Longrightarrow>
    e \<in> set (nd_runtimeOutEdges (fg_nodes g ! n)) \<Longrightarrow> ed_to (fg_edges g ! e) = Some m \<Longrightarrow> has_color g m c"
| call: "has_color g n c \<Longrightarrow> is_call (nd_inst (fg_nodes g ! n)) \<Longrightarrow> e \<in> set (nd_runtimeOutEdges (fg_nodes g ! n)) \<Longrightarrow>
    is_call_edge (fg_edges g ! e) \<Longrightarrow> ed_to (fg_edges g ! e) = Some m \<Longrightarrow> has_color g m (nd_addr (fg_nodes g ! m))"
| resume: "has_color g n c \<Longrightarrow> is_call (nd_inst (fg_nodes g ! n)) \<Longrightarrow> nd_addr (fg_nodes g ! n) \<noteq> - 1 \<Longrightarrow>
    getNodeByAddr g (nd_addr (fg_nodes g ! n) + 1) = Some m \<Longrightarrow> has_color g m c"

lemma succs_cases:
  "(m, d) \<in> succs w (n, c) \<longleftrightarrow>
    (if is_call (nd_inst (sub_node w n)) then
       (\<exists>e \<in> set (nd_runtimeOutEdges (sub_node w n)). is_call_edge (sub_edge w e) \<and> ed_to (sub_edge w e) = Some m \<and> d = nd_addr (sub_node w m)) \<or>
       nd_addr (sub_node w n) \<noteq> - 1 \<and> getNodeByAddr (sb_graph w) (nd_addr (sub_node w n) + 1) = Some m \<and> d = c
     else \<not> isRET (nd_inst (sub_node w n)) \<and> (\<exists>e \<in> set (nd_runtimeOutEdges (sub_node w n)). ed_to (sub_edge w e) = Some m) \<and> d = c)"
  by (auto simp: succs_def callees_def call_edges_def after_call_def flow_targets_def List.map_filter_def image_iff)

lemma has_color_reach:
  assumes "sb_graph w = g" "getNodeByAddr g (fg_initPC g) = Some n0"
  shows "has_color g n c \<longleftrightarrow> (n, c) \<in> reach w {(n0, fg_initPC g)}"
proof
  let ?R = "{(p, q). q \<in> succs w p}"
  show "has_color g n c \<Longrightarrow> (n, c) \<in> reach w {(n0, fg_initPC g)}"
  proof (induction rule: has_color.induct)
    case (main n)
    then show ?case using assms(2) by (simp add: reach_def)
  next
    case (flow n c e m)
    then have "(m, c) \<in> succs w (n, c)" unfolding succs_cases assms(1) by auto
    then show ?case using flow.IH by (auto simp: reach_def intro: rtrancl_into_rtrancl)
  next
    case (call n c e m)
    then have "(m, nd_addr (fg_nodes g ! m)) \<in> succs w (n, c)" unfolding succs_cases assms(1) by auto
    then show ?case using call.IH by (auto simp: reach_def intro: rtrancl_into_rtrancl)
  next
    case (resume n c m)
    then have "(m, c) \<in> succs w (n, c)" unfolding succs_cases assms(1) by auto
    then show ?case using resume.IH by (auto simp: reach_def intro: rtrancl_into_rtrancl)
  qed
  assume "(n, c) \<in> reach w {(n0, fg_initPC g)}"
  then have "((n0, fg_initPC g), (n, c)) \<in> ?R\<^sup>*" by (simp add: reach_def)
  then have "has_color g (fst (n, c)) (snd (n, c))"
  proof (induction rule: rtrancl_induct)
    case (step y z)
    obtain k a m d where yz: "y = (k, a)" "z = (m, d)" by fastforce
    have "(m, d) \<in> succs w (k, a)" using step(2) yz by simp
    then show ?case unfolding succs_cases assms(1) yz fst_conv snd_conv
      using step.IH yz by (auto split: if_splits intro: has_color.intros)
  qed (use assms(2) in \<open>simp add: has_color.main\<close>)
  then show "has_color g n c" by simp
qed

definition call_graph :: "graph \<Rightarrow> bool" where
  "call_graph g \<longleftrightarrow> wf_graph g \<and> (\<forall>x \<in> set (fg_edges g). edge_origin g x) \<and> (\<forall>x \<in> set (fg_nodes g). is_call (nd_inst x) \<longrightarrow> nd_addr x \<noteq> - 1)"

lemma call_graph_calls_ok: "calls_ok w \<longleftrightarrow> call_graph (sb_graph w)"
  by (simp add: calls_ok_def call_graph_def)

lemma frame_grows:
  assumes "frame w w'"
  shows "grows (sb_graph w) (sb_graph w')"
  using frame_wf [OF assms] frame_fields [OF assms] frame_node(2) [OF assms] by (simp add: grows_def)

lemma SubroutineTracker_returns:
  assumes "call_graph g" "getNodeByAddr g (fg_initPC g) = Some n0" "\<forall>x \<in> set (fg_nodes g). nd_subroutineColors x = {}"
  shows "returns (SubroutineTracker g) (\<lambda>w. calls_ok w \<and> infos_ok (\<lambda>_. UNIV) w \<and> grows g (sb_graph w) \<and> sb_initPC w = fg_initPC g \<and> fg_initPC (sb_graph w) = fg_initPC g \<and>
    length (fg_nodes (sb_graph w)) = length (fg_nodes g) \<and> (\<forall>n < length (fg_nodes g). nd_subroutineColors (sub_node w n) = {c. has_color g n c}))"
proof -
  let ?pc = "fg_initPC g"
  let ?w = "\<lparr>sb_graph = g, sb_callback = None, sb_initPC = ?pc, sb_subroutines = [?pc \<mapsto> SubroutineInfo ''(main)'' n0 ?pc],
    sb_nameToColor = [''(main)'' \<mapsto> ?pc]\<rparr>"
  have n0: "n0 < length (fg_nodes g)" using assms(1,2) by (simp add: call_graph_def wf_graph_def getNodeByAddr_def)
  have c: "calls_ok ?w" using assms(1) by (simp add: call_graph_calls_ok)
  have none: "colored ?w = {}" using assms(3) by (auto simp: colored_def)
  have i: "infos_ok (\<lambda>_. {0..<0}) ?w" by (simp add: infos_ok_def SubroutineInfo_def)
  have "returns (colorPath [Color n0 ?pc] ?w) (colors_tasks [Color n0 ?pc] ?w)"
    by (rule colorPath_colors [OF c]) (simp add: n0 known_def)
  then have "returns (rbind (colorPath [Color n0 ?pc] ?w) (\<lambda>w. rfold pair_edge [0..<length (fg_edges (sb_graph w))] w))
      (\<lambda>w. \<exists>v. colors_tasks [Color n0 ?pc] ?w v \<and> extends v w \<and> calls_ok w \<and> infos_ok (\<lambda>_. UNIV) w)"
  proof (rule returns_bindI)
    fix v assume v: "colors_tasks [Color n0 ?pc] ?w v"
    then have "calls_ok v" "infos_ok (\<lambda>_. {0..<0}) v" using i frame_calls_ok [OF _ c] by (auto simp: colors_tasks_def)
    from pair_edges_return [OF this, of "length (fg_edges (sb_graph v))"] infos_ok_mono [of _ _ "\<lambda>_. UNIV"] v
    show "returns (rfold pair_edge [0..<length (fg_edges (sb_graph v))] v)
        (\<lambda>w. \<exists>v. colors_tasks [Color n0 ?pc] ?w v \<and> extends v w \<and> calls_ok w \<and> infos_ok (\<lambda>_. UNIV) w)"
      by (auto elim!: returns_weaken)
  qed
  then have "returns (SubroutineTracker g) (\<lambda>w. \<exists>v. colors_tasks [Color n0 ?pc] ?w v \<and> extends v w \<and> calls_ok w \<and> infos_ok (\<lambda>_. UNIV) w)"
    by (simp add: SubroutineTracker_def colorFlowGraph_def assms(2))
  then show ?thesis
  proof (rule returns_weaken)
    fix w assume "\<exists>v. colors_tasks [Color n0 ?pc] ?w v \<and> extends v w \<and> calls_ok w \<and> infos_ok (\<lambda>_. UNIV) w"
    then obtain v where v: "colors_tasks [Color n0 ?pc] ?w v" "extends v w" "calls_ok w" "infos_ok (\<lambda>_. UNIV) w" by blast
    have f: "frame ?w v" and "colored v = reach ?w {(n0, ?pc)}" using v(1) none by (simp_all add: colors_tasks_def closed_upto_def)
    then have "(n, d) \<in> colored w \<longleftrightarrow> has_color g n d" for n d
      using extends_fields(6) [OF v(2)] has_color_reach [of ?w g, OF _ assms(2)] by simp
    moreover have l: "length (fg_nodes (sb_graph w)) = length (fg_nodes g)" "sb_initPC w = ?pc" "fg_initPC (sb_graph w) = ?pc"
      using extends_fields(1) [OF v(2)] frame_fields [OF f] v(2) by (simp_all add: extends_def)
    moreover have "grows g (sb_graph w)" using grows_trans [OF frame_grows [OF f]] v(2) by (simp add: extends_def)
    ultimately show "calls_ok w \<and> infos_ok (\<lambda>_. UNIV) w \<and> grows g (sb_graph w) \<and> sb_initPC w = ?pc \<and> fg_initPC (sb_graph w) = ?pc \<and> length (fg_nodes (sb_graph w)) = length (fg_nodes g) \<and>
        (\<forall>n < length (fg_nodes g). nd_subroutineColors (sub_node w n) = {c. has_color g n c})"
      using v(3,4) by (auto simp: colored_def)
  qed
qed

subsection \<open>The stacks\<close>

text \<open>As long as the state has not returned improperly, the stacks fit together and every calling node has the color it was called with.\<close>

definition stacks_ok :: "sub_tracker \<Rightarrow> state \<Rightarrow> bool" where
  "stacks_ok w s \<longleftrightarrow> st_colorStack s \<noteq> [] \<and> (\<not> st_stackHasMessedUp s \<longrightarrow>
     length (st_colorStack s) = Suc (length (st_jsrStack s)) \<and> last (st_colorStack s) = sb_initPC w \<and>
     (\<forall>c \<in> set (st_colorStack s). known w c) \<and>
     (\<forall>(n, c) \<in> set (zip (st_jsrStack s) (tl (st_colorStack s))). (n, c) \<in> colored w))"

definition at_color :: "sub_tracker \<Rightarrow> state \<Rightarrow> nat \<Rightarrow> bool" where
  "at_color w s n \<longleftrightarrow> (\<not> st_stackHasMessedUp s \<longrightarrow> (n, hd (st_colorStack s)) \<in> colored w)"

text \<open>What an update keeps of the tracker and of the state.\<close>

definition tracked :: "sub_tracker \<Rightarrow> sub_tracker \<Rightarrow> bool" where
  "tracked w w' \<longleftrightarrow> calls_ok w' \<and> infos_ok (\<lambda>_. UNIV) w' \<and> sb_initPC w' = sb_initPC w \<and> fg_initPC (sb_graph w') = fg_initPC (sb_graph w) \<and>
     grows (sb_graph w) (sb_graph w') \<and> colored w \<subseteq> colored w' \<and> (\<forall>c. known w c \<longrightarrow> known w' c) \<and>
     (\<forall>ct s. sb_callback w = Some ct \<longrightarrow> counts_ok (sb_graph w, ct, s :: state) \<longrightarrow>
        (\<exists>ct'. sb_callback w' = Some ct' \<and> counts_ok (sb_graph w', ct', s)))"

lemma tracked_trans:
  assumes "tracked a b" "tracked b c"
  shows "tracked a c"
  unfolding tracked_def
proof (intro conjI allI impI)
  show "grows (sb_graph a) (sb_graph c)" using assms by (auto simp: tracked_def intro: grows_trans)
  show "\<exists>ct'. sb_callback c = Some ct' \<and> counts_ok (sb_graph c, ct', s)" if "sb_callback a = Some ct" "counts_ok (sb_graph a, ct, s :: state)" for ct s
    using assms that unfolding tracked_def by meson
qed (use assms in \<open>auto simp: tracked_def\<close>)

lemma tracked_refl: "calls_ok w \<Longrightarrow> infos_ok (\<lambda>_. UNIV) w \<Longrightarrow> tracked w w"
  by (simp add: tracked_def grows_refl)

lemma counts_frame: "frame w w' \<Longrightarrow> counts_ok (sb_graph w', ct, s) = counts_ok (sb_graph w, ct, s)"
  using frame_fields(3) [of w w'] by (simp add: counts_ok_def count_edges_def)

lemma colors_tasks_tracked:
  assumes "colors_tasks ts w w'" "calls_ok w" "infos_ok (\<lambda>_. UNIV) w"
  shows "tracked w w'"
proof -
  have f: "frame w w'" using assms(1) by (simp add: colors_tasks_def)
  have "counts_ok (sb_graph w', ct, s :: state) = counts_ok (sb_graph w, ct, s)" for ct s by (rule counts_frame [OF f])
  then show ?thesis
    using assms frame_calls_ok [OF f assms(2)] frame_fields [OF f] frame_grows [OF f] by (simp add: tracked_def colors_tasks_def)
qed

lemma extends_tracked:
  assumes "extends w w'" "calls_ok w" "infos_ok (\<lambda>_. UNIV) w'"
  shows "tracked w w'"
  using assms extends_fields(5,6) [OF assms(1)] by (auto simp: tracked_def extends_def)

lemma colorPath_tracked:
  assumes "calls_ok w" "infos_ok (\<lambda>_. UNIV) w" "n < length (fg_nodes (sb_graph w))" "known w c"
  shows "returns (colorPath [Color n c] w) (\<lambda>w'. tracked w w' \<and> (n, c) \<in> colored w' \<and> colors_tasks [Color n c] w w')"
proof -
  have "returns (colorPath [Color n c] w) (colors_tasks [Color n c] w)" by (rule colorPath_colors [OF assms(1)]) (use assms(3,4) in simp)
  moreover have "(n, c) \<in> colored w'" if "colors_tasks [Color n c] w w'" for w' using that by (simp add: colors_tasks_def)
  ultimately show ?thesis using colors_tasks_tracked [OF _ assms(1,2)] by (blast intro: returns_weaken)
qed

lemma getOnEdge_frame:
  assumes "frame w w'" "wf_graph (sb_graph w)"
  shows "getOnEdge (sb_graph w') s = getOnEdge (sb_graph w) s"
proof -
  have f: "first_edge (sb_graph w') = first_edge (sb_graph w)" "getNodeByAddr (sb_graph w') = getNodeByAddr (sb_graph w)"
    by (simp_all add: fun_eq_iff first_edge_def getNodeByAddr_def frame_fields [OF assms(1)])
  have "nd_runtimeOutEdges (sub_node w' n) = nd_runtimeOutEdges (sub_node w n)" if "fg_nodeByAddr (sb_graph w) a = Some n" for a n
    using that assms(2) frame_node(3) [OF assms(1)] by (simp add: wf_graph_def)
  then show ?thesis
    by (simp add: getOnEdge_def f inst_node_def frame_fields(4,6) [OF assms(1)] Let_def split: option.split)
qed

text \<open>A call that goes on along an edge of the graph is on a call edge from the calling node.\<close>

lemma call_onEdge:
  assumes "calls_ok w" "fst (st_latestNonOSInst s) = Some i" "fg_nodeByAddr (sb_graph w) (mv_addr i) = Some k" "is_call (nd_inst (sub_node w k))"
    and "fg_nodeByAddr (sb_graph w) (st_pc s) = Some m" "has_edge (sb_graph w) k m"
  obtains e where "getOnEdge (sb_graph w) s = Inr (Some e)" "ed_from (sub_edge w e) = Some k" "ed_to (sub_edge w e) = Some m"
proof -
  have wf: "wf_graph (sb_graph w)" using assms(1) by (simp add: calls_ok_def)
  have k: "k < length (fg_nodes (sb_graph w))" using wf assms(3) by (simp add: wf_graph_def)
  let ?out = "nd_runtimeOutEdges (sub_node w k)"
  have "\<not> ed_type (sub_edge w e) = TRAP_VIRTUAL_EDGE" if "e \<in> set ?out" for e
  proof -
    note o = runtime_out [OF wf k that]
    have "edge_origin (sb_graph w) (sub_edge w e)" using assms(1) nth_mem [OF o(1)] by (simp add: calls_ok_def)
    then show ?thesis using o(3) assms(4) by (auto simp: edge_origin_def is_call_def)
  qed
  then have t: "first_edge (sb_graph w) (\<lambda>e. ed_type e = TRAP_VIRTUAL_EDGE) ?out = None" by (simp add: first_edge_none)
  have "first_edge (sb_graph w) (\<lambda>x. ed_to x = Some m) ?out \<noteq> None"
    using assms(6) has_edge_iff [OF wf k] by (auto simp: first_edge_none)
  then obtain e where e: "first_edge (sb_graph w) (\<lambda>x. ed_to x = Some m) ?out = Some e" by auto
  then have "getOnEdge (sb_graph w) s = Inr (Some e)" using assms(2,3,5) t by (simp add: getOnEdge_def inst_node_def getNodeByAddr_def)
  then show ?thesis using first_edge_some [OF e] runtime_out(3) [OF wf k] that by blast
qed

lemma update_call_returns:
  assumes w: "calls_ok w" "infos_ok (\<lambda>_. UNIV) w" and i: "fst (st_latestNonOSInst s) = Some i" "fg_nodeByAddr (sb_graph w) (mv_addr i) = Some k"
    and call: "is_call (nd_inst (sub_node w k))" and m: "fg_nodeByAddr (sb_graph w) (st_pc s) = Some m" "has_edge (sb_graph w) k m"
  shows "returns (update_call k m (w, ip, s)) (\<lambda>(w', ip', s'). tracked w w' \<and> known w' (st_pc s) \<and> ip' = ip \<and>
    s' = s\<lparr>st_colorStack := st_pc s # st_colorStack s, st_jsrStack := k # st_jsrStack s\<rparr>)"
proof (cases "sb_subroutines w (st_pc s)")
  case (Some t)
  then show ?thesis using tracked_refl [OF w] by (simp add: update_call_def known_def)
next
  case None
  let ?c = "st_pc s"
  let ?w = "sub_upd_node m (\<lambda>x. x\<lparr>nd_subroutineEntry := True\<rparr>) (w\<lparr>sb_subroutines := (sb_subroutines w)(?c \<mapsto> SubroutineInfo (getLabel (nd_inst (sub_node w m))) m ?c)\<rparr>)"
  let ?K = "(\<lambda>_. UNIV)(?c := {})"
  have wf: "wf_graph (sb_graph w)" using w(1) by (simp add: calls_ok_def)
  have f: "frame w ?w"
  proof -
    have "frame w (w\<lparr>sb_subroutines := ss\<rparr>)" for ss using frame_refl [of w] by (simp add: frame_def)
    then show ?thesis by (rule frame_trans) (rule frame_upd_node, simp add: recolored_def)
  qed
  have km: "k < length (fg_nodes (sb_graph w))" "m < length (fg_nodes (sb_graph w))" "nd_addr (sub_node w m) = ?c" using wf i(2) m(1) by (simp_all add: wf_graph_def)
  have k: "nd_addr (sub_node w k) \<noteq> - 1" using w(1) call nth_mem [OF km(1)] by (auto simp: calls_ok_def)
  have "known ?w ?c" "\<And>d. known w d \<Longrightarrow> known ?w d" "infos_ok ?K ?w" "colored ?w = colored w"
    using w(2) km(2) by (auto simp: known_def sub_upd_node_def upd_node_def infos_ok_def SubroutineInfo_def colored_def nth_list_update split: if_splits)
  note w0 = this
  have t0: "tracked w ?w"
  proof -
    have "counts_ok (sb_graph ?w, ct, s :: state) = counts_ok (sb_graph w, ct, s)" for ct s by (rule counts_frame [OF f])
    then show ?thesis
      using frame_calls_ok [OF f w(1)] frame_fields [OF f] frame_grows [OF f] w0 infos_ok_mono [OF w0(3), of "\<lambda>_. UNIV"] by (simp add: tracked_def)
  qed
  obtain e where e: "getOnEdge (sb_graph w) s = Inr (Some e)" "ed_from (sub_edge w e) = Some k" "ed_to (sub_edge w e) = Some m"
    using call_onEdge [OF w(1) i call m] .
  have "returns (colorPath [Color m ?c] ?w) (\<lambda>w1. tracked ?w w1 \<and> (m, ?c) \<in> colored w1 \<and> colors_tasks [Color m ?c] ?w w1)"
    by (rule colorPath_tracked) (use t0 w0(1) km(2) frame_fields(7) [OF f] in \<open>simp_all add: tracked_def\<close>)
  then have "returns (rbind (colorPath [Color m ?c] ?w) (\<lambda>w. rbind (getOnEdge (sb_graph w) s) (\<lambda>e. case e of
      None \<Rightarrow> Inl (NullDeref ''entryEdge'') | Some e \<Rightarrow> setUpEntryExitPairs e w))) (\<lambda>w'. tracked w w' \<and> known w' ?c)"
  proof (rule returns_bindI)
    fix w1 assume w1: "tracked ?w w1 \<and> (m, ?c) \<in> colored w1 \<and> colors_tasks [Color m ?c] ?w w1"
    then have f1: "frame w w1" and i1: "infos_ok ?K w1" using frame_trans [OF f] w0(3) by (auto simp: colors_tasks_def)
    have "sb_subroutines ?w ?c \<noteq> None" by (simp add: sub_upd_node_def)
    then have "sb_subroutines w1 ?c \<noteq> None" using w1 unfolding colors_tasks_def by blast
    then obtain t where t: "sb_subroutines w1 ?c = Some t" by blast
    have n: "si_eePairs t e = None" using i1 t by (fastforce simp: infos_ok_def domIff)
    note ef = frame_fields(3) [OF f1] and addr = frame_node(1) [OF f1]
    have "returns (setUpEntryExitPairs e w1) (\<lambda>w'. extends w1 w' \<and> infos_ok (?K(nd_addr (sub_node w1 m) := insert e (?K (nd_addr (sub_node w1 m))))) w')"
      by (rule setUpEntryExitPairs_returns [where s = t and k = k]) (use w1 i1 e t n k km addr ef in \<open>simp_all add: tracked_def\<close>)
    then have "returns (setUpEntryExitPairs e w1) (\<lambda>w'. tracked w w' \<and> known w' ?c)"
    proof (rule returns_weaken)
      fix w' assume w': "extends w1 w' \<and> infos_ok (?K(nd_addr (sub_node w1 m) := insert e (?K (nd_addr (sub_node w1 m))))) w'"
      have "calls_ok w1" "known w1 ?c" using w1 w0(1) unfolding tracked_def by blast+
      moreover from this have "tracked w1 w'" using w' extends_tracked infos_ok_mono [of _ w' "\<lambda>_. UNIV"] by blast
      ultimately show "tracked w w' \<and> known w' ?c" using tracked_trans [OF tracked_trans [OF t0]] w1 unfolding tracked_def by blast
    qed
    then show "returns (rbind (getOnEdge (sb_graph w1) s) (\<lambda>e. case e of
        None \<Rightarrow> Inl (NullDeref ''entryEdge'') | Some e \<Rightarrow> setUpEntryExitPairs e w1)) (\<lambda>w'. tracked w w' \<and> known w' ?c)"
      using getOnEdge_frame [OF f1 wf] e(1) by simp
  qed
  then show ?thesis using None by (auto simp: update_call_def Let_def elim!: returns_weaken)
qed

lemma stacks_tracked: "tracked w w' \<Longrightarrow> stacks_ok w s \<Longrightarrow> stacks_ok w' s"
  by (auto simp: stacks_ok_def tracked_def)

lemma stateIssue_returns:
  assumes "levels_ok ip" "has_default_level t"
  shows "returns (newStateIssue t loc (ip, s)) (\<lambda>(ip', s'). levels_ok ip' \<and> st_pc s' = st_pc s \<and> st_latestNonOSInst s' = st_latestNonOSInst s \<and>
    st_colorStack s' = st_colorStack s \<and> st_jsrStack s' = st_jsrStack s)"
proof -
  obtain l where "ip_level ip t = Some l" using assms by (auto simp: levels_ok_def)
  from newStateIssue_total [OF this] obtain ip' s' where n: "newStateIssue t loc (ip, s) = Inr (ip', s')" "reports (ip, s) (ip', s')" .
  then have "s' = s\<lparr>st_triggerNewIssue := st_triggerNewIssue s', st_status := st_status s'\<rparr>" "ip_level ip' = ip_level ip"
    by (simp_all add: reports_def)
  then have "st_pc s' = st_pc s \<and> st_latestNonOSInst s' = st_latestNonOSInst s \<and> st_colorStack s' = st_colorStack s \<and> st_jsrStack s' = st_jsrStack s"
    by (cases s; cases s') simp
  then show ?thesis using n(1) assms(1) \<open>ip_level ip' = ip_level ip\<close> by (simp add: levels_ok_def)
qed

lemma mark_improper_returns:
  assumes "calls_ok w" "infos_ok (\<lambda>_. UNIV) w" "fst (st_latestNonOSInst s) = Some i" "fg_nodeByAddr (sb_graph w) (mv_addr i) = Some k"
  shows "returns (mark_improper w s) (tracked w)"
proof -
  have "\<exists>r. getOnEdge (sb_graph w) s = Inr r"
    using assms(3,4) by (auto simp: getOnEdge_def inst_node_def Let_def split: option.split)
  then obtain r where r: "getOnEdge (sb_graph w) s = Inr r" ..
  have "tracked w (w\<lparr>sb_graph := upd_edge e (\<lambda>x. x\<lparr>ed_isImproperRET := True\<rparr>) (sb_graph w)\<rparr>)" (is "tracked w ?w") for e
  proof -
    have G: "grows (sb_graph w) (sb_graph ?w)" by (auto intro: upd_edge_grows)
    have "edge_origin (sb_graph ?w) y" if "y \<in> set (fg_edges (sb_graph ?w))" for y
    proof (cases "e < length (fg_edges (sb_graph w))")
      case True
      then have "y \<in> set (fg_edges (sb_graph w)) \<or> y = (sub_edge w e)\<lparr>ed_isImproperRET := True\<rparr>"
        using that set_update_subset_insert [of "fg_edges (sb_graph w)" e] by (auto simp: upd_edge_def)
      then show ?thesis using assms(1) nth_mem [OF True] by (auto simp: calls_ok_def edge_origin_def is_call_edge_def upd_edge_def)
    qed (use that assms(1) in \<open>auto simp: calls_ok_def edge_origin_def upd_edge_def list_update_beyond\<close>)
    then have "calls_ok ?w" using assms(1) G by (auto simp: calls_ok_def grows_def upd_edge_def)
    moreover have "counts_ok (sb_graph ?w, ct, s :: state) = counts_ok (sb_graph w, ct, s)" for ct s by (simp add: counts_upd_edge)
    ultimately show ?thesis using G assms(2) by (auto simp: tracked_def infos_ok_def known_def colored_def upd_edge_def)
  qed
  then show ?thesis using r tracked_refl [OF assms(1,2)] by (simp add: mark_improper_def split: option.split)
qed

lemma update_return_returns:
  assumes w: "calls_ok w" "infos_ok (\<lambda>_. UNIV) w" "levels_ok ip" "stacks_ok w s"
    and i: "fst (st_latestNonOSInst s) = Some i" "fg_nodeByAddr (sb_graph w) (mv_addr i) = Some k"
  shows "returns (update_return k (w, ip, s)) (\<lambda>(w', ip', s'). tracked w w' \<and> levels_ok ip' \<and> stacks_ok w' s' \<and> st_pc s' = st_pc s)"
proof -
  let ?inst = "nd_inst (sub_node w k)"
  have messed: "stacks_ok w' (s'\<lparr>st_stackHasMessedUp := True\<rparr>)" if "st_colorStack s' \<noteq> []" for w' s' using that by (simp add: stacks_ok_def)
  consider (empty) "st_colorStack s = []" | (main) tp where "st_colorStack s = [tp]"
    | (sub) tp second colors where "st_colorStack s = tp # second # colors" by (metis list.exhaust)
  then show ?thesis
  proof cases
    case empty
    then show ?thesis using w(4) by (simp add: stacks_ok_def)
  next
    case main
    have "returns (newStateIssue ERR_RET_IN_MAIN_CODE (Some ?inst) (ip, s)) (\<lambda>(ip', s'). levels_ok ip' \<and> st_pc s' = st_pc s \<and>
        st_latestNonOSInst s' = st_latestNonOSInst s \<and> st_colorStack s' = st_colorStack s \<and> st_jsrStack s' = st_jsrStack s)"
      by (rule stateIssue_returns [OF w(3)]) (simp add: has_default_level_iff)
    then show ?thesis using tracked_refl [OF w(1,2)] messed main by (auto simp: update_return_def Let_def elim!: returns_weaken)
  next
    case sub
    show ?thesis
    proof (cases "st_stackHasMessedUp s")
      case True
      then show ?thesis using sub w tracked_refl [OF w(1,2)] by (simp add: update_return_def)
    next
      case False
      then obtain jsr jsrs where j: "st_jsrStack s = jsr # jsrs" using w(4) sub by (cases "st_jsrStack s") (auto simp: stacks_ok_def)
      have proper: "second \<in> nd_subroutineColors (sub_node w jsr)" "stacks_ok w (s\<lparr>st_colorStack := second # colors, st_jsrStack := jsrs\<rparr>)"
        using w(4) False by (auto simp: stacks_ok_def sub j colored_def)
      have "returns (newStateIssue WARN_IMPROPER_RET (Some ?inst) (ip, s)) (\<lambda>(ip', s'). levels_ok ip' \<and> st_pc s' = st_pc s \<and>
          st_latestNonOSInst s' = st_latestNonOSInst s \<and> st_colorStack s' = st_colorStack s \<and> st_jsrStack s' = st_jsrStack s)"
        by (rule stateIssue_returns [OF w(3)]) (simp add: has_default_level_iff)
      then have "returns (rbind (newStateIssue WARN_IMPROPER_RET (Some ?inst) (ip, s)) (\<lambda>(ip, s).
          let s = s\<lparr>st_colorStack := tp # st_colorStack s\<rparr> in
          rbind (mark_improper w s) (\<lambda>w. Inr (w, ip, s\<lparr>st_stackHasMessedUp := True\<rparr>))))
        (\<lambda>(w', ip', s'). tracked w w' \<and> levels_ok ip' \<and> stacks_ok w' s' \<and> st_pc s' = st_pc s)"
      proof (rule returns_bindI)
        fix x :: "issue_package \<times> state"
        assume x: "case x of (ip', s') \<Rightarrow> levels_ok ip' \<and> st_pc s' = st_pc s \<and> st_latestNonOSInst s' = st_latestNonOSInst s \<and>
          st_colorStack s' = st_colorStack s \<and> st_jsrStack s' = st_jsrStack s"
        obtain ip1 s1 where s1: "x = (ip1, s1)" "levels_ok ip1" "st_pc s1 = st_pc s" "st_latestNonOSInst s1 = st_latestNonOSInst s" using x by (cases x) auto
        have "returns (mark_improper w (s1\<lparr>st_colorStack := tp # st_colorStack s1\<rparr>)) (tracked w)"
          by (rule mark_improper_returns [OF w(1,2) _ i(2)]) (use i(1) s1(4) in simp)
        then show "returns (case x of (ip, s) \<Rightarrow> let s = s\<lparr>st_colorStack := tp # st_colorStack s\<rparr> in
            rbind (mark_improper w s) (\<lambda>w. Inr (w, ip, s\<lparr>st_stackHasMessedUp := True\<rparr>)))
          (\<lambda>(w', ip', s'). tracked w w' \<and> levels_ok ip' \<and> stacks_ok w' s' \<and> st_pc s' = st_pc s)"
          using s1(2,3) by (simp add: s1(1) stacks_ok_def Let_def)
      qed
      then show ?thesis using sub j False proper w tracked_refl [OF w(1,2)] by (simp add: update_return_def)
    qed
  qed
qed

lemma update_call_stacks:
  assumes "calls_ok w" "infos_ok (\<lambda>_. UNIV) w" "levels_ok ip" "stacks_ok w s" "fst (st_latestNonOSInst s) = Some i"
    and "fg_nodeByAddr (sb_graph w) (mv_addr i) = Some k" "at_color w s k" "is_call (nd_inst (sub_node w k))"
    and "fg_nodeByAddr (sb_graph w) (st_pc s) = Some m" "has_edge (sb_graph w) k m"
  shows "returns (update_call k m (w, ip, s)) (\<lambda>(w', ip', s'). tracked w w' \<and> levels_ok ip' \<and> stacks_ok w' s' \<and> st_pc s' = st_pc s)"
proof -
  have st: "stacks_ok w' (s\<lparr>st_colorStack := st_pc s # st_colorStack s, st_jsrStack := k # st_jsrStack s\<rparr>)"
    if "tracked w w'" "known w' (st_pc s)" for w'
  proof -
    have "stacks_ok w' s" "at_color w' s k" using stacks_tracked [OF that(1) assms(4)] assms(7) that(1) by (auto simp: at_color_def tracked_def)
    then show ?thesis using that(2) by (cases "st_colorStack s") (auto simp: stacks_ok_def at_color_def)
  qed
  show ?thesis
    by (rule returns_weaken [OF update_call_returns [OF assms(1,2,5,6,8-10)]]) (use st assms(3) in auto)
qed

lemma color_pc_node:
  assumes "calls_ok w" "fg_nodeByAddr (sb_graph w) (st_pc s) = Some m" "tracked w w1" "stacks_ok w1 s1" "st_pc s1 = st_pc s"
  shows "returns (if \<not> st_stackHasMessedUp s1 then (case st_colorStack s1 of [] \<Rightarrow> Inl (NullDeref ''colorStack.top()'')
      | tp # _ \<Rightarrow> rbind (colorPath [Color m tp] w1) (\<lambda>w. Inr (w, ip1, s1))) else Inr (w1, ip1, s1))
    (\<lambda>(w', ip', s'). tracked w w' \<and> stacks_ok w' s' \<and> st_pc s' = st_pc s \<and> at_color w' s' m)"
proof (cases "st_stackHasMessedUp s1")
  case True
  then show ?thesis using assms by (simp add: at_color_def)
next
  case False
  then obtain tp ts where t: "st_colorStack s1 = tp # ts" "known w1 tp" using assms(4) by (cases "st_colorStack s1") (auto simp: stacks_ok_def)
  have m: "m < length (fg_nodes (sb_graph w1))" using assms(1-3) by (auto simp: calls_ok_def wf_graph_def tracked_def grows_def)
  have "returns (colorPath [Color m tp] w1) (\<lambda>w'. tracked w1 w' \<and> (m, tp) \<in> colored w' \<and> colors_tasks [Color m tp] w1 w')"
    by (rule colorPath_tracked) (use assms(3) m t(2) in \<open>simp_all add: tracked_def\<close>)
  then show ?thesis using False t(1) assms(3-5) tracked_trans stacks_tracked by (auto simp: at_color_def elim!: returns_weaken)
qed

end
