(* ===== verification/Klc3_Calls.thy ===== *)
theory Klc3_Calls
  imports Klc3_Stacks
begin

text \<open>
  The subroutine tracker on the flow graph of a program: the graph that \<open>FlowGraph\<close> constructs meets the conditions of the
  tracker.  Then the properties of the tracker, and the detection of code that several subroutines share.
\<close>

subsection \<open>Where the edges of a flow graph come from\<close>

definition origin_view :: "graph \<Rightarrow> edge_type \<times> nat option \<times> nat option \<Rightarrow> bool" where
  "origin_view g v \<longleftrightarrow> (case v of (t, from, to) \<Rightarrow>
     (t = JSR_EDGE \<or> t = JSRR_EDGE \<longrightarrow> to \<noteq> None \<and> (\<exists>n < length (fg_nodes g). from = Some n \<and> is_call (nd_inst (fg_nodes g ! n)))) \<and>
     (t = TRAP_VIRTUAL_EDGE \<longrightarrow> (\<exists>n < length (fg_nodes g). from = Some n \<and> inst_id (nd_inst (fg_nodes g ! n)) = I_TRAP)))"

lemma edge_origin_view: "edge_origin g x \<longleftrightarrow> origin_view g (edge_view x)"
  by (simp add: edge_origin_def origin_view_def edge_view_def is_call_edge_def)

text \<open>The nodes stay as they are and the new edges look like \<open>V\<close>.\<close>

definition adds :: "(edge_type \<times> nat option \<times> nat option) set \<Rightarrow> graph \<Rightarrow> graph \<Rightarrow> bool" where
  "adds V g g' \<longleftrightarrow> length (fg_nodes g') = length (fg_nodes g) \<and> fg_initPC g' = fg_initPC g \<and>
     (\<forall>n < length (fg_nodes g). nd_inst (fg_nodes g' ! n) = nd_inst (fg_nodes g ! n) \<and> nd_addr (fg_nodes g' ! n) = nd_addr (fg_nodes g ! n) \<and>
        nd_subroutineColors (fg_nodes g' ! n) = nd_subroutineColors (fg_nodes g ! n)) \<and>
     edge_view ` set (fg_edges g') \<subseteq> edge_view ` set (fg_edges g) \<union> V"

lemma adds_refl: "adds V g g"
  by (simp add: adds_def)

lemma adds_trans: "adds V a b \<Longrightarrow> adds V b c \<Longrightarrow> adds V a c"
  unfolding adds_def by (auto 0 3)

lemma newEdge_adds:
  assumes "newEdge from to t g = (e, g')" "in_graph g from" "in_graph g to" "(t, from, to) \<in> V"
  shows "adds V g g'"
proof -
  note v = newEdge_view [OF assms(1-3)]
  have "nd_inst (fg_nodes g' ! n) = nd_inst (fg_nodes g ! n) \<and> nd_addr (fg_nodes g' ! n) = nd_addr (fg_nodes g ! n) \<and>
      nd_subroutineColors (fg_nodes g' ! n) = nd_subroutineColors (fg_nodes g ! n)" if "n < length (fg_nodes g)" for n
    using v(8) [OF that] by (auto simp: add_out_def add_in_def Let_def)
  then show ?thesis using v assms(4) by (auto simp: adds_def edge_view_def fresh_edge_def)
qed

lemma newEdgeToAddr_adds:
  assumes "wf_graph g" "in_graph g (Some n)" "\<And>m. (t, Some n, Some m) \<in> V"
  shows "adds V g (snd (newEdgeToAddrIfExists n a t g))"
proof (cases "fg_nodeByAddr g a")
  case None
  then show ?thesis by (simp add: newEdgeToAddrIfExists_def getNodeByAddr_def adds_refl)
next
  case (Some m)
  obtain e g' where e: "newEdge (Some n) (Some m) t g = (e, g')" by fastforce
  then show ?thesis
    using Some newEdge_adds [OF e assms(2) byAddr_in_graph [OF assms(1) Some] assms(3)] by (simp add: newEdgeToAddrIfExists_def getNodeByAddr_def)
qed

lemma upd_edge_adds:
  assumes "\<And>x. edge_view (f x) = edge_view x"
  shows "adds V g (upd_edge e f g)"
proof (cases "e < length (fg_edges g)")
  case True
  then have "edge_view ` set (fg_edges (upd_edge e f g)) \<subseteq> edge_view ` set (fg_edges g)"
    using set_update_subset_insert [of "fg_edges g" e] assms nth_mem [OF True] by (force simp: upd_edge_def)
  then show ?thesis by (auto simp: adds_def upd_edge_def)
qed (simp add: upd_edge_def list_update_beyond adds_refl)

lemma br_edge_adds:
  assumes "wf_graph g" "in_graph g (Some n)" "\<And>m. (NORMAL_EDGE, Some n, Some m) \<in> V"
  shows "adds V g (br_edge n a c b g)"
proof -
  have "adds V g (snd (newEdgeToAddrIfExists n a NORMAL_EDGE g))" by (rule newEdgeToAddr_adds [OF assms])
  then show ?thesis
    using adds_trans upd_edge_adds by (auto simp: br_edge_def edge_view_def split: prod.split option.split)
qed

text \<open>The edges that an instruction at node \<open>n\<close> gives rise to.\<close>

definition inst_edges :: "nat \<Rightarrow> mem_value \<Rightarrow> (edge_type \<times> nat option \<times> nat option) set" where
  "inst_edges n v = {(t, from, to). from = Some n \<and> t \<noteq> JSRR_EDGE \<and> (t = JSR_EDGE \<longrightarrow> is_call v \<and> to \<noteq> None) \<and> (t = TRAP_VIRTUAL_EDGE \<longrightarrow> inst_id v = I_TRAP)}"

lemma newEdgeToAddr_inst_edges:
  assumes "wf_graph g" "in_graph g (Some n)" "t \<noteq> JSRR_EDGE" "t = JSR_EDGE \<Longrightarrow> is_call v" "t = TRAP_VIRTUAL_EDGE \<Longrightarrow> inst_id v = I_TRAP"
  shows "adds (inst_edges n v) g (snd (newEdgeToAddrIfExists n a t g))"
  by (rule newEdgeToAddr_adds [OF assms(1,2)]) (use assms(3-5) in \<open>simp add: inst_edges_def\<close>)

lemma br_edges_adds:
  assumes "br_edges n pc v g = Inr g'" "wf_graph g" "in_graph g (Some n)"
  shows "adds (inst_edges n v) g g'"
proof -
  have br: "adds (inst_edges n v) h (br_edge n a c b h)" if "grows g h" for h a c b
    by (rule br_edge_adds) (use that assms grows_in_graph in \<open>auto simp: grows_def inst_edges_def\<close>)
  have "adds (inst_edges n v) g (br_edge n b False True (br_edge n pc True False g))" for b
    by (rule adds_trans [OF br [OF grows_refl] br [OF br_edge_grows(1) [OF assms(2,3)]]])
  then show ?thesis using assms(1) br [OF grows_refl] by (auto simp: br_edges_def Let_def split: if_splits)
qed

lemma mark_RET_point_adds: "adds V g (mark_RET_point pc g)"
proof (cases "getNodeByAddr g pc")
  case (Some r)
  then show ?thesis by (cases "r < length (fg_nodes g)") (auto simp: mark_RET_point_def adds_def upd_node_def nth_list_update)
qed (simp add: mark_RET_point_def adds_refl)

lemma setNodeOutEdges_adds:
  assumes "setNodeOutEdgesWithInst v g = Inr g'" "wf_graph g" "fg_nodeByAddr g (mv_addr v) = Some n"
  shows "adds (inst_edges n v) g g'"
proof -
  define pc where "pc = mv_addr v + 1"
  have w: "in_graph g (Some n)" using byAddr_in_graph [OF assms(2,3)] .
  note one = newEdgeToAddr_inst_edges [OF assms(2) w, of _ v]
  have jsr: "adds (inst_edges n v) g (snd (newEdgeToAddrIfExists n pc SUBROUTINE_VIRTUAL_EDGE (snd (newEdgeToAddrIfExists n a JSR_EDGE g))))"
    if "inst_id v = I_JSR" for a
  proof -
    let ?h = "snd (newEdgeToAddrIfExists n a JSR_EDGE g)"
    have "grows g ?h" by (rule newEdgeToAddr_grows(1) [OF surjective_pairing assms(2) w])
    then have "wf_graph ?h" "in_graph ?h (Some n)" using assms(2) w grows_in_graph by (auto simp: grows_def)
    note two = newEdgeToAddr_inst_edges [OF this, of SUBROUTINE_VIRTUAL_EDGE v pc]
    from adds_trans [OF one two] show ?thesis using that by (simp add: is_call_def)
  qed
  have halt: "adds (inst_edges n v) g (snd (newEdge (Some n) None TRAP_VIRTUAL_EDGE g))" if "inst_id v = I_TRAP"
    by (rule newEdge_adds [OF surjective_pairing w]) (use that in \<open>simp_all add: in_graph_def inst_edges_def\<close>)
  have flag: "adds (inst_edges n v) g (g\<lparr>fg_haveJMPOrJSRR := True\<rparr>)" by (simp add: adds_def)
  let ?body = "if inst_id v = I_BR then br_edges n pc v g
            else if inst_id v = I_JSR then
              Inr (snd (newEdgeToAddrIfExists n pc SUBROUTINE_VIRTUAL_EDGE (snd (newEdgeToAddrIfExists n (pc + inst_imm11 v) JSR_EDGE g))))
            else if inst_id v = I_JMP \<or> inst_id v = I_JSRR then Inr (if \<not> isRET v then g\<lparr>fg_haveJMPOrJSRR := True\<rparr> else g)
            else if inst_id v = I_TRAP then
              Inr (if inst_vec8 v \<in> returning_traps then snd (newEdgeToAddrIfExists n pc TRAP_VIRTUAL_EDGE g)
                   else snd (newEdge (Some n) None TRAP_VIRTUAL_EDGE g))
            else Inr (snd (newEdgeToAddrIfExists n pc NORMAL_EDGE g))"
  have "setNodeOutEdgesWithInst v g = rbind ?body (\<lambda>g. Inr (if inst_id v = I_JSR \<or> inst_id v = I_JSRR then mark_RET_point pc g else g))"
    using assms(3) by (simp add: setNodeOutEdgesWithInst_def inst_node_def Let_def pc_def)
  with assms(1) have "\<exists>h. ?body = Inr h \<and> g' = (if inst_id v = I_JSR \<or> inst_id v = I_JSRR then mark_RET_point pc h else h)"
    by (auto simp only: rbind_Inr_iff sum.inject)
  then obtain h where h: "?body = Inr h" and g': "g' = (if inst_id v = I_JSR \<or> inst_id v = I_JSRR then mark_RET_point pc h else h)"
    by blast
  have "adds (inst_edges n v) g h"
    using h br_edges_adds [OF _ assms(2) w, of pc v h] jsr halt flag one adds_refl by (auto split: if_splits)
  then show ?thesis using adds_trans [OF _ mark_RET_point_adds] by (simp add: g')
qed

subsection \<open>The flow graph of a program meets the conditions of the tracker\<close>

definition colorless :: "addr \<Rightarrow> graph \<Rightarrow> bool" where
  "colorless pc g \<longleftrightarrow> fg_initPC g = pc \<and>
     (\<forall>x \<in> set (fg_nodes g). nd_subroutineColors x = {} \<and> (is_call (nd_inst x) \<longrightarrow> nd_addr x \<noteq> - 1))"

definition origins_ok :: "graph \<Rightarrow> bool" where
  "origins_ok g \<longleftrightarrow> (\<forall>x \<in> set (fg_edges g). edge_origin g x)"

lemma adds_keeps:
  assumes "adds V g g'"
  shows "colorless pc g \<Longrightarrow> colorless pc g'" "origins_ok g \<Longrightarrow> (\<And>v. v \<in> V \<Longrightarrow> origin_view g v) \<Longrightarrow> origins_ok g'"
proof -
  have len: "length (fg_nodes g') = length (fg_nodes g)" using assms by (simp add: adds_def)
  show "colorless pc g'" if "colorless pc g"
    using that assms by (simp add: colorless_def adds_def all_set_conv_all_nth)
  show "origins_ok g'" if o: "origins_ok g" and V: "\<And>v. v \<in> V \<Longrightarrow> origin_view g v"
  proof -
    have "origin_view g' v" if "origin_view g v" for v
      using that assms len unfolding origin_view_def adds_def by (cases v) fastforce
    moreover have "origin_view g (edge_view x)" if "x \<in> set (fg_edges g')" for x
    proof -
      have "edge_view x \<in> edge_view ` set (fg_edges g) \<union> V" using that assms by (auto simp: adds_def)
      then show ?thesis using o V [of "edge_view x"] by (auto simp: origins_ok_def edge_origin_view)
    qed
    ultimately show ?thesis by (simp add: origins_ok_def edge_origin_view)
  qed
qed

lemma inst_edges_origin:
  assumes "n < length (fg_nodes g)" "nd_inst (fg_nodes g ! n) = v" "e \<in> inst_edges n v"
  shows "origin_view g e"
  using assms by (auto simp: inst_edges_def origin_view_def)

text \<open>No call of the program stands at the last address, whose successor the code looks up beyond the end of its table.\<close>

definition calls_inside :: "(addr \<times> mem_value) list \<Rightarrow> bool" where
  "calls_inside mem \<longleftrightarrow> (\<forall>(a, v) \<in> set mem. user_inst v \<longrightarrow> is_call v \<longrightarrow> a \<noteq> - 1)"

lemma add_user_nodes_colorless:
  assumes "rfold add_user_node mem (empty_graph pc) = Inr g" "calls_inside mem" "consistent_mem mem"
  shows "colorless pc g \<and> fg_edges g = []"
  using assms(1)
proof (rule rfold_invariant)
  show "colorless pc (empty_graph pc) \<and> fg_edges (empty_graph pc) = []" by (simp add: colorless_def empty_graph_def)
  fix x h h' assume x: "x \<in> set mem" "colorless pc h \<and> fg_edges h = []" "add_user_node x h = Inr h'"
  obtain a v where v: "x = (a, v)" by fastforce
  then have "user_inst v \<longrightarrow> is_call v \<longrightarrow> a \<noteq> - 1" using assms(2) x(1) by (auto simp: calls_inside_def)
  then show "colorless pc h' \<and> fg_edges h' = []"
    using x(2,3) v by (auto simp: add_user_node_def newNode_def colorless_def fresh_node_def Let_def split: if_splits)
qed

lemma link_user_nodes_origins:
  assumes "rfold link_user_node mem g = Inr g'" "wf_graph g" "\<forall>(a, v) \<in> set mem. user_inst v \<longrightarrow> has_node g v" "colorless pc g" "origins_ok g"
  shows "grows g g' \<and> colorless pc g' \<and> origins_ok g'"
  using assms(1)
proof (rule rfold_invariant)
  show "grows g g \<and> colorless pc g \<and> origins_ok g" using assms(4,5) grows_refl by simp
  fix x h h' assume x: "x \<in> set mem" "grows g h \<and> colorless pc h \<and> origins_ok h" "link_user_node x h = Inr h'"
  obtain a v where v: "x = (a, v)" by fastforce
  show "grows g h' \<and> colorless pc h' \<and> origins_ok h'"
  proof (cases "user_inst v")
    case True
    then have "has_node h v" using has_node_grows x(1,2) v assms(3) by blast
    then obtain n where n: "fg_nodeByAddr h (mv_addr v) = Some n" "n < length (fg_nodes h)" "nd_inst (fg_nodes h ! n) = v" by (auto simp: has_node_def)
    have w: "wf_graph h" and s: "setNodeOutEdgesWithInst v h = Inr h'" using x(2,3) assms(2) True v by (simp_all add: grows_def link_user_node_def)
    have "grows h h'" using setNodeOutEdges_returns [OF w n(1)] s by (simp add: returns_def)
    moreover note adds_keeps [OF setNodeOutEdges_adds [OF s w n(1)]] inst_edges_origin [OF n(2,3)]
    ultimately show ?thesis using x(2) grows_trans by blast
  qed (use x v in \<open>simp add: link_user_node_def\<close>)
qed

lemma constructInitPCEdge_adds:
  assumes "wf_graph g"
  shows "adds {v. fst v = INIT_PC_ENTRY_EDGE} g (constructInitPCEdge pc g)"
proof (cases "fg_nodeByAddr g pc")
  case None
  then show ?thesis by (simp add: constructInitPCEdge_def getNodeByAddr_def adds_refl)
next
  case (Some n)
  obtain e g' where e: "newEdge None (Some n) INIT_PC_ENTRY_EDGE g = (e, g')" by fastforce
  have "adds {v. fst v = INIT_PC_ENTRY_EDGE} g g'"
    by (rule newEdge_adds [OF e _ byAddr_in_graph [OF assms Some]]) (simp_all add: in_graph_def)
  then show ?thesis using Some e by (simp add: constructInitPCEdge_def getNodeByAddr_def adds_def)
qed

lemma trimBREdges_adds: "adds V g (trimBREdges g)"
proof -
  have "adds V g (fold (\<lambda>e. upd_edge e (\<lambda>x. x\<lparr>ed_LIKELY_UNCOVERABLE := True\<rparr>)) es g)" for es
  proof (induction es arbitrary: g)
    case (Cons e es)
    have "adds V g (upd_edge e (\<lambda>x. x\<lparr>ed_LIKELY_UNCOVERABLE := True\<rparr>) g)" by (rule upd_edge_adds) (simp add: edge_view_def)
    from adds_trans [OF this Cons.IH] show ?case by simp
  qed (simp add: adds_refl)
  then show ?thesis by (simp add: trimBREdges_def)
qed

lemma FlowGraph_call_graph:
  assumes "consistent_mem mem" "length mem \<le> 10000" "calls_inside mem" "FlowGraph mem pc = Inr g"
  shows "call_graph g \<and> fg_initPC g = pc \<and> (\<forall>x \<in> set (fg_nodes g). nd_subroutineColors x = {})"
proof -
  from assms(4) obtain g1 g2 where g1: "rfold add_user_node mem (empty_graph pc) = Inr g1" and g2: "rfold link_user_node mem g1 = Inr g2"
    and g: "g = (if \<not> fg_haveJMPOrJSRR (constructInitPCEdge pc g2) then trimBREdges (constructInitPCEdge pc g2) else constructInitPCEdge pc g2)"
    by (auto simp: FlowGraph_def constructFromInitMem_def Let_def)
  have w: "wf_graph g" using FlowGraph_returns [OF assms(1,2), of pc] assms(4) by (simp add: returns_def)
  have "wf_graph (empty_graph pc)" "length (fg_nodes (empty_graph pc)) + length mem \<le> 10000"
    using assms(2) by (simp_all add: empty_graph_def wf_graph_def)
  from add_user_nodes [OF this(1) assms(1) this(2)] g1
  have n: "wf_graph g1" "\<forall>(a, v) \<in> set mem. user_inst v \<longrightarrow> has_node g1 v" by (simp_all add: returns_def)
  have o: "colorless pc g1" "origins_ok g1" using add_user_nodes_colorless [OF g1 assms(3,1)] by (simp_all add: origins_ok_def)
  from link_user_nodes_origins [OF g2 n o] have l: "wf_graph g2" "colorless pc g2" "origins_ok g2" using n(1) by (simp_all add: grows_def)
  have "adds {v. fst v = INIT_PC_ENTRY_EDGE} g2 g" using adds_trans [OF constructInitPCEdge_adds [OF l(1)] trimBREdges_adds] constructInitPCEdge_adds [OF l(1)] by (simp add: g)
  from adds_keeps(1) [OF this l(2)] adds_keeps(2) [OF this l(3)] have "colorless pc g" "origins_ok g" by (auto simp: origin_view_def)
  then show ?thesis using w by (auto simp: colorless_def origins_ok_def call_graph_def)
qed

lemma program_tracker:
  assumes "consistent_mem mem" "length mem \<le> 10000" "calls_inside mem" "(pc, v) \<in> set mem" "user_inst v"
  obtains g w where "FlowGraph mem pc = Inr g" "SubroutineTracker g = Inr w" "call_graph (sb_graph w)" "infos_ok (\<lambda>_. UNIV) w" "grows g (sb_graph w)"
    "sb_initPC w = pc" "\<And>n. n < length (fg_nodes g) \<Longrightarrow> nd_subroutineColors (sub_node w n) = {c. has_color g n c}"
    "\<And>a u. (a, u) \<in> set mem \<Longrightarrow> user_inst u \<Longrightarrow> mv_addr u = a \<and> has_node g u \<and> linked g u" "call_graph g" "fg_initPC g = pc"
proof -
  obtain g where g: "FlowGraph mem pc = Inr g" and n: "\<forall>(a, u) \<in> set mem. user_inst u \<longrightarrow> has_node g u \<and> linked g u"
    using FlowGraph_returns [OF assms(1,2), of pc] by (auto simp: returns_def)
  note c = FlowGraph_call_graph [OF assms(1-3) g]
  have u: "mv_addr u = a \<and> has_node g u \<and> linked g u" if "(a, u) \<in> set mem" "user_inst u" for a u
    using that n assms(1) by (auto simp: consistent_mem_def)
  from u [OF assms(4,5)] obtain n0 where "getNodeByAddr g (fg_initPC g) = Some n0" using c by (auto simp: has_node_def getNodeByAddr_def)
  from SubroutineTracker_returns [OF _ this] c obtain w where "SubroutineTracker g = Inr w" "call_graph (sb_graph w)" "infos_ok (\<lambda>_. UNIV) w"
    "grows g (sb_graph w)" "sb_initPC w = pc" "\<And>n. n < length (fg_nodes g) \<Longrightarrow> nd_subroutineColors (sub_node w n) = {c. has_color g n c}"
    by (auto simp: returns_def call_graph_calls_ok)
  with g u c show ?thesis using that by blast
qed

subsection \<open>Code that several subroutines share\<close>

abbreviation shared_node :: "graph \<Rightarrow> nat \<Rightarrow> bool" where
  "shared_node g n \<equiv> n < length (fg_nodes g) \<and> 1 < card (nd_subroutineColors (fg_nodes g ! n))"

abbreviation reuse_key :: "graph \<Rightarrow> nat \<Rightarrow> issue_key" where
  "reuse_key g n \<equiv> issue_key_of WARN_REUSE_CODE_ACROSS_SUBROUTINES (Some (nd_inst (fg_nodes g ! n)))"

definition reported :: "graph \<Rightarrow> issue_package \<Rightarrow> addr set \<Rightarrow> bool" where
  "reported g ip c \<longleftrightarrow> (\<exists>m < length (fg_nodes g). nd_subroutineColors (fg_nodes g ! m) = c \<and> ip_issues ip (reuse_key g m) \<noteq> None)"

text \<open>What holds while the search is under way: the colors of every checked node that is shared are reported, and there is a new issue only for a shared node.\<close>

definition checks :: "graph \<Rightarrow> issue_package \<Rightarrow> nat set \<times> issue_package \<Rightarrow> bool" where
  "checks g ip0 st \<longleftrightarrow> (case st of (checked, ip) \<Rightarrow> ip_level ip = ip_level ip0 \<and>
     (\<forall>n \<in> checked. shared_node g n \<longrightarrow> reported g ip (nd_subroutineColors (fg_nodes g ! n))) \<and>
     (\<forall>k. ip_issues ip0 k \<noteq> None \<longrightarrow> ip_issues ip k = ip_issues ip0 k) \<and>
     (\<forall>k. ip_issues ip k \<noteq> None \<longrightarrow> ip_issues ip0 k = None \<longrightarrow> (\<exists>m. shared_node g m \<and> k = reuse_key g m)))"

lemma checks_start: "checks g ip ({}, ip)"
  by (auto simp: checks_def)

lemma checks_subset: "checks g ip (A, ip') \<Longrightarrow> B \<subseteq> A \<Longrightarrow> checks g ip (B, ip')"
  unfolding checks_def prod.case by blast

definition keeps_issues :: "issue_package \<Rightarrow> issue_package \<Rightarrow> bool" where
  "keeps_issues ip ip' \<longleftrightarrow> (\<forall>k. ip_issues ip k \<noteq> None \<longrightarrow> ip_issues ip' k \<noteq> None)"

lemma keeps_refl: "keeps_issues ip ip"
  by (simp add: keeps_issues_def)

lemma keeps_trans: "keeps_issues a b \<Longrightarrow> keeps_issues b c \<Longrightarrow> keeps_issues a c"
  by (simp add: keeps_issues_def)

lemma reported_keeps: "keeps_issues ip ip' \<Longrightarrow> reported g ip c \<Longrightarrow> reported g ip' c"
  unfolding reported_def keeps_issues_def by blast

definition check_node :: "graph \<Rightarrow> nat \<Rightarrow> addr set \<Rightarrow> issue_package \<Rightarrow> issue_package res" where
  "check_node g n lastColors ip =
     (if nd_subroutineColors (fg_nodes g ! n) \<noteq> lastColors \<and> card (nd_subroutineColors (fg_nodes g ! n)) > 1
      then rbind (newGlobalIssue ip WARN_REUSE_CODE_ACROSS_SUBROUTINES (Some (nd_inst (fg_nodes g ! n)))) (\<lambda>(acc, ip). Inr ip) else Inr ip)"

lemma check_node_step:
  assumes "checks g ip0 (checked, ip)" "ip_level ip0 WARN_REUSE_CODE_ACROSS_SUBROUTINES = Some l" "l \<noteq> NONE"
    and "1 < card lastColors \<Longrightarrow> reported g ip lastColors" "n < length (fg_nodes g)"
  shows "\<exists>ip'. check_node g n lastColors ip = Inr ip' \<and> keeps_issues ip ip' \<and> checks g ip0 (insert n checked, ip') \<and>
    (1 < card (nd_subroutineColors (fg_nodes g ! n)) \<longrightarrow> reported g ip' (nd_subroutineColors (fg_nodes g ! n)))"
proof (cases "nd_subroutineColors (fg_nodes g ! n) \<noteq> lastColors \<and> 1 < card (nd_subroutineColors (fg_nodes g ! n))")
  case True
  let ?k = "reuse_key g n"
  let ?ip = "if ip_issues ip ?k = None then ip\<lparr>ip_issues := (ip_issues ip)(?k \<mapsto> [new_info])\<rparr> else ip"
  have l: "ip_level ip WARN_REUSE_CODE_ACROSS_SUBROUTINES = Some l" using assms(1,2) by (simp add: checks_def)
  then have e: "check_node g n lastColors ip = Inr ?ip"
    using assms(3) True by (auto simp: check_node_def newGlobalIssue_def raiseIssue_def getIssueLevel_def split: option.splits)
  have k: "keeps_issues ip ?ip" by (simp add: keeps_issues_def)
  have r: "reported g ?ip (nd_subroutineColors (fg_nodes g ! n))" using assms(5) by (auto simp: reported_def)
  have sh: "shared_node g n" using True assms(5) by simp
  have old: "ip_issues ip j = ip_issues ip0 j" if "ip_issues ip0 j \<noteq> None" for j using assms(1) that unfolding checks_def by blast
  have new: "\<exists>m. shared_node g m \<and> j = reuse_key g m" if "ip_issues ip j \<noteq> None" "ip_issues ip0 j = None" for j
    using assms(1) that unfolding checks_def by blast
  have "checks g ip0 (insert n checked, ?ip)"
    unfolding checks_def prod.case
  proof (intro conjI ballI allI impI)
    show "ip_level ?ip = ip_level ip0" using assms(1) by (simp add: checks_def)
    show "reported g ?ip (nd_subroutineColors (fg_nodes g ! m))" if "m \<in> insert n checked" "shared_node g m" for m
      using that r reported_keeps [OF k] assms(1) unfolding checks_def by blast
    show "ip_issues ?ip j = ip_issues ip0 j" if "ip_issues ip0 j \<noteq> None" for j using that old [OF that] by (auto simp del: fun_upd_apply simp: fun_upd_def)
    show "\<exists>m. shared_node g m \<and> j = reuse_key g m" if "ip_issues ?ip j \<noteq> None" "ip_issues ip0 j = None" for j
    proof (cases "j = ?k")
      case False
      then have "ip_issues ip j \<noteq> None" using that(1) by (simp split: if_splits)
      then show ?thesis by (rule new [OF _ that(2)])
    qed (use sh in blast)
  qed
  then show ?thesis using e k r by blast
next
  case False
  then have r: "1 < card (nd_subroutineColors (fg_nodes g ! n)) \<longrightarrow> reported g ip (nd_subroutineColors (fg_nodes g ! n))" using assms(4) by blast
  then have "checks g ip0 (insert n checked, ip)" using assms(1) by (simp add: checks_def)
  then show ?thesis using r False keeps_refl by (auto simp: check_node_def)
qed

lemma checkPaths_checks:
  assumes "wf_graph g" "checks g ip0 st" "ip_level ip0 WARN_REUSE_CODE_ACROSS_SUBROUTINES = Some l" "l \<noteq> NONE"
    and "\<And>n c. (n, c) \<in> set ts \<Longrightarrow> n < length (fg_nodes g) \<and> (1 < card c \<longrightarrow> reported g (snd st) c)"
  shows "returns (checkPaths g ts st) (\<lambda>st'. checks g ip0 st' \<and> keeps_issues (snd st) (snd st') \<and> fst st \<union> fst ` set ts \<subseteq> fst st')"
  using assms
proof (induction g ts st rule: checkPaths.induct)
  case (1 g st)
  then show ?case by (simp add: keeps_refl)
next
  case (2 g n last ts checked ip)
  have n: "n < length (fg_nodes g)" "1 < card last \<Longrightarrow> reported g ip last" using "2.prems"(5) [of n last] by simp_all
  show ?case
  proof (cases "n \<in> checked")
    case True
    have "returns (checkPaths g ts (checked, ip)) (\<lambda>st'. checks g ip0 st' \<and> keeps_issues ip (snd st') \<and> checked \<union> fst ` set ts \<subseteq> fst st')"
      unfolding Un_commute [of checked] by (rule returns_weaken [OF "2.IH"(1) [OF _ True "2.prems"(1-4)]]) (use n(1) "2.prems"(5) in auto)
    then show ?thesis using True n(1) by (auto elim!: returns_weaken)
  next
    case False
    let ?c = "nd_subroutineColors (fg_nodes g ! n)"
    let ?us = "map (\<lambda>t. (t, ?c)) (List.map_filter (\<lambda>e. ed_to (fg_edges g ! e)) (nd_runtimeOutEdges (fg_nodes g ! n)))"
    obtain ip' where ip': "check_node g n last ip = Inr ip'" "keeps_issues ip ip'" "checks g ip0 (insert n checked, ip')"
      "1 < card ?c \<longrightarrow> reported g ip' ?c" using check_node_step [OF "2.prems"(2-4) n(2,1)] by blast
    have us: "t < length (fg_nodes g)" if t: "t \<in> set (List.map_filter (\<lambda>e. ed_to (fg_edges g ! e)) (nd_runtimeOutEdges (fg_nodes g ! n)))" for t
    proof -
      obtain e where e: "e \<in> set (nd_runtimeOutEdges (fg_nodes g ! n))" "ed_to (fg_edges g ! e) = Some t" using t by (auto simp: List.map_filter_def)
      have "e < length (fg_edges g)" using e(1) n(1) "2.prems"(1) by (auto simp: wf_graph_def node_ok_def Let_def runtime_of_def out_of_def)
      then show ?thesis using e(2) "2.prems"(1) by (auto simp: wf_graph_def in_graph_def dest!: bspec [OF _ nth_mem])
    qed
    have eq: "checkPaths g ((n, last) # ts) (checked, ip) = checkPaths g (?us @ ts) (insert n checked, ip')"
      using n(1) False ip'(1) unfolding checkPaths.simps(2) Let_def check_node_def [symmetric] by simp
    have "returns (checkPaths g (?us @ ts) (insert n checked, ip'))
        (\<lambda>st'. checks g ip0 st' \<and> keeps_issues ip' (snd st') \<and> insert n checked \<union> fst ` set (?us @ ts) \<subseteq> fst st')"
    proof -
      have "1 < card c \<longrightarrow> reported g ip' c" "k < length (fg_nodes g)" if "(k, c) \<in> set (?us @ ts)" for k c
        using that ip'(4) us "2.prems"(5) [of k c] reported_keeps [OF ip'(2)] by auto
      then show ?thesis
        using "2.IH"(2) [OF _ False refl _ "2.prems"(1) ip'(3) "2.prems"(3,4)] n(1) ip'(1) by (simp add: check_node_def)
    qed
    then show ?thesis unfolding eq using keeps_trans [OF ip'(2)] by (auto elim!: returns_weaken)
  qed
qed

lemma checkDuplicateColors_returns:
  assumes "wf_graph g" "ip_level ip WARN_REUSE_CODE_ACROSS_SUBROUTINES = Some l" "l \<noteq> NONE"
  shows "returns (checkDuplicateColors g ip) (\<lambda>ip'. checks g ip ({0..<length (fg_nodes g)}, ip'))"
proof -
  let ?f = "\<lambda>n (checked, ip). if n \<notin> checked then checkPaths g [(n, {})] (checked, ip) else Inr (checked, ip)"
  have "returns (rfold ?f ns st) (\<lambda>st'. checks g ip st' \<and> set ns \<union> fst st \<subseteq> fst st')"
    if "checks g ip st" "set ns \<subseteq> {0..<length (fg_nodes g)}" for ns st
    using that
  proof (induction ns arbitrary: st)
    case (Cons n ns)
    have "returns (?f n st) (\<lambda>st'. checks g ip st' \<and> insert n (fst st) \<subseteq> fst st')"
      using checkPaths_checks [OF assms(1) Cons.prems(1) assms(2,3), of "[(n, {})]"] Cons.prems
      by (cases st) (auto elim!: returns_weaken)
    then show ?case
      unfolding rfold.simps by (rule returns_bindI) (rule returns_weaken [OF Cons.IH], use Cons.prems(2) in auto)
  qed simp
  note all = this and start = checks_start [of g ip]
  from all [of "({}, ip)" "[0..<length (fg_nodes g)]"] have "returns (rfold ?f [0..<length (fg_nodes g)] ({}, ip))
      (\<lambda>st'. checks g ip st' \<and> {0..<length (fg_nodes g)} \<subseteq> fst st')" using start by simp
  then show ?thesis
    unfolding checkDuplicateColors_def by (rule returns_bindI) (auto intro: checks_subset)
qed

subsection \<open>Properties\<close>

text \<open>A call of the subroutine at \<open>x3002\<close>, which is a \<open>RET\<close>; after the call the program halts.\<close>

definition call_program :: "(addr \<times> mem_value) list" where
  "call_program = [inst_at 0x3000 0x4801, inst_at 0x3001 0xF025, inst_at 0x3002 0xC1C0]"

lemma call_program_ok:
  "consistent_mem call_program" "length call_program \<le> 10000" "calls_inside call_program"
  "inst_at 0x3000 0x4801 \<in> set call_program" "inst_at 0x3002 0xC1C0 \<in> set call_program"
  "user_inst (snd (inst_at 0x3000 0x4801))" "user_inst (snd (inst_at 0x3002 0xC1C0))"
  by (simp_all add: consistent_mem_def call_program_def inst_at_def MemValue_def calls_inside_def user_inst_def)

text \<open>
  C5: the colors of the flow graph of a program.  For a program of consistent addresses that is not too long, has no call at the last
  address and has an instruction at the initial program counter, building the flow graph and the subroutine tracker returns, and every node
  has exactly the colors that flow to it: from the main code and from the targets of calls along runtime edges, over calls to the
  instruction after them, and not beyond returns.
\<close>
theorem SubroutineTracker_colors:
  assumes "consistent_mem mem" "length mem \<le> 10000" "calls_inside mem" "(pc, v) \<in> set mem" "user_inst v"
  shows "\<exists>g w. FlowGraph mem pc = Inr g \<and> SubroutineTracker g = Inr w \<and> call_graph (sb_graph w) \<and> grows g (sb_graph w) \<and>
    (\<forall>n < length (fg_nodes g). nd_subroutineColors (fg_nodes (sb_graph w) ! n) = {c. has_color g n c})"
proof -
  obtain g w where "FlowGraph mem pc = Inr g" "SubroutineTracker g = Inr w" "call_graph (sb_graph w)" "grows g (sb_graph w)"
    "\<And>n. n < length (fg_nodes g) \<Longrightarrow> nd_subroutineColors (sub_node w n) = {c. has_color g n c}"
    using program_tracker [OF assms] by metis
  then show ?thesis by blast
qed

theorem SubroutineTracker_colors_witness:
  "\<exists>g w. FlowGraph call_program 0x3000 = Inr g \<and> SubroutineTracker g = Inr w \<and> call_graph (sb_graph w) \<and> grows g (sb_graph w)"
proof -
  have "(0x3000, snd (inst_at 0x3000 0x4801)) \<in> set call_program" using call_program_ok(4) by (simp add: inst_at_def)
  from SubroutineTracker_colors [OF call_program_ok(1-3) this call_program_ok(6)] show ?thesis by blast
qed

text \<open>
  C4: the stacks of a state.  After a step along the graph, starting with consistent stacks and with the executed node in
  the color on top, the update returns: none of its assertions on the stacks and the colors can fail.  Afterwards the stacks are
  consistent again, and unless the state has returned improperly, the node of the program counter has the color on top, so that the update can be
  repeated after the next step.  The graph only grows, and the counts of the coverage tracker stay exact.
\<close>
theorem updateColors_correct:
  assumes "call_graph (sb_graph w)" "infos_ok (\<lambda>_. UNIV) w" "levels_ok ip" "stacks_ok w s"
    and "fst (st_latestNonOSInst s) = Some i" "fg_nodeByAddr (sb_graph w) (mv_addr i) = Some k" "at_color w s k"
    and "\<forall>m. fg_nodeByAddr (sb_graph w) (st_pc s) = Some m \<longrightarrow> is_call (nd_inst (sub_node w k)) \<longrightarrow> has_edge (sb_graph w) k m"
    and "sb_callback w = Some ct" "counts_ok (sb_graph w, ct, s)"
  shows "\<exists>w' ip' s'. updateColors (w, ip, s) = Inr (w', ip', s') \<and> call_graph (sb_graph w') \<and> infos_ok (\<lambda>_. UNIV) w' \<and>
    grows (sb_graph w) (sb_graph w') \<and> stacks_ok w' s' \<and> (\<forall>m. fg_nodeByAddr (sb_graph w) (st_pc s') = Some m \<longrightarrow> at_color w' s' m) \<and>
    (\<exists>ct'. sb_callback w' = Some ct' \<and> counts_ok (sb_graph w', ct', s))"
proof (cases "fg_nodeByAddr (sb_graph w) (st_pc s)")
  case None
  then show ?thesis using assms grows_refl by (simp add: updateColors_def inst_node_def getNodeByAddr_def)
next
  case (Some m)
  have c: "calls_ok w" using assms(1) by (simp add: call_graph_calls_ok)
  let ?inst = "nd_inst (sub_node w k)"
  let ?P = "\<lambda>(w', ip', s'). tracked w w' \<and> levels_ok ip' \<and> stacks_ok w' s' \<and> st_pc s' = st_pc s"
  have "returns (if is_call ?inst then update_call k m (w, ip, s)
      else if inst_id ?inst = I_JMP \<and> inst_baseR ?inst = R_R7 then update_return k (w, ip, s) else Inr (w, ip, s)) ?P"
    using update_call_stacks [OF c assms(2-7) _ Some] assms(8) Some update_return_returns [OF c assms(2-6)] tracked_refl [OF c assms(2)] assms(3,4) by simp
  then have "returns (updateColors (w, ip, s)) (\<lambda>(w', ip', s'). tracked w w' \<and> stacks_ok w' s' \<and> st_pc s' = st_pc s \<and> at_color w' s' m)"
  proof -
    have e: "updateColors (w, ip, s) = rbind (if is_call ?inst then update_call k m (w, ip, s)
        else if inst_id ?inst = I_JMP \<and> inst_baseR ?inst = R_R7 then update_return k (w, ip, s) else Inr (w, ip, s)) (\<lambda>(w, ip, s).
      if \<not> st_stackHasMessedUp s then (case st_colorStack s of [] \<Rightarrow> Inl (NullDeref ''colorStack.top()'')
        | tp # _ \<Rightarrow> rbind (colorPath [Color m tp] w) (\<lambda>w. Inr (w, ip, s))) else Inr (w, ip, s))"
      using assms(5,6) Some by (simp add: updateColors_def inst_node_def getNodeByAddr_def Let_def)
    assume "returns (if is_call ?inst then update_call k m (w, ip, s)
      else if inst_id ?inst = I_JMP \<and> inst_baseR ?inst = R_R7 then update_return k (w, ip, s) else Inr (w, ip, s)) ?P"
    then show ?thesis unfolding e
    proof (rule returns_bindI)
      fix x assume "?P x"
      then show "returns (case x of (w, ip, s) \<Rightarrow> if \<not> st_stackHasMessedUp s then (case st_colorStack s of [] \<Rightarrow> Inl (NullDeref ''colorStack.top()'')
          | tp # _ \<Rightarrow> rbind (colorPath [Color m tp] w) (\<lambda>w. Inr (w, ip, s))) else Inr (w, ip, s))
        (\<lambda>(w', ip', s'). tracked w w' \<and> stacks_ok w' s' \<and> st_pc s' = st_pc s \<and> at_color w' s' m)"
        by (cases x) (auto simp only: prod.case intro!: color_pc_node [OF c Some])
    qed
  qed
  then show ?thesis using assms(9,10) Some by (auto simp: returns_def tracked_def call_graph_calls_ok)
qed


text \<open>The state of \<open>call_program\<close> after its first step.\<close>

definition called_state :: state where
  "called_state = demo_state\<lparr>st_pc := 0x3002, st_latestNonOSInst := (Some (snd (inst_at 0x3000 0x4801)), None),
     st_colorStack := [0x3000], st_jsrStack := [], st_stackHasMessedUp := False\<rparr>"

theorem updateColors_correct_witness:
  "\<exists>g w ct w' ip' s'. FlowGraph call_program 0x3000 = Inr g \<and> SubroutineTracker g = Inr w \<and>
     updateColors (w\<lparr>sb_callback := Some ct\<rparr>, IssuePackage, called_state) = Inr (w', ip', s') \<and> stacks_ok w' s'"
proof -
  let ?i = "snd (inst_at 0x3000 0x4801)" and ?r = "snd (inst_at 0x3002 0xC1C0)"
  have mem: "(0x3000, ?i) \<in> set call_program" "(0x3002, ?r) \<in> set call_program" using call_program_ok(4,5) by (simp_all add: inst_at_def)
  obtain g w where g: "FlowGraph call_program 0x3000 = Inr g" "SubroutineTracker g = Inr w" "call_graph (sb_graph w)" "infos_ok (\<lambda>_. UNIV) w"
    "grows g (sb_graph w)" "sb_initPC w = 0x3000" "\<And>n. n < length (fg_nodes g) \<Longrightarrow> nd_subroutineColors (sub_node w n) = {c. has_color g n c}"
    "\<And>a u. (a, u) \<in> set call_program \<Longrightarrow> user_inst u \<Longrightarrow> mv_addr u = a \<and> has_node g u \<and> linked g u" "fg_initPC g = 0x3000"
    using program_tracker [OF call_program_ok(1-3) mem(1) call_program_ok(6)] by metis
  let ?ct = "\<lparr>ct_coveredEdgeCount = count_edges (\<lambda>x. is_runtime (ed_type x) \<and> ed_covered x) (sb_graph w),
    ct_totalEdgeToCover = count_edges (\<lambda>x. is_runtime (ed_type x)) (sb_graph w)\<rparr>"
  let ?w = "w\<lparr>sb_callback := Some ?ct\<rparr>"
  have i: "mv_addr ?i = 0x3000" "linked (sb_graph w) ?i" and n: "has_node g ?i" "has_node (sb_graph w) ?r" "mv_addr ?r = 0x3002"
    using g(8) [OF mem(1) call_program_ok(6)] g(8) [OF mem(2) call_program_ok(7)] linked_grows [OF g(5)] has_node_grows [OF g(5)] by blast+
  from n obtain k m where k: "fg_nodeByAddr g 0x3000 = Some k" "k < length (fg_nodes g)" "fg_nodeByAddr (sb_graph w) 0x3002 = Some m"
    by (auto simp: has_node_def i)
  have k': "fg_nodeByAddr (sb_graph w) 0x3000 = Some k" "length (fg_nodes (sb_graph w)) = length (fg_nodes g)" using g(5) k(1) by (simp_all add: grows_def)
  have "has_color g k 0x3000" using has_color.main [of g k] k(1) g(9) by (simp add: getNodeByAddr_def)
  then have at: "at_color ?w called_state k" using g(7) [OF k(2)] k(2) k'(2) by (simp add: at_color_def called_state_def colored_def)
  have stk: "stacks_ok ?w called_state" using g(6) by (simp add: stacks_ok_def called_state_def known_def)
  have "0x3002 \<in> static_succ ?i" by code_simp
  then have "has_edge (sb_graph w) k m" using i k(3) k'(1) by (auto simp: linked_def)
  then have e: "\<forall>m. fg_nodeByAddr (sb_graph ?w) (st_pc called_state) = Some m \<longrightarrow> is_call (nd_inst (sub_node ?w k)) \<longrightarrow> has_edge (sb_graph ?w) k m"
    using k(3) by (simp add: called_state_def)
  have c: "counts_ok (sb_graph ?w, ?ct, called_state)" by (simp add: counts_ok_def)
  have "call_graph (sb_graph ?w)" "infos_ok (\<lambda>_. UNIV) ?w" "fst (st_latestNonOSInst called_state) = Some ?i" "fg_nodeByAddr (sb_graph ?w) (mv_addr ?i) = Some k"
    "sb_callback ?w = Some ?ct" using g(3,4) k'(1) by (simp_all add: infos_ok_def called_state_def i)
  from updateColors_correct [OF this(1,2) levels_ok_initial stk this(3,4) at e this(5) c] g(1,2) show ?thesis by blast
qed



text \<open>
  C27: a second call of a subroutine forgets its exits.  When coloring comes to a call edge whose target already has its own color,
  the information on the subroutine is replaced by a fresh one without exits, and the nodes are not visited again, so that
  the exits recorded before are lost.
\<close>
theorem colorPath_forgets_exits:
  assumes "ed_to (fg_edges (sb_graph w) ! e) = Some n" "n < length (fg_nodes (sb_graph w))"
    and "nd_addr (fg_nodes (sb_graph w) ! n) \<in> nd_subroutineColors (fg_nodes (sb_graph w) ! n)"
  shows "\<exists>w' t. colorPath [Enter e] w = Inr w' \<and> sb_subroutines w' (nd_addr (fg_nodes (sb_graph w) ! n)) = Some t \<and> si_exits t = [] \<and>
    fg_edges (sb_graph w') = fg_edges (sb_graph w)"
  using assms by (simp add: colorPath.simps enter_subroutine_def sub_upd_node_def upd_node_def SubroutineInfo_def Let_def)

text \<open>Two calls of the subroutine at \<open>x3003\<close>; without its exit, no edge leads from the \<open>RET\<close> to the calls.\<close>

definition twice_program :: "(addr \<times> mem_value) list" where
  "twice_program = [inst_at 0x3000 0x4802, inst_at 0x3001 0x4801, inst_at 0x3002 0xF025, inst_at 0x3003 0xC1C0]"

theorem colorPath_forgets_exits_witness:
  "\<exists>g w w' t. FlowGraph twice_program 0x3000 = Inr g \<and> SubroutineTracker g = Inr w \<and> nd_runtimeOutEdges (sub_node w 3) = [] \<and>
     colorPath [Enter 0] w = Inr w' \<and> sb_subroutines w' 0x3003 = Some t \<and> si_exits t = []"
proof -
  have "case FlowGraph twice_program 0x3000 of Inl _ \<Rightarrow> False | Inr g \<Rightarrow> (case SubroutineTracker g of Inl _ \<Rightarrow> False | Inr w \<Rightarrow>
      nd_runtimeOutEdges (sub_node w 3) = [] \<and> ed_to (sub_edge w 0) = Some 3 \<and> 3 < length (fg_nodes (sb_graph w)) \<and>
      nd_addr (sub_node w 3) = 0x3003 \<and> 0x3003 \<in> nd_subroutineColors (sub_node w 3))"
    by code_simp
  then obtain g w where g: "FlowGraph twice_program 0x3000 = Inr g" "SubroutineTracker g = Inr w" "nd_runtimeOutEdges (sub_node w 3) = []"
    "ed_to (sub_edge w 0) = Some 3" "3 < length (fg_nodes (sb_graph w))" "nd_addr (sub_node w 3) = 0x3003"
    "nd_addr (sub_node w 3) \<in> nd_subroutineColors (sub_node w 3)" by (auto split: sum.splits)
  from colorPath_forgets_exits [OF g(4,5,7)] g show ?thesis by auto
qed

end
