(* ===== verification/Klc3_SCC.thy ===== *)
theory Klc3_SCC
  imports Klc3_FlowGraph
begin

text \<open>
  The strongly connected components that the loop analyzer computes (\<open>LoopAnalyzer::analysisSCC\<close> and \<open>tarjanDFS\<close> in
  \<open>lib/klc3/FlowAnalysis/LoopAnalyzer.cpp\<close>).  The recursion is written with its call stack: a frame is a node with the edges its loop has
  still to look at.  When a call returns, the caller lowers its own \<open>dfsLow\<close>.  The nodes of a subgraph are given in the order
  in which the container enumerates them.
\<close>

subsection \<open>State\<close>

record dfs_info =
  di_pre :: int
  di_low :: int
  di_sccRoot :: "nat option"

record scc =
  sc_clock :: int
  sc_info :: "nat \<Rightarrow> dfs_info option"
  sc_stack :: "nat list"
  sc_loopBlockRoot :: "nat set"

subsection \<open>Depth-first search\<close>

definition tarjan_target :: "graph \<Rightarrow> nat list \<Rightarrow> nat \<Rightarrow> nat option" where
  "tarjan_target g N e =
     (let x = fg_edges g ! e in
      if ed_type x = JSR_EDGE \<or> ed_type x = JSRR_EDGE then None
      else if ed_type x = LOOP_H2H_EDGE \<or> ed_type x = LOOP_H2X_EDGE then None
      else if ed_LIKELY_UNCOVERABLE x then None
      else case ed_to x of None \<Rightarrow> None | Some w \<Rightarrow> if w \<in> set N then Some w else None)"

definition tarjan_enter :: "nat \<Rightarrow> scc \<Rightarrow> scc" where
  "tarjan_enter v s =
     (let s = s\<lparr>sc_clock := sc_clock s + 1\<rparr> in
      s\<lparr>sc_info := (sc_info s)(v \<mapsto> \<lparr>di_pre = sc_clock s, di_low = sc_clock s, di_sccRoot = None\<rparr>), sc_stack := v # sc_stack s\<rparr>)"

definition lower :: "nat \<Rightarrow> int \<Rightarrow> scc \<Rightarrow> scc" where
  "lower v l s = s\<lparr>sc_info := (sc_info s)(v := map_option (\<lambda>i. i\<lparr>di_low := min (di_low i) l\<rparr>) (sc_info s v))\<rparr>"

fun pop_scc :: "nat \<Rightarrow> nat list \<Rightarrow> nat \<Rightarrow> scc \<Rightarrow> (nat \<times> scc) res" where
  "pop_scc v [] count s = Inl (NullDeref ''tarjanStack.top()'')"
| "pop_scc v (w # st) count s =
     (let s = s\<lparr>sc_stack := st, sc_info := (sc_info s)(w := map_option (\<lambda>i. i\<lparr>di_sccRoot := Some v\<rparr>) (sc_info s w))\<rparr> in
      if w \<noteq> v then pop_scc v st (Suc count) s else Inr (Suc count, s))"

definition tarjan_finish :: "nat \<Rightarrow> scc \<Rightarrow> scc res" where
  "tarjan_finish v s = (case sc_info s v of
       None \<Rightarrow> Inl (NullDeref ''info[v]'')
     | Some i \<Rightarrow>
         if di_low i = di_pre i then
           rbind (pop_scc v (sc_stack s) 0 s) (\<lambda>(sccNodeCount, s).
           Inr (if sccNodeCount > 1 then s\<lparr>sc_loopBlockRoot := insert v (sc_loopBlockRoot s)\<rparr> else s))
         else Inr s)"

definition caller_lower :: "nat \<Rightarrow> (nat \<times> nat list) list \<Rightarrow> scc \<Rightarrow> scc" where
  "caller_lower v fs s = (case (fs, sc_info s v) of ((u, es) # _, Some i) \<Rightarrow> lower u (di_low i) s | _ \<Rightarrow> s)"

lemma lower_dom [simp]: "sc_info (lower v l s) x = None \<longleftrightarrow> sc_info s x = None"
  by (simp add: lower_def)

lemma pop_dom: "pop_scc v st c s = Inr (c', s') \<Longrightarrow> sc_info s' x = None \<longleftrightarrow> sc_info s x = None"
  by (induction v st c s rule: pop_scc.induct) (auto simp: Let_def split: if_splits)

lemma finish_dom: "tarjan_finish v s = Inr s' \<Longrightarrow> sc_info s' x = None \<longleftrightarrow> sc_info s x = None"
  by (auto simp: tarjan_finish_def pop_dom split: option.splits if_splits)

lemma caller_lower_dom [simp]: "sc_info (caller_lower v fs s) x = None \<longleftrightarrow> sc_info s x = None"
  by (auto simp: caller_lower_def split: list.split option.split)

lemma target_in: "tarjan_target g N e = Some w \<Longrightarrow> w \<in> set N"
  by (auto simp: tarjan_target_def Let_def split: if_splits option.splits)

definition unvisited :: "nat list \<Rightarrow> scc \<Rightarrow> nat" where
  "unvisited N s = card {x \<in> set N. sc_info s x = None}"

lemma unvisited_enter:
  assumes "w \<in> set N" "sc_info s w = None"
  shows "unvisited N (tarjan_enter w s) < unvisited N s"
  unfolding unvisited_def using assms by (intro psubset_card_mono) (auto simp: tarjan_enter_def Let_def)

function tarjanDFS :: "graph \<Rightarrow> nat list \<Rightarrow> (nat \<times> nat list) list \<Rightarrow> scc \<Rightarrow> scc res" where
  "tarjanDFS g N [] s = Inr s"
| "tarjanDFS g N ((v, []) # fs) s = rbind (tarjan_finish v s) (\<lambda>s. tarjanDFS g N fs (caller_lower v fs s))"
| "tarjanDFS g N ((v, e # es) # fs) s = (case tarjan_target g N e of
       None \<Rightarrow> tarjanDFS g N ((v, es) # fs) s
     | Some w \<Rightarrow> (case sc_info s w of
           None \<Rightarrow> tarjanDFS g N ((w, nd_allOutEdges (fg_nodes g ! w)) # (v, es) # fs) (tarjan_enter w s)
         | Some i \<Rightarrow> tarjanDFS g N ((v, es) # fs) (if di_sccRoot i = None then lower v (di_pre i) s else s)))"
  by pat_completeness auto

termination
proof (relation "measures [\<lambda>(g, N, fs, s). unvisited N s, \<lambda>(g, N, fs, s). \<Sum>(v, es)\<leftarrow>fs. Suc (length es)]")
qed (use unvisited_enter target_in finish_dom in \<open>auto simp: unvisited_def\<close>)

definition analysisSCC :: "graph \<Rightarrow> nat list \<Rightarrow> scc res" where
  "analysisSCC g N = rfold (\<lambda>v s. if sc_info s v = None then tarjanDFS g N [(v, nd_allOutEdges (fg_nodes g ! v))] (tarjan_enter v s) else Inr s)
     N \<lparr>sc_clock = 0, sc_info = Map.empty, sc_stack = [], sc_loopBlockRoot = {}\<rparr>"

definition getSCCRoot :: "scc \<Rightarrow> nat \<Rightarrow> nat option res" where
  "getSCCRoot s v = (case sc_info s v of None \<Rightarrow> Inl (AssertFailed ''SCC root not determined'') | Some i \<Rightarrow> Inr (di_sccRoot i))"

subsection \<open>The graph that is searched\<close>

definition tg :: "graph \<Rightarrow> nat list \<Rightarrow> nat list \<Rightarrow> nat set" where
  "tg g N es = {w. \<exists>e \<in> set es. tarjan_target g N e = Some w}"

abbreviation out_edges :: "graph \<Rightarrow> nat \<Rightarrow> nat list" where
  "out_edges g v \<equiv> nd_allOutEdges (fg_nodes g ! v)"

abbreviation scc_succs :: "graph \<Rightarrow> nat list \<Rightarrow> nat \<Rightarrow> nat set" where
  "scc_succs g N v \<equiv> tg g N (out_edges g v)"

definition scc_edges :: "graph \<Rightarrow> nat list \<Rightarrow> (nat \<times> nat) set" where
  "scc_edges g N = {(v, w). w \<in> scc_succs g N v}"

lemma tg_simps [simp]:
  "tg g N [] = {}" "tg g N (e # es) = (case tarjan_target g N e of None \<Rightarrow> {} | Some w \<Rightarrow> {w}) \<union> tg g N es"
  by (auto simp: tg_def split: option.split)

lemma succs_reach: "w \<in> scc_succs g N v \<Longrightarrow> (v, w) \<in> (scc_edges g N)\<^sup>*"
  by (simp add: scc_edges_def r_into_rtrancl)

subsection \<open>Invariant\<close>

definition vis :: "scc \<Rightarrow> nat set" where
  "vis s = {x. sc_info s x \<noteq> None}"

definition pre :: "scc \<Rightarrow> nat \<Rightarrow> int" where
  "pre s x = di_pre (the (sc_info s x))"

definition low :: "scc \<Rightarrow> nat \<Rightarrow> int" where
  "low s x = di_low (the (sc_info s x))"

definition root :: "scc \<Rightarrow> nat \<Rightarrow> nat option" where
  "root s x = Option.bind (sc_info s x) di_sccRoot"

abbreviation stk :: "scc \<Rightarrow> nat set" where
  "stk s \<equiv> set (sc_stack s)"

abbreviation active :: "(nat \<times> nat list) list \<Rightarrow> nat set" where
  "active fs \<equiv> fst ` set fs"

text \<open>The stack holds the visited nodes without a root, and both stacks are ordered by the time of the visit.\<close>

definition order_ok :: "nat list \<Rightarrow> (nat \<times> nat list) list \<Rightarrow> scc \<Rightarrow> bool" where
  "order_ok N fs s \<longleftrightarrow> vis s \<subseteq> set N \<and> stk s = {x \<in> vis s. root s x = None} \<and> (\<forall>x \<in> vis s. pre s x \<le> sc_clock s) \<and>
     sorted_wrt (\<lambda>x y. pre s y < pre s x) (sc_stack s) \<and> sorted_wrt (\<lambda>x y. pre s y < pre s x) (map fst fs) \<and> active fs \<subseteq> stk s"

text \<open>Only the edges that an active call has still to look at can lead to nodes that are not visited.\<close>

definition visits_ok :: "graph \<Rightarrow> nat list \<Rightarrow> (nat \<times> nat list) list \<Rightarrow> scc \<Rightarrow> bool" where
  "visits_ok g N fs s \<longleftrightarrow> (\<forall>x \<in> vis s - active fs. scc_succs g N x \<subseteq> vis s) \<and> (\<forall>(v, es) \<in> set fs. scc_succs g N v \<subseteq> vis s \<union> tg g N es \<and> tg g N es \<subseteq> scc_succs g N v)"

text \<open>The nodes that have a root form closed components.\<close>

definition mutual :: "graph \<Rightarrow> nat list \<Rightarrow> nat \<Rightarrow> nat set" where
  "mutual g N x = {y. (x, y) \<in> (scc_edges g N)\<^sup>* \<and> (y, x) \<in> (scc_edges g N)\<^sup>*}"

definition comps_ok :: "graph \<Rightarrow> nat list \<Rightarrow> scc \<Rightarrow> bool" where
  "comps_ok g N s \<longleftrightarrow> (\<forall>x r. root s x = Some r \<longrightarrow> root s r = Some r \<and> {y. root s y = Some r} = mutual g N x \<and>
       (\<forall>y \<in> scc_succs g N x. root s y \<noteq> None)) \<and>
     sc_loopBlockRoot s = {r. 1 < card {y. root s y = Some r}}"

text \<open>A node on the stack reaches the nodes above it, and an active node at or below it.\<close>

definition paths_ok :: "graph \<Rightarrow> nat list \<Rightarrow> (nat \<times> nat list) list \<Rightarrow> scc \<Rightarrow> bool" where
  "paths_ok g N fs s \<longleftrightarrow> (\<forall>x \<in> stk s. \<forall>y \<in> stk s. pre s x \<le> pre s y \<longrightarrow> (x, y) \<in> (scc_edges g N)\<^sup>*) \<and>
     (\<forall>x \<in> stk s. \<exists>u \<in> active fs. pre s u \<le> pre s x \<and> (x, u) \<in> (scc_edges g N)\<^sup>*)"

text \<open>The node \<open>x\<close> was visited by the call for \<open>v\<close> or by a call that has returned to it.\<close>

definition owns :: "(nat \<times> nat list) list \<Rightarrow> scc \<Rightarrow> nat \<Rightarrow> nat \<Rightarrow> bool" where
  "owns fs s v x \<longleftrightarrow> x \<in> stk s \<and> pre s v \<le> pre s x \<and> (\<forall>u \<in> active fs. pre s u \<le> pre s x \<longrightarrow> pre s u \<le> pre s v)"

definition lows_ok :: "graph \<Rightarrow> nat list \<Rightarrow> (nat \<times> nat list) list \<Rightarrow> scc \<Rightarrow> bool" where
  "lows_ok g N fs s \<longleftrightarrow> (\<forall>x \<in> stk s. low s x \<le> pre s x \<and> (\<exists>y \<in> stk s. pre s y = low s x \<and> (x, y) \<in> (scc_edges g N)\<^sup>*)) \<and>
     (\<forall>(v, es) \<in> set fs. \<forall>x y. owns fs s v x \<longrightarrow> y \<in> scc_succs g N x \<longrightarrow> y \<in> stk s \<longrightarrow> (x = v \<longrightarrow> y \<notin> tg g N es) \<longrightarrow> low s v \<le> pre s y)"

definition tarjan_inv :: "graph \<Rightarrow> nat list \<Rightarrow> (nat \<times> nat list) list \<Rightarrow> scc \<Rightarrow> bool" where
  "tarjan_inv g N fs s \<longleftrightarrow> order_ok N fs s \<and> visits_ok g N fs s \<and> comps_ok g N s \<and> paths_ok g N fs s \<and> lows_ok g N fs s"

lemmas tarjan_inv_defs = tarjan_inv_def order_ok_def visits_ok_def comps_ok_def paths_ok_def lows_ok_def

lemma order_facts:
  assumes "order_ok N fs s"
  shows "vis s \<subseteq> set N" "x \<in> stk s \<Longrightarrow> x \<in> vis s" "x \<in> stk s \<Longrightarrow> root s x = None" "x \<in> vis s \<Longrightarrow> root s x = None \<Longrightarrow> x \<in> stk s"
    "x \<in> vis s \<Longrightarrow> pre s x \<le> sc_clock s" "sorted_wrt (\<lambda>x y. pre s y < pre s x) (sc_stack s)" "sorted_wrt (\<lambda>x y. pre s y < pre s x) (map fst fs)"
    "u \<in> active fs \<Longrightarrow> u \<in> stk s"
  using assms unfolding order_ok_def by blast+

lemma active_sorted:
  assumes "order_ok N ((v, es) # fs) s" "u \<in> active fs"
  shows "pre s u < pre s v"
  using assms by (auto simp: order_ok_def)

lemma lows_bound:
  assumes "lows_ok g N fs s" "(v, es) \<in> set fs" "owns fs s v x" "y \<in> scc_succs g N x" "y \<in> stk s" "x = v \<longrightarrow> y \<notin> tg g N es"
  shows "low s v \<le> pre s y"
  using assms unfolding lows_ok_def by blast

lemma sorted_pre_inj:
  assumes "sorted_wrt (\<lambda>x y. pre s y < pre s x) xs" "x \<in> set xs" "y \<in> set xs" "pre s x = pre s y"
  shows "x = y"
  using assms by (induction xs) auto

subsection \<open>The steps keep the invariant\<close>

text \<open>An edge is done when its target is visited and, if the target is on the stack, has been taken into account.\<close>

lemma drop_edge:
  assumes "tarjan_inv g N (fs' @ (v, e # es) # fs) s"
    and "\<And>w. tarjan_target g N e = Some w \<Longrightarrow> w \<in> vis s \<and> (w \<in> stk s \<longrightarrow> low s v \<le> pre s w)"
  shows "tarjan_inv g N (fs' @ (v, es) # fs) s"
proof -
  have a: "active (fs' @ (v, es) # fs) = active (fs' @ (v, e # es) # fs)" by simp
  have m: "map fst (fs' @ (v, es) # fs) = map fst (fs' @ (v, e # es) # fs)" by simp
  have "order_ok N (fs' @ (v, es) # fs) s" "comps_ok g N s" "paths_ok g N (fs' @ (v, es) # fs) s"
    using assms(1) unfolding tarjan_inv_def order_ok_def paths_ok_def a m by blast+
  moreover have "visits_ok g N (fs' @ (v, es) # fs) s"
    using assms unfolding tarjan_inv_def visits_ok_def a by (fastforce split: option.splits)
  moreover have "lows_ok g N (fs' @ (v, es) # fs) s"
  proof -
    have ow: "owns (fs' @ (v, es) # fs) s = owns (fs' @ (v, e # es) # fs) s" by (simp add: owns_def fun_eq_iff)
    have l: "lows_ok g N (fs' @ (v, e # es) # fs) s" using assms(1) by (simp add: tarjan_inv_def)
    have "low s u \<le> pre s y" if u: "(u, us) \<in> set (fs' @ (v, es) # fs)" and x: "owns (fs' @ (v, es) # fs) s u x"
      and y: "y \<in> scc_succs g N x" "y \<in> stk s" "x = u \<longrightarrow> y \<notin> tg g N us" for u us x y
    proof (cases "(u, us) = (v, es) \<and> x = v \<and> tarjan_target g N e = Some y")
      case True
      then show ?thesis using assms(2) y(2) by simp
    next
      case False
      have "\<exists>us'. (u, us') \<in> set (fs' @ (v, e # es) # fs) \<and> (x = u \<longrightarrow> y \<notin> tg g N us')"
      proof (cases "(u, us) = (v, es)")
        case True
        then show ?thesis using False y(3) by (intro exI [of _ "e # es"]) (auto split: option.splits)
      qed (use u y(3) in \<open>auto intro!: exI [of _ us]\<close>)
      then show ?thesis using l x y(1,2) unfolding lows_ok_def ow by blast
    qed
    then show ?thesis using l by (auto simp: lows_ok_def)
  qed
  ultimately show ?thesis by (simp add: tarjan_inv_def)
qed

text \<open>Visiting a node.\<close>

lemma tarjan_enter_fields:
  assumes "sc_info s w = None"
  shows "vis (tarjan_enter w s) = insert w (vis s)" "sc_stack (tarjan_enter w s) = w # sc_stack s" "root (tarjan_enter w s) = root s"
    "sc_clock (tarjan_enter w s) = sc_clock s + 1" "sc_loopBlockRoot (tarjan_enter w s) = sc_loopBlockRoot s"
    "pre (tarjan_enter w s) w = sc_clock s + 1" "low (tarjan_enter w s) w = sc_clock s + 1"
    "x \<noteq> w \<Longrightarrow> pre (tarjan_enter w s) x = pre s x" "x \<noteq> w \<Longrightarrow> low (tarjan_enter w s) x = low s x"
  using assms by (auto simp: tarjan_enter_def Let_def vis_def root_def pre_def low_def fun_eq_iff)

lemma enter_paths:
  assumes "tarjan_inv g N fs s" "w \<notin> vis s" "\<And>v es fs'. fs = (v, es) # fs' \<Longrightarrow> w \<in> scc_succs g N v" "x \<in> stk s"
  shows "(x, w) \<in> (scc_edges g N)\<^sup>*"
proof -
  obtain u where u: "u \<in> active fs" "(x, u) \<in> (scc_edges g N)\<^sup>*" using assms(1,4) unfolding tarjan_inv_def paths_ok_def by blast
  then obtain v es fs' where fs: "fs = (v, es) # fs'" by (cases fs) auto
  have o: "order_ok N fs s" "paths_ok g N fs s" using assms(1) by (simp_all add: tarjan_inv_def)
  have "u \<in> stk s" "v \<in> stk s" "pre s u \<le> pre s v"
    using order_facts(8) [OF o(1)] u(1) active_sorted [OF o(1) [unfolded fs]] unfolding fs by (auto simp del: order_less_imp_le intro: order_less_imp_le)
  then have "(u, v) \<in> (scc_edges g N)\<^sup>*" using o(2) by (simp add: paths_ok_def)
  then show ?thesis using u(2) succs_reach [OF assms(3) [OF fs]] by (meson rtrancl_trans)
qed

lemma enter_inv:
  assumes "tarjan_inv g N fs s" "w \<in> set N" "sc_info s w = None" "\<And>v es fs'. fs = (v, es) # fs' \<Longrightarrow> w \<in> scc_succs g N v"
  shows "tarjan_inv g N ((w, out_edges g w) # fs) (tarjan_enter w s)"
proof -
  let ?s = "tarjan_enter w s" and ?fs = "(w, out_edges g w) # fs"
  note e = tarjan_enter_fields [OF assms(3)]
  have w: "w \<notin> vis s" using assms(3) by (simp add: vis_def)
  have o: "order_ok N fs s" "visits_ok g N fs s" "comps_ok g N s" "paths_ok g N fs s" "lows_ok g N fs s" using assms(1) by (simp_all add: tarjan_inv_def)
  note od = order_facts [OF o(1)]
  have st: "stk s = {x \<in> vis s. root s x = None}" "w \<notin> stk s" "active fs \<subseteq> stk s" using od(2-4,8) w by blast+
  have new: "x \<noteq> w" "pre ?s x = pre s x" "low ?s x = low s x" "pre s x < pre ?s w" if x: "x \<in> stk s" for x
  proof -
    show "x \<noteq> w" using x st(2) by blast
    then show "pre ?s x = pre s x" "low ?s x = low s x" "pre s x < pre ?s w" using e(6,8,9) od(5) [OF od(2) [OF x]] by simp_all
  qed
  have rw: "root s w = None" using assms(3) by (simp add: root_def)
  have "order_ok N ?fs ?s"
  proof -
    have "sorted_wrt (\<lambda>x y. pre ?s y < pre ?s x) xs" if "sorted_wrt (\<lambda>x y. pre s y < pre s x) xs" "set xs \<subseteq> stk s" for xs
      using that new by (induction xs) auto
    moreover have "pre ?s x \<le> sc_clock ?s" if "x \<in> vis ?s" for x
      using that e(6) e(8) [of x] od(5) [of x] by (cases "x = w") (auto simp: e(1,4))
    moreover have "\<forall>x \<in> stk s. pre ?s x < pre ?s w" using new by simp
    ultimately show ?thesis
      unfolding order_ok_def e(1-3) using od(1,6,7) assms(2) st(3) rw w by (auto simp: st(1))
  qed
  moreover have "visits_ok g N ?fs ?s" using o(2) by (auto simp: visits_ok_def e(1))
  moreover have "comps_ok g N ?s" using o(3) by (simp add: comps_ok_def e(3,5))
  moreover have "paths_ok g N ?fs ?s"
  proof -
    have "(x, y) \<in> (scc_edges g N)\<^sup>*" if "x \<in> stk ?s" "y \<in> stk ?s" "pre ?s x \<le> pre ?s y" for x y
      using that new [of x] new [of y] enter_paths [OF assms(1) w assms(4)] o(4) by (auto simp: e(2) paths_ok_def)
    moreover have "\<exists>u \<in> active ?fs. pre ?s u \<le> pre ?s x \<and> (x, u) \<in> (scc_edges g N)\<^sup>*" if x: "x \<in> stk ?s" for x
    proof (cases "x = w")
      case False
      then have xs: "x \<in> stk s" using x by (simp add: e(2))
      then obtain u where u: "u \<in> active fs" "pre s u \<le> pre s x" "(x, u) \<in> (scc_edges g N)\<^sup>*" using o(4) unfolding paths_ok_def by blast
      have "pre ?s u \<le> pre ?s x" using u(1,2) new(2) [OF xs] new(2) [of u] st(3) by (simp add: subset_iff)
      then show ?thesis using u(1,3) by (intro bexI [of _ u]) simp_all
    qed simp
    ultimately show ?thesis by (simp add: paths_ok_def)
  qed
  moreover have "lows_ok g N ?fs ?s"
  proof -
    have "low ?s x \<le> pre ?s x \<and> (\<exists>y \<in> stk ?s. pre ?s y = low ?s x \<and> (x, y) \<in> (scc_edges g N)\<^sup>*)" if x: "x \<in> stk ?s" for x
    proof (cases "x = w")
      case True
      then show ?thesis by (simp add: e)
    next
      case False
      then have x: "x \<in> stk s" using x by (simp add: e(2))
      then obtain y where "y \<in> stk s" "pre s y = low s x" "(x, y) \<in> (scc_edges g N)\<^sup>*" "low s x \<le> pre s x" using o(5) by (auto simp: lows_ok_def)
      then show ?thesis using new [OF x] new(2) [of y] by (auto simp: e(2))
    qed
    moreover have "low ?s v \<le> pre ?s y" if f: "(v, es) \<in> set ?fs" and x: "owns ?fs ?s v x" and y: "y \<in> scc_succs g N x" "y \<in> stk ?s" "x = v \<longrightarrow> y \<notin> tg g N es"
      for v es x y
    proof (cases "(v, es) = (w, out_edges g w)")
      case True
      then have "x = w" using x new [of x] by (auto simp: owns_def e(2))
      then show ?thesis using True y by simp
    next
      case False
      then have f: "(v, es) \<in> set fs" using f by auto
      then have v: "v \<in> stk s" using st(3) by force
      have xw: "x \<noteq> w" using x new [OF v] by (auto simp: owns_def)
      then have xs: "x \<in> stk s" using x by (simp add: owns_def e(2))
      have ow: "owns fs s v x"
        unfolding owns_def
      proof (intro conjI ballI impI)
        show "x \<in> stk s" "pre s v \<le> pre s x" using x xs new(2) [OF xs] new(2) [OF v] by (simp_all add: owns_def)
        show "pre s u \<le> pre s v" if u: "u \<in> active fs" "pre s u \<le> pre s x" for u
        proof -
          have us: "u \<in> stk s" "u \<in> active ?fs" using u(1) st(3) by auto
          then have "pre ?s u \<le> pre ?s x \<longrightarrow> pre ?s u \<le> pre ?s v" using x unfolding owns_def by blast
          then show ?thesis using u(2) new(2) [OF xs] new(2) [OF v] new(2) [OF us(1)] by simp
        qed
      qed
      show ?thesis
      proof (cases "y = w")
        case True
        have "low s v \<le> pre s v" using o(5) v by (simp add: lows_ok_def)
        then show ?thesis using True new [OF v] by simp
      next
        case False
        then have ys: "y \<in> stk s" using y(2) by (simp add: e(2))
        have "low s v \<le> pre s y" using o(5) f ow y(1,3) ys unfolding lows_ok_def by blast
        then show ?thesis using new [OF v] new [OF ys] by simp
      qed
    qed
    ultimately show ?thesis unfolding lows_ok_def by blast
  qed
  ultimately show ?thesis by (simp add: tarjan_inv_def)
qed

text \<open>Lowering the value of an active node to the time of a node it reaches.\<close>

lemma lower_fields:
  assumes "v \<in> vis s"
  shows "vis (lower v l s) = vis s" "sc_stack (lower v l s) = sc_stack s" "root (lower v l s) = root s" "pre (lower v l s) = pre s"
    "sc_clock (lower v l s) = sc_clock s" "sc_loopBlockRoot (lower v l s) = sc_loopBlockRoot s" "low (lower v l s) v = min (low s v) l"
    "x \<noteq> v \<Longrightarrow> low (lower v l s) x = low s x"
  using assms by (auto simp: lower_def vis_def root_def pre_def low_def fun_eq_iff split: option.splits)

lemma lower_low_le: "v \<in> vis s \<Longrightarrow> low (lower v l s) x \<le> low s x"
  using lower_fields(7,8) [of v s] by (cases "x = v") auto

lemma lower_inv:
  assumes "tarjan_inv g N fs s" "v \<in> stk s" "y \<in> stk s" "pre s y = l" "(v, y) \<in> (scc_edges g N)\<^sup>*"
  shows "tarjan_inv g N fs (lower v l s)"
proof -
  let ?s = "lower v l s"
  have o: "order_ok N fs s" "visits_ok g N fs s" "comps_ok g N s" "paths_ok g N fs s" "lows_ok g N fs s" using assms(1) by (simp_all add: tarjan_inv_def)
  have v: "v \<in> vis s" by (rule order_facts(2) [OF o(1) assms(2)])
  note e = lower_fields [OF v, where l = l] and le = lower_low_le [OF v, where l = l]
  have "low ?s x \<le> pre s x \<and> (\<exists>z \<in> stk s. pre s z = low ?s x \<and> (x, z) \<in> (scc_edges g N)\<^sup>*)" if x: "x \<in> stk s" for x
  proof -
    obtain z where z: "low s x \<le> pre s x" "z \<in> stk s" "pre s z = low s x" "(x, z) \<in> (scc_edges g N)\<^sup>*"
      using o(5) x unfolding lows_ok_def by blast
    have "low ?s x = low s x \<or> x = v \<and> low ?s x = l" using e(7,8) by (cases "x = v") auto
    then show ?thesis using z assms(3-5) le [of x] by (metis order_trans)
  qed
  moreover have "low ?s u \<le> pre s z" if "(u, es) \<in> set fs" "owns fs s u x" "z \<in> scc_succs g N x" "z \<in> stk s" "x = u \<longrightarrow> z \<notin> tg g N es" for u es x z
  proof -
    have "low s u \<le> pre s z" using o(5) that unfolding lows_ok_def by blast
    then show ?thesis using le [of u] by simp
  qed
  moreover have "owns fs ?s = owns fs s" by (simp add: owns_def e fun_eq_iff)
  ultimately have "lows_ok g N fs ?s" unfolding lows_ok_def e(2,4) by auto
  then show ?thesis
    using o(1-4) unfolding tarjan_inv_def order_ok_def visits_ok_def comps_ok_def paths_ok_def e by blast
qed

text \<open>Returning from a call whose node is not the root of a component; the caller has taken the value over.\<close>

lemma return_inv:
  assumes "tarjan_inv g N ((v, []) # (u, es) # fs) s" "low s v < pre s v" "low s u \<le> low s v"
  shows "tarjan_inv g N ((u, es) # fs) s"
proof -
  let ?f = "(v, []) # (u, es) # fs" and ?f' = "(u, es) # fs"
  have o: "order_ok N ?f s" "visits_ok g N ?f s" "comps_ok g N s" "paths_ok g N ?f s" "lows_ok g N ?f s" using assms(1) by (simp_all add: tarjan_inv_def)
  note od = order_facts [OF o(1)]
  have v: "v \<in> stk s" using od(8) by simp
  have "order_ok N ?f' s" unfolding order_ok_def using o(1) unfolding order_ok_def by (elim conjE, intro conjI) auto
  moreover have "visits_ok g N ?f' s" using o(2) by (auto simp: visits_ok_def)
  moreover have "paths_ok g N ?f' s"
  proof -
    obtain y where y: "y \<in> stk s" "pre s y = low s v" "(v, y) \<in> (scc_edges g N)\<^sup>*" using o(5) v unfolding lows_ok_def by blast
    then obtain w where w: "w \<in> active ?f" "pre s w \<le> pre s y" "(y, w) \<in> (scc_edges g N)\<^sup>*" using o(4) unfolding paths_ok_def by blast
    have w': "w \<in> active ?f'" "pre s w \<le> pre s v" "(v, w) \<in> (scc_edges g N)\<^sup>*" using w y assms(2) by auto
    have "\<exists>w \<in> active ?f'. pre s w \<le> pre s x \<and> (x, w) \<in> (scc_edges g N)\<^sup>*" if x: "x \<in> stk s" for x
    proof -
      obtain a where a: "a \<in> active ?f" "pre s a \<le> pre s x" "(x, a) \<in> (scc_edges g N)\<^sup>*" using o(4) x unfolding paths_ok_def by blast
      show ?thesis
      proof (cases "a = v")
        case True
        then show ?thesis using a w' by (meson order_trans rtrancl_trans)
      qed (use a in auto)
    qed
    then show ?thesis using o(4) unfolding paths_ok_def by blast
  qed
  moreover have "lows_ok g N ?f' s"
  proof -
    have "low s b \<le> pre s y" if b: "(b, bs) \<in> set ?f'" and x: "owns ?f' s b x" and y: "y \<in> scc_succs g N x" "y \<in> stk s" "x = b \<longrightarrow> y \<notin> tg g N bs" for b bs x y
    proof (cases "pre s v \<le> pre s x")
      case True
      have "pre s a \<le> pre s v" if "a \<in> active ?f" for a using active_sorted [OF o(1), of a] that by (cases "a = v") (simp_all add: order_less_imp_le)
      then have "owns ?f s v x" using True x by (simp add: owns_def)
      moreover have "(v, []) \<in> set ?f" by simp
      ultimately have lv: "low s v \<le> pre s y" using o(5) y(1,2) unfolding lows_ok_def by fastforce
      have "pre s u < pre s v" using active_sorted [OF o(1), of u] by simp
      then have "pre s u \<le> pre s b" using x True by (simp add: owns_def)
      moreover have "pre s a \<le> pre s u" if "a \<in> active ?f'" for a
        using that od(7) by auto
      moreover have "b \<in> active ?f'" using b by force
      ultimately have "pre s b = pre s u" by (simp add: order_antisym)
      moreover have "b \<in> stk s" "u \<in> stk s" using \<open>b \<in> active ?f'\<close> by (simp_all add: od(8))
      ultimately have "b = u" using sorted_pre_inj [OF od(6)] by blast
      then show ?thesis using lv assms(3) by simp
    next
      case False
      then have "owns ?f s b x" using x by (auto simp: owns_def)
      moreover have "(b, bs) \<in> set ?f" using b by simp
      ultimately show ?thesis using lows_bound [OF o(5)] y by blast
    qed
    then show ?thesis using o(5) unfolding lows_ok_def by blast
  qed
  ultimately show ?thesis using o(3) by (simp add: tarjan_inv_def)
qed

text \<open>Returning from a call whose node is the root of a component.\<close>

definition popped :: "nat \<Rightarrow> nat set \<Rightarrow> nat list \<Rightarrow> scc \<Rightarrow> scc" where
  "popped v S rest s = s\<lparr>sc_stack := rest,
     sc_info := (\<lambda>x. if x \<in> S then map_option (\<lambda>i. i\<lparr>di_sccRoot := Some v\<rparr>) (sc_info s x) else sc_info s x)\<rparr>"

lemma pop_scc_popped:
  "v \<notin> set upper \<Longrightarrow> pop_scc v (upper @ v # rest) c s = Inr (c + length upper + 1, popped v (set upper \<union> {v}) rest s)"
proof (induction upper arbitrary: c s)
  case (Cons w upper)
  let ?s = "s\<lparr>sc_stack := upper @ v # rest, sc_info := (sc_info s)(w := map_option (\<lambda>i. i\<lparr>di_sccRoot := Some v\<rparr>) (sc_info s w))\<rparr>"
  have "popped v (set upper \<union> {v}) rest ?s = popped v (set (w # upper) \<union> {v}) rest s"
    by (auto simp: popped_def fun_eq_iff option.map_comp comp_def)
  then show ?case using Cons.IH [of "Suc c" ?s] Cons.prems by (simp add: Let_def)
qed (simp add: popped_def fun_eq_iff Let_def)

lemma popped_fields:
  "vis (popped v S rest s) = vis s" "sc_stack (popped v S rest s) = rest" "pre (popped v S rest s) = pre s" "low (popped v S rest s) = low s"
  "sc_clock (popped v S rest s) = sc_clock s" "sc_loopBlockRoot (popped v S rest s) = sc_loopBlockRoot s"
  "S \<subseteq> vis s \<Longrightarrow> root (popped v S rest s) x = (if x \<in> S then Some v else root s x)"
proof -
  show "S \<subseteq> vis s \<Longrightarrow> root (popped v S rest s) x = (if x \<in> S then Some v else root s x)"
    by (auto simp: popped_def root_def vis_def subset_iff split: option.splits)
  have "pre (popped v S rest s) x = pre s x \<and> low (popped v S rest s) x = low s x" for x
    by (cases "sc_info s x") (simp_all add: popped_def pre_def low_def)
  then show "pre (popped v S rest s) = pre s" "low (popped v S rest s) = low s" by (simp_all add: fun_eq_iff)
qed (auto simp: popped_def vis_def)

text \<open>The component of the root: the part of the stack from the root upwards.\<close>

lemma segment:
  assumes "order_ok N ((v, es) # fs) s"
  obtains upper rest where "sc_stack s = upper @ v # rest" "v \<notin> set upper" "distinct upper"
    "set upper \<union> {v} = {x \<in> stk s. pre s v \<le> pre s x}" "set rest = {x \<in> stk s. pre s x < pre s v}"
proof -
  note od = order_facts [OF assms]
  have "v \<in> stk s" using od(8) by simp
  then obtain upper rest where st: "sc_stack s = upper @ v # rest" by (meson split_list)
  have "\<forall>x \<in> set upper. pre s v < pre s x" "\<forall>x \<in> set rest. pre s x < pre s v" "sorted_wrt (\<lambda>x y. pre s y < pre s x) upper"
    using od(6) unfolding st by (auto simp: sorted_wrt_append)
  moreover from this(3) have "distinct upper" by (induction upper) auto
  ultimately show ?thesis by (intro that [OF st]) (auto simp: st dest: order_less_imp_le)
qed

lemma rtrancl_closed:
  assumes "(x, y) \<in> r\<^sup>*" "x \<in> C" "\<And>a b. a \<in> C \<Longrightarrow> (a, b) \<in> r \<Longrightarrow> b \<in> C"
  shows "y \<in> C"
  using assms by (induction rule: rtrancl_induct) blast+

lemma component:
  assumes "tarjan_inv g N ((v, []) # fs) s" "low s v = pre s v"
  defines "S \<equiv> {x \<in> stk s. pre s v \<le> pre s x}"
  shows "\<And>x. x \<in> S \<Longrightarrow> mutual g N x = S" "\<And>x y. x \<in> S \<Longrightarrow> y \<in> scc_succs g N x \<Longrightarrow> y \<in> S \<or> root s y \<noteq> None"
proof -
  let ?f = "(v, []) # fs"
  have o: "order_ok N ?f s" "visits_ok g N ?f s" "comps_ok g N s" "paths_ok g N ?f s" "lows_ok g N ?f s" using assms(1) by (simp_all add: tarjan_inv_def)
  note od = order_facts [OF o(1)]
  have v: "v \<in> S" using od(8) by (simp add: S_def)
  have act: "pre s u < pre s v" if "u \<in> active fs" for u using active_sorted [OF o(1) that] .
  have closed: "y \<in> S \<or> root s y \<noteq> None" if x: "x \<in> S" and y: "y \<in> scc_succs g N x" for x y
  proof (cases "root s y")
    case None
    have xs: "x \<in> stk s" "pre s v \<le> pre s x" using x by (simp_all add: S_def)
    then have "x \<notin> active fs" using act [of x] by auto
    then have "y \<in> vis s" using o(2) y od(2) [OF xs(1)] by (cases "x = v") (auto simp: visits_ok_def)
    then have ys: "y \<in> stk s" using None od(4) by blast
    have "owns ?f s v x" using xs act by (auto simp: owns_def dest: order_less_imp_le)
    then have "low s v \<le> pre s y" using o(5) y ys unfolding lows_ok_def by fastforce
    then show ?thesis using ys assms(2) by (simp add: S_def)
  qed simp
  then show "\<And>x y. x \<in> S \<Longrightarrow> y \<in> scc_succs g N x \<Longrightarrow> y \<in> S \<or> root s y \<noteq> None" .
  have fin: "root s b \<noteq> None" if "root s a \<noteq> None" "(a, b) \<in> scc_edges g N" for a b
    using o(3) that unfolding comps_ok_def scc_edges_def by blast
  have C: "y \<in> S \<or> root s y \<noteq> None" if "x \<in> S" "(x, y) \<in> (scc_edges g N)\<^sup>*" for x y
    using that(2)
  proof (induction rule: rtrancl_induct)
    case (step y z)
    then show ?case using closed [of y z] fin [of y z] by (auto simp: scc_edges_def)
  qed (use that(1) in simp)
  have conn: "(x, v) \<in> (scc_edges g N)\<^sup>*" "(v, x) \<in> (scc_edges g N)\<^sup>*" if x: "x \<in> S" for x
  proof -
    have xs: "x \<in> stk s" "v \<in> stk s" "pre s v \<le> pre s x" using x v by (simp_all add: S_def)
    then show "(v, x) \<in> (scc_edges g N)\<^sup>*" using o(4) by (simp add: paths_ok_def)
    obtain u where u: "u \<in> active ?f" "(x, u) \<in> (scc_edges g N)\<^sup>*" using o(4) xs(1) unfolding paths_ok_def by blast
    then have "u \<in> S" using C [OF x u(2)] od(3) [OF od(8) [OF u(1)]] by simp
    then have "u = v" using u(1) act [of u] by (auto simp: S_def)
    then show "(x, v) \<in> (scc_edges g N)\<^sup>*" using u(2) by simp
  qed
  show "mutual g N x = S" if x: "x \<in> S" for x
  proof (intro equalityI subsetI)
    fix y assume "y \<in> S"
    then show "y \<in> mutual g N x" using conn [OF x] conn [of y] by (auto simp: mutual_def intro: rtrancl_trans)
  next
    fix y assume "y \<in> mutual g N x"
    then have y: "(x, y) \<in> (scc_edges g N)\<^sup>*" "(y, x) \<in> (scc_edges g N)\<^sup>*" by (simp_all add: mutual_def)
    have "root s x = None" using x od(3) by (simp add: S_def)
    moreover have "root s x \<noteq> None" if "root s y \<noteq> None"
      using rtrancl_closed [OF y(2), of "{a. root s a \<noteq> None}"] fin that by simp
    ultimately have "root s y = None" by blast
    then show "y \<in> S" using C [OF x y(1)] by simp
  qed
qed

definition count_root :: "nat \<Rightarrow> nat set \<Rightarrow> scc \<Rightarrow> scc" where
  "count_root v S s = (if 1 < card S then s\<lparr>sc_loopBlockRoot := insert v (sc_loopBlockRoot s)\<rparr> else s)"

lemma count_root_fields:
  "vis (count_root v S s) = vis s" "sc_stack (count_root v S s) = sc_stack s" "pre (count_root v S s) = pre s" "low (count_root v S s) = low s"
  "sc_clock (count_root v S s) = sc_clock s" "root (count_root v S s) = root s" "sc_info (count_root v S s) = sc_info s"
  by (auto simp: count_root_def vis_def pre_def low_def root_def fun_eq_iff)

lemma pop_comps:
  assumes "tarjan_inv g N ((v, []) # fs) s" "low s v = pre s v" "S = {x \<in> stk s. pre s v \<le> pre s x}" "finite S"
  shows "comps_ok g N (count_root v S (popped v S rest s))"
proof -
  let ?s = "count_root v S (popped v S rest s)"
  have o: "order_ok N ((v, []) # fs) s" "comps_ok g N s" using assms(1) by (simp_all add: tarjan_inv_def)
  note od = order_facts [OF o(1)] and c = component [OF assms(1,2), folded assms(3)]
  have S: "S \<subseteq> vis s" "v \<in> S" using od(2,8) by (auto simp: assms(3))
  have none: "root s x = None" if "x \<in> S" for x using that od(3) by (simp add: assms(3))
  have r: "root ?s x = (if x \<in> S then Some v else root s x)" for x using S(1) by (simp add: count_root_fields popped_fields)
  have rv: "root s x \<noteq> Some v" for x
  proof
    assume "root s x = Some v"
    then have "root s v = Some v" using o(2) unfolding comps_ok_def by blast
    then show False using none [OF S(2)] by simp
  qed
  have sets: "{y. root ?s y = Some v} = S" "\<And>q. q \<noteq> v \<Longrightarrow> {y. root ?s y = Some q} = {y. root s y = Some q}"
    using rv none by (auto simp: r)
  have "root ?s q = Some q \<and> {y. root ?s y = Some q} = mutual g N x \<and> (\<forall>y \<in> scc_succs g N x. root ?s y \<noteq> None)" if x: "root ?s x = Some q" for x q
  proof (cases "x \<in> S")
    case True
    then have "q = v" using x by (simp add: r)
    then show ?thesis using sets(1) c(1) [OF True] c(2) [OF True] S(2) by (auto simp: r)
  next
    case False
    then have q: "root s x = Some q" "q \<noteq> v" using x rv [of x] by (auto simp: r)
    then have "root s q = Some q" "{y. root s y = Some q} = mutual g N x" "\<forall>y \<in> scc_succs g N x. root s y \<noteq> None" using o(2) unfolding comps_ok_def by blast+
    then show ?thesis using sets(2) [OF q(2)] none by (auto simp: r)
  qed
  moreover have "sc_loopBlockRoot ?s = {q. 1 < card {y. root ?s y = Some q}}"
  proof -
    have old: "q \<in> sc_loopBlockRoot s \<longleftrightarrow> 1 < card {y. root s y = Some q}" for q using o(2) unfolding comps_ok_def by blast
    have "{y. root s y = Some v} = {}" using rv by blast
    then have "v \<notin> sc_loopBlockRoot s" using old [of v] by simp
    then have "q \<in> sc_loopBlockRoot ?s \<longleftrightarrow> 1 < card {y. root ?s y = Some q}" for q
      using old [of q] sets(1) sets(2) [of q] by (cases "q = v") (simp_all add: count_root_def popped_fields)
    then show ?thesis by blast
  qed
  ultimately show ?thesis unfolding comps_ok_def by blast
qed

lemma pop_inv:
  assumes "tarjan_inv g N ((v, []) # fs) s" "low s v = pre s v" "S = {x \<in> stk s. pre s v \<le> pre s x}" "set rest = {x \<in> stk s. pre s x < pre s v}"
    and "sc_stack s = upper @ v # rest"
  shows "tarjan_inv g N fs (count_root v S (popped v S rest s))"
proof -
  let ?f = "(v, []) # fs" and ?s = "count_root v S (popped v S rest s)"
  have o: "order_ok N ?f s" "visits_ok g N ?f s" "comps_ok g N s" "paths_ok g N ?f s" "lows_ok g N ?f s" using assms(1) by (simp_all add: tarjan_inv_def)
  note od = order_facts [OF o(1)] and fs = count_root_fields popped_fields
  have act: "pre s u < pre s v" if "u \<in> active fs" for u using active_sorted [OF o(1) that] .
  have S: "S \<subseteq> vis s" "finite S" using od(2) by (auto simp: assms(3))
  have r: "root ?s x = (if x \<in> S then Some v else root s x)" for x using S(1) by (simp add: fs)
  have rest: "x \<in> set rest \<longleftrightarrow> x \<in> stk s \<and> pre s x < pre s v" for x by (simp add: assms(4))
  have "order_ok N fs ?s"
  proof -
    have "u \<in> set rest" if "u \<in> active fs" for u using that act [OF that] od(8) [of u] by (simp add: rest)
    then have "active fs \<subseteq> set rest" by blast
    moreover have "x \<in> S \<longleftrightarrow> x \<in> stk s \<and> pre s v \<le> pre s x" for x by (simp add: assms(3))
    then have "set rest = {x \<in> vis s. root ?s x = None}" using od(2-4) by (auto simp: rest r not_le)
    moreover have "sorted_wrt (\<lambda>x y. pre s y < pre s x) rest" using od(6) by (simp add: assms(5) sorted_wrt_append)
    ultimately show ?thesis using od(1,5,7) by (simp add: order_ok_def fs)
  qed
  moreover have "visits_ok g N fs ?s" using o(2) by (auto simp: visits_ok_def fs)
  moreover have "paths_ok g N fs ?s"
  proof -
    have "\<exists>u \<in> active fs. pre s u \<le> pre s x \<and> (x, u) \<in> (scc_edges g N)\<^sup>*" if x: "x \<in> stk s" "pre s x < pre s v" for x
    proof -
      obtain u where "u \<in> active ?f" "pre s u \<le> pre s x" "(x, u) \<in> (scc_edges g N)\<^sup>*" using o(4) x(1) unfolding paths_ok_def by blast
      then show ?thesis using x(2) by auto
    qed
    then show ?thesis using o(4) by (auto simp: paths_ok_def fs rest)
  qed
  moreover have "lows_ok g N fs ?s"
  proof -
    have "low s x \<le> pre s x \<and> (\<exists>y \<in> set rest. pre s y = low s x \<and> (x, y) \<in> (scc_edges g N)\<^sup>*)" if x: "x \<in> set rest" for x
    proof -
      have xs: "x \<in> stk s" "pre s x < pre s v" using x by (simp_all add: rest)
      then obtain y where "low s x \<le> pre s x" "y \<in> stk s" "pre s y = low s x" "(x, y) \<in> (scc_edges g N)\<^sup>*" using o(5) unfolding lows_ok_def by blast
      then show ?thesis using xs(2) by (intro conjI bexI [of _ y]) (simp_all add: rest)
    qed
    moreover have "low s b \<le> pre s y" if b: "(b, bs) \<in> set fs" and x: "owns fs ?s b x" and y: "y \<in> scc_succs g N x" "y \<in> set rest" "x = b \<longrightarrow> y \<notin> tg g N bs" for b bs x y
    proof -
      have "owns ?f s b x" using x by (auto simp: owns_def fs rest)
      moreover have "y \<in> stk s" "(b, bs) \<in> set ?f" using y(2) b by (simp_all add: rest)
      ultimately show ?thesis using lows_bound [OF o(5)] y(1,3) by blast
    qed
    ultimately show ?thesis unfolding lows_ok_def fs by blast
  qed
  ultimately show ?thesis using pop_comps [OF assms(1-3) S(2)] by (simp add: tarjan_inv_def)
qed

lemma lower_id:
  assumes "u \<in> vis s" "low s u \<le> l"
  shows "lower u l s = s"
proof -
  obtain i where i: "sc_info s u = Some i" using assms(1) by (auto simp: vis_def)
  have "i\<lparr>di_low := min (di_low i) l\<rparr> = i" using assms(2) by (simp add: low_def i min_absorb1)
  then have "(sc_info s)(u := map_option (\<lambda>i. i\<lparr>di_low := min (di_low i) l\<rparr>) (sc_info s u)) = sc_info s"
    using i by (simp add: fun_eq_iff)
  then show ?thesis by (simp add: lower_def)
qed

lemma caller_lower_low: "v \<in> vis s \<Longrightarrow> caller_lower v fs s = (case fs of [] \<Rightarrow> s | (u, es) # _ \<Rightarrow> lower u (low s v) s)"
  by (auto simp: caller_lower_def vis_def low_def split: list.split)

lemma finish_inv:
  assumes "tarjan_inv g N ((v, []) # fs) s"
  shows "\<exists>s'. tarjan_finish v s = Inr s' \<and> tarjan_inv g N fs (caller_lower v fs s') \<and> vis (caller_lower v fs s') = vis s"
proof -
  let ?f = "(v, []) # fs"
  have o: "order_ok N ?f s" "paths_ok g N ?f s" "lows_ok g N ?f s" using assms by (simp_all add: tarjan_inv_def)
  note od = order_facts [OF o(1)]
  have v: "v \<in> stk s" "v \<in> vis s" using od(2,8) by simp_all
  then obtain i where i: "sc_info s v = Some i" "di_low i = low s v" "di_pre i = pre s v" by (auto simp: vis_def low_def pre_def)
  obtain y where y: "low s v \<le> pre s v" "y \<in> stk s" "pre s y = low s v" "(v, y) \<in> (scc_edges g N)\<^sup>*" using o(3) v(1) unfolding lows_ok_def by blast
  show ?thesis
  proof (cases "low s v = pre s v")
    case True
    obtain upper rest where st: "sc_stack s = upper @ v # rest" "v \<notin> set upper" "distinct upper"
      "set upper \<union> {v} = {x \<in> stk s. pre s v \<le> pre s x}" "set rest = {x \<in> stk s. pre s x < pre s v}" using segment [OF o(1)] .
    let ?S = "set upper \<union> {v}" and ?s = "count_root v (set upper \<union> {v}) (popped v (set upper \<union> {v}) rest s)"
    have "card ?S = length upper + 1" using st(2,3) by (simp add: distinct_card)
    then have f: "tarjan_finish v s = Inr ?s"
      using True i pop_scc_popped [OF st(2), of rest 0 s] by (simp add: tarjan_finish_def st(1) count_root_def)
    have inv: "tarjan_inv g N fs ?s" by (rule pop_inv [OF assms True st(4,5,1)])
    have vs: "vis ?s = vis s" by (simp add: count_root_fields popped_fields)
    have "caller_lower v fs ?s = ?s"
    proof (cases fs)
      case Nil
      then show ?thesis using v(2) vs by (simp add: caller_lower_low)
    next
      case (Cons a fs')
      obtain u es where u: "a = (u, es)" by fastforce
      have us: "u \<in> stk s" "pre s u < pre s v" using od(8) active_sorted [OF o(1), of u] by (simp_all add: Cons u)
      have "low s u \<le> pre s u" using o(3) us(1) unfolding lows_ok_def by blast
      then have "low s u \<le> low s v" using us(2) True by simp
      then have "lower u (low s v) ?s = ?s" using lower_id [of u ?s "low s v"] od(2) [OF us(1)] vs by (simp add: count_root_fields popped_fields)
      then show ?thesis using v(2) vs by (simp add: caller_lower_low Cons u count_root_fields popped_fields)
    qed
    then show ?thesis using f inv vs by simp
  next
    case False
    then have lt: "low s v < pre s v" using y(1) by simp
    have f: "tarjan_finish v s = Inr s" using False i by (simp add: tarjan_finish_def)
    obtain w where w: "w \<in> active ?f" "pre s w \<le> pre s y" using o(2) y(2) unfolding paths_ok_def by blast
    then have "w \<in> active fs" using y(3) lt by auto
    then obtain u es fs' where fs: "fs = (u, es) # fs'" by (cases fs) auto
    have us: "u \<in> stk s" "pre s u < pre s v" using od(8) active_sorted [OF o(1), of u] by (simp_all add: fs)
    then have "(u, v) \<in> (scc_edges g N)\<^sup>*" using o(2) v(1) unfolding paths_ok_def by (meson order_less_imp_le)
    then have "(u, y) \<in> (scc_edges g N)\<^sup>*" using y(4) by (rule rtrancl_trans)
    from lower_inv [OF assms us(1) y(2,3) this] have inv: "tarjan_inv g N ?f (lower u (low s v) s)" .
    note e = lower_fields [OF od(2) [OF us(1)], where l = "low s v"]
    have "v \<noteq> u" using us(2) by auto
    then have "low (lower u (low s v) s) v < pre (lower u (low s v) s) v" "low (lower u (low s v) s) u \<le> low (lower u (low s v) s) v"
      using lt e(8) [of v] by (simp_all add: e)
    from return_inv [OF inv [unfolded fs] this] have "tarjan_inv g N fs (caller_lower v fs s)" using v(2) by (simp add: caller_lower_low fs)
    then show ?thesis using f v(2) e(1) by (simp add: caller_lower_low fs)
  qed
qed

lemma tarjanDFS_inv:
  assumes "tarjan_inv g N fs s"
  shows "returns (tarjanDFS g N fs s) (\<lambda>s'. tarjan_inv g N [] s' \<and> vis s \<subseteq> vis s')"
  using assms
proof (induction g N fs s rule: tarjanDFS.induct)
  case (2 g N v fs s)
  obtain s' where s': "tarjan_finish v s = Inr s'" "tarjan_inv g N fs (caller_lower v fs s')" "vis (caller_lower v fs s') = vis s"
    using finish_inv [OF "2.prems"] by blast
  from "2.IH" [OF s'(1,2)] show ?case using s'(1,3) by simp
next
  case (3 g N v e es fs s)
  have o: "order_ok N ((v, e # es) # fs) s" "visits_ok g N ((v, e # es) # fs) s" "lows_ok g N ((v, e # es) # fs) s" using "3.prems" by (simp_all add: tarjan_inv_def)
  note od = order_facts [OF o(1)]
  note drop = drop_edge [of g N "[]" v e es fs, simplified]
  show ?case
  proof (cases "tarjan_target g N e")
    case None
    then show ?thesis using "3.IH"(1) [OF None drop [OF "3.prems"]] by simp
  next
    case (Some w)
    have w: "w \<in> scc_succs g N v" "w \<in> set N" using o(2) Some target_in [OF Some] by (auto simp: visits_ok_def)
    show ?thesis
    proof (cases "sc_info s w")
      case None
      have "tarjan_inv g N ((w, out_edges g w) # (v, e # es) # fs) (tarjan_enter w s)"
        by (rule enter_inv [OF "3.prems" w(2) None]) (use w(1) in simp)
      then have "tarjan_inv g N ([(w, out_edges g w)] @ (v, e # es) # fs) (tarjan_enter w s)" by simp
      from drop_edge [OF this] have "tarjan_inv g N ((w, out_edges g w) # (v, es) # fs) (tarjan_enter w s)"
      proof -
        have v: "v \<in> stk s" "v \<noteq> w" using od(2) [of v] od(8) [of v] None by (auto simp: vis_def)
        then have "low s v \<le> sc_clock s" using o(3) od(5) [OF od(2) [OF v(1)]] unfolding lows_ok_def by (meson order_trans)
        then have "low (tarjan_enter w s) v \<le> pre (tarjan_enter w s) w" using v(2) tarjan_enter_fields(6,9) [OF None] by simp
        then show ?thesis using drop_edge [OF \<open>tarjan_inv g N ([(w, out_edges g w)] @ (v, e # es) # fs) (tarjan_enter w s)\<close>] Some tarjan_enter_fields(1) [OF None] by simp
      qed
      from "3.IH"(2) [OF Some None this] show ?thesis using Some None tarjan_enter_fields(1) [OF None] by (auto elim!: returns_weaken)
    next
      case (Some i)
      let ?s = "if di_sccRoot i = None then lower v (di_pre i) s else s"
      have wv: "w \<in> vis s" "root s w = di_sccRoot i" "pre s w = di_pre i" using Some by (simp_all add: vis_def root_def pre_def)
      have vs: "v \<in> stk s" "v \<in> vis s" using od(8) [of v] od(2) [of v] by simp_all
      note e = lower_fields [OF vs(2), where l = "di_pre i"]
      have "tarjan_inv g N ((v, es) # fs) ?s"
      proof (cases "di_sccRoot i = None")
        case True
        then have ws: "w \<in> stk s" using wv od(4) by simp
        have "tarjan_inv g N ((v, e # es) # fs) (lower v (di_pre i) s)" by (rule lower_inv [OF "3.prems" vs(1) ws wv(3) succs_reach [OF w(1)]])
        from drop [OF this] show ?thesis using True \<open>tarjan_target g N e = Some w\<close> wv e by simp
      next
        case False
        then have "w \<notin> stk s" using wv(2) od(3) by auto
        then have "tarjan_inv g N ((v, es) # fs) s" using drop [OF "3.prems"] \<open>tarjan_target g N e = Some w\<close> wv(1) by simp
        then show ?thesis by (simp only: False if_False)
      qed
      moreover have "vis ?s = vis s" using e(1) by simp
      ultimately show ?thesis using "3.IH"(3) [OF \<open>tarjan_target g N e = Some w\<close> Some] \<open>tarjan_target g N e = Some w\<close> Some by simp
    qed
  qed
qed simp

subsection \<open>The whole analysis\<close>

lemma inv_no_calls:
  assumes "tarjan_inv g N [] s"
  shows "sc_stack s = []" "x \<in> vis s \<Longrightarrow> root s x \<noteq> None"
proof -
  have "stk s = {}" using assms by (auto simp: tarjan_inv_def paths_ok_def)
  then show "sc_stack s = []" by simp
  then show "x \<in> vis s \<Longrightarrow> root s x \<noteq> None" using order_facts(4) [of N "[]" s x] assms by (auto simp: tarjan_inv_def)
qed

lemma analysisSCC_returns:
  "returns (analysisSCC g N) (\<lambda>s. tarjan_inv g N [] s \<and> vis s = set N)"
proof -
  let ?f = "\<lambda>v s. if sc_info s v = None then tarjanDFS g N [(v, out_edges g v)] (tarjan_enter v s) else Inr s"
  have step: "returns (?f v s) (\<lambda>s'. tarjan_inv g N [] s' \<and> insert v (vis s) \<subseteq> vis s')" if "tarjan_inv g N [] s" "v \<in> set N" for v s
  proof (cases "sc_info s v")
    case None
    have "tarjan_inv g N [(v, out_edges g v)] (tarjan_enter v s)" by (rule enter_inv [OF that None]) simp
    from tarjanDFS_inv [OF this] show ?thesis using None tarjan_enter_fields(1) [OF None] by simp
  qed (use that in \<open>auto simp: vis_def\<close>)
  have "returns (rfold ?f vs s) (\<lambda>s'. tarjan_inv g N [] s' \<and> set vs \<union> vis s \<subseteq> vis s')" if "tarjan_inv g N [] s" "set vs \<subseteq> set N" for vs s
    using that
  proof (induction vs arbitrary: s)
    case (Cons v vs)
    have v: "v \<in> set N" "set vs \<subseteq> set N" using Cons.prems(2) by simp_all
    show ?case
      unfolding rfold.simps
    proof (rule returns_bindI [OF step [OF Cons.prems(1) v(1)]])
      fix s' assume s': "tarjan_inv g N [] s' \<and> insert v (vis s) \<subseteq> vis s'"
      then have "returns (rfold ?f vs s') (\<lambda>s''. tarjan_inv g N [] s'' \<and> set vs \<union> vis s' \<subseteq> vis s'')" using Cons.IH [of s'] v(2) by blast
      then show "returns (rfold ?f vs s') (\<lambda>s''. tarjan_inv g N [] s'' \<and> set (v # vs) \<union> vis s \<subseteq> vis s'')"
        by (rule returns_weaken) (use s' in auto)
    qed
  qed simp
  note all = this
  have init: "tarjan_inv g N [] \<lparr>sc_clock = 0, sc_info = Map.empty, sc_stack = [], sc_loopBlockRoot = {}\<rparr>"
    by (simp add: tarjan_inv_defs vis_def root_def)
  have "returns (analysisSCC g N) (\<lambda>s. tarjan_inv g N [] s \<and> set N \<subseteq> vis s)"
    unfolding analysisSCC_def by (rule returns_weaken [OF all [OF init subset_refl]]) blast
  then show ?thesis by (rule returns_weaken) (use order_facts(1) in \<open>auto simp: tarjan_inv_def\<close>)
qed

text \<open>
  C10: the components of a subgraph.  The search returns: it never pops from an empty stack, and leaves the stack empty.  Every node of the subgraph has a root;
  two nodes have the same root exactly when each reaches the other along the edges that the analysis follows; a root belongs to its own component;
  and the roots of blocks of loops are those of the components with more than one node.
\<close>
theorem analysisSCC_correct:
  "\<exists>s. analysisSCC g N = Inr s \<and> sc_stack s = [] \<and>
    (\<forall>x \<in> set N. \<exists>r \<in> set N. getSCCRoot s x = Inr (Some r) \<and> getSCCRoot s r = Inr (Some r) \<and>
      (\<forall>y \<in> set N. getSCCRoot s y = Inr (Some r) \<longleftrightarrow> (x, y) \<in> (scc_edges g N)\<^sup>* \<and> (y, x) \<in> (scc_edges g N)\<^sup>*) \<and>
      (r \<in> sc_loopBlockRoot s \<longleftrightarrow> (\<exists>y \<in> set N. y \<noteq> x \<and> getSCCRoot s y = Inr (Some r))))"
proof -
  obtain s where s: "analysisSCC g N = Inr s" "tarjan_inv g N [] s" "vis s = set N" using analysisSCC_returns [of g N] by (auto simp: returns_def)
  note st = inv_no_calls [OF s(2)]
  have c: "comps_ok g N s" using s(2) by (simp add: tarjan_inv_def)
  have root: "getSCCRoot s x = Inr (Some r) \<longleftrightarrow> root s x = Some r" if "x \<in> set N" for x r
    using that s(3) by (auto simp: getSCCRoot_def root_def vis_def split: option.splits)
  have vis: "x \<in> set N" if "root s x = Some r" for x r using that s(3) by (auto simp: root_def vis_def bind_eq_Some_conv)
  have "\<exists>r \<in> set N. root s x = Some r \<and> root s r = Some r \<and> {y. root s y = Some r} = mutual g N x \<and>
      (r \<in> sc_loopBlockRoot s \<longleftrightarrow> (\<exists>y \<in> set N. y \<noteq> x \<and> root s y = Some r))" if x: "x \<in> set N" for x
  proof -
    obtain r where r: "root s x = Some r" using st(2) [of x] x s(3) by auto
    have m: "root s r = Some r" "{y. root s y = Some r} = mutual g N x" "r \<in> sc_loopBlockRoot s \<longleftrightarrow> 1 < card {y. root s y = Some r}"
      using c r unfolding comps_ok_def by blast+
    have "finite {y. root s y = Some r}" using vis by (auto intro: finite_subset [of _ "set N"])
    then have "card {y. root s y = Some r} \<le> Suc 0 \<longleftrightarrow> (\<forall>a b. root s a = Some r \<longrightarrow> root s b = Some r \<longrightarrow> a = b)"
      by (simp add: card_le_Suc0_iff_eq)
    also have "\<dots> \<longleftrightarrow> \<not> (\<exists>y. y \<noteq> x \<and> root s y = Some r)" using r by metis
    finally have "1 < card {y. root s y = Some r} \<longleftrightarrow> (\<exists>y. y \<noteq> x \<and> root s y = Some r)" by (metis One_nat_def not_le)
    then show ?thesis using r m vis by (intro bexI [of _ r]) auto
  qed
  note all = this
  have "\<exists>r \<in> set N. getSCCRoot s x = Inr (Some r) \<and> getSCCRoot s r = Inr (Some r) \<and>
      (\<forall>y \<in> set N. getSCCRoot s y = Inr (Some r) \<longleftrightarrow> (x, y) \<in> (scc_edges g N)\<^sup>* \<and> (y, x) \<in> (scc_edges g N)\<^sup>*) \<and>
      (r \<in> sc_loopBlockRoot s \<longleftrightarrow> (\<exists>y \<in> set N. y \<noteq> x \<and> getSCCRoot s y = Inr (Some r)))" if x: "x \<in> set N" for x
  proof -
    obtain r where r: "r \<in> set N" "root s x = Some r" "root s r = Some r" "{y. root s y = Some r} = mutual g N x"
      "r \<in> sc_loopBlockRoot s \<longleftrightarrow> (\<exists>y \<in> set N. y \<noteq> x \<and> root s y = Some r)" using all [OF x] by blast
    have "root s y = Some r \<longleftrightarrow> (x, y) \<in> (scc_edges g N)\<^sup>* \<and> (y, x) \<in> (scc_edges g N)\<^sup>*" for y
      using r(4) unfolding mutual_def set_eq_iff by simp
    then show ?thesis using r(1-3,5) x by (intro bexI [of _ r] conjI) (simp_all add: root)
  qed
  then show ?thesis using s(1) st(1) by blast
qed

theorem analysisSCC_correct_witness:
  "\<exists>g s. FlowGraph demo_program 0x3000 = Inr g \<and> analysisSCC g [2, 0, 1] = Inr s \<and>
    (0, 1) \<in> (scc_edges g [2, 0, 1])\<^sup>* \<and> (1, 0) \<in> (scc_edges g [2, 0, 1])\<^sup>*"
proof -
  have "case FlowGraph demo_program 0x3000 of Inl _ \<Rightarrow> False | Inr g \<Rightarrow> (case analysisSCC g [2, 0, 1] of Inl _ \<Rightarrow> False | Inr s \<Rightarrow>
      getSCCRoot s 0 = Inr (Some 0) \<and> getSCCRoot s 1 = Inr (Some 0))" by code_simp
  then obtain g s where g: "FlowGraph demo_program 0x3000 = Inr g" "analysisSCC g [2, 0, 1] = Inr s"
    "getSCCRoot s 0 = Inr (Some 0)" "getSCCRoot s 1 = Inr (Some 0)" by (auto split: sum.splits)
  from analysisSCC_correct [of g "[2, 0, 1]"] obtain s' where s': "analysisSCC g [2, 0, 1] = Inr s'"
    "\<forall>x \<in> set [2, 0, 1]. \<exists>r \<in> set [2, 0, 1]. getSCCRoot s' x = Inr (Some r) \<and> getSCCRoot s' r = Inr (Some r) \<and>
      (\<forall>y \<in> set [2, 0, 1]. getSCCRoot s' y = Inr (Some r) \<longleftrightarrow> (x, y) \<in> (scc_edges g [2, 0, 1])\<^sup>* \<and> (y, x) \<in> (scc_edges g [2, 0, 1])\<^sup>*) \<and>
      (r \<in> sc_loopBlockRoot s' \<longleftrightarrow> (\<exists>y \<in> set [2, 0, 1]. y \<noteq> x \<and> getSCCRoot s' y = Inr (Some r)))"
    by (elim exE conjE) (rule that)
  have "s' = s" using g(2) s'(1) by simp
  have "0 \<in> set [2, 0, 1 :: nat]" "1 \<in> set [2, 0, 1 :: nat]" by simp_all
  from bspec [OF s'(2) this(1)] obtain r where r: "getSCCRoot s' 0 = Inr (Some r)"
    "\<forall>y \<in> set [2, 0, 1]. getSCCRoot s' y = Inr (Some r) \<longleftrightarrow> (0, y) \<in> (scc_edges g [2, 0, 1])\<^sup>* \<and> (y, 0) \<in> (scc_edges g [2, 0, 1])\<^sup>*"
    by (elim bexE conjE) (rule that)
  have "r = 0" using r(1) g(3) \<open>s' = s\<close> by simp
  then show ?thesis using bspec [OF r(2) \<open>1 \<in> set [2, 0, 1 :: nat]\<close>] g \<open>s' = s\<close> by blast
qed

end
