(* ===== verification/Klc3_Loops.thy ===== *)
theory Klc3_Loops
  imports Klc3_Path Klc3_SCC
begin

text \<open>
  Loops and their segments (\<open>include/klc3/FlowAnalysis/LoopAnalyzer.h\<close>, \<open>lib/klc3/FlowAnalysis/LoopAnalyzer.cpp\<close>).  Loops are numbered in the order of
  their creation, the container of the top-level loops included; a pointer is such a number.  The path from the entry is passed by
  value: the code removes what it has appended before it goes on.

  The recursion of \<open>analyzeLoopDFS\<close> does not end on every graph, so it runs on fuel: \<open>None\<close> when the fuel is used up.
\<close>

subsection \<open>State\<close>

record loop =
  lp_name :: string
  lp_entryNode :: nat
  lp_nodes :: "nat list"
  lp_subloops :: "nat set"
  lp_h2hSegments :: "nat list set"
  lp_h2hEdges :: "nat set"
  lp_h2xSegments :: "nat list set"
  lp_h2xEdges :: "nat set"
  lp_segmentLastEdges :: "nat set"

record analyzer =
  la_graph :: graph
  la_loops :: "loop list"
  la_byEntry :: "nat \<Rightarrow> nat option"
  la_topLevelLoops :: "nat set"
  la_loopHeadStack :: "nat list"
  la_totalSegmentCount :: int
  la_maxSegmentCount :: int

definition LoopAnalyzer :: "graph \<Rightarrow> int \<Rightarrow> analyzer" where
  "LoopAnalyzer g maxSegmentCount = \<lparr>la_graph = g, la_loops = [], la_byEntry = Map.empty, la_topLevelLoops = {}, la_loopHeadStack = [],
     la_totalSegmentCount = 0, la_maxSegmentCount = maxSegmentCount\<rparr>"

definition new_loop :: "string \<Rightarrow> nat \<Rightarrow> nat list \<Rightarrow> loop" where
  "new_loop name entry nodes = \<lparr>lp_name = name, lp_entryNode = entry, lp_nodes = nodes, lp_subloops = {}, lp_h2hSegments = {}, lp_h2hEdges = {},
     lp_h2xSegments = {}, lp_h2xEdges = {}, lp_segmentLastEdges = {}\<rparr>"

abbreviation loop_at :: "analyzer \<Rightarrow> nat \<Rightarrow> loop" where
  "loop_at a l \<equiv> la_loops a ! l"

definition upd_loop :: "nat \<Rightarrow> (loop \<Rightarrow> loop) \<Rightarrow> analyzer \<Rightarrow> analyzer" where
  "upd_loop l f a = a\<lparr>la_loops := (la_loops a)[l := f (loop_at a l)]\<rparr>"

definition obind :: "'a res option \<Rightarrow> ('a \<Rightarrow> 'b res option) \<Rightarrow> 'b res option" where
  "obind r f = (case r of None \<Rightarrow> None | Some (Inl e) \<Rightarrow> Some (Inl e) | Some (Inr x) \<Rightarrow> f x)"

subsection \<open>Segments\<close>

definition has_loop_edge :: "graph \<Rightarrow> nat set \<Rightarrow> nat list \<Rightarrow> bool" where
  "has_loop_edge g es p \<longleftrightarrow> (\<exists>e \<in> es. ed_from (fg_edges g ! e) = path_src g p \<and> ed_to (fg_edges g ! e) = path_dest g p)"

text \<open>The result says whether the number of segments is still within the limit.\<close>

definition add_h2h :: "nat \<Rightarrow> nat list \<Rightarrow> nat \<Rightarrow> analyzer \<Rightarrow> (bool \<times> analyzer) res" where
  "add_h2h outer path edge a =
     rbind (assert_that (la_loopHeadStack a \<noteq> [] \<and> hd (la_loopHeadStack a) = lp_entryNode (loop_at a outer)) ''Loop head inconsistent'') (\<lambda>_.
     rbind (appendCompressed (la_graph a) path edge True) (\<lambda>(_, h2hPath).
     rbind (assert_that (path_src (la_graph a) h2hPath = Some (lp_entryNode (loop_at a outer)) \<and>
                         path_dest (la_graph a) h2hPath = Some (lp_entryNode (loop_at a outer))) ''pathFromEntry is not a H2H path'') (\<lambda>_.
     rbind (assert_that (h2hPath \<notin> lp_h2hSegments (loop_at a outer)) ''Duplicated h2hPath'') (\<lambda>_.
     let a = upd_loop outer (\<lambda>l. l\<lparr>lp_h2hSegments := insert h2hPath (lp_h2hSegments l)\<rparr>) a;
         a = a\<lparr>la_totalSegmentCount := la_totalSegmentCount a + 1\<rparr> in
     if la_totalSegmentCount a > la_maxSegmentCount a then Inr (False, a)
     else
       let a = upd_loop outer (\<lambda>l. l\<lparr>lp_segmentLastEdges := insert (last h2hPath) (lp_segmentLastEdges l)\<rparr>) a in
       if has_loop_edge (la_graph a) (lp_h2hEdges (loop_at a outer)) h2hPath then Inr (True, a)
       else (case newEdge (path_src (la_graph a) h2hPath) (path_dest (la_graph a) h2hPath) LOOP_H2H_EDGE (la_graph a) of (e, g) \<Rightarrow>
         Inr (True, upd_loop outer (\<lambda>l. l\<lparr>lp_h2hEdges := insert e (lp_h2hEdges l)\<rparr>) (a\<lparr>la_graph := g\<rparr>)))))))"

definition add_h2x :: "nat \<Rightarrow> nat list \<Rightarrow> nat \<Rightarrow> analyzer \<Rightarrow> (bool \<times> analyzer) res" where
  "add_h2x outer path edge a =
     rbind (appendCompressed (la_graph a) path edge True) (\<lambda>(_, h2xPath).
     rbind (assert_that (path_src (la_graph a) h2xPath = Some (lp_entryNode (loop_at a outer))) ''pathFromEntry is not from entry'') (\<lambda>_.
     rbind (assert_that (h2xPath \<notin> lp_h2xSegments (loop_at a outer)) ''Duplicated h2xPath'') (\<lambda>_.
     let a = upd_loop outer (\<lambda>l. l\<lparr>lp_h2xSegments := insert h2xPath (lp_h2xSegments l)\<rparr>) a;
         a = a\<lparr>la_totalSegmentCount := la_totalSegmentCount a + 1\<rparr> in
     if la_totalSegmentCount a > la_maxSegmentCount a then Inr (False, a)
     else
       let a = upd_loop outer (\<lambda>l. l\<lparr>lp_segmentLastEdges := insert (last h2xPath) (lp_segmentLastEdges l)\<rparr>) a in
       if has_loop_edge (la_graph a) (lp_h2xEdges (loop_at a outer)) h2xPath then Inr (True, a)
       else (case newEdge (path_src (la_graph a) h2xPath) (path_dest (la_graph a) h2xPath) LOOP_H2X_EDGE (la_graph a) of (e, g) \<Rightarrow>
         Inr (True, upd_loop outer (\<lambda>l. l\<lparr>lp_h2xEdges := insert e (lp_h2xEdges l)\<rparr>) (a\<lparr>la_graph := g\<rparr>))))))"

subsection \<open>Searching loops and segments\<close>

definition existingLoopCanBeSubloop :: "loop \<Rightarrow> nat list \<Rightarrow> bool" where
  "existingLoopCanBeSubloop l N \<longleftrightarrow> length (lp_nodes l) \<le> length N \<and> set (lp_nodes l) \<subseteq> set N"

text \<open>The edges that the search passes over at a node, where \<open>loop\<close> is the loop with this entry, if it is a subloop.\<close>

definition passes_over :: "analyzer \<Rightarrow> nat option \<Rightarrow> nat \<Rightarrow> bool" where
  "passes_over a loop e \<longleftrightarrow>
     (let x = fg_edges (la_graph a) ! e; h2x = (ed_type x = LOOP_H2X_EDGE); h2h = (ed_type x = LOOP_H2H_EDGE) in
      ed_type x = JSR_EDGE \<or> ed_type x = JSRR_EDGE \<or> ed_LIKELY_UNCOVERABLE x \<or>
      (case loop of Some l \<Rightarrow> \<not> h2x \<or> e \<notin> lp_h2xEdges (loop_at a l) | None \<Rightarrow> h2h \<or> h2x))"

text \<open>The nodes with the same root as \<open>cur\<close>; each root has to be determined.\<close>

definition scc_block :: "scc \<Rightarrow> nat option \<Rightarrow> nat list \<Rightarrow> nat list res" where
  "scc_block s r N = rfold (\<lambda>n ns. rbind (getSCCRoot s n) (\<lambda>q. Inr (if q = r then ns @ [n] else ns))) N []"

definition in_block :: "scc \<Rightarrow> nat option \<Rightarrow> bool" where
  "in_block s r \<longleftrightarrow> (case r of None \<Rightarrow> False | Some x \<Rightarrow> x \<in> sc_loopBlockRoot s)"

text \<open>The two parts of \<open>analyzeLoopDFS\<close> call it again, as \<open>dfs\<close>: the loop with \<open>cur\<close> as its entry, and one edge that leaves \<open>cur\<close>.\<close>

type_synonym loop_dfs = "nat \<Rightarrow> nat list \<Rightarrow> scc \<Rightarrow> nat \<Rightarrow> nat list \<Rightarrow> analyzer \<Rightarrow> (bool \<times> analyzer) res option"

definition dfs_loop :: "loop_dfs \<Rightarrow> nat \<Rightarrow> nat list \<Rightarrow> scc \<Rightarrow> nat \<Rightarrow> analyzer \<Rightarrow> (bool \<times> nat option \<times> analyzer) res option" where
  "dfs_loop dfs cur N s outer a = (case la_byEntry a cur of
       None \<Rightarrow> obind (Some (getSCCRoot s cur)) (\<lambda>r.
         if in_block s r then
           obind (Some (scc_block s r N)) (\<lambda>block.
           let loop = length (la_loops a);
               a = a\<lparr>la_loops := la_loops a @ [new_loop (getLabel (nd_inst (fg_nodes (la_graph a) ! cur))) cur block],
                     la_byEntry := (la_byEntry a)(cur \<mapsto> loop)\<rparr>;
               a = upd_loop outer (\<lambda>l. l\<lparr>lp_subloops := insert loop (lp_subloops l)\<rparr>) a;
               sub = filter (\<lambda>n. n \<noteq> cur) block in
           obind (Some (analysisSCC (la_graph a) sub)) (\<lambda>sub_s.
           obind (dfs cur sub sub_s loop [] (a\<lparr>la_loopHeadStack := cur # la_loopHeadStack a\<rparr>)) (\<lambda>(ok, a).
           if \<not> ok then Some (Inr (False, None, a))
           else obind (Some (assert_that (lp_h2hSegments (loop_at a loop) \<noteq> {}) ''No H2H segment found'')) (\<lambda>_.
             Some (Inr (True, Some loop, a\<lparr>la_loopHeadStack := tl (la_loopHeadStack a)\<rparr>))))))
         else Some (Inr (True, None, a)))
     | Some l \<Rightarrow>
         if l \<in> lp_subloops (loop_at a outer) then Some (Inr (True, Some l, a))
         else if existingLoopCanBeSubloop (loop_at a l) N
         then Some (Inr (True, Some l, upd_loop outer (\<lambda>x. x\<lparr>lp_subloops := insert l (lp_subloops x)\<rparr>) a))
         else Some (Inr (True, None, a)))"

definition dfs_edge :: "loop_dfs \<Rightarrow> nat list \<Rightarrow> scc \<Rightarrow> nat \<Rightarrow> nat list \<Rightarrow> nat option \<Rightarrow> nat \<Rightarrow> analyzer \<Rightarrow> (bool \<times> analyzer) res option" where
  "dfs_edge dfs N s outer path loop edge a =
     (if passes_over a loop edge then Some (Inr (True, a))
      else (case ed_to (fg_edges (la_graph a) ! edge) of
          None \<Rightarrow> Some (add_h2x outer path edge a)
        | Some w \<Rightarrow>
            if w \<in> set N then
              obind (Some (appendCompressed (la_graph a) path edge False)) (\<lambda>(_, path). dfs w N s outer path a)
            else if la_loopHeadStack a \<noteq> [] \<and> w = hd (la_loopHeadStack a) then Some (add_h2h outer path edge a)
            else Some (add_h2x outer path edge a)))"

primrec dfs_edges :: "loop_dfs \<Rightarrow> nat list \<Rightarrow> scc \<Rightarrow> nat \<Rightarrow> nat list \<Rightarrow> nat option \<Rightarrow> nat list \<Rightarrow> analyzer \<Rightarrow> (bool \<times> analyzer) res option" where
  "dfs_edges dfs N s outer path loop [] a = Some (Inr (True, a))"
| "dfs_edges dfs N s outer path loop (edge # es) a =
     obind (dfs_edge dfs N s outer path loop edge a) (\<lambda>(ok, a). if ok then dfs_edges dfs N s outer path loop es a else Some (Inr (False, a)))"

primrec analyzeLoopDFS :: "nat \<Rightarrow> loop_dfs" where
  "analyzeLoopDFS 0 cur N s outer path a = None"
| "analyzeLoopDFS (Suc fuel) cur N s outer path a =
     obind (dfs_loop (analyzeLoopDFS fuel) cur N s outer a) (\<lambda>(ok, loop, a).
     if ok then dfs_edges (analyzeLoopDFS fuel) N s outer path loop (nd_allOutEdges (fg_nodes (la_graph a) ! cur)) a
     else Some (Inr (False, a)))"

definition analyzeLoops :: "nat \<Rightarrow> nat \<Rightarrow> nat list \<Rightarrow> analyzer \<Rightarrow> (bool \<times> analyzer) res option" where
  "analyzeLoops fuel entryNode N a =
     obind (Some (analysisSCC (la_graph a) N)) (\<lambda>s.
     let container = length (la_loops a);
         a = a\<lparr>la_loops := la_loops a @ [new_loop ''(main)'' entryNode []]\<rparr> in
     obind (analyzeLoopDFS fuel entryNode N s container [] a) (\<lambda>(ret, a).
     Some (Inr (ret, if ret then a\<lparr>la_topLevelLoops := la_topLevelLoops a \<union> lp_subloops (loop_at a container)\<rparr> else a))))"

definition getAllLoops :: "analyzer \<Rightarrow> nat set" where
  "getAllLoops a = set (List.map_filter (la_byEntry a) [0..<length (fg_nodes (la_graph a))])"

subsection \<open>Invariant\<close>

definition segment_ok :: "graph \<Rightarrow> loop \<Rightarrow> nat set \<Rightarrow> nat list \<Rightarrow> bool" where
  "segment_ok g l es p \<longleftrightarrow> p \<noteq> [] \<and> set p \<subseteq> {..<length (fg_edges g)} \<and> path_src g p = Some (lp_entryNode l) \<and>
     last p \<in> lp_segmentLastEdges l \<and> has_loop_edge g es p"

definition loop_edge_ok :: "graph \<Rightarrow> loop \<Rightarrow> edge_type \<Rightarrow> nat \<Rightarrow> bool" where
  "loop_edge_ok g l t e \<longleftrightarrow> e < length (fg_edges g) \<and> ed_type (fg_edges g ! e) = t \<and> ed_from (fg_edges g ! e) = Some (lp_entryNode l)"

definition loop_ok :: "graph \<Rightarrow> loop \<Rightarrow> bool" where
  "loop_ok g l \<longleftrightarrow> finite (lp_h2hSegments l) \<and> finite (lp_h2xSegments l) \<and>
     (\<forall>p \<in> lp_h2hSegments l. segment_ok g l (lp_h2hEdges l) p \<and> path_dest g p = Some (lp_entryNode l)) \<and>
     (\<forall>p \<in> lp_h2xSegments l. segment_ok g l (lp_h2xEdges l) p) \<and>
     (\<forall>e \<in> lp_h2hEdges l. loop_edge_ok g l LOOP_H2H_EDGE e) \<and> (\<forall>e \<in> lp_h2xEdges l. loop_edge_ok g l LOOP_H2X_EDGE e)"

definition segment_count :: "loop \<Rightarrow> int" where
  "segment_count l = int (card (lp_h2hSegments l) + card (lp_h2xSegments l))"

definition analyzer_ok :: "analyzer \<Rightarrow> bool" where
  "analyzer_ok a \<longleftrightarrow> wf_graph (la_graph a) \<and> (\<forall>l \<in> set (la_loops a). loop_ok (la_graph a) l) \<and>
     (\<forall>n l. la_byEntry a n = Some l \<longrightarrow> l < length (la_loops a) \<and> lp_entryNode (loop_at a l) = n) \<and>
     la_totalSegmentCount a = (\<Sum>l\<leftarrow>la_loops a. segment_count l) \<and>
     (la_totalSegmentCount a \<le> la_maxSegmentCount a \<or> la_totalSegmentCount a = 0)"

text \<open>How a successful analysis goes on from a state.\<close>

definition continues :: "analyzer \<Rightarrow> analyzer \<Rightarrow> bool" where
  "continues a a' \<longleftrightarrow> analyzer_ok a' \<and> grows (la_graph a) (la_graph a') \<and> length (la_loops a) \<le> length (la_loops a') \<and>
     (\<forall>i < length (la_loops a). lp_entryNode (loop_at a' i) = lp_entryNode (loop_at a i))"

lemma continues_refl: "analyzer_ok a \<Longrightarrow> continues a a"
  by (simp add: continues_def grows_refl)

lemma continues_trans: "continues a b \<Longrightarrow> continues b c \<Longrightarrow> continues a c"
  unfolding continues_def using grows_trans by fastforce

lemma grows_edge:
  assumes "grows g g'" "e < length (fg_edges g)"
  shows "e < length (fg_edges g')" "ed_type (fg_edges g' ! e) = ed_type (fg_edges g ! e)" "ed_from (fg_edges g' ! e) = ed_from (fg_edges g ! e)"
    "ed_to (fg_edges g' ! e) = ed_to (fg_edges g ! e)"
proof -
  obtain xs where xs: "map edge_view (fg_edges g') = map edge_view (fg_edges g) @ xs" using assms(1) by (auto simp: grows_def)
  from arg_cong [OF xs, of length] show l: "e < length (fg_edges g')" using assms(2) by simp
  have "edge_view (fg_edges g' ! e) = map edge_view (fg_edges g') ! e" using l by simp
  also have "\<dots> = edge_view (fg_edges g ! e)" unfolding xs using assms(2) by (simp add: nth_append)
  finally show "ed_type (fg_edges g' ! e) = ed_type (fg_edges g ! e)" "ed_from (fg_edges g' ! e) = ed_from (fg_edges g ! e)"
    "ed_to (fg_edges g' ! e) = ed_to (fg_edges g ! e)" by (simp_all add: edge_view_def)
qed

lemma grows_path:
  assumes "grows g g'" "set p \<subseteq> {..<length (fg_edges g)}"
  shows "path_src g' p = path_src g p" "path_dest g' p = path_dest g p" "set p \<subseteq> {..<length (fg_edges g')}"
proof -
  have e: "e < length (fg_edges g)" if "e \<in> set p" for e using assms(2) that by auto
  show "path_src g' p = path_src g p" using grows_edge(3) [OF assms(1) e] by (cases p) (simp_all add: path_src_def)
  show "path_dest g' p = path_dest g p" using grows_edge(4) [OF assms(1) e] by (simp add: path_dest_def)
  show "set p \<subseteq> {..<length (fg_edges g')}" using grows_edge(1) [OF assms(1) e] by auto
qed

lemma loop_edge_ok_grows: "grows g g' \<Longrightarrow> loop_edge_ok g l t e \<Longrightarrow> loop_edge_ok g' l t e"
  using grows_edge [of g g' e] by (simp add: loop_edge_ok_def)

lemma segment_ok_grows:
  assumes "grows g g'" "segment_ok g l es p" "\<forall>e \<in> es. loop_edge_ok g l t e"
  shows "segment_ok g' l es p" "path_dest g' p = path_dest g p"
proof -
  have p: "set p \<subseteq> {..<length (fg_edges g)}" using assms(2) by (simp add: segment_ok_def)
  note gp = grows_path [OF assms(1) p]
  have "has_loop_edge g' es p"
  proof -
    obtain e where e: "e \<in> es" "ed_from (fg_edges g ! e) = path_src g p" "ed_to (fg_edges g ! e) = path_dest g p"
      using assms(2) by (auto simp: segment_ok_def has_loop_edge_def)
    then have "e < length (fg_edges g)" using assms(3) by (auto simp: loop_edge_ok_def)
    from grows_edge [OF assms(1) this] show ?thesis using e gp by (auto simp: has_loop_edge_def)
  qed
  then show "segment_ok g' l es p" "path_dest g' p = path_dest g p" using assms(2) gp by (simp_all add: segment_ok_def)
qed

lemma loop_ok_grows:
  assumes "grows g g'" "loop_ok g l"
  shows "loop_ok g' l"
proof -
  have h: "\<forall>e \<in> lp_h2hEdges l. loop_edge_ok g l LOOP_H2H_EDGE e" "\<forall>e \<in> lp_h2xEdges l. loop_edge_ok g l LOOP_H2X_EDGE e"
    using assms(2) by (simp_all add: loop_ok_def)
  then show ?thesis
    using assms(2) segment_ok_grows [OF assms(1) _ h(1)] segment_ok_grows [OF assms(1) _ h(2)] loop_edge_ok_grows [OF assms(1)]
    unfolding loop_ok_def by metis
qed

subsection \<open>Adding a segment\<close>

lemma appendCompressed_last:
  assumes "appendCompressed g p e True = Inr (b, q)"
  shows "q = p @ [e]"
  using assms by (simp add: appendCompressed_def)

lemma appendCompressed_set:
  assumes "appendCompressed g p e False = Inr (b, q)"
  shows "set q \<subseteq> insert e (set p)"
  using assms by (auto simp: appendCompressed_def split: if_splits)

lemma sum_list_update_int:
  assumes "i < length xs"
  shows "(\<Sum>x\<leftarrow>xs[i := y]. f x) = (\<Sum>x\<leftarrow>xs. f x) + (f y - f (xs ! i) :: int)"
  using assms by (induction xs arbitrary: i) (auto split: nat.split)

text \<open>One loop is replaced while the graph grows.\<close>

lemma analyzer_ok_update:
  assumes "analyzer_ok a" "i < length (la_loops a)" "grows (la_graph a) g" "loop_ok g l" "lp_entryNode l = lp_entryNode (loop_at a i)"
    and "t = la_totalSegmentCount a + (segment_count l - segment_count (loop_at a i))" "t \<le> la_maxSegmentCount a \<or> t = 0"
  shows "continues a (a\<lparr>la_graph := g, la_loops := (la_loops a)[i := l], la_totalSegmentCount := t\<rparr>)"
proof -
  let ?ls = "(la_loops a)[i := l]"
  have "\<forall>x \<in> set ?ls. loop_ok g x" using assms(1,3,4) loop_ok_grows set_update_subset_insert [of "la_loops a" i l] by (auto simp: analyzer_ok_def)
  moreover note sum_list_update_int [OF assms(2), of segment_count l]
  moreover have "lp_entryNode (?ls ! k) = lp_entryNode (loop_at a k)" if "k < length (la_loops a)" for k
    using assms(2,5) that by (cases "k = i") simp_all
  ultimately show ?thesis
    using assms(1,3,6,7) by (auto simp: continues_def analyzer_ok_def grows_def)
qed

lemma segment_ok_mono:
  assumes "segment_ok g l es p" "es \<subseteq> es'" "lp_entryNode l' = lp_entryNode l" "lp_segmentLastEdges l \<subseteq> lp_segmentLastEdges l'"
  shows "segment_ok g l' es' p"
  using assms by (auto simp: segment_ok_def has_loop_edge_def)

text \<open>The edge of a new segment: one that is there, or a new one.\<close>

lemma loop_edge_for:
  assumes "wf_graph g" "set p \<subseteq> {..<length (fg_edges g)}" "p \<noteq> []" "path_src g p = Some n"
    and "if has_loop_edge g es p then es' = es \<and> g' = g
         else \<exists>e. newEdge (path_src g p) (path_dest g p) t g = (e, g') \<and> es' = insert e es"
  shows "grows g g'" "has_loop_edge g' es' p" "es \<subseteq> es'" "\<And>l e. lp_entryNode l = n \<Longrightarrow> e \<in> es' \<Longrightarrow> e \<in> es \<or> loop_edge_ok g' l t e"
proof -
  have "grows g g' \<and> has_loop_edge g' es' p \<and> es \<subseteq> es' \<and> (\<forall>l e. lp_entryNode l = n \<longrightarrow> e \<in> es' \<longrightarrow> e \<in> es \<or> loop_edge_ok g' l t e)"
  proof (cases "has_loop_edge g es p")
    case True
    then show ?thesis using assms(5) grows_refl by simp
  next
    case False
    then obtain e where e: "newEdge (path_src g p) (path_dest g p) t g = (e, g')" "es' = insert e es" using assms(5) by auto
    have hl: "hd p < length (fg_edges g)" "last p < length (fg_edges g)"
      using subsetD [OF assms(2) hd_in_set [OF assms(3)]] subsetD [OF assms(2) last_in_set [OF assms(3)]] by simp_all
    have "in_graph g (path_src g p)" "in_graph g (path_dest g p)"
      using wf_edge [OF assms(1) hl(1)] wf_edge [OF assms(1) hl(2)] assms(3) by (auto simp: path_src_def path_dest_def split: list.splits)
    note n = newEdge_grows [OF e(1) this]
    have "has_loop_edge g' es' p" using n(2) e(2) grows_path(1,2) [OF n(1) assms(2)] by (auto simp: has_loop_edge_def)
    moreover have "loop_edge_ok g' l t e" if "lp_entryNode l = n" for l using n(2,3) that assms(4) by (simp add: loop_edge_ok_def)
    ultimately show ?thesis using n(1) e(2) by auto
  qed
  then show "grows g g'" "has_loop_edge g' es' p" "es \<subseteq> es'" "\<And>l e. lp_entryNode l = n \<Longrightarrow> e \<in> es' \<Longrightarrow> e \<in> es \<or> loop_edge_ok g' l t e" by blast+
qed

lemma loop_ok_extend:
  assumes "loop_ok g l" "lp_entryNode l' = lp_entryNode l" "lp_segmentLastEdges l \<subseteq> lp_segmentLastEdges l'"
    and "lp_h2hEdges l \<subseteq> lp_h2hEdges l'" "\<And>e. e \<in> lp_h2hEdges l' \<Longrightarrow> e \<in> lp_h2hEdges l \<or> loop_edge_ok g l LOOP_H2H_EDGE e"
    and "lp_h2xEdges l \<subseteq> lp_h2xEdges l'" "\<And>e. e \<in> lp_h2xEdges l' \<Longrightarrow> e \<in> lp_h2xEdges l \<or> loop_edge_ok g l LOOP_H2X_EDGE e"
    and "finite (lp_h2hSegments l')" "finite (lp_h2xSegments l')"
    and "\<And>q. q \<in> lp_h2hSegments l' \<Longrightarrow> q \<in> lp_h2hSegments l \<or> segment_ok g l' (lp_h2hEdges l') q \<and> path_dest g q = Some (lp_entryNode l)"
    and "\<And>q. q \<in> lp_h2xSegments l' \<Longrightarrow> q \<in> lp_h2xSegments l \<or> segment_ok g l' (lp_h2xEdges l') q"
  shows "loop_ok g l'"
  unfolding loop_ok_def
proof (intro conjI ballI)
  fix q assume "q \<in> lp_h2hSegments l'"
  from assms(10) [OF this] show "segment_ok g l' (lp_h2hEdges l') q" "path_dest g q = Some (lp_entryNode l')"
    using assms(1,2) segment_ok_mono [OF _ assms(4,2,3)] by (auto simp: loop_ok_def)
next
  fix q assume "q \<in> lp_h2xSegments l'"
  from assms(11) [OF this] show "segment_ok g l' (lp_h2xEdges l') q"
    using assms(1) segment_ok_mono [OF _ assms(6,2,3)] by (auto simp: loop_ok_def)
next
  fix e assume "e \<in> lp_h2hEdges l'"
  from assms(5) [OF this] show "loop_edge_ok g l' LOOP_H2H_EDGE e" using assms(1,2) by (auto simp: loop_ok_def loop_edge_ok_def)
next
  fix e assume "e \<in> lp_h2xEdges l'"
  from assms(7) [OF this] show "loop_edge_ok g l' LOOP_H2X_EDGE e" using assms(1,2) by (auto simp: loop_ok_def loop_edge_ok_def)
qed (use assms(8,9) in simp_all)

lemma add_h2h_continues:
  assumes "add_h2h outer path edge a = Inr (True, a')" "analyzer_ok a" "outer < length (la_loops a)" "set path \<subseteq> {..<length (fg_edges (la_graph a))}"
    and "edge < length (fg_edges (la_graph a))"
  shows "continues a a'"
proof -
  let ?g = "la_graph a" and ?l = "loop_at a outer" and ?p = "path @ [edge]"
  have p: "path_src ?g ?p = Some (lp_entryNode ?l)" "path_dest ?g ?p = Some (lp_entryNode ?l)" "?p \<notin> lp_h2hSegments ?l"
    "la_totalSegmentCount a + 1 \<le> la_maxSegmentCount a"
    using assms(1) by (auto simp: add_h2h_def Let_def upd_loop_def dest!: appendCompressed_last split: if_splits)
  let ?m = "\<lambda>es. ?l\<lparr>lp_h2hSegments := insert ?p (lp_h2hSegments ?l), lp_segmentLastEdges := insert edge (lp_segmentLastEdges ?l), lp_h2hEdges := es\<rparr>"
  have "\<exists>g' es'. a' = a\<lparr>la_graph := g', la_loops := (la_loops a)[outer := ?m es'], la_totalSegmentCount := la_totalSegmentCount a + 1\<rparr> \<and>
      (if has_loop_edge ?g (lp_h2hEdges ?l) ?p then es' = lp_h2hEdges ?l \<and> g' = ?g
       else \<exists>e. newEdge (path_src ?g ?p) (path_dest ?g ?p) LOOP_H2H_EDGE ?g = (e, g') \<and> es' = insert e (lp_h2hEdges ?l))"
    using assms(1,3) by (auto simp: add_h2h_def Let_def upd_loop_def dest!: appendCompressed_last split: if_splits prod.splits)
  then obtain g' es' where a': "a' = a\<lparr>la_graph := g', la_loops := (la_loops a)[outer := ?m es'], la_totalSegmentCount := la_totalSegmentCount a + 1\<rparr>"
    and e: "if has_loop_edge ?g (lp_h2hEdges ?l) ?p then es' = lp_h2hEdges ?l \<and> g' = ?g
       else \<exists>e. newEdge (path_src ?g ?p) (path_dest ?g ?p) LOOP_H2H_EDGE ?g = (e, g') \<and> es' = insert e (lp_h2hEdges ?l)" by blast
  have w: "wf_graph ?g" "loop_ok ?g ?l" using assms(2,3) by (auto simp: analyzer_ok_def)
  have sp: "set ?p \<subseteq> {..<length (fg_edges ?g)}" "?p \<noteq> []" using assms(4,5) by auto
  note f = loop_edge_for [OF w(1) sp p(1) e]
  note lg = loop_ok_grows [OF f(1) w(2)] and gp = grows_path [OF f(1) sp(1)]
  have "loop_ok g' (?m es')"
    by (rule loop_ok_extend [OF lg]) (use w(2) f(2,3) f(4) [of ?l] p sp gp in \<open>auto simp: loop_ok_def segment_ok_def\<close>)
  moreover have "segment_count (?m es') = segment_count ?l + 1" using p(3) w(2) by (simp add: segment_count_def loop_ok_def)
  ultimately show ?thesis unfolding a' by (intro analyzer_ok_update [OF assms(2,3) f(1)]) (use p(4) in simp_all)
qed

lemma add_h2x_continues:
  assumes "add_h2x outer path edge a = Inr (True, a')" "analyzer_ok a" "outer < length (la_loops a)" "set path \<subseteq> {..<length (fg_edges (la_graph a))}"
    and "edge < length (fg_edges (la_graph a))"
  shows "continues a a'"
proof -
  let ?g = "la_graph a" and ?l = "loop_at a outer" and ?p = "path @ [edge]"
  have p: "path_src ?g ?p = Some (lp_entryNode ?l)" "?p \<notin> lp_h2xSegments ?l"
    "la_totalSegmentCount a + 1 \<le> la_maxSegmentCount a"
    using assms(1) by (auto simp: add_h2x_def Let_def upd_loop_def dest!: appendCompressed_last split: if_splits)
  let ?m = "\<lambda>es. ?l\<lparr>lp_h2xSegments := insert ?p (lp_h2xSegments ?l), lp_segmentLastEdges := insert edge (lp_segmentLastEdges ?l), lp_h2xEdges := es\<rparr>"
  have "\<exists>g' es'. a' = a\<lparr>la_graph := g', la_loops := (la_loops a)[outer := ?m es'], la_totalSegmentCount := la_totalSegmentCount a + 1\<rparr> \<and>
      (if has_loop_edge ?g (lp_h2xEdges ?l) ?p then es' = lp_h2xEdges ?l \<and> g' = ?g
       else \<exists>e. newEdge (path_src ?g ?p) (path_dest ?g ?p) LOOP_H2X_EDGE ?g = (e, g') \<and> es' = insert e (lp_h2xEdges ?l))"
    using assms(1,3) by (auto simp: add_h2x_def Let_def upd_loop_def dest!: appendCompressed_last split: if_splits prod.splits)
  then obtain g' es' where a': "a' = a\<lparr>la_graph := g', la_loops := (la_loops a)[outer := ?m es'], la_totalSegmentCount := la_totalSegmentCount a + 1\<rparr>"
    and e: "if has_loop_edge ?g (lp_h2xEdges ?l) ?p then es' = lp_h2xEdges ?l \<and> g' = ?g
       else \<exists>e. newEdge (path_src ?g ?p) (path_dest ?g ?p) LOOP_H2X_EDGE ?g = (e, g') \<and> es' = insert e (lp_h2xEdges ?l)" by blast
  have w: "wf_graph ?g" "loop_ok ?g ?l" using assms(2,3) by (auto simp: analyzer_ok_def)
  have sp: "set ?p \<subseteq> {..<length (fg_edges ?g)}" "?p \<noteq> []" using assms(4,5) by auto
  note f = loop_edge_for [OF w(1) sp p(1) e]
  note lg = loop_ok_grows [OF f(1) w(2)] and gp = grows_path [OF f(1) sp(1)]
  have "loop_ok g' (?m es')"
    by (rule loop_ok_extend [OF lg]) (use w(2) f(2,3) f(4) [of ?l] p sp gp in \<open>auto simp: loop_ok_def segment_ok_def\<close>)
  moreover have "segment_count (?m es') = segment_count ?l + 1" using p(2) w(2) by (simp add: segment_count_def loop_ok_def)
  ultimately show ?thesis unfolding a' by (intro analyzer_ok_update [OF assms(2,3) f(1)]) (use p(3) in simp_all)
qed

subsection \<open>The search keeps the invariant\<close>

lemma obind_SomeInr: "obind r f = Some (Inr y) \<longleftrightarrow> (\<exists>x. r = Some (Inr x) \<and> f x = Some (Inr y))"
  by (auto simp: obind_def split: option.splits sum.splits)

lemma grows_edges_length: "grows g g' \<Longrightarrow> length (fg_edges g) \<le> length (fg_edges g')"
  using grows_edge(1) [of g g'] by (meson le_less_linear less_irrefl)

definition dfs_call :: "nat \<Rightarrow> nat list \<Rightarrow> nat \<Rightarrow> nat list \<Rightarrow> analyzer \<Rightarrow> bool" where
  "dfs_call cur N outer path a \<longleftrightarrow> analyzer_ok a \<and> outer < length (la_loops a) \<and> cur < length (fg_nodes (la_graph a)) \<and>
     set N \<subseteq> {..<length (fg_nodes (la_graph a))} \<and> set path \<subseteq> {..<length (fg_edges (la_graph a))}"

definition dfs_continues :: "loop_dfs \<Rightarrow> bool" where
  "dfs_continues dfs \<longleftrightarrow> (\<forall>cur N s outer path a a'. dfs cur N s outer path a = Some (Inr (True, a')) \<longrightarrow> dfs_call cur N outer path a \<longrightarrow> continues a a')"

lemma dfs_call_continues:
  assumes "dfs_call cur N outer path a" "continues a a'"
  shows "dfs_call cur N outer path a'"
proof -
  have "length (fg_nodes (la_graph a')) = length (fg_nodes (la_graph a))" "length (fg_edges (la_graph a)) \<le> length (fg_edges (la_graph a'))"
    using assms(2) grows_edges_length by (auto simp: continues_def grows_def)
  then show ?thesis using assms by (auto simp: dfs_call_def continues_def)
qed

text \<open>A loop gets another subloop.\<close>

lemma subloop_continues:
  assumes "analyzer_ok a" "i < length (la_loops a)"
  shows "continues a (upd_loop i (\<lambda>x. x\<lparr>lp_subloops := insert l (lp_subloops x)\<rparr>) a)"
proof -
  let ?l = "(loop_at a i)\<lparr>lp_subloops := insert l (lp_subloops (loop_at a i))\<rparr>"
  have "loop_ok (la_graph a) ?l" by (rule loop_ok_extend [of _ "loop_at a i"]) (use assms in \<open>auto simp: analyzer_ok_def loop_ok_def\<close>)
  then have "continues a (a\<lparr>la_graph := la_graph a, la_loops := (la_loops a)[i := ?l], la_totalSegmentCount := la_totalSegmentCount a\<rparr>)"
    by (intro analyzer_ok_update [OF assms grows_refl]) (use assms(1) in \<open>auto simp: analyzer_ok_def segment_count_def\<close>)
  then show ?thesis by (simp add: upd_loop_def)
qed

lemma new_loop_continues:
  assumes "analyzer_ok a"
  shows "continues a (a\<lparr>la_loops := la_loops a @ [new_loop nm cur block], la_byEntry := (la_byEntry a)(cur \<mapsto> length (la_loops a))\<rparr>)"
proof -
  have "loop_ok g (new_loop nm cur block)" "segment_count (new_loop nm cur block) = 0" "lp_entryNode (new_loop nm cur block) = cur" for g
    by (simp_all add: loop_ok_def new_loop_def segment_count_def)
  then show ?thesis using assms by (auto simp: continues_def analyzer_ok_def grows_refl nth_append less_SucI)
qed

lemma continues_stack: "continues a (b\<lparr>la_loopHeadStack := x\<rparr>) \<longleftrightarrow> continues a b" "continues (a\<lparr>la_loopHeadStack := x\<rparr>) b \<longleftrightarrow> continues a b"
  by (simp_all add: continues_def analyzer_ok_def)

lemma scc_block_subset: "scc_block s r N = Inr block \<Longrightarrow> set block \<subseteq> set N"
  unfolding scc_block_def by (drule rfold_invariant [where P = "\<lambda>ns. set ns \<subseteq> set N"]) (auto split: if_splits)

lemma dfs_loop_continues:
  assumes "dfs_continues dfs" "dfs_loop dfs cur N s outer a = Some (Inr (True, loop, a'))" "dfs_call cur N outer path a"
  shows "continues a a'"
proof (cases "la_byEntry a cur")
  case (Some l)
  have a: "analyzer_ok a" "outer < length (la_loops a)" using assms(3) by (simp_all add: dfs_call_def)
  then show ?thesis using assms(2) Some continues_refl [OF a(1)] subloop_continues [OF a] by (auto simp: dfs_loop_def split: if_splits)
next
  case None
  have a: "analyzer_ok a" "outer < length (la_loops a)" using assms(3) by (simp_all add: dfs_call_def)
  show ?thesis
  proof (cases "\<exists>r. getSCCRoot s cur = Inr r \<and> in_block s r")
    case False
    then show ?thesis using assms(2) None continues_refl [OF a(1)] by (auto simp: dfs_loop_def obind_SomeInr split: if_splits)
  next
    case True
    let ?loop = "length (la_loops a)"
    let ?sub = "\<lambda>block. filter (\<lambda>n. n \<noteq> cur) block"
    define b where "b block = a\<lparr>la_loops := la_loops a @ [new_loop (getLabel (nd_inst (fg_nodes (la_graph a) ! cur))) cur block], la_byEntry := (la_byEntry a)(cur \<mapsto> ?loop)\<rparr>" for block
    define c where "c block = (upd_loop outer (\<lambda>l. l\<lparr>lp_subloops := insert ?loop (lp_subloops l)\<rparr>) (b block))\<lparr>la_loopHeadStack := cur # la_loopHeadStack a\<rparr>" for block
    from True assms(2) None obtain r block sub_s d where
      r: "scc_block s r N = Inr block" "dfs cur (?sub block) sub_s ?loop [] (c block) = Some (Inr (True, d))" "a' = d\<lparr>la_loopHeadStack := tl (la_loopHeadStack d)\<rparr>"
      by (auto simp: dfs_loop_def obind_SomeInr Let_def b_def c_def upd_loop_def split: if_splits)
    have ab: "continues a (b block)" unfolding b_def by (rule new_loop_continues [OF a(1)])
    then have "continues (b block) (c block)" unfolding c_def continues_stack by (intro subloop_continues) (use a(2) in \<open>auto simp: continues_def\<close>)
    with ab have ac: "continues a (c block)" by (rule continues_trans)
    have "?loop < length (la_loops (c block))" by (simp add: c_def b_def upd_loop_def)
    then have "dfs_call cur (?sub block) ?loop [] (c block)"
      using dfs_call_continues [OF assms(3) ac] scc_block_subset [OF r(1)] by (auto simp: dfs_call_def)
    then have "continues (c block) d" using assms(1) r(2) by (auto simp: dfs_continues_def)
    with ac show ?thesis unfolding r(3) continues_stack by (rule continues_trans)
  qed
qed

lemma dfs_edge_continues:
  assumes "dfs_continues dfs" "dfs_edge dfs N s outer path loop edge a = Some (Inr (True, a'))" "dfs_call cur N outer path a"
    and "edge < length (fg_edges (la_graph a))"
  shows "continues a a'"
proof -
  have a: "analyzer_ok a" "outer < length (la_loops a)" "set path \<subseteq> {..<length (fg_edges (la_graph a))}" using assms(3) by (simp_all add: dfs_call_def)
  have rec: "continues a a'" if "w \<in> set N" "appendCompressed (la_graph a) path edge False = Inr (b, p)" "dfs w N s outer p a = Some (Inr (True, a'))" for w b p
  proof -
    have "dfs_call w N outer p a" using assms(3,4) that(1) appendCompressed_set [OF that(2)] by (auto simp: dfs_call_def)
    with assms(1) that(3) show ?thesis by (auto simp: dfs_continues_def)
  qed
  show ?thesis
    using assms(2) add_h2h_continues [OF _ a assms(4)] add_h2x_continues [OF _ a assms(4)] continues_refl [OF a(1)] rec
    by (auto simp: dfs_edge_def obind_SomeInr split: if_splits option.splits)
qed

lemma dfs_edges_continues:
  assumes "dfs_continues dfs" "dfs_edges dfs N s outer path loop es a = Some (Inr (True, a'))" "dfs_call cur N outer path a"
    and "set es \<subseteq> {..<length (fg_edges (la_graph a))}"
  shows "continues a a'"
  using assms(2-4)
proof (induction es arbitrary: a)
  case Nil
  then show ?case using continues_refl by (auto simp: dfs_call_def)
next
  case (Cons e es)
  from Cons.prems(1) obtain b where b: "dfs_edge dfs N s outer path loop e a = Some (Inr (True, b))" "dfs_edges dfs N s outer path loop es b = Some (Inr (True, a'))"
    by (auto simp: obind_SomeInr split: if_splits)
  have ab: "continues a b" by (rule dfs_edge_continues [OF assms(1) b(1) Cons.prems(2)]) (use Cons.prems(3) in simp)
  then have "length (fg_edges (la_graph a)) \<le> length (fg_edges (la_graph b))" using grows_edges_length by (auto simp: continues_def)
  then have "continues b a'" by (intro Cons.IH [OF b(2) dfs_call_continues [OF Cons.prems(2) ab]]) (use Cons.prems(3) in auto)
  with ab show ?case by (rule continues_trans)
qed

lemma analyzeLoopDFS_continues: "dfs_continues (analyzeLoopDFS fuel)"
proof (induction fuel)
  case 0
  show ?case by (simp add: dfs_continues_def)
next
  case (Suc fuel)
  show ?case
    unfolding dfs_continues_def
  proof (intro allI impI)
    fix cur N s outer path a a'
    assume "analyzeLoopDFS (Suc fuel) cur N s outer path a = Some (Inr (True, a'))" and c: "dfs_call cur N outer path a"
    then obtain loop b where b: "dfs_loop (analyzeLoopDFS fuel) cur N s outer a = Some (Inr (True, loop, b))"
      "dfs_edges (analyzeLoopDFS fuel) N s outer path loop (nd_allOutEdges (fg_nodes (la_graph b) ! cur)) b = Some (Inr (True, a'))"
      by (auto simp: obind_SomeInr split: if_splits)
    have ab: "continues a b" by (rule dfs_loop_continues [OF Suc.IH b(1) c])
    note cb = dfs_call_continues [OF c ab]
    then have "set (nd_allOutEdges (fg_nodes (la_graph b) ! cur)) \<subseteq> {..<length (fg_edges (la_graph b))}"
      by (auto simp: dfs_call_def analyzer_ok_def wf_graph_def node_ok_def Let_def out_of_def)
    from continues_trans [OF ab dfs_edges_continues [OF Suc.IH b(2) cb this]] show "continues a a'" .
  qed
qed

lemma LoopAnalyzer_ok: "wf_graph g \<Longrightarrow> analyzer_ok (LoopAnalyzer g m)"
  by (simp add: analyzer_ok_def LoopAnalyzer_def)

subsection \<open>A walk that does not end\<close>

lemma dfs_edges_diverges:
  assumes "find (\<lambda>e. \<not> passes_over a None e) es = Some e" "ed_to (fg_edges (la_graph a) ! e) = Some w" "w \<in> set N"
    and "isGuidingEdge (la_graph a) e = Inr b" "\<And>path. dfs w N s outer path a = None"
  shows "dfs_edges dfs N s outer path None es a = None"
  using assms(1)
proof (induction es)
  case (Cons x es)
  show ?case
  proof (cases "passes_over a None x")
    case True
    then show ?thesis using Cons by (simp add: dfs_edge_def obind_def)
  next
    case False
    then have "x = e" using Cons.prems by simp
    then show ?thesis using False assms(2-5) by (simp add: dfs_edge_def obind_def appendCompressed_def)
  qed
qed simp

text \<open>No loop is met at \<open>n\<close>: there is none with this entry and \<open>n\<close> is no entry of a block, or the loop with this entry is no subloop.\<close>

definition no_loop :: "analyzer \<Rightarrow> nat list \<Rightarrow> scc \<Rightarrow> nat \<Rightarrow> nat \<Rightarrow> bool" where
  "no_loop a N s outer n \<longleftrightarrow> (case la_byEntry a n of
       None \<Rightarrow> (case getSCCRoot s n of Inr r \<Rightarrow> \<not> in_block s r | Inl _ \<Rightarrow> False)
     | Some l \<Rightarrow> l \<notin> lp_subloops (loop_at a outer) \<and> \<not> existingLoopCanBeSubloop (loop_at a l) N)"

lemma dfs_loop_no_loop: "no_loop a N s outer n \<Longrightarrow> dfs_loop dfs n N s outer a = Some (Inr (True, None, a))"
  by (auto simp: no_loop_def dfs_loop_def obind_def split: option.splits sum.splits)

text \<open>The edge that the search follows first from \<open>n\<close> when it meets no loop there.\<close>

definition followed_edge :: "analyzer \<Rightarrow> nat \<Rightarrow> nat option" where
  "followed_edge a n = find (\<lambda>e. \<not> passes_over a None e) (nd_allOutEdges (fg_nodes (la_graph a) ! n))"

definition first_stays :: "analyzer \<Rightarrow> nat list \<Rightarrow> nat set \<Rightarrow> nat \<Rightarrow> bool" where
  "first_stays a N C n \<longleftrightarrow> (case followed_edge a n of None \<Rightarrow> False | Some e \<Rightarrow>
     (case ed_to (fg_edges (la_graph a) ! e) of None \<Rightarrow> False | Some w \<Rightarrow> w \<in> C \<and> w \<in> set N) \<and> isGuidingEdge (la_graph a) e \<in> range Inr)"

subsection \<open>Properties\<close>



definition self_program :: "(addr \<times> mem_value) list" where
  "self_program = [inst_at 0x3000 0x0FFF]"

text \<open>
  C14: where the analysis of loops does not end.  When the search meets no loop at any node of a set and the first edge that it follows from each
  of them leads back into the set, then \<open>analyzeLoopDFS\<close> on such a node runs out of every amount of fuel: the recursion is endless.  An instruction that
  branches to itself is the smallest such set, since a strongly connected component with one node does not count as a loop.
\<close>
theorem analyzeLoopDFS_diverges:
  assumes "\<forall>n \<in> C. no_loop a N s outer n \<and> first_stays a N C n" "cur \<in> C"
  shows "analyzeLoopDFS fuel cur N s outer path a = None"
  using assms(2)
proof (induction fuel arbitrary: cur path)
  case (Suc fuel)
  from assms(1) Suc.prems have "no_loop a N s outer cur" "first_stays a N C cur" by auto
  then obtain e w b where e: "followed_edge a cur = Some e" "ed_to (fg_edges (la_graph a) ! e) = Some w" "w \<in> C" "w \<in> set N"
    "isGuidingEdge (la_graph a) e = Inr b" by (auto simp: first_stays_def split: option.splits)
  have "dfs_edges (analyzeLoopDFS fuel) N s outer path None (nd_allOutEdges (fg_nodes (la_graph a) ! cur)) a = None"
    by (rule dfs_edges_diverges [OF e(1) [unfolded followed_edge_def] e(2,4,5)]) (rule Suc.IH [OF e(3)])
  then show ?case using dfs_loop_no_loop [OF \<open>no_loop a N s outer cur\<close>] by (simp add: obind_def)
qed simp

theorem analyzeLoopDFS_diverges_witness:
  "\<exists>g. FlowGraph self_program 0x3000 = Inr g \<and> (\<forall>fuel. analyzeLoops fuel 0 [0] (LoopAnalyzer g 1000) = None)"
proof -
  let ?a = "\<lambda>g. (LoopAnalyzer g 1000)\<lparr>la_loops := [new_loop ''(main)'' 0 []]\<rparr>"
  have "case FlowGraph self_program 0x3000 of Inl _ \<Rightarrow> False | Inr g \<Rightarrow> (case analysisSCC g [0] of Inl _ \<Rightarrow> False
      | Inr s \<Rightarrow> no_loop (?a g) [0] s 0 0 \<and> (case followed_edge (?a g) 0 of None \<Rightarrow> False | Some e \<Rightarrow>
          ed_to (fg_edges g ! e) = Some 0 \<and> (case isGuidingEdge g e of Inl _ \<Rightarrow> False | Inr _ \<Rightarrow> True)))"
    by code_simp
  then obtain g s where g: "FlowGraph self_program 0x3000 = Inr g" "analysisSCC g [0] = Inr s" and n: "no_loop (?a g) [0] s 0 0"
    and f: "case followed_edge (?a g) 0 of None \<Rightarrow> False | Some e \<Rightarrow>
       ed_to (fg_edges g ! e) = Some 0 \<and> (case isGuidingEdge g e of Inl _ \<Rightarrow> False | Inr _ \<Rightarrow> True)"
    by (cases "FlowGraph self_program 0x3000"; cases "analysisSCC (projr (FlowGraph self_program 0x3000)) [0]") simp_all
  from f obtain e b where e: "followed_edge (?a g) 0 = Some e" "ed_to (fg_edges g ! e) = Some 0" "isGuidingEdge g e = Inr b"
    by (auto split: option.splits sum.splits)
  have "la_graph (?a g) = g" by (simp add: LoopAnalyzer_def)
  then have "first_stays (?a g) [0] {0} 0" using e by (simp add: first_stays_def)
  with n have "\<forall>n \<in> {0}. no_loop (?a g) [0] s 0 n \<and> first_stays (?a g) [0] {0} n" by simp
  from analyzeLoopDFS_diverges [OF this] have "analyzeLoopDFS fuel 0 [0] s 0 [] (?a g) = None" for fuel by simp
  then have "analyzeLoops fuel 0 [0] (LoopAnalyzer g 1000) = None" for fuel
    using g(2) by (simp add: analyzeLoops_def obind_def LoopAnalyzer_def)
  with g(1) show ?thesis by blast
qed

end
