(* ===== verification/Klc3_Pruning.thy ===== *)
theory Klc3_Pruning
  imports Klc3_Loops Klc3_Searcher
begin

text \<open>
  The searcher that postpones states inside loops (\<open>include/klc3/Searcher/PruningSearcher.h\<close>, \<open>lib/klc3/Searcher/PruningSearcher.cpp\<close>).  It follows
  each state through the loops of the analysis, keeps the segments that no state has taken so far, and puts a state that is on no such segment
  aside.  The other states go to an inner searcher, whose operations are the arguments \<open>ipush\<close> and \<open>ifetch\<close>.

  States are changed through their pointers: \<open>view\<close> is the store.  The flow graph is shared with the coverage tracker, which may add edges to it
  between two calls, so it is an argument of \<open>push\<close>.  A set of pointers is gone through in the order of the numbers; the loops with one entry, and
  the exit edges of a loop with one target, are unique, so the order does not matter to the code.

  Shown: a round of fetching and pushing loses no state, and a state is put aside only when it is on no segment that is still uncovered.
\<close>

subsection \<open>State\<close>

record loop_info =
  li_loop :: "nat option"
  li_uncoveredH2HSegments :: "nat list set"
  li_uncoveredH2XSegments :: "nat list set"
  li_subloopEdges :: "nat set"

definition LoopInfo :: "loop list \<Rightarrow> nat \<Rightarrow> loop_info" where
  "LoopInfo ls l = \<lparr>li_loop = Some l, li_uncoveredH2HSegments = lp_h2hSegments (ls ! l), li_uncoveredH2XSegments = lp_h2xSegments (ls ! l),
     li_subloopEdges = (\<Union>k \<in> lp_subloops (ls ! l). lp_h2hEdges (ls ! k) \<union> lp_h2xEdges (ls ! k))\<rparr>"

text \<open>\<open>pn_rand\<close> is the sequence of values that \<open>std::rand\<close> returns, \<open>pn_calls\<close> the number of calls so far.\<close>

record ('p, 'q) pruning =
  pn_loops :: "loop list"
  pn_internalSearcher :: 'q
  pn_postponedStates :: "'p list"
  pn_fetchLevel :: int
  pn_topLevelLoops :: "nat set"
  pn_uncoveredLoops :: "(nat \<times> loop_info) list"
  pn_statPostponeCount :: int
  pn_statReactivateCount :: int
  pn_startedFetchingPostponedStates :: bool
  pn_rand :: "nat \<Rightarrow> nat"
  pn_calls :: nat

definition PruningSearcher :: "loop list \<Rightarrow> 'q \<Rightarrow> nat set \<Rightarrow> nat set \<Rightarrow> (nat \<Rightarrow> nat) \<Rightarrow> ('p, 'q) pruning" where
  "PruningSearcher ls internalSearcher topLevelLoops allLoops rand = \<lparr>pn_loops = ls, pn_internalSearcher = internalSearcher, pn_postponedStates = [],
     pn_fetchLevel = 1, pn_topLevelLoops = topLevelLoops, pn_uncoveredLoops = map (\<lambda>l. (l, LoopInfo ls l)) (sorted_list_of_set allLoops),
     pn_statPostponeCount = 0, pn_statReactivateCount = 0, pn_startedFetchingPostponedStates = False, pn_rand = rand, pn_calls = 0\<rparr>"

definition setLevel :: "int \<Rightarrow> ('p, 'q) pruning \<Rightarrow> ('p, 'q) pruning" where
  "setLevel level q = q\<lparr>pn_fetchLevel := level\<rparr>"

definition top_color :: "state \<Rightarrow> addr res" where
  "top_color s = (case st_colorStack s of [] \<Rightarrow> Inl (NullDeref ''colorStack.top()'') | c # _ \<Rightarrow> Inr c)"

definition layer_loop :: "loop_layer \<Rightarrow> nat res" where
  "layer_loop y = (case ll_loop y of None \<Rightarrow> Inl (NullDeref ''loop'') | Some l \<Rightarrow> Inr l)"

subsection \<open>Paths\<close>

text \<open>An edge is appended to the path of the innermost loop.\<close>

definition append_top :: "graph \<Rightarrow> loop list \<Rightarrow> nat \<Rightarrow> state \<Rightarrow> state res" where
  "append_top g ls edge s =
     (let y = last (st_loopStack s) in
      rbind (layer_loop y) (\<lambda>l.
      rbind (appendCompressed g (ll_loopPathFromEntry y) edge (edge \<in> lp_segmentLastEdges (ls ! l))) (\<lambda>(_, path).
      Inr (s\<lparr>st_loopStack := butlast (st_loopStack s) @ [y\<lparr>ll_loopPathFromEntry := path\<rparr>]\<rparr>))))"

definition appendLoopPath :: "graph \<Rightarrow> loop list \<Rightarrow> state \<Rightarrow> nat \<Rightarrow> state res" where
  "appendLoopPath g ls s onEdge =
     rbind (assert_that (st_loopStack s \<noteq> []) ''!s->loopStack.empty()'') (\<lambda>_.
     rbind (top_color s) (\<lambda>color.
     if color = ll_loopColor (last (st_loopStack s)) then
       if ed_type (fg_edges g ! onEdge) = RET_EDGE then
         (case ed_to (fg_edges g ! onEdge) of
            None \<Rightarrow> Inl (NullDeref ''to()'')
          | Some n \<Rightarrow> (case first_edge g (\<lambda>e. ed_type e = SUBROUTINE_VIRTUAL_EDGE) (nd_allInEdges (fg_nodes g ! n)) of
              None \<Rightarrow> Inl (AssertFailed ''Failed to find the SUBROUTINE_VIRTUAL_EDGE'')
            | Some edge \<Rightarrow> append_top g ls edge s))
       else append_top g ls onEdge s
     else Inr s))"

definition insideTopLoop :: "graph \<Rightarrow> loop list \<Rightarrow> state \<Rightarrow> nat \<Rightarrow> bool res" where
  "insideTopLoop g ls s onEdge =
     (let edge = fg_edges g ! onEdge; y = last (st_loopStack s) in
      rbind (top_color s) (\<lambda>color.
      if color \<noteq> ll_loopColor y then
        if ed_type edge = RET_EDGE then
          (case ed_from edge of
             None \<Rightarrow> Inl (NullDeref ''from()'')
           | Some n \<Rightarrow> let colors = nd_subroutineColors (fg_nodes g ! n) in Inr (\<not> (colors \<noteq> {} \<and> Min colors = ll_loopColor y)))
        else Inr True
      else rbind (layer_loop y) (\<lambda>l. Inr (case ed_to edge of None \<Rightarrow> False | Some n \<Rightarrow> n \<in> set (lp_nodes (ls ! l))))))"

subsection \<open>Coverage of segments\<close>

definition set_info :: "nat \<Rightarrow> loop_info \<Rightarrow> (nat \<times> loop_info) list \<Rightarrow> (nat \<times> loop_info) list" where
  "set_info l i us =
     (if li_uncoveredH2HSegments i = {} \<and> li_uncoveredH2XSegments i = {} then filter (\<lambda>(k, _). k \<noteq> l) us
      else map (\<lambda>(k, j). (k, if k = l then i else j)) us)"

definition cover_h2x :: "nat \<Rightarrow> nat list \<Rightarrow> ('p, 'q) pruning \<Rightarrow> state \<Rightarrow> ('p, 'q) pruning \<times> state" where
  "cover_h2x l path q s = (case map_of (pn_uncoveredLoops q) l of
       None \<Rightarrow> (q, s)
     | Some i \<Rightarrow>
         (q\<lparr>pn_uncoveredLoops := set_info l (i\<lparr>li_uncoveredH2XSegments := li_uncoveredH2XSegments i - {path}\<rparr>) (pn_uncoveredLoops q)\<rparr>,
          if path \<in> li_uncoveredH2XSegments i then s\<lparr>st_coveredNewSegment := True\<rparr> else s))"

definition cover_h2h :: "nat \<Rightarrow> nat list \<Rightarrow> ('p, 'q) pruning \<Rightarrow> state \<Rightarrow> ('p, 'q) pruning \<times> state" where
  "cover_h2h l path q s = (case map_of (pn_uncoveredLoops q) l of
       None \<Rightarrow> (q, s)
     | Some i \<Rightarrow>
         (q\<lparr>pn_uncoveredLoops := set_info l (i\<lparr>li_uncoveredH2HSegments := li_uncoveredH2HSegments i - {path}\<rparr>) (pn_uncoveredLoops q)\<rparr>,
          if path \<in> li_uncoveredH2HSegments i then s\<lparr>st_coveredNewSegment := True\<rparr> else s))"

text \<open>One turn of the loop that leaves the loops of the state: the exit edge of the loop is appended to the path of the loop around it.\<close>

definition update_upper :: "graph \<Rightarrow> loop list \<Rightarrow> nat \<Rightarrow> loop \<Rightarrow> state \<Rightarrow> state res" where
  "update_upper g ls onEdge exitLoop s =
     (if st_loopStack s = [] then Inr s
      else rbind (top_color s) (\<lambda>color.
        if color = ll_loopColor (last (st_loopStack s)) then
          rbind (assert_that (ll_loopPathFromEntry (last (st_loopStack s)) \<noteq> []) ''Empty upperPath'') (\<lambda>_.
          case first_edge g (\<lambda>e. ed_to e = ed_to (fg_edges g ! onEdge)) (sorted_list_of_set (lp_h2xEdges exitLoop)) of
            None \<Rightarrow> Inl (AssertFailed ''Failed to find h2xEdge of the just exited loop'')
          | Some edge \<Rightarrow> append_top g ls edge s)
        else Inr s))"

definition exit_loop :: "graph \<Rightarrow> nat \<Rightarrow> ('p, 'q) pruning \<Rightarrow> state \<Rightarrow> (('p, 'q) pruning \<times> state) res" where
  "exit_loop g onEdge q s =
     (let y = last (st_loopStack s); h2x = ll_loopPathFromEntry y in
      rbind (layer_loop y) (\<lambda>l. let exitLoop = pn_loops q ! l in
      rbind (assert_that (h2x \<in> lp_h2xSegments exitLoop) ''Unmatched recorded h2x segment'') (\<lambda>_.
      case cover_h2x l h2x q s of (q, s) \<Rightarrow>
      rbind (update_upper g (pn_loops q) onEdge exitLoop (s\<lparr>st_loopStack := butlast (st_loopStack s)\<rparr>)) (\<lambda>s. Inr (q, s)))))"

text \<open>Each turn pops a layer, so the height of the stack bounds the turns.\<close>

primrec exit_loops :: "nat \<Rightarrow> graph \<Rightarrow> nat \<Rightarrow> ('p, 'q) pruning \<Rightarrow> state \<Rightarrow> (('p, 'q) pruning \<times> state) res" where
  "exit_loops 0 g onEdge q s = Inr (q, s)"
| "exit_loops (Suc n) g onEdge q s =
     (if st_loopStack s = [] then Inr (q, s)
      else rbind (insideTopLoop g (pn_loops q) s onEdge) (\<lambda>inside.
        if inside then Inr (q, s) else rbind (exit_loop g onEdge q s) (\<lambda>(q, s). exit_loops n g onEdge q s)))"

definition testLoopExitAndUpdateH2XCoverage :: "graph \<Rightarrow> nat \<Rightarrow> ('p, 'q) pruning \<Rightarrow> state \<Rightarrow> (('p, 'q) pruning \<times> state) res" where
  "testLoopExitAndUpdateH2XCoverage g onEdge q s = exit_loops (length (st_loopStack s)) g onEdge q s"

definition findLoop :: "loop list \<Rightarrow> nat set \<Rightarrow> nat option \<Rightarrow> nat option" where
  "findLoop ls loops entryNode = find (\<lambda>l. Some (lp_entryNode (ls ! l)) = entryNode) (sorted_list_of_set loops)"

definition enterNewLoopIfAny :: "graph \<Rightarrow> ('p, 'q) pruning \<Rightarrow> state \<Rightarrow> nat \<Rightarrow> state res" where
  "enterNewLoopIfAny g q s onEdge =
     (let ls = pn_loops q; to = ed_to (fg_edges g ! onEdge) in
      rbind (if st_loopStack s = [] then Inr (findLoop ls (pn_topLevelLoops q) to)
             else rbind (top_color s) (\<lambda>color.
               if color \<noteq> ll_loopColor (last (st_loopStack s)) then Inr (findLoop ls (pn_topLevelLoops q) to)
               else rbind (layer_loop (last (st_loopStack s))) (\<lambda>l. Inr (findLoop ls (lp_subloops (ls ! l)) to)))) (\<lambda>enteringLoop.
      case enteringLoop of
        None \<Rightarrow> Inr s
      | Some l \<Rightarrow>
          rbind (top_color s) (\<lambda>color.
          rbind (assert_that (findLoop ls (lp_subloops (ls ! l)) to = None) ''Should not enter more than one loop level'') (\<lambda>_.
          Inr (s\<lparr>st_loopStack := st_loopStack s @ [\<lparr>ll_loop = Some l, ll_loopPathFromEntry = [], ll_loopColor = color\<rparr>]\<rparr>)))))"

definition testH2HAndUpdate :: "graph \<Rightarrow> nat \<Rightarrow> ('p, 'q) pruning \<Rightarrow> state \<Rightarrow> (('p, 'q) pruning \<times> state) res" where
  "testH2HAndUpdate g onEdge q s =
     (if st_loopStack s = [] then Inr (q, s)
      else let y = last (st_loopStack s); path = ll_loopPathFromEntry y in
        rbind (layer_loop y) (\<lambda>l.
        if ed_to (fg_edges g ! onEdge) = Some (lp_entryNode (pn_loops q ! l)) \<and> path \<noteq> [] then
          rbind (assert_that (path \<in> lp_h2hSegments (pn_loops q ! l)) ''Unmatched recorded h2h segment'') (\<lambda>_.
          case cover_h2h l path q s of (q, s) \<Rightarrow>
          Inr (q, s\<lparr>st_loopStack := butlast (st_loopStack s) @ [y\<lparr>ll_loopPathFromEntry := []\<rparr>]\<rparr>))
        else Inr (q, s)))"

definition isPrefix :: "nat list \<Rightarrow> nat list \<Rightarrow> nat option \<Rightarrow> bool" where
  "isPrefix path target additional =
     (if (case additional of None \<Rightarrow> length path | Some _ \<Rightarrow> length path + 1) > length target then False
      else if \<exists>i \<in> {0..<length path}. path ! i \<noteq> target ! i then False
      else (case additional of None \<Rightarrow> True | Some e \<Rightarrow> e = target ! length path))"

definition onPrefixOfUncoveredSegment :: "('p, 'q) pruning \<Rightarrow> state \<Rightarrow> bool" where
  "onPrefixOfUncoveredSegment q s \<longleftrightarrow> (\<exists>y \<in> set (st_loopStack s). case ll_loop y of None \<Rightarrow> False | Some l \<Rightarrow>
     (case map_of (pn_uncoveredLoops q) l of None \<Rightarrow> False | Some i \<Rightarrow>
        (\<exists>target \<in> li_uncoveredH2HSegments i. isPrefix (ll_loopPathFromEntry y) target None) \<or>
        (\<exists>target \<in> li_uncoveredH2XSegments i. isPrefix (ll_loopPathFromEntry y) target None)))"

subsection \<open>Pushing and fetching\<close>

text \<open>The way of one state through \<open>push\<close>; the result says whether it goes to the inner searcher.\<close>

definition follow_loops :: "graph \<Rightarrow> nat \<Rightarrow> ('p, 'q) pruning \<Rightarrow> state \<Rightarrow> (('p, 'q) pruning \<times> state) res" where
  "follow_loops g onEdge q s =
     rbind (if st_loopStack s \<noteq> [] then appendLoopPath g (pn_loops q) s onEdge else Inr s) (\<lambda>s.
     rbind (testLoopExitAndUpdateH2XCoverage g onEdge q s) (\<lambda>(q, s).
     rbind (enterNewLoopIfAny g q s onEdge) (\<lambda>s.
     testH2HAndUpdate g onEdge q s)))"

definition at_BR :: "state \<Rightarrow> bool" where
  "at_BR s \<longleftrightarrow> (case fst (st_latestNonOSInst s) of None \<Rightarrow> False | Some i \<Rightarrow> inst_id i = I_BR)"

definition decide_push :: "('p, 'q) pruning \<Rightarrow> state \<Rightarrow> bool \<times> state" where
  "decide_push q s =
     (if st_coveredNewEdge s \<or> st_coveredNewSegment s \<or> st_avoidLoopReductionPostpone s then (True, s)
      else if at_BR s then
        if st_loopStack s = [] \<or> onPrefixOfUncoveredSegment q s then (True, s\<lparr>st_avoidLoopReductionPostpone := True\<rparr>) else (False, s)
      else (True, s\<lparr>st_avoidLoopReductionPostpone := True\<rparr>))"

definition push_state :: "graph \<Rightarrow> ('p, 'q) pruning \<Rightarrow> state \<Rightarrow> (bool \<times> ('p, 'q) pruning \<times> state) res" where
  "push_state g q s =
     (if st_status s = BROKEN \<or> st_stackHasMessedUp s then Inr (True, q, s)
      else rbind (getJustCoveredEdge g s) (\<lambda>covered.
        if covered = None then Inr (True, q, s)
        else rbind (getOnEdge g s) (\<lambda>onEdge. case onEdge of
            None \<Rightarrow> Inr (True, q, s)
          | Some e \<Rightarrow> rbind (follow_loops g e q s) (\<lambda>(q, s). case decide_push q s of (go, s) \<Rightarrow> Inr (go, q, s)))))"

definition push_one :: "graph \<Rightarrow> 'p \<Rightarrow> ('p \<Rightarrow> state) \<times> ('p, 'q) pruning \<times> 'p list \<Rightarrow> (('p \<Rightarrow> state) \<times> ('p, 'q) pruning \<times> 'p list) res" where
  "push_one g p = (\<lambda>(view, q, through). rbind (push_state g q (view p)) (\<lambda>(go, q, s).
     if go then Inr (view(p := s), q, through @ [p])
     else Inr (view(p := s), q\<lparr>pn_postponedStates := pn_postponedStates q @ [p], pn_statPostponeCount := pn_statPostponeCount q + 1\<rparr>, through)))"

definition pruning_push :: "(('p \<Rightarrow> state) \<Rightarrow> 'p list \<Rightarrow> 'q \<Rightarrow> 'q) \<Rightarrow> graph \<Rightarrow> 'p list \<Rightarrow> ('p \<Rightarrow> state) \<times> ('p, 'q) pruning \<Rightarrow> (('p \<Rightarrow> state) \<times> ('p, 'q) pruning) res" where
  "pruning_push ipush g ps = (\<lambda>(view, q). rbind (rfold (push_one g) ps (view, q, [])) (\<lambda>(view, q, through).
     Inr (view, if through = [] then q else q\<lparr>pn_internalSearcher := ipush view through (pn_internalSearcher q)\<rparr>)))"

definition pruning_fetch :: "('q \<Rightarrow> 'p option \<times> 'q) \<Rightarrow> ('p \<Rightarrow> state) \<times> ('p, 'q) pruning \<Rightarrow> 'p option \<times> ('p \<Rightarrow> state) \<times> ('p, 'q) pruning" where
  "pruning_fetch ifetch = (\<lambda>(view, q). case ifetch (pn_internalSearcher q) of
       (Some p, i) \<Rightarrow> (Some p, view, q\<lparr>pn_internalSearcher := i\<rparr>)
     | (None, i) \<Rightarrow>
         let q = q\<lparr>pn_internalSearcher := i\<rparr> in
         if pn_postponedStates q = [] then (None, view, q)
         else if pn_uncoveredLoops q = [] then (None, view, q)
         else if pn_fetchLevel q \<ge> 1 then
           let k = pn_rand q (pn_calls q) mod length (pn_postponedStates q);
               ps = swap_back k (pn_postponedStates q);
               p = last ps in
           (Some p, view(p := (view p)\<lparr>st_avoidLoopReductionPostpone := True\<rparr>),
            q\<lparr>pn_startedFetchingPostponedStates := True, pn_calls := pn_calls q + 1, pn_postponedStates := butlast ps,
              pn_statReactivateCount := pn_statReactivateCount q + 1\<rparr>)
         else (None, view, q))"

definition pruning_getNormalStates :: "('q \<Rightarrow> 'p list) \<Rightarrow> ('p, 'q) pruning \<Rightarrow> 'p list" where
  "pruning_getNormalStates inormals q = inormals (pn_internalSearcher q) @ (if pn_fetchLevel q \<ge> 1 then pn_postponedStates q else [])"

definition pruning_clearCompletedStates :: "('q \<Rightarrow> 'q) \<Rightarrow> ('p, 'q) pruning \<Rightarrow> ('p, 'q) pruning" where
  "pruning_clearCompletedStates iclear q = q\<lparr>pn_internalSearcher := iclear (pn_internalSearcher q)\<rparr>"

definition pruning_eraseCompletedStates :: "('p \<Rightarrow> 'q \<Rightarrow> 'q res) \<Rightarrow> 'p \<Rightarrow> ('p, 'q) pruning \<Rightarrow> ('p, 'q) pruning res" where
  "pruning_eraseCompletedStates ierase p q = rbind (ierase p (pn_internalSearcher q)) (\<lambda>i. Inr (q\<lparr>pn_internalSearcher := i\<rparr>))"

subsection \<open>What a push may change\<close>

text \<open>Of a state, only what concerns loops; of the searcher, only the segments that are left, which become fewer.\<close>

definition without_loops :: "state \<Rightarrow> state" where
  "without_loops s = s\<lparr>st_loopStack := [], st_coveredNewSegment := False, st_avoidLoopReductionPostpone := False\<rparr>"

definition without_coverage :: "('p, 'q) pruning \<Rightarrow> ('p, 'q) pruning" where
  "without_coverage q = q\<lparr>pn_uncoveredLoops := []\<rparr>"

definition shrinks :: "('p, 'q) pruning \<Rightarrow> ('p, 'q) pruning \<Rightarrow> bool" where
  "shrinks q q' \<longleftrightarrow> (\<forall>l j. map_of (pn_uncoveredLoops q') l = Some j \<longrightarrow> (\<exists>i. map_of (pn_uncoveredLoops q) l = Some i \<and>
     li_uncoveredH2HSegments j \<subseteq> li_uncoveredH2HSegments i \<and> li_uncoveredH2XSegments j \<subseteq> li_uncoveredH2XSegments i))"

definition follows :: "('p, 'q) pruning \<times> state \<Rightarrow> ('p, 'q) pruning \<times> state \<Rightarrow> bool" where
  "follows = (\<lambda>(q, s) (q', s'). without_coverage q' = without_coverage q \<and> shrinks q q' \<and> without_loops s' = without_loops s)"

lemma shrinks_refl: "shrinks q q"
  by (simp add: shrinks_def)

lemma shrinks_trans: "shrinks a b \<Longrightarrow> shrinks b c \<Longrightarrow> shrinks a c"
  unfolding shrinks_def by (meson subset_trans)

lemma follows_refl: "follows c c"
  by (cases c) (simp add: follows_def shrinks_refl)

lemma follows_trans: "follows a b \<Longrightarrow> follows b c \<Longrightarrow> follows a c"
  by (auto simp: follows_def elim: shrinks_trans)

lemma without_loops_updates [simp]:
  "without_loops (s\<lparr>st_loopStack := ys\<rparr>) = without_loops s" "without_loops (s\<lparr>st_coveredNewSegment := c\<rparr>) = without_loops s"
  "without_loops (s\<lparr>st_avoidLoopReductionPostpone := v\<rparr>) = without_loops s"
  by (simp_all add: without_loops_def)

lemma set_info_shrinks:
  assumes "map_of us l = Some i" "li_uncoveredH2HSegments j \<subseteq> li_uncoveredH2HSegments i" "li_uncoveredH2XSegments j \<subseteq> li_uncoveredH2XSegments i"
    and "map_of (set_info l j us) k = Some j'"
  shows "\<exists>i. map_of us k = Some i \<and> li_uncoveredH2HSegments j' \<subseteq> li_uncoveredH2HSegments i \<and> li_uncoveredH2XSegments j' \<subseteq> li_uncoveredH2XSegments i"
proof -
  have "map_of (filter (\<lambda>(k, _). k \<noteq> l) us) k = (if k = l then None else map_of us k)"
    by (induction us) (auto split: if_splits)
  moreover have "map_of (map (\<lambda>(k, x). (k, if k = l then j else x)) us) k = (if k = l then map_option (\<lambda>_. j) (map_of us k) else map_of us k)"
    by (induction us) (auto split: if_splits)
  ultimately have "j' = (if k = l then j else j') \<and> (k \<noteq> l \<longrightarrow> map_of us k = Some j')"
    using assms(1,4) by (auto simp: set_info_def split: if_splits)
  then show ?thesis using assms(1-3) by (cases "k = l") auto
qed

lemma cover_only:
  "cover_h2x l p q s = (q', s') \<Longrightarrow> follows (q, s) (q', s')" "cover_h2h l p q s = (q', s') \<Longrightarrow> follows (q, s) (q', s')"
proof -
  let ?x = "\<lambda>i. i\<lparr>li_uncoveredH2XSegments := li_uncoveredH2XSegments i - {p}\<rparr>" and ?h = "\<lambda>i. i\<lparr>li_uncoveredH2HSegments := li_uncoveredH2HSegments i - {p}\<rparr>"
  have "shrinks q (q\<lparr>pn_uncoveredLoops := set_info l (?x i) (pn_uncoveredLoops q)\<rparr>)" "shrinks q (q\<lparr>pn_uncoveredLoops := set_info l (?h i) (pn_uncoveredLoops q)\<rparr>)"
    if i: "map_of (pn_uncoveredLoops q) l = Some i" for i
    unfolding shrinks_def using set_info_shrinks [OF i, of "?x i"] set_info_shrinks [OF i, of "?h i"] by (simp_all add: Diff_subset)
  then show "cover_h2x l p q s = (q', s') \<Longrightarrow> follows (q, s) (q', s')" "cover_h2h l p q s = (q', s') \<Longrightarrow> follows (q, s) (q', s')"
    unfolding cover_h2x_def cover_h2h_def follows_def by (auto simp: without_coverage_def shrinks_refl split: option.splits if_splits)
qed

lemma append_top_only: "append_top g ls e s = Inr s' \<Longrightarrow> without_loops s' = without_loops s"
  by (auto simp: append_top_def Let_def)

lemma appendLoopPath_only: "appendLoopPath g ls s e = Inr s' \<Longrightarrow> without_loops s' = without_loops s"
  by (auto simp: appendLoopPath_def dest: append_top_only split: if_splits option.splits)

lemma enterNewLoopIfAny_only: "enterNewLoopIfAny g q s e = Inr s' \<Longrightarrow> without_loops s' = without_loops s"
  by (auto simp: enterNewLoopIfAny_def Let_def split: option.splits)

lemma update_upper_only:
  assumes "update_upper g ls e l s = Inr s'"
  shows "without_loops s' = without_loops s" "length (st_loopStack s') = length (st_loopStack s)"
  using assms by (auto simp: update_upper_def append_top_def Let_def split: if_splits option.splits)

lemma exit_loop_only:
  assumes "exit_loop g e q s = Inr (q', s')"
  shows "follows (q, s) (q', s')" "length (st_loopStack s') = length (st_loopStack s) - 1"
proof -
  let ?p = "ll_loopPathFromEntry (last (st_loopStack s))"
  from assms obtain l t where t: "cover_h2x l ?p q s = (q', t)"
    "update_upper g (pn_loops q') e (pn_loops q ! l) (t\<lparr>st_loopStack := butlast (st_loopStack t)\<rparr>) = Inr s'"
    by (cases "cover_h2x (projr (layer_loop (last (st_loopStack s)))) ?p q s") (auto simp: exit_loop_def Let_def)
  have "st_loopStack t = st_loopStack s" using t(1) by (auto simp: cover_h2x_def split: option.splits)
  then show "follows (q, s) (q', s')" "length (st_loopStack s') = length (st_loopStack s) - 1"
    using cover_only(1) [OF t(1)] update_upper_only [OF t(2)] by (auto simp: follows_def)
qed

text \<open>The bound is enough: the loop stops only outside every loop or inside the innermost one.\<close>

lemma exit_loops_done:
  "exit_loops n g e q s = Inr (q', s') \<Longrightarrow> length (st_loopStack s) \<le> n \<Longrightarrow>
     st_loopStack s' = [] \<or> insideTopLoop g (pn_loops q') s' e = Inr True"
proof (induction n arbitrary: q s)
  case (Suc n)
  show ?case
  proof (cases "st_loopStack s = [] \<or> insideTopLoop g (pn_loops q) s e = Inr True")
    case False
    then obtain q1 s1 where o: "exit_loop g e q s = Inr (q1, s1)" "exit_loops n g e q1 s1 = Inr (q', s')" using Suc.prems(1) by (auto split: if_splits)
    from Suc.IH [OF o(2)] exit_loop_only(2) [OF o(1)] Suc.prems(2) show ?thesis by simp
  qed (use Suc.prems(1) in \<open>auto split: if_splits\<close>)
qed simp

lemma exit_loops_only: "exit_loops n g e q s = Inr (q', s') \<Longrightarrow> follows (q, s) (q', s')"
proof (induction n arbitrary: q s)
  case (Suc n)
  then show ?case
    by (auto simp: follows_refl split: if_splits intro: follows_trans [OF exit_loop_only(1)])
qed (simp add: follows_refl)

lemma testH2HAndUpdate_only:
  assumes "testH2HAndUpdate g e q s = Inr (q', s')"
  shows "follows (q, s) (q', s')"
proof -
  let ?p = "ll_loopPathFromEntry (last (st_loopStack s))"
  have "q' = q \<and> s' = s \<or> (\<exists>l t. cover_h2h l ?p q s = (q', t) \<and> without_loops s' = without_loops t)"
    using assms by (force simp: testH2HAndUpdate_def Let_def split: if_splits prod.splits)
  then show ?thesis using cover_only(2) follows_refl by (fastforce simp: follows_def)
qed

lemma follow_loops_only:
  assumes "follow_loops g e q s = Inr (q', s')"
  shows "follows (q, s) (q', s')"
proof -
  from assms obtain s1 q2 s2 s3 where s: "(if st_loopStack s \<noteq> [] then appendLoopPath g (pn_loops q) s e else Inr s) = Inr s1"
    "testLoopExitAndUpdateH2XCoverage g e q s1 = Inr (q2, s2)" "enterNewLoopIfAny g q2 s2 e = Inr s3" "testH2HAndUpdate g e q2 s3 = Inr (q', s')"
    by (auto simp: follow_loops_def)
  have "follows (q, s) (q, s1)" using s(1) appendLoopPath_only by (auto simp: follows_def shrinks_refl split: if_splits)
  note follows_trans [OF this exit_loops_only [OF s(2) [unfolded testLoopExitAndUpdateH2XCoverage_def]]]
  moreover have "follows (q2, s2) (q2, s3)" using enterNewLoopIfAny_only [OF s(3)] by (simp add: follows_def shrinks_refl)
  ultimately show ?thesis using testH2HAndUpdate_only [OF s(4)] follows_trans by blast
qed

text \<open>The states that may be put aside.\<close>

definition may_postpone :: "('p, 'q) pruning \<Rightarrow> state \<Rightarrow> bool" where
  "may_postpone q s \<longleftrightarrow> st_status s \<noteq> BROKEN \<and> \<not> st_stackHasMessedUp s \<and> at_BR s \<and> \<not> st_coveredNewEdge s \<and> \<not> st_coveredNewSegment s \<and>
     \<not> st_avoidLoopReductionPostpone s \<and> st_loopStack s \<noteq> [] \<and> \<not> onPrefixOfUncoveredSegment q s"

lemma onPrefix_shrinks: "shrinks q q' \<Longrightarrow> onPrefixOfUncoveredSegment q' s \<Longrightarrow> onPrefixOfUncoveredSegment q s"
  unfolding onPrefixOfUncoveredSegment_def shrinks_def by (fastforce split: option.splits)

lemma postponed_coverage [simp]:
  "onPrefixOfUncoveredSegment (q\<lparr>pn_postponedStates := ps, pn_statPostponeCount := n\<rparr>) s = onPrefixOfUncoveredSegment q s"
  "onPrefixOfUncoveredSegment (q\<lparr>pn_internalSearcher := i\<rparr>) s = onPrefixOfUncoveredSegment q s"
  by (simp_all add: onPrefixOfUncoveredSegment_def cong: option.case_cong)

lemma may_postpone_shrinks: "shrinks q q' \<Longrightarrow> may_postpone q s \<Longrightarrow> may_postpone q' s"
  using onPrefix_shrinks unfolding may_postpone_def by blast

lemma without_loops_eq:
  assumes "without_loops s' = without_loops s"
  shows "st_status s' = st_status s" "st_stackHasMessedUp s' = st_stackHasMessedUp s"
  using arg_cong [OF assms, of st_status] arg_cong [OF assms, of st_stackHasMessedUp] by (simp_all add: without_loops_def)

lemma push_state_only:
  assumes "push_state g q s = Inr (go, q', s')"
  shows "follows (q, s) (q', s')" "\<not> go \<Longrightarrow> may_postpone q' s'"
proof -
  have "q' = q \<and> s' = s \<and> go \<or> (\<exists>e t. st_status s \<noteq> BROKEN \<and> \<not> st_stackHasMessedUp s \<and> follow_loops g e q s = Inr (q', t) \<and> decide_push q' t = (go, s'))"
    using assms by (fastforce simp: push_state_def case_prod_unfold prod_eq_iff split: if_splits option.splits)
  moreover {
    fix e t assume e: "st_status s \<noteq> BROKEN" "\<not> st_stackHasMessedUp s" "follow_loops g e q s = Inr (q', t)" "decide_push q' t = (go, s')"
    note f = follow_loops_only [OF e(3)]
    have w: "without_loops s' = without_loops t" "\<not> go \<Longrightarrow> s' = t" using e(4) by (auto simp: decide_push_def split: if_splits)
    then have "follows (q, s) (q', s')" using f by (simp add: follows_def)
    moreover have "may_postpone q' s'" if "\<not> go"
      using e(1,2,4) w(2) [OF that] that f without_loops_eq [of t s] by (auto simp: follows_def may_postpone_def decide_push_def split: if_splits)
    ultimately have "follows (q, s) (q', s') \<and> (\<not> go \<longrightarrow> may_postpone q' s')" by blast
  }
  ultimately have "follows (q, s) (q', s') \<and> (\<not> go \<longrightarrow> may_postpone q' s')" using follows_refl by blast
  then show "follows (q, s) (q', s')" "\<not> go \<Longrightarrow> may_postpone q' s'" by blast+
qed

text \<open>How a number of states goes through \<open>push\<close>: \<open>go\<close> to the inner searcher, \<open>stay\<close> put aside.\<close>

definition pushed :: "'p list \<Rightarrow> ('p \<Rightarrow> state) \<times> ('p, 'q) pruning \<times> 'p list \<Rightarrow> ('p \<Rightarrow> state) \<times> ('p, 'q) pruning \<times> 'p list \<Rightarrow> 'p list \<Rightarrow> 'p list \<Rightarrow> bool" where
  "pushed ps = (\<lambda>(view, q, thr) (view', q', thr') go stay. thr' = thr @ go \<and> pn_postponedStates q' = pn_postponedStates q @ stay \<and>
     mset ps = mset go + mset stay \<and> pn_internalSearcher q' = pn_internalSearcher q \<and> shrinks q q' \<and>
     (\<forall>x. without_loops (view' x) = without_loops (view x) \<and> (x \<notin> set ps \<longrightarrow> view' x = view x)) \<and> (\<forall>x \<in> set stay. may_postpone q' (view' x)))"

lemma push_one_pushed:
  assumes "push_one g p (view, q, thr) = Inr c"
  shows "\<exists>go stay. pushed [p] (view, q, thr) c go stay"
proof -
  from assms obtain b q' s where s: "push_state g q (view p) = Inr (b, q', s)" and
    c: "c = (if b then (view(p := s), q', thr @ [p])
      else (view(p := s), q'\<lparr>pn_postponedStates := pn_postponedStates q' @ [p], pn_statPostponeCount := pn_statPostponeCount q' + 1\<rparr>, thr))"
    by (auto simp: push_one_def split: if_splits)
  note o = push_state_only [OF s]
  then have w: "without_coverage q' = without_coverage q" "shrinks q q'" "without_loops s = without_loops (view p)" by (simp_all add: follows_def)
  have q: "pn_postponedStates q' = pn_postponedStates q" "pn_internalSearcher q' = pn_internalSearcher q"
    using arg_cong [OF w(1), of pn_postponedStates] arg_cong [OF w(1), of pn_internalSearcher] by (simp_all add: without_coverage_def)
  show ?thesis
  proof (cases b)
    case True
    then have "pushed [p] (view, q, thr) c [p] []" using w q by (simp add: pushed_def c)
    then show ?thesis by blast
  next
    case False
    with o(2) have "may_postpone q' s" by simp
    then have "pushed [p] (view, q, thr) c [] [p]"
      using False w q by (simp add: pushed_def c shrinks_def may_postpone_def)
    then show ?thesis by blast
  qed
qed

lemma pushed_append:
  assumes "pushed [p] a b go stay" "pushed ps b c go' stay'" "p \<notin> set ps"
  shows "pushed (p # ps) a c (go @ go') (stay @ stay')"
proof -
  obtain va qa ta vb qb tb vc qc tc where abc: "a = (va, qa, ta)" "b = (vb, qb, tb)" "c = (vc, qc, tc)" by (metis prod_cases3)
  have "mset [p] = mset go + mset stay" using assms(1) by (simp add: pushed_def abc)
  from arg_cong [OF this, of set_mset] have s: "set stay \<subseteq> {p}" by auto
  have "may_postpone qc (vc x)" if "x \<in> set stay" for x
    using s that assms may_postpone_shrinks [of qb qc "vc x"] by (auto simp: pushed_def abc)
  then show ?thesis using assms by (auto simp: pushed_def abc elim: shrinks_trans)
qed

lemma rfold_pushed:
  "rfold (push_one g) ps a = Inr c \<Longrightarrow> distinct ps \<Longrightarrow> \<exists>go stay. pushed ps a c go stay"
proof (induction ps arbitrary: a)
  case Nil
  then show ?case by (auto simp: pushed_def shrinks_refl split: prod.splits)
next
  case (Cons p ps)
  obtain view q thr where a: "a = (view, q, thr)" by (metis prod_cases3)
  from Cons.prems(1) obtain b where b: "push_one g p a = Inr b" "rfold (push_one g) ps b = Inr c" by (auto simp: returns_def)
  from Cons.IH [OF b(2)] Cons.prems(2) obtain go' stay' where "pushed ps b c go' stay'" by auto
  moreover obtain go stay where "pushed [p] a b go stay" using push_one_pushed [OF b(1) [unfolded a]] unfolding a by blast
  ultimately show ?case using pushed_append Cons.prems(2) by fastforce
qed

subsection \<open>The contract with the inner searcher\<close>

definition all_states :: "('q \<Rightarrow> 'p list) \<Rightarrow> ('p, 'q) pruning \<Rightarrow> 'p multiset" where
  "all_states normals q = mset (normals (pn_internalSearcher q)) + mset (pn_postponedStates q)"

text \<open>The inner searcher also takes states after a fetch that has found none, and an empty push does nothing.\<close>

locale idle_searcher = searcher fetch push normals completed
  for fetch :: "'q \<Rightarrow> 'p option \<times> 'q" and push :: "('p \<Rightarrow> state) \<Rightarrow> 'p list \<Rightarrow> 'q \<Rightarrow> 'q" and normals :: "'q \<Rightarrow> 'p list" and completed :: "'q \<Rightarrow> 'p set" +
  assumes idle_normals: "fetch q = (None, q') \<Longrightarrow> distinct ps \<Longrightarrow>
      mset (normals (push view ps q')) = filter_mset (\<lambda>p. st_status (view p) = NORMAL) (mset ps)"
    and idle_completed: "fetch q = (None, q') \<Longrightarrow> completed (push view ps q') = completed q \<union> set (filter (completes view) ps)"
    and push_nothing: "push view [] q = q"
begin

text \<open>A fetch takes one state away, from the inner searcher or from those put aside.\<close>

lemma pruning_fetch_some:
  assumes "pruning_fetch fetch (view, q) = (Some p, view', q')" "distinct ps"
  shows "p \<in># all_states normals q"
    "mset (normals (push v ps (pn_internalSearcher q'))) + mset (pn_postponedStates q') =
     all_states normals q - {#p#} + filter_mset (\<lambda>x. st_status (v x) = NORMAL) (mset ps)"
    "completed (push v ps (pn_internalSearcher q')) = completed (pn_internalSearcher q) \<union> set (filter (completes v) ps)"
    "pn_uncoveredLoops q' = pn_uncoveredLoops q"
proof -
  obtain r i where r: "fetch (pn_internalSearcher q) = (r, i)" by fastforce
  have "p \<in># all_states normals q \<and> mset (normals (push v ps (pn_internalSearcher q'))) + mset (pn_postponedStates q') =
     all_states normals q - {#p#} + filter_mset (\<lambda>x. st_status (v x) = NORMAL) (mset ps) \<and>
    completed (push v ps (pn_internalSearcher q')) = completed (pn_internalSearcher q) \<union> set (filter (completes v) ps) \<and>
    pn_uncoveredLoops q' = pn_uncoveredLoops q"
  proof (cases r)
    case (Some x)
    then have q': "q' = q\<lparr>pn_internalSearcher := i\<rparr>" "x = p" using assms(1) r by (simp_all add: pruning_fetch_def)
    note f = r [unfolded Some q'(2)]
    show ?thesis using fetch_some [OF f] round_normals [OF f assms(2)] round_completed [OF f] q'(1) by (simp add: all_states_def ac_simps)
  next
    case None
    let ?k = "pn_rand q (pn_calls q) mod length (pn_postponedStates q)"
    have ne: "pn_postponedStates q \<noteq> []" and p: "p = last (swap_back ?k (pn_postponedStates q))" and i: "pn_internalSearcher q' = i" "pn_uncoveredLoops q' = pn_uncoveredLoops q"
      and pp: "pn_postponedStates q' = butlast (swap_back ?k (pn_postponedStates q))"
      using assms(1) r None by (auto simp: pruning_fetch_def Let_def split: if_splits)
    have k: "?k < length (pn_postponedStates q)" using ne by simp
    note m = swap_back_mset [OF k] and f = r [unfolded None]
    have "p \<in> set (pn_postponedStates q)" using m(2) k p by simp
    then show ?thesis using fetch_none [OF f] idle_normals [OF f assms(2)] idle_completed [OF f] m(1) p pp i by (simp add: all_states_def ac_simps)
  qed
  then show "p \<in># all_states normals q"
    "mset (normals (push v ps (pn_internalSearcher q'))) + mset (pn_postponedStates q') =
     all_states normals q - {#p#} + filter_mset (\<lambda>x. st_status (v x) = NORMAL) (mset ps)"
    "completed (push v ps (pn_internalSearcher q')) = completed (pn_internalSearcher q) \<union> set (filter (completes v) ps)"
    "pn_uncoveredLoops q' = pn_uncoveredLoops q" by blast+
qed

lemma pruning_round:
  assumes "pruning_fetch fetch (view, q) = (Some p, view', q')" "pruning_push push g ps (w, q') = Inr (w', q'')" "distinct ps"
  obtains go stay where "mset ps = mset go + mset stay"
    and "all_states normals q'' = all_states normals q - {#p#} + filter_mset (\<lambda>x. st_status (w x) = NORMAL) (mset go) + mset stay"
    and "completed (pn_internalSearcher q'') = completed (pn_internalSearcher q) \<union> {x \<in> set go. st_status (w x) \<noteq> NORMAL}"
    and "p \<in># all_states normals q" "shrinks q q''" "\<forall>x \<in> set stay. may_postpone q'' (w' x)"
    and "pn_postponedStates q'' = pn_postponedStates q' @ stay"
    and "\<forall>x. without_loops (w' x) = without_loops (w x) \<and> (x \<notin> set ps \<longrightarrow> w' x = w x)"
proof -
  from assms(2) obtain q1 go where r: "rfold (push_one g) ps (w, q', []) = Inr (w', q1, go)"
    and q'': "q'' = (if go = [] then q1 else q1\<lparr>pn_internalSearcher := push w' go (pn_internalSearcher q1)\<rparr>)" by (auto simp: pruning_push_def)
  from rfold_pushed [OF r assms(3)] obtain stay where
    m: "mset ps = mset go + mset stay" and s: "pn_postponedStates q1 = pn_postponedStates q' @ stay" "pn_internalSearcher q1 = pn_internalSearcher q'" "shrinks q' q1"
    and v: "\<forall>x. without_loops (w' x) = without_loops (w x) \<and> (x \<notin> set ps \<longrightarrow> w' x = w x)" and y: "\<forall>x \<in> set stay. may_postpone q1 (w' x)"
    by (auto simp: pushed_def)
  have st: "st_status (w' x) = st_status (w x)" for x using v without_loops_eq(1) by blast
  have "mset ps = mset (go @ stay)" using m by simp
  then have "distinct go" using assms(3) mset_eq_imp_distinct_iff distinct_append by blast
  note f = pruning_fetch_some(1,4) [OF assms(1) this] pruning_fetch_some(2,3) [where v = w', OF assms(1) this]
  have i: "pn_internalSearcher q'' = push w' go (pn_internalSearcher q')" using q'' s(2) push_nothing by simp
  show thesis
  proof (rule that [OF m])
    show "all_states normals q'' = all_states normals q - {#p#} + filter_mset (\<lambda>x. st_status (w x) = NORMAL) (mset go) + mset stay"
      using f(3) i s(1) q'' st by (simp add: all_states_def split: if_splits)
    show "completed (pn_internalSearcher q'') = completed (pn_internalSearcher q) \<union> {x \<in> set go. st_status (w x) \<noteq> NORMAL}"
      using f(4) i st by (auto simp: completes_def)
    show "p \<in># all_states normals q" by (rule f(1))
    show "shrinks q q''" using s(3) f(2) q'' by (simp add: shrinks_def)
    show "\<forall>x \<in> set stay. may_postpone q'' (w' x)" using y q'' by (simp add: may_postpone_def)
    show "pn_postponedStates q'' = pn_postponedStates q' @ stay" using s(1) q'' by simp
  qed (rule v)
qed

end

interpretation idle_fifo: idle_searcher fifo_fetch simple_push simple_getNormalStates ss_completed
  by unfold_locales (auto simp: fifo_fetch_def simple_push_eq simple_getNormalStates_def split: list.splits)

interpretation idle_filo: idle_searcher filo_fetch simple_push simple_getNormalStates ss_completed
  by unfold_locales (auto simp: filo_fetch_def simple_push_eq simple_getNormalStates_def split: if_splits)

interpretation idle_prioritized: idle_searcher prioritized_fetch prioritized_push prioritized_getNormalStates ps_completed
proof unfold_locales
  fix q q' :: "'p prioritized_searcher" and ps and view :: "'p \<Rightarrow> state"
  assume "prioritized_fetch q = (None, q')"
  then show "mset (prioritized_getNormalStates (prioritized_push view ps q')) = filter_mset (\<lambda>p. st_status (view p) = NORMAL) (mset ps)"
    unfolding split_filter_mset [of "\<lambda>p. st_status (view p) = NORMAL" "\<lambda>p. st_coveredNewEdge (view p) \<or> st_coveredNewSegment (view p)", symmetric]
    by (auto simp: prioritized_fetch_def prioritized_getNormalStates_def prioritized_push_eq ac_simps split: if_splits)
qed (auto simp: prioritized_fetch_def prioritized_push_eq split: if_splits)

subsection \<open>Properties\<close>

definition searched :: "('p, 'p prioritized_searcher) pruning \<Rightarrow> 'p list" where
  "searched q = prioritized_getNormalStates (pn_internalSearcher q) @ pn_postponedStates q"

lemma searched_mset: "all_states prioritized_getNormalStates q = mset (searched q)"
  by (simp add: all_states_def searched_def)

definition br_state :: state where
  "br_state = (let a = snd (inst_at 0x3000 0x1021); b = snd (inst_at 0x3001 0x03FE) in
     (State (\<lambda>_. None) 0x3000 0)\<lparr>st_latestInst := (Some b, Some a), st_latestNonOSInst := (Some b, Some a), st_colorStack := [0x3000]\<rparr>)"

definition demo_searcher :: "analyzer \<Rightarrow> (nat, nat prioritized_searcher) pruning" where
  "demo_searcher a = PruningSearcher (la_loops a) \<lparr>ps_s0 = [], ps_s1 = [0, 1], ps_completed = {}\<rparr> (la_topLevelLoops a) {} (\<lambda>_. 0)"

lemma case_sumE: "(case r of Inl _ \<Rightarrow> False | Inr x \<Rightarrow> P x) \<Longrightarrow> (\<And>x. r = Inr x \<Longrightarrow> P x \<Longrightarrow> thesis) \<Longrightarrow> thesis"
  by (cases r) simp_all

lemma case_optionE: "(case r of None \<Rightarrow> False | Some x \<Rightarrow> P x) \<Longrightarrow> (\<And>x. r = Some x \<Longrightarrow> P x \<Longrightarrow> thesis) \<Longrightarrow> thesis"
  by (cases r) simp_all

lemma demo_round:
  obtains g a view' q' w' q'' where "FlowGraph demo_program 0x3000 = Inr g" "analyzeLoops 12 0 [0, 1, 2] (LoopAnalyzer g 1000) = Some (Inr (True, a))"
    "pruning_fetch prioritized_fetch (\<lambda>_. br_state, demo_searcher a) = (Some 1, view', q')"
    "pruning_push prioritized_push (la_graph a) [1 :: nat, 2] (\<lambda>_. br_state, q') = Inr (w', q'')" "pn_postponedStates q' = []" "pn_postponedStates q'' = [1, 2]"
    "searched (demo_searcher a) = [0, 1]" "ps_completed (pn_internalSearcher q'') = {}" "ps_completed (pn_internalSearcher (demo_searcher a)) = {}"
proof -
  have "case FlowGraph demo_program 0x3000 of Inl _ \<Rightarrow> False | Inr g \<Rightarrow>
      (case analyzeLoops 12 0 [0, 1, 2] (LoopAnalyzer g 1000) of None \<Rightarrow> False | Some r \<Rightarrow> (case r of Inl _ \<Rightarrow> False | Inr (ok, a) \<Rightarrow> ok \<and>
      (case pruning_fetch prioritized_fetch (\<lambda>_. br_state, demo_searcher a) of (p, view', q') \<Rightarrow> p = Some 1 \<and> pn_postponedStates q' = [] \<and>
      (case pruning_push prioritized_push (la_graph a) [1 :: nat, 2] (\<lambda>_. br_state, q') of Inl _ \<Rightarrow> False | Inr (w', q'') \<Rightarrow>
         pn_postponedStates q'' = [1, 2] \<and> ps_completed (pn_internalSearcher q'') = {}))))"
    by code_simp
  then obtain g a view' q' w' q'' where *: "FlowGraph demo_program 0x3000 = Inr g" "analyzeLoops 12 0 [0, 1, 2] (LoopAnalyzer g 1000) = Some (Inr (True, a))"
    "pruning_fetch prioritized_fetch (\<lambda>_. br_state, demo_searcher a) = (Some 1, view', q')" "pn_postponedStates q' = []"
    "pruning_push prioritized_push (la_graph a) [1 :: nat, 2] (\<lambda>_. br_state, q') = Inr (w', q'')" "pn_postponedStates q'' = [1, 2]"
    "ps_completed (pn_internalSearcher q'') = {}"
    by (elim case_sumE case_optionE case_prodE conjE) simp
  show thesis
    by (rule that [OF *(1,2,3,5,4,6)]) (use *(7) in \<open>simp_all add: searched_def demo_searcher_def PruningSearcher_def prioritized_getNormalStates_def\<close>)
qed

text \<open>
  C12: a round of the pruning searcher over the searcher it is used with.  When \<open>fetch\<close> returns a state and, after it was executed, its successors
  are pushed, every state is still there except the one that was executed: it waits in the inner searcher, is put aside, or is among the completed
  ones, whatever paths the states are on.  No state is there twice.
\<close>
theorem pruning_round_keeps_states:
  assumes "pruning_fetch prioritized_fetch (view, q) = (Some p, view', q')" "pruning_push prioritized_push g ps (w, q') = Inr (w', q'')" "distinct ps"
    and "distinct (searched q)" "set ps \<inter> (set (searched q) - {p}) = {}"
  shows "set (searched q'') \<union> ps_completed (pn_internalSearcher q'') = (set (searched q) - {p}) \<union> ps_completed (pn_internalSearcher q) \<union> set ps \<and>
    distinct (searched q'')"
proof -
  obtain go stay where m: "mset ps = mset go + mset stay"
    and a: "all_states prioritized_getNormalStates q'' = all_states prioritized_getNormalStates q - {#p#} + filter_mset (\<lambda>x. st_status (w x) = NORMAL) (mset go) + mset stay"
    and c: "ps_completed (pn_internalSearcher q'') = ps_completed (pn_internalSearcher q) \<union> {x \<in> set go. st_status (w x) \<noteq> NORMAL}"
    by (rule idle_prioritized.pruning_round [OF assms(1-3)]) (rule that)
  let ?l = "remove1 p (searched q) @ filter (\<lambda>x. st_status (w x) = NORMAL) go @ stay"
  have e: "mset (searched q'') = mset ?l" using a by (simp add: searched_mset)
  have m: "mset ps = mset (go @ stay)" using m by simp
  have d: "distinct (go @ stay)" "set ps = set go \<union> set stay" using assms(3) mset_eq_imp_distinct_iff [OF m] mset_eq_setD [OF m] by simp_all
  have "set (searched q'') = set ?l" using e by (rule mset_eq_setD)
  then have "set (searched q'') \<union> ps_completed (pn_internalSearcher q'') = (set (searched q) - {p}) \<union> ps_completed (pn_internalSearcher q) \<union> set ps"
    using assms(4) c d(2) by auto
  moreover have "distinct ?l" using assms(4,5) d by auto
  then have "distinct (searched q'')" using e mset_eq_imp_distinct_iff by blast
  ultimately show ?thesis ..
qed

theorem pruning_round_keeps_states_witness:
  "\<exists>g a view' q' w' q''. pruning_fetch prioritized_fetch (\<lambda>_. br_state, demo_searcher a) = (Some 1, view', q') \<and>
     pruning_push prioritized_push g [1 :: nat, 2] (\<lambda>_. br_state, q') = Inr (w', q'') \<and> set (searched q'') = {0, 1, 2} \<and> distinct (searched q'')"
proof -
  obtain g a view' q' w' q'' where d: "pruning_fetch prioritized_fetch (\<lambda>_. br_state, demo_searcher a) = (Some 1, view', q')"
    "pruning_push prioritized_push (la_graph a) [1 :: nat, 2] (\<lambda>_. br_state, q') = Inr (w', q'')"
    and s: "searched (demo_searcher a) = [0, 1]" "ps_completed (pn_internalSearcher q'') = {}" "ps_completed (pn_internalSearcher (demo_searcher a)) = {}"
    by (rule demo_round) (rule that)
  have "set (searched q'') = {0, 1, 2} \<and> distinct (searched q'')" using pruning_round_keeps_states [OF d] s by auto
  with d show ?thesis by blast
qed

text \<open>
  C13: what is put aside.  A state that \<open>push\<close> adds to those put aside is intact, has just executed a BR inside a loop, covers no new edge and no new
  segment, was not let through before, and the path of none of its loops is the beginning of a segment that is uncovered, even after all the states of
  this push were followed.
\<close>
theorem pruning_postpones_covered:
  assumes "pruning_push prioritized_push g ps (w, q) = Inr (w', q')" "distinct ps" "p \<in> set (pn_postponedStates q')" "p \<notin> set (pn_postponedStates q)"
  shows "p \<in> set ps \<and> may_postpone q' (w' p)"
proof -
  from assms(1) obtain q1 go where r: "rfold (push_one g) ps (w, q, []) = Inr (w', q1, go)"
    and q': "q' = (if go = [] then q1 else q1\<lparr>pn_internalSearcher := prioritized_push w' go (pn_internalSearcher q1)\<rparr>)" by (auto simp: pruning_push_def)
  from rfold_pushed [OF r assms(2)] obtain stay where s: "mset ps = mset (go @ stay)" "pn_postponedStates q1 = pn_postponedStates q @ stay"
    "\<forall>x \<in> set stay. may_postpone q1 (w' x)" by (auto simp: pushed_def)
  have "p \<in> set stay" using assms(3,4) s(2) q' by (auto split: if_splits)
  then show ?thesis using s(3) mset_eq_setD [OF s(1)] q' by (auto simp: may_postpone_def)
qed

theorem pruning_postpones_covered_witness:
  "\<exists>g q w' q'. pruning_push prioritized_push g [1 :: nat, 2] (\<lambda>_. br_state, q) = Inr (w', q') \<and> pn_postponedStates q' = [1, 2] \<and> may_postpone q' (w' 1)"
proof -
  obtain a :: analyzer and q' w' q'' where d: "pruning_push prioritized_push (la_graph a) [1 :: nat, 2] (\<lambda>_. br_state, q') = Inr (w', q'')"
    "pn_postponedStates q' = []" "pn_postponedStates q'' = [1, 2]"
    by (rule demo_round) (rule that)
  have "may_postpone q'' (w' 1)" using pruning_postpones_covered [OF d(1), of 1] d(2,3) by simp
  with d show ?thesis by blast
qed

end
