(* ===== verification/Klc3_Limits.thy ===== *)
theory Klc3_Limits
  imports Klc3_State
begin

text \<open>
  The limits on the execution of a single state (\<open>lib/klc3/Verification/ExecutionLimitChecker.cpp\<close>).  The command line options are the
  fields of a record; 0 stands for no limit.  The notes attached to the issues and the callback that appends the output to the
  description are left out.
\<close>

record limits =
  SingleStateMaxStepCount :: int
  SingleStateMaxOutputLength :: int
  SingleStateMaxQueryCount :: int

text \<open>\<open>(int) lc3Out.size()\<close> keeps the low 32 bits as a signed number.\<close>

definition output_length :: "state \<Rightarrow> int" where
  "output_length s = signed_take_bit 31 (int (length (st_lc3Out s)))"

definition reach_limit :: "issue_type \<Rightarrow> issue_package \<times> state \<Rightarrow> (issue_package \<times> state) res" where
  "reach_limit t c = rbind (newStateIssue t None c) (\<lambda>(ip, s).
     rbind (assert_that (st_status s = BROKEN) ''Non-continuable error'') (\<lambda>_. Inr (ip, s)))"

definition checkLimitOnState :: "limits \<Rightarrow> issue_package \<times> state \<Rightarrow> (issue_package \<times> state) res" where
  "checkLimitOnState l = (\<lambda>(ip, s).
     if SingleStateMaxStepCount l \<noteq> 0 \<and> st_stepCount s > SingleStateMaxStepCount l then reach_limit ERR_STATE_REACH_STEP_LIMIT (ip, s)
     else if SingleStateMaxOutputLength l \<noteq> 0 \<and> output_length s > SingleStateMaxOutputLength l then reach_limit ERR_STATE_REACH_OUTPUT_LIMIT (ip, s)
     else if SingleStateMaxQueryCount l \<noteq> 0 \<and> st_solverCount s > SingleStateMaxQueryCount l then reach_limit ERR_STATE_REACH_QUERY_LIMIT (ip, s)
     else Inr (ip, s))"

subsection \<open>Specification\<close>

text \<open>The first limit that a state exceeds.\<close>

definition exceeded :: "limits \<Rightarrow> state \<Rightarrow> issue_type option" where
  "exceeded l s = map_option snd (find fst
     [(SingleStateMaxStepCount l \<noteq> 0 \<and> st_stepCount s > SingleStateMaxStepCount l, ERR_STATE_REACH_STEP_LIMIT),
      (SingleStateMaxOutputLength l \<noteq> 0 \<and> output_length s > SingleStateMaxOutputLength l, ERR_STATE_REACH_OUTPUT_LIMIT),
      (SingleStateMaxQueryCount l \<noteq> 0 \<and> st_solverCount s > SingleStateMaxQueryCount l, ERR_STATE_REACH_QUERY_LIMIT)])"

definition limit_types :: "issue_type set" where
  "limit_types = {ERR_STATE_REACH_STEP_LIMIT, ERR_STATE_REACH_OUTPUT_LIMIT, ERR_STATE_REACH_QUERY_LIMIT}"

lemma exceeded_type: "exceeded l s = Some t \<Longrightarrow> t \<in> limit_types"
  by (auto simp: exceeded_def limit_types_def split: if_splits)

lemma checkLimit_exceeded:
  "checkLimitOnState l (ip, s) = (case exceeded l s of None \<Rightarrow> Inr (ip, s) | Some t \<Rightarrow> reach_limit t (ip, s))"
  by (simp add: checkLimitOnState_def exceeded_def)

text \<open>The levels of the three types cannot be changed: the initial package has them as errors, and no other level can be set.\<close>

lemma limit_levels:
  assumes "setIssueTypeLevel ip t' l = Inr ip'" "\<forall>t \<in> limit_types. ip_level ip t = Some ERROR"
  shows "\<forall>t \<in> limit_types. ip_level ip' t = Some ERROR"
proof (cases "t' \<in> limit_types")
  case True
  then have "l = ERROR" using assms(1) by (auto simp: limit_types_def setIssueTypeLevel_def split: if_splits option.splits)
  then show ?thesis using setIssueTypeLevel_level [OF assms(1)] assms(2) by simp
next
  case False
  then show ?thesis using setIssueTypeLevel_level [OF assms(1)] assms(2) by auto
qed

lemma limit_levels_initial: "\<forall>t \<in> limit_types. ip_level IssuePackage t = Some ERROR"
  by (simp add: limit_types_def IssuePackage_def default_levels_def)

lemma reach_limit_returns:
  assumes "ip_level ip t = Some ERROR"
  shows "returns (reach_limit t (ip, s)) (\<lambda>(ip', s'). reports (ip, s) (ip', s') \<and> st_status s' = BROKEN)"
proof -
  obtain ip' s' where "newStateIssue t None (ip, s) = Inr (ip', s')" "reports (ip, s) (ip', s')" "st_status s' = BROKEN"
    using newStateIssue_total [OF assms, of None s] by (auto split: if_splits)
  then show ?thesis by (simp add: reach_limit_def)
qed

subsection \<open>Properties\<close>



end
