(* ===== verification/Klc3_Generation.thy ===== *)
theory Klc3_Generation
  imports Klee_Solver Klc3_Issue
begin

text \<open>
  Preparing the report: the concrete inputs of a test case (\<open>lib/klc3/Generation/VariableInductor.cpp\<close>) and the selection of the issues to
  report (\<open>lib/klc3/Generation/IssueFilter.cpp\<close>).

  The part of the solver that computes values of arrays (\<open>computeInitialValues\<close>) is a parameter.  It returns \<open>None\<close> for a failed query and
  otherwise the values and whether there is a solution; the vectors of bytes are read as the contents of the arrays, an \<^typ>\<open>assignment\<close>.
\<close>

type_synonym value_impl = "constraints \<Rightarrow> expr \<Rightarrow> array list \<Rightarrow> (assignment \<times> bool) option"

subsection \<open>Inducing the variables of a test case\<close>

definition getInitialValues :: "value_impl \<Rightarrow> constraints \<Rightarrow> expr \<Rightarrow> array list \<Rightarrow> assignment option" where
  "getInitialValues V cs e objects = (case V cs e objects of
       None \<Rightarrow> None
     | Some (vals, hasSolution) \<Rightarrow> if \<not> hasSolution then None else Some vals)"

definition apply_preference :: "solver_impl \<Rightarrow> expr \<Rightarrow> constraints \<Rightarrow> constraints res" where
  "apply_preference S p cs = rbind (query (mayBeTrue S cs p)) (\<lambda>compat. if compat then addConstraint cs p else Inr cs)"

definition induceVariables :: "solver_impl \<Rightarrow> value_impl \<Rightarrow> array list \<Rightarrow> expr list \<Rightarrow> constraints \<Rightarrow> assignment res" where
  "induceVariables S V arrays preferences constraints =
     rbind (rfold (apply_preference S) preferences constraints) (\<lambda>cs.
     query (Inr (getInitialValues V cs (ConstantExpr BoolWidth 0) arrays)))"

text \<open>The contract of the values: a query that has a solution succeeds and returns one.\<close>

locale value_solver = sound_solver +
  fixes V :: value_impl
  assumes initial_values: "wf_constraints cs \<Longrightarrow> \<exists>\<sigma>. sat \<sigma> cs \<Longrightarrow> \<exists>\<tau>. V cs (ConstantExpr BoolWidth 0) objects = Some (\<tau>, True) \<and> sat \<tau> cs"
begin

lemma preference_step:
  assumes "wf_constraints cs" "\<exists>\<sigma>. sat \<sigma> cs" "wf_constraint p"
  shows "returns (apply_preference S p cs) (\<lambda>cs'. wf_constraints cs' \<and> (\<exists>\<sigma>. sat \<sigma> cs') \<and>
    (\<forall>\<sigma>. sat \<sigma> cs' \<longleftrightarrow> sat \<sigma> cs \<and> (compatible cs p \<longrightarrow> eval \<sigma> p = 1)))"
proof (cases "compatible cs p")
  case True
  then obtain \<sigma> where s: "sat \<sigma> cs" "eval \<sigma> p = 1" by (auto simp: compatible_def)
  obtain cs' where cs': "addConstraint cs p = Inr cs'" using addConstraint_sat [OF assms(1,3) s] .
  note a = addConstraint_Inr [OF cs' assms(1,3)]
  have "apply_preference S p cs = Inr cs'" using True cs' by (simp add: apply_preference_def mayBeTrue_iff [OF assms(1,3)])
  then show ?thesis using a s True by auto
next
  case False
  then have "apply_preference S p cs = Inr cs" by (simp add: apply_preference_def mayBeTrue_iff [OF assms(1,3)])
  then show ?thesis using assms(1,2) False by simp
qed

end

text \<open>
  What the preferences mean: taken in their order, each is followed when it is compatible with the constraints and the preferences
  followed before it.
\<close>

fun prefers :: "(assignment \<Rightarrow> bool) \<Rightarrow> expr list \<Rightarrow> assignment \<Rightarrow> bool" where
  "prefers M [] \<tau> \<longleftrightarrow> M \<tau>"
| "prefers M (p # ps) \<tau> \<longleftrightarrow> (if \<exists>\<sigma>. M \<sigma> \<and> eval \<sigma> p = 1 then prefers (\<lambda>\<sigma>. M \<sigma> \<and> eval \<sigma> p = 1) ps \<tau> else prefers M ps \<tau>)"

lemma prefers_models: "prefers M ps \<tau> \<Longrightarrow> M \<tau>"
  by (induction ps arbitrary: M) (auto split: if_splits)

context value_solver
begin

lemma preferences_followed:
  assumes "wf_constraints cs" "\<exists>\<sigma>. sat \<sigma> cs" "\<forall>p \<in> set ps. wf_constraint p"
  shows "returns (rfold (apply_preference S) ps cs) (\<lambda>cs'. wf_constraints cs' \<and> (\<exists>\<sigma>. sat \<sigma> cs') \<and>
    (\<forall>\<sigma>. sat \<sigma> cs' \<longrightarrow> prefers (\<lambda>\<sigma>. sat \<sigma> cs) ps \<sigma>))"
  using assms
proof (induction ps arbitrary: cs)
  case (Cons p ps)
  have p: "wf_constraint p" using Cons.prems(3) by simp
  show ?case
    unfolding rfold.simps
  proof (rule returns_bindI [OF preference_step [OF Cons.prems(1,2) p]])
    fix cs'
    assume cs': "wf_constraints cs' \<and> (\<exists>\<sigma>. sat \<sigma> cs') \<and> (\<forall>\<sigma>. sat \<sigma> cs' \<longleftrightarrow> sat \<sigma> cs \<and> (compatible cs p \<longrightarrow> eval \<sigma> p = 1))"
    have ih: "returns (rfold (apply_preference S) ps cs') (\<lambda>c. wf_constraints c \<and> (\<exists>\<sigma>. sat \<sigma> c) \<and> (\<forall>\<sigma>. sat \<sigma> c \<longrightarrow> prefers (\<lambda>\<sigma>. sat \<sigma> cs') ps \<sigma>))"
      by (rule Cons.IH) (use cs' Cons.prems(3) in \<open>blast, blast, simp\<close>)
    have "(\<lambda>\<sigma>. sat \<sigma> cs') = (if compatible cs p then (\<lambda>\<sigma>. sat \<sigma> cs \<and> eval \<sigma> p = 1) else (\<lambda>\<sigma>. sat \<sigma> cs))" using cs' by auto
    then have "prefers (\<lambda>\<sigma>. sat \<sigma> cs) (p # ps) \<tau> \<longleftrightarrow> prefers (\<lambda>\<sigma>. sat \<sigma> cs') ps \<tau>" for \<tau>
      by (cases "compatible cs p") (simp_all only: prefers.simps compatible_def if_True if_False)
    then show "returns (rfold (apply_preference S) ps cs') (\<lambda>c. wf_constraints c \<and> (\<exists>\<sigma>. sat \<sigma> c) \<and> (\<forall>\<sigma>. sat \<sigma> c \<longrightarrow> prefers (\<lambda>\<sigma>. sat \<sigma> cs) (p # ps) \<sigma>))"
      using ih by simp
  qed
qed simp

lemma induced_values:
  assumes "wf_constraints cs" "\<exists>\<sigma>. sat \<sigma> cs" "\<forall>p \<in> set ps. wf_constraint p"
  shows "returns (induceVariables S V arrays ps cs) (\<lambda>\<tau>. sat \<tau> cs \<and> prefers (\<lambda>\<sigma>. sat \<sigma> cs) ps \<tau>)"
  unfolding induceVariables_def
proof (rule returns_bindI [OF preferences_followed [OF assms]])
  fix cs' assume cs': "wf_constraints cs' \<and> (\<exists>\<sigma>. sat \<sigma> cs') \<and> (\<forall>\<sigma>. sat \<sigma> cs' \<longrightarrow> prefers (\<lambda>\<sigma>. sat \<sigma> cs) ps \<sigma>)"
  then obtain \<tau> where t: "V cs' (ConstantExpr BoolWidth 0) arrays = Some (\<tau>, True)" "sat \<tau> cs'" using initial_values [of cs' arrays] by blast
  then have "prefers (\<lambda>\<sigma>. sat \<sigma> cs) ps \<tau>" using cs' by blast
  then show "returns (query (Inr (getInitialValues V cs' (ConstantExpr BoolWidth 0) arrays))) (\<lambda>\<tau>. sat \<tau> cs \<and> prefers (\<lambda>\<sigma>. sat \<sigma> cs) ps \<tau>)"
    using t(1) prefers_models by (simp add: getInitialValues_def query_def) blast
qed

end

text \<open>The solver that picks some satisfying assignment.\<close>

definition reference_values :: value_impl where
  "reference_values cs e objects = (if \<exists>\<sigma>. sat \<sigma> cs then Some (SOME \<sigma>. sat \<sigma> cs, True) else Some (\<lambda>_ _. 0, False))"

interpretation ref_values: value_solver reference_solver reference_values
proof unfold_locales
  fix cs :: constraints and objects :: "array list"
  assume sat: "\<exists>\<sigma>. sat \<sigma> cs"
  then have "sat (SOME \<sigma>. sat \<sigma> cs) cs" by (rule someI_ex)
  with sat show "\<exists>\<tau>. reference_values cs (ConstantExpr BoolWidth 0) objects = Some (\<tau>, True) \<and> sat \<tau> cs"
    by (simp add: reference_values_def)
qed

subsection \<open>Filtering issues\<close>

definition least_step :: "issue_info list \<Rightarrow> issue_info list" where
  "least_step infos = (if infos = [] then [] else [hd (sort_key ii_stepCount infos)])"

definition filterIssues :: "issue_package \<Rightarrow> issue_package" where
  "filterIssues ip = ip\<lparr>ip_issues := (\<lambda>k. map_option least_step (ip_issues ip k))\<rparr>"

lemma least_step_correct:
  assumes "infos \<noteq> []"
  shows "\<exists>i \<in> set infos. least_step infos = [i] \<and> (\<forall>j \<in> set infos. ii_stepCount i \<le> ii_stepCount j)"
proof -
  obtain i js where i: "sort_key ii_stepCount infos = i # js" using assms by (metis neq_Nil_conv set_empty set_sort)
  have s: "set (i # js) = set infos" unfolding i [symmetric] by simp
  have "sorted (map ii_stepCount (i # js))" unfolding i [symmetric] by simp
  then have "\<forall>j \<in> set infos. ii_stepCount i \<le> ii_stepCount j" unfolding s [symmetric] by auto
  moreover have "i \<in> set infos" using s by auto
  ultimately show ?thesis using assms by (simp add: least_step_def i)
qed

subsection \<open>Properties\<close>



end
