(* ===== verification/Klc3_Commands.thy ===== *)
theory Klc3_Commands
  imports Klc3_CrossChecker
begin

text \<open>
  The klc3 commands in the comments of an assembly file (\<open>include/klc3/Loader/Loader.h\<close>, \<open>lib/klc3/Loader/Loader.cpp\<close>): symbolic variables, constraints
  on them, issues and checks.

  \<open>loader\<close> has the fields of \<open>KLC3Loader\<close> and \<open>lexer\<close> adds those of its \<open>Lexer\<close>, which works on references to the former.  The list of input files
  with their variables, which only the report reads, is left out except for whether the current file is one; \<open>lx_file\<close> is the file name as it goes
  into source contexts.  \<open>reportKLC3ErrExit\<close> is \<open>ProgExit\<close>; an exception of the standard library ends the run as well, since KLEE is built without
  exceptions.  A null constraint is \<open>None\<close>.

  Shown: a symbol stands for its array cells in memory, and the constraint that is built from a line means what the line says.
\<close>

unbundle bit_operations_syntax

subsection \<open>State\<close>

record symbol_info =
  si_name :: string
  si_size :: "16 word"
  si_startAddr :: addr
  si_array :: array

record loader =
  ld_symbols :: "string \<Rightarrow> symbol_info option"
  ld_mem :: "addr \<Rightarrow> mem_value option"
  ld_constraints :: "expr option list"
  ld_preferences :: "expr list"
  ld_initPC :: addr
  ld_loadedPrograms :: "string list"
  ld_issuePackage :: issue_package
  ld_crossChecker :: "check_lists option"
  ld_ignoreKLC3Extension :: bool

datatype op_code =
    OP_NONE | OP_ADD | OP_AND | OP_BR | OP_JMP | OP_JSR | OP_JSRR | OP_LD | OP_LDI | OP_LDR | OP_LEA | OP_NOT | OP_RTI | OP_ST | OP_STI | OP_STR | OP_TRAP
  | OP_GETC | OP_HALT | OP_IN | OP_OUT | OP_PUTS | OP_PUTSP | OP_FILL | OP_RET | OP_STRINGZ | OP_BLKW | OP_END | OP_ORIG

record lexer = loader +
  lx_allowInputFile :: bool
  lx_collectCompileIssues :: bool
  lx_file :: string
  lx_loadingLC3OS :: bool
  lx_dataDefaultReadOnly :: bool
  lx_dataDefaultUninitialized :: bool
  lx_loadingInputFile :: bool
  lx_lc3Symbols :: "string \<Rightarrow> int option"
  lx_lc3LabelStrings :: "addr \<Rightarrow> string list option"
  lx_curLineContent :: string
  lx_curPass :: nat
  lx_curLine :: int
  lx_errCount :: int
  lx_sawORIG :: nat
  lx_sawEND :: bool
  lx_sawKLC3Command :: bool
  lx_curAddr :: int
  lx_fileStartAddr :: addr
  lx_op :: op_code
  lx_ccode :: "16 word"
  lx_charPreferenceLowerBound :: int

text \<open>The constructors; \<open>initPC\<close> and \<open>fileStartAddr\<close> are members that are not initialized, with whatever value is there.\<close>

definition KLC3Loader :: "issue_package \<Rightarrow> check_lists option \<Rightarrow> bool \<Rightarrow> addr \<Rightarrow> loader" where
  "KLC3Loader issuePackage crossChecker ignoreKLC3Extension junk = \<lparr>ld_symbols = Map.empty, ld_mem = Map.empty, ld_constraints = [], ld_preferences = [],
     ld_initPC = junk, ld_loadedPrograms = [], ld_issuePackage = issuePackage, ld_crossChecker = crossChecker,
     ld_ignoreKLC3Extension = ignoreKLC3Extension\<rparr>"

definition Lexer :: "loader \<Rightarrow> bool \<Rightarrow> addr \<Rightarrow> lexer" where
  "Lexer l allowInputFile junk = loader.extend l (lexer.fields allowInputFile False [] False False False False Map.empty Map.empty [] 0 0 0 0 False False 0
     junk OP_NONE 0 0x41)"

definition reportKLC3ErrExit :: "string \<Rightarrow> 'a res" where
  "reportKLC3ErrExit msg = Inl (ProgExit msg)"

subsection \<open>Strings\<close>

text \<open>\<open>getline\<close> up to the delimiter: nothing is read after a delimiter at the end.\<close>

function splitString :: "string \<Rightarrow> char \<Rightarrow> string list" where
  "splitString s d = (if s = [] then [] else takeWhile (\<lambda>c. c \<noteq> d) s # splitString (drop (Suc (length (takeWhile (\<lambda>c. c \<noteq> d) s))) s) d)"
  by pat_completeness auto
termination by (relation "measure (\<lambda>(s, d). length s)") auto

declare splitString.simps [simp del]

definition matchStartAndTrim :: "string \<Rightarrow> string \<Rightarrow> string option" where
  "matchStartAndTrim s pfx = (if startswith s pfx then Some (strip (drop (length pfx) s)) else None)"

definition extractNextField :: "string \<Rightarrow> (string \<times> string) option" where
  "extractNextField s = (if s = [] then None
     else let field = takeWhile (\<lambda>c. c \<noteq> CHR '' '') s in Some (field, strip (drop (length field) s)))"

text \<open>The second component is the rest; a string without its closing quotation mark loses the opening one.\<close>

definition extractNextString :: "string \<Rightarrow> string option \<times> string" where
  "extractNextString s = (case s of
       [] \<Rightarrow> (None, s)
     | c # r \<Rightarrow> if c \<noteq> CHR 0x22 then (None, s)
         else if CHR 0x22 \<notin> set r then (None, r)
         else let str = takeWhile (\<lambda>c. c \<noteq> CHR 0x22) r in (Some str, strip (drop (Suc (length str)) r)))"

subsection \<open>Numbers\<close>

definition digit_value :: "char \<Rightarrow> int option" where
  "digit_value c = (let n = int (of_char c) in
     if 48 \<le> n \<and> n \<le> 57 then Some (n - 48) else if 65 \<le> n \<and> n \<le> 70 then Some (n - 55) else if 97 \<le> n \<and> n \<le> 102 then Some (n - 87) else None)"

definition is_digit :: "int \<Rightarrow> char \<Rightarrow> bool" where
  "is_digit base c \<longleftrightarrow> (case digit_value c of None \<Rightarrow> False | Some d \<Rightarrow> d < base)"

definition digits :: "int \<Rightarrow> string \<Rightarrow> int" where
  "digits base s = foldl (\<lambda>v c. v * base + (case digit_value c of None \<Rightarrow> 0 | Some d \<Rightarrow> d)) 0 s"

text \<open>\<open>strtol\<close> for a 64-bit \<open>long\<close>: white space, a sign, \<open>0x\<close> before hexadecimal digits, and digits; the value is saturated and the rest is returned.\<close>

definition strtol :: "int \<Rightarrow> string \<Rightarrow> int \<times> string" where
  "strtol base s =
     (let t = dropWhile isspace s;
          minus = (t \<noteq> [] \<and> hd t = CHR ''-'');
          u = (if t \<noteq> [] \<and> (hd t = CHR ''-'' \<or> hd t = CHR ''+'') then tl t else t);
          w = (case u of c # x # h # _ \<Rightarrow> if base = 16 \<and> c = CHR ''0'' \<and> (x = CHR ''x'' \<or> x = CHR ''X'') \<and> is_digit 16 h then drop 2 u else u | _ \<Rightarrow> u);
          ds = takeWhile (is_digit base) w in
      if ds = [] then (0, s)
      else let v = digits base ds in
        (if minus then max (- (2 ^ 63)) (- v) else min (2 ^ 63 - 1) v, drop (length ds) w))"

definition processInteger :: "string \<Rightarrow> 16 word res" where
  "processInteger s = (case s of
       [] \<Rightarrow> reportKLC3ErrExit ''Invalid integer''
     | c # r \<Rightarrow>
         if c = CHR ''x'' then
           (case strtol 16 r of (v, rest) \<Rightarrow> if rest \<noteq> [] then reportKLC3ErrExit ''Invalid integer'' else Inr (word_of_int v))
         else if c = CHR ''#'' then
           (case strtol 10 r of (v, rest) \<Rightarrow> if rest \<noteq> [] then reportKLC3ErrExit ''Invalid integer'' else Inr (word_of_int v))
         else reportKLC3ErrExit ''Invalid integer'')"

text \<open>\<open>std::stoi\<close> throws for a text that does not start with a number, and for a number that does not fit an \<open>int\<close>.\<close>

definition stoi :: "string \<Rightarrow> int res" where
  "stoi s = (case strtol 10 s of (v, rest) \<Rightarrow>
     if rest = s then Inl (ProgExit ''std::invalid_argument'')
     else if v < - (2 ^ 31) \<or> 2 ^ 31 \<le> v then Inl (ProgExit ''std::out_of_range'')
     else Inr v)"

definition splitNameAndSubscript :: "string \<Rightarrow> (string \<times> 16 word) res" where
  "splitNameAndSubscript s =
     (let idx = length (takeWhile (\<lambda>c. c \<noteq> CHR ''['') s) in
      rbind (assert_that (idx < length s) ''No subscript'') (\<lambda>_.
      rbind (stoi (take (length s - idx - 2) (drop (Suc idx) s))) (\<lambda>n. Inr (take idx s, word_of_int n))))"

definition with_subscript :: "string \<Rightarrow> string \<Rightarrow> string" where
  "with_subscript s deflt = (if endswith s '']'' then s else s @ deflt)"

subsection \<open>Symbolic variables\<close>

definition CreateArray :: "string \<Rightarrow> 16 word \<Rightarrow> array" where
  "CreateArray name sz = \<lparr>arr_name = name, arr_size = unat sz, arr_domain = Int16, arr_range = Int16\<rparr>"

definition symbol_cell :: "array \<Rightarrow> nat \<Rightarrow> expr" where
  "symbol_cell a offset = Read_create a (ConstantExpr_alloc (int offset) Int16)"

text \<open>\<open>emplace\<close> does not replace a value that is there.\<close>

definition define_cell :: "symbol_info \<Rightarrow> bool \<Rightarrow> bool \<Rightarrow> nat \<Rightarrow> (addr \<Rightarrow> mem_value option) \<Rightarrow> (addr \<Rightarrow> mem_value option) res" where
  "define_cell si forRead forWrite offset mem =
     (let a = si_startAddr si + word_of_nat offset in
      case mem a of
        Some v \<Rightarrow>
          if mv_type v = MEM_INST then reportKLC3ErrExit ''Symbolic variable is overwriting instruction''
          else (case mv_e v of
              None \<Rightarrow> Inl (NullDeref ''originalValue->e'')
            | Some e \<Rightarrow> if is_ReadExpr e then reportKLC3ErrExit ''Redefining symbol on at address'' else Inr mem)
      | None \<Rightarrow> Inr (mem(a \<mapsto> DataValue_alloc a (Some (symbol_cell (si_array si) offset)) forRead forWrite)))"

definition defineMemSymbol :: "string \<Rightarrow> bool \<Rightarrow> bool \<Rightarrow> lexer \<Rightarrow> (symbol_info \<times> lexer) res" where
  "defineMemSymbol nameAndSize forRead forWrite L =
     (let start = word_of_int (lx_curAddr L) in
      rbind (splitNameAndSubscript (with_subscript nameAndSize ''[1]'')) (\<lambda>(name, sz).
      if ld_symbols L name \<noteq> None then reportKLC3ErrExit ''Symbolic variable name is not unique''
      else
        let si = \<lparr>si_name = name, si_size = sz, si_startAddr = start, si_array = CreateArray name sz\<rparr> in
        rbind (rfold (define_cell si forRead forWrite) [0..<unat sz] (ld_mem L)) (\<lambda>mem.
        Inr (si, L\<lparr>ld_symbols := (ld_symbols L)(name \<mapsto> si), ld_mem := mem\<rparr>))))"

subsection \<open>Constraints\<close>

definition cell_expr :: "lexer \<Rightarrow> addr \<Rightarrow> expr option res" where
  "cell_expr L a = (case ld_mem L a of None \<Rightarrow> Inl (NullDeref ''mem[]'') | Some v \<Rightarrow> Inr (mv_e v))"

definition constructSingleConstraint :: "lexer \<Rightarrow> symbol_info \<Rightarrow> 16 word \<Rightarrow> string \<Rightarrow> string \<Rightarrow> expr res" where
  "constructSingleConstraint L si index opStr valStr =
     rbind (cell_expr L (si_startAddr si + index)) (\<lambda>left.
     rbind (processInteger valStr) (\<lambda>v. let right = buildConstant v in
     case left of
       None \<Rightarrow> Inl (AssertFailed ''Invalid left expression retrieved'')
     | Some left \<Rightarrow>
         rbind (assert_that (is_ReadExpr left) ''Invalid left expression retrieved'') (\<lambda>_.
         if opStr = ''=='' then Inr (builder_binary Eq left right)
         else if opStr = ''!='' then Inr (createIsZero (builder_binary Eq left right))
         else if opStr = ''<'' then Inr (builder_binary Slt left right)
         else if opStr = ''<='' then Inr (builder_binary Sle left right)
         else if opStr = ''>'' then Inr (builder_binary Slt right left)
         else if opStr = ''>='' then Inr (builder_binary Sle right left)
         else reportKLC3ErrExit ''Unknown symbolic variable relationship'')))"

definition find_symbol_cell :: "lexer \<Rightarrow> string \<Rightarrow> (symbol_info \<times> 16 word) res" where
  "find_symbol_cell L s =
     rbind (splitNameAndSubscript (with_subscript s ''[0]'')) (\<lambda>(name, index).
     case ld_symbols L name of
       None \<Rightarrow> reportKLC3ErrExit ''Unknown symbol''
     | Some si \<Rightarrow> if unat index \<ge> arr_size (si_array si) then reportKLC3ErrExit ''out of range'' else Inr (si, index))"

definition processSingleConstraint :: "lexer \<Rightarrow> string list \<Rightarrow> expr res" where
  "processSingleConstraint L fs = (case fs of
       [nameAndIndex, opStr, valStr] \<Rightarrow>
         rbind (find_symbol_cell L nameAndIndex) (\<lambda>(si, index). constructSingleConstraint L si index opStr valStr)
     | _ \<Rightarrow> reportKLC3ErrExit ''Invalid line in var file'')"

text \<open>The operand of \<open>builder->And\<close> and \<open>builder->Or\<close> is null when a part of the line is empty.\<close>

definition join_constraint :: "kind \<Rightarrow> expr option \<Rightarrow> expr option \<Rightarrow> expr option res" where
  "join_constraint k acc c = (case acc of
       None \<Rightarrow> Inr c
     | Some a \<Rightarrow> (case c of None \<Rightarrow> Inl (NullDeref ''RHS'') | Some c \<Rightarrow> Inr (Some (builder_binary k a c))))"

definition and_constraint :: "lexer \<Rightarrow> string \<Rightarrow> expr option res" where
  "and_constraint L orToken = rfold (\<lambda>andToken acc.
     rbind (processSingleConstraint L (splitString (strip andToken) (CHR '' ''))) (\<lambda>c. join_constraint And acc (Some c)))
     (splitString (strip orToken) (CHR ''&'')) None"

definition processNumericalConstraint :: "string \<Rightarrow> lexer \<Rightarrow> lexer res" where
  "processNumericalConstraint line L =
     rbind (rfold (\<lambda>orToken acc. rbind (and_constraint L orToken) (\<lambda>c. join_constraint Or acc c)) (splitString line (CHR ''|'')) None) (\<lambda>c.
     Inr (L\<lparr>ld_constraints := ld_constraints L @ [c]\<rparr>))"

definition string_cell :: "lexer \<Rightarrow> symbol_info \<Rightarrow> nat \<Rightarrow> expr res" where
  "string_cell L si index = rbind (cell_expr L (si_startAddr si + word_of_nat index)) (\<lambda>e.
     case e of None \<Rightarrow> Inl (NullDeref ''e'') | Some e \<Rightarrow> Inr e)"

definition printable :: "bool \<Rightarrow> expr \<Rightarrow> expr" where
  "printable variableLength entry =
     (let upper = builder_binary Sle entry (buildConstant 0x7E);
          lower = builder_binary Sle (buildConstant 0x20) entry;
          constraint = builder_binary And upper lower in
      if variableLength then builder_binary Or constraint (builder_binary Eq entry (buildConstant 0)) else constraint)"

definition preferred :: "int \<Rightarrow> expr \<Rightarrow> expr" where
  "preferred lowerBound entry = builder_binary And (builder_binary Sle (buildConstant (word_of_int lowerBound)) entry) (builder_binary Sle entry (buildConstant 0x5A))"

definition constrain_char :: "symbol_info \<Rightarrow> bool \<Rightarrow> nat \<Rightarrow> lexer \<Rightarrow> lexer res" where
  "constrain_char si variableLength index L = rbind (string_cell L si index) (\<lambda>entry.
     Inr (L\<lparr>ld_constraints := ld_constraints L @ [Some (printable variableLength entry)],
            ld_preferences := ld_preferences L @ [preferred (lx_charPreferenceLowerBound L) entry]\<rparr>))"

definition addConstraintOfString :: "symbol_info \<Rightarrow> bool \<Rightarrow> lexer \<Rightarrow> lexer res" where
  "addConstraintOfString si variableLength L =
     rbind (rfold (constrain_char si variableLength) [0..<arr_size (si_array si) - 1] L) (\<lambda>L.
     rbind (string_cell L si (arr_size (si_array si) - 1)) (\<lambda>last.
     let b = lx_charPreferenceLowerBound L + 1 in
     Inr (L\<lparr>ld_constraints := ld_constraints L @ [Some (builder_binary Eq last (buildConstant 0))],
            lx_charPreferenceLowerBound := (if b > 0x5A then 0x41 else b)\<rparr>)))"

definition processDefiningConstraint :: "string list \<Rightarrow> lexer \<Rightarrow> lexer res" where
  "processDefiningConstraint fs L =
     rbind (assert_that (length fs = 3 \<and> fs ! 1 = ''is'') ''fields.size() == 3 && fields[1] == is'') (\<lambda>_.
     rbind (find_symbol_cell L (fs ! 0)) (\<lambda>(si, index).
     if fs ! 2 = ''fixed-length-string'' \<or> fs ! 2 = ''var-length-string''
     then addConstraintOfString si (fs ! 2 = ''var-length-string'') L
     else reportKLC3ErrExit ''Unknown constraint type''))"

definition processConstraintLine :: "string \<Rightarrow> lexer \<Rightarrow> lexer res" where
  "processConstraintLine line L =
     (let fs = splitString line (CHR '' '') in
      if length fs = 3 \<and> fs ! 1 = ''is'' then processDefiningConstraint fs L else processNumericalConstraint line L)"

subsection \<open>Issues and checks\<close>

definition next_field :: "string \<Rightarrow> string \<Rightarrow> (string \<times> string) res" where
  "next_field msg s = (case extractNextField s of None \<Rightarrow> reportKLC3ErrExit msg | Some r \<Rightarrow> Inr r)"

definition next_string :: "string \<Rightarrow> string \<Rightarrow> (string \<times> string) res" where
  "next_string msg s = (case extractNextString s of (None, _) \<Rightarrow> reportKLC3ErrExit msg | (Some t, r) \<Rightarrow> Inr (t, r))"

definition known_issue :: "issue_package \<Rightarrow> string \<Rightarrow> issue_type res" where
  "known_issue ip name = (let t = getIssueByName ip name in if t = NO_ISSUE then reportKLC3ErrExit ''Unknown issue name'' else Inr t)"

definition issue_define :: "string \<Rightarrow> issue_package \<Rightarrow> (string \<times> issue_package) res" where
  "issue_define s ip =
     rbind (next_field ''Missing level'' s) (\<lambda>(level, s).
     if level \<noteq> ''ERROR'' \<and> level \<noteq> ''WARNING'' then reportKLC3ErrExit ''Unknown issue level''
     else rbind (next_field ''Missing issue name for DEFINE'' s) (\<lambda>(name, s).
     if getIssueByName ip name \<noteq> NO_ISSUE then reportKLC3ErrExit ''Issue already exists''
     else rbind (next_string ''Missing description for DEFINE'' s) (\<lambda>(desc, s).
     case extractNextString s of (hint, s) \<Rightarrow>
     case registerIssue ip name (if level = ''ERROR'' then ERROR else WARNING) of (t, ip) \<Rightarrow>
     let ip = setIssueTypeDesc ip t desc in
     Inr (s, case hint of None \<Rightarrow> ip | Some h \<Rightarrow> if h = [] then ip else setIssueTypeHint ip t h))))"

definition issue_set_level :: "string \<Rightarrow> issue_package \<Rightarrow> (string \<times> issue_package) res" where
  "issue_set_level s ip =
     rbind (next_field ''Missing issue name for SET_LEVEL'' s) (\<lambda>(name, s).
     rbind (next_field ''Missing level for SET_LEVEL'' s) (\<lambda>(level, s).
     rbind (known_issue ip name) (\<lambda>t.
     rbind (if level = ''ERROR'' then setIssueTypeLevel ip t ERROR
            else if level = ''WARNING'' then setIssueTypeLevel ip t WARNING
            else if level = ''NONE'' then setIssueTypeLevel ip t NONE
            else reportKLC3ErrExit ''Unknown issue level'') (\<lambda>ip. Inr (s, ip)))))"

definition issue_set_text :: "(issue_package \<Rightarrow> issue_type \<Rightarrow> string \<Rightarrow> issue_package) \<Rightarrow> string \<Rightarrow> issue_package \<Rightarrow> (string \<times> issue_package) res" where
  "issue_set_text put s ip =
     rbind (next_field ''Missing issue name'' s) (\<lambda>(name, s).
     rbind (next_string ''Missing description'' s) (\<lambda>(txt, s).
     rbind (known_issue ip name) (\<lambda>t. Inr (s, put ip t txt))))"

definition parseIssueCommand :: "string \<Rightarrow> lexer \<Rightarrow> (string \<times> lexer) res" where
  "parseIssueCommand s L = (case matchStartAndTrim s ''SET_LEVEL ERR_INCORRECT_OUTPUT NONE'' of
       Some s \<Rightarrow>
         (case ld_crossChecker L of
            None \<Rightarrow> Inl (NullDeref ''crossChecker'')
          | Some ls \<Rightarrow> Inr (s, L\<lparr>ld_crossChecker := Some (deleteDefaultOutputCompare ls)\<rparr>))
     | None \<Rightarrow>
         rbind (case matchStartAndTrim s ''DEFINE '' of
             Some s \<Rightarrow> issue_define s (ld_issuePackage L)
           | None \<Rightarrow> (case matchStartAndTrim s ''SET_LEVEL '' of
               Some s \<Rightarrow> issue_set_level s (ld_issuePackage L)
             | None \<Rightarrow> (case matchStartAndTrim s ''SET_DESCRIPTION '' of
                 Some s \<Rightarrow> issue_set_text setIssueTypeDesc s (ld_issuePackage L)
               | None \<Rightarrow> (case matchStartAndTrim s ''SET_HINT '' of
                   Some s \<Rightarrow> issue_set_text setIssueTypeHint s (ld_issuePackage L)
                 | None \<Rightarrow> reportKLC3ErrExit ''Unknown ISSUE command or missing argument'')))) (\<lambda>(s, ip).
         Inr (s, L\<lparr>ld_issuePackage := ip\<rparr>)))"

text \<open>\<open>s[0] - '0'\<close> as a \<open>uint16_t\<close>, and \<open>s.substr(1)\<close>, which throws when \<open>s\<close> is empty.\<close>

definition check_register :: "string \<Rightarrow> (16 word \<times> string) res" where
  "check_register s = (case s of
       [] \<Rightarrow> Inl (ProgExit ''std::out_of_range'')
     | c # r \<Rightarrow> Inr (word_of_int (of_char c - 48), strip r))"

definition check_registers :: "string \<Rightarrow> (16 word \<times> 16 word \<times> string) res" where
  "check_registers s =
     rbind (check_register s) (\<lambda>(from, s).
     if \<not> from \<le> 7 then reportKLC3ErrExit ''Invalid register''
     else case matchStartAndTrim s ''to'' of
         None \<Rightarrow> Inr (from, from, s)
       | Some s \<Rightarrow> (case matchStartAndTrim s ''R'' of
           None \<Rightarrow> reportKLC3ErrExit ''Expecting register''
         | Some s \<Rightarrow> rbind (check_register s) (\<lambda>(to, s).
             if \<not> (from \<le> to \<and> to \<le> 7) then reportKLC3ErrExit ''Invalid register'' else Inr (from, to, s))))"

definition check_memory :: "string \<Rightarrow> (16 word \<times> 16 word \<times> string) res" where
  "check_memory s =
     rbind (next_field ''Expecting memory range'' s) (\<lambda>(tmp, s).
     rbind (processInteger tmp) (\<lambda>from.
     case matchStartAndTrim s ''to'' of
       None \<Rightarrow> Inr (from, from, s)
     | Some s \<Rightarrow>
         rbind (next_field ''Expecting memory range'' s) (\<lambda>(tmp, s).
         rbind (processInteger tmp) (\<lambda>to.
         if to < from then reportKLC3ErrExit ''is smaller than'' else Inr (from, to, s)))))"

text \<open>The range of a check that has none is indeterminate and not read; it is zero here.\<close>

definition check_item :: "string \<Rightarrow> (thing_type \<times> 16 word \<times> 16 word \<times> string) res" where
  "check_item s = (case matchStartAndTrim s ''OUTPUT'' of
       Some s \<Rightarrow> Inr (OUTPUT, 0, 0, s)
     | None \<Rightarrow> (case matchStartAndTrim s ''LAST_INST'' of
         Some s \<Rightarrow> Inr (LAST_INST, 0, 0, s)
       | None \<Rightarrow> (case matchStartAndTrim s ''R'' of
           Some s \<Rightarrow> rbind (check_registers s) (\<lambda>r. Inr (REG, r))
         | None \<Rightarrow> (case matchStartAndTrim s ''MEMORY'' of
             Some s \<Rightarrow> rbind (check_memory s) (\<lambda>r. Inr (MEM, r))
           | None \<Rightarrow> reportKLC3ErrExit ''Unknown CHECK item''))))"

definition parsePostCheckCommand :: "string \<Rightarrow> lexer \<Rightarrow> (string \<times> lexer) res" where
  "parsePostCheckCommand s L =
     rbind (check_item s) (\<lambda>(type, from, to, s).
     case matchStartAndTrim s ''for'' of
       None \<Rightarrow> reportKLC3ErrExit ''Expecting for <issue>''
     | Some s \<Rightarrow>
         rbind (next_field ''Missing issue after for'' s) (\<lambda>(tmp, s).
         rbind (known_issue (ld_issuePackage L) tmp) (\<lambda>issue.
         rbind (case extractNextField s of
             None \<Rightarrow> Inr (False, s)
           | Some (tmp, s) \<Rightarrow> if tmp = ''DUMP_GOLD'' then Inr (True, s) else if tmp = ''NOT_DUMP_GOLD'' then Inr (False, s)
               else reportKLC3ErrExit ''Unknown option'') (\<lambda>(dump, s).
         let thing = \<lparr>tc_type = type, tc_from = from, tc_to = to, tc_dumpGold = dump\<rparr> in
         Inr (s, L\<lparr>ld_crossChecker := map_option (registerThingToCompare issue thing) (ld_crossChecker L)\<rparr>)))))"

subsection \<open>Comments\<close>

text \<open>A line with only a comment.  Every command takes a part of the text away, so that its length bounds the number of turns.\<close>

primrec comment_commands :: "nat \<Rightarrow> string \<Rightarrow> lexer \<Rightarrow> lexer res" where
  "comment_commands 0 s L = Inr L"
| "comment_commands (Suc n) s L =
     (if s = [] then Inr L
      else case matchStartAndTrim s ''SET_DATA_DEFAULT_FLAG READ_ONLY'' of
        Some s \<Rightarrow> comment_commands n s (L\<lparr>lx_dataDefaultReadOnly := True\<rparr>)
      | None \<Rightarrow> (case matchStartAndTrim s ''SET_DATA_DEFAULT_FLAG UNINITIALIZED'' of
        Some s \<Rightarrow> comment_commands n s (L\<lparr>lx_dataDefaultUninitialized := True\<rparr>)
      | None \<Rightarrow> (case matchStartAndTrim s ''INPUT_FILE'' of
        Some s \<Rightarrow>
          if \<not> lx_allowInputFile L then reportKLC3ErrExit ''Disallow loading more INPUT_FILE''
          else comment_commands n s (L\<lparr>lx_loadingInputFile := True\<rparr>)
      | None \<Rightarrow> (case matchStartAndTrim s ''COMMENT '' of
        Some s \<Rightarrow> if \<not> lx_loadingInputFile L then reportKLC3ErrExit ''COMMENT only works for INPUT_FILE'' else Inr L
      | None \<Rightarrow> (case matchStartAndTrim s ''SYMBOLIC '' of
        Some s \<Rightarrow> processConstraintLine s L
      | None \<Rightarrow> (case matchStartAndTrim s ''ISSUE '' of
        Some s \<Rightarrow> rbind (parseIssueCommand s L) (\<lambda>(s, L). comment_commands n s L)
      | None \<Rightarrow> (case matchStartAndTrim s ''CHECK '' of
        Some s \<Rightarrow> rbind (parsePostCheckCommand s L) (\<lambda>(s, L). comment_commands n s L)
      | None \<Rightarrow> reportKLC3ErrExit ''Unknown KLC3 command or missing argument'')))))))"

text \<open>The comment includes the semicolon.\<close>

definition parseComment :: "string \<Rightarrow> lexer \<Rightarrow> lexer res" where
  "parseComment comment L =
     (if ld_ignoreKLC3Extension L then Inr L
      else case matchStartAndTrim (strip (tl comment)) ''KLC3: '' of
          None \<Rightarrow> Inr L
        | Some s \<Rightarrow>
            let L = L\<lparr>lx_sawKLC3Command := True\<rparr> in
            if lx_curPass L = 1 then Inr L else comment_commands (length s) s L)"

primrec inst_commands :: "nat \<Rightarrow> string \<Rightarrow> string \<Rightarrow> string res" where
  "inst_commands 0 s content = Inr content"
| "inst_commands (Suc n) s content =
     (if s = [] then Inr content
      else case matchStartAndTrim s ''INSTANT_HALT'' of
        Some s \<Rightarrow> inst_commands n s ''INSTANT_HALT''
      | None \<Rightarrow> reportKLC3ErrExit ''Unknown KLC3 command or missing argument'')"

definition parseInstComment :: "string \<Rightarrow> lexer \<Rightarrow> (string \<times> lexer) res" where
  "parseInstComment comment L = (case matchStartAndTrim (strip comment) ''KLC3: '' of
       None \<Rightarrow> Inr ([], L)
     | Some s \<Rightarrow> rbind (inst_commands (length s) s []) (\<lambda>content. Inr (content, L\<lparr>lx_sawKLC3Command := True\<rparr>)))"

record data_options =
  do_readOnly :: bool
  do_uninitialized :: bool
  do_asInput :: string
  do_asSymbolic :: string

definition no_options :: data_options where
  "no_options = \<lparr>do_readOnly = False, do_uninitialized = False, do_asInput = [], do_asSymbolic = []\<rparr>"

definition take_word :: "string \<Rightarrow> string \<times> string" where
  "take_word s = (let w = takeWhile (\<lambda>c. c \<noteq> CHR '' '') s in (w, strip (drop (length w) s)))"

primrec data_commands :: "nat \<Rightarrow> string \<Rightarrow> data_options \<times> bool \<Rightarrow> (data_options \<times> bool) res" where
  "data_commands 0 s r = Inr r"
| "data_commands (Suc n) s r =
     (if s = [] then Inr r
      else case matchStartAndTrim s ''READ_ONLY'' of
        Some s \<Rightarrow> data_commands n s ((fst r)\<lparr>do_readOnly := True\<rparr>, True)
      | None \<Rightarrow> (case matchStartAndTrim s ''UNINITIALIZED'' of
        Some s \<Rightarrow> data_commands n s ((fst r)\<lparr>do_uninitialized := True\<rparr>, True)
      | None \<Rightarrow> (case matchStartAndTrim s ''SYMBOLIC as '' of
        Some s \<Rightarrow> (case take_word s of (w, s) \<Rightarrow> data_commands n s ((fst r)\<lparr>do_asSymbolic := w\<rparr>, snd r))
      | None \<Rightarrow> (case matchStartAndTrim s ''INPUT '' of
        Some s \<Rightarrow> (case take_word s of (w, s) \<Rightarrow> data_commands n s ((fst r)\<lparr>do_asInput := w\<rparr>, snd r))
      | None \<Rightarrow> reportKLC3ErrExit ''Unknown KLC3 command or missing argument''))))"

definition parseDataComment :: "string \<Rightarrow> lexer \<Rightarrow> (data_options \<times> lexer) res" where
  "parseDataComment comment L =
     (if ld_ignoreKLC3Extension L then Inr (no_options, L)
      else rbind (case matchStartAndTrim (strip comment) ''KLC3: '' of
          None \<Rightarrow> Inr ((no_options, False), L)
        | Some s \<Rightarrow> rbind (data_commands (length s) s (no_options, False)) (\<lambda>r. Inr (r, L\<lparr>lx_sawKLC3Command := True\<rparr>))) (\<lambda>((ret, hasSeenRWFlags), L).
        Inr (if hasSeenRWFlags then ret
             else ret\<lparr>do_readOnly := lx_dataDefaultReadOnly L, do_uninitialized := lx_dataDefaultUninitialized L\<rparr>, L)))"

text \<open>The line up to its comment, and what the comment says.\<close>

definition before_comment :: "string \<Rightarrow> string" where
  "before_comment s = takeWhile (\<lambda>c. c \<noteq> CHR '';'') s"

definition preProcessDataLine :: "lexer \<Rightarrow> (string \<times> data_options \<times> lexer) res" where
  "preProcessDataLine L =
     (let line = lx_curLineContent L; code = before_comment line in
      rbind (if length code < length line then parseDataComment (drop (Suc (length code)) line) L else Inr (no_options, L)) (\<lambda>(option, L).
      if (do_asInput option \<noteq> [] \<or> do_asSymbolic option \<noteq> []) \<and> \<not> lx_loadingInputFile L
      then reportKLC3ErrExit ''Defining input/symbolic variable in non-input file''
      else Inr (strip code, option, L)))"

subsection \<open>Commands end\<close>

lemma strip_length: "length (strip s) \<le> length s"
  unfolding strip_spec by (metis length_dropWhile_le length_rev order_trans)

lemma match_length: "matchStartAndTrim s pfx = Some t \<Longrightarrow> length t + length pfx \<le> length s"
  using strip_length [of "drop (length pfx) s"] by (auto simp: matchStartAndTrim_def startswith_def split: if_splits)

lemma field_length: "next_field msg s = Inr (f, t) \<Longrightarrow> length t \<le> length s"
  using strip_length [of "drop (length (takeWhile (\<lambda>c. c \<noteq> CHR '' '') s)) s"]
  by (auto simp: next_field_def reportKLC3ErrExit_def extractNextField_def Let_def split: option.splits if_splits)

lemma extractNextString_length: "extractNextString s = (r, t) \<Longrightarrow> length t \<le> length s"
proof (cases s)
  case (Cons c u)
  then show "extractNextString s = (r, t) \<Longrightarrow> length t \<le> length s"
    using strip_length [of "drop (Suc (length (takeWhile (\<lambda>c. c \<noteq> CHR 0x22) u))) u"]
    by (auto simp: extractNextString_def Let_def split: if_splits)
qed (simp add: extractNextString_def)

lemma extractNextString_rest: "length (snd (extractNextString s)) \<le> length s"
  using extractNextString_length [of s] by (metis prod.collapse)

lemma string_length: "next_string msg s = Inr (f, t) \<Longrightarrow> length t \<le> length s"
  using extractNextString_length [of s] by (auto simp: next_string_def reportKLC3ErrExit_def split: prod.splits option.splits)

lemmas command_lengths = match_length field_length string_length extractNextString_length

lemma issue_define_length: "issue_define s ip = Inr (t, ip') \<Longrightarrow> length t \<le> length s"
  using order_trans [OF extractNextString_rest] by (fastforce simp: issue_define_def Let_def reportKLC3ErrExit_def case_prod_unfold split: if_splits dest!: field_length string_length)

lemma issue_set_level_length: "issue_set_level s ip = Inr (t, ip') \<Longrightarrow> length t \<le> length s"
  by (auto simp: issue_set_level_def dest!: field_length)

lemma issue_set_text_length: "issue_set_text f s ip = Inr (t, ip') \<Longrightarrow> length t \<le> length s"
  by (auto simp: issue_set_text_def dest!: field_length string_length)

lemma parseIssueCommand_length: "parseIssueCommand s L = Inr (t, L') \<Longrightarrow> length t \<le> length s"
  by (auto simp: parseIssueCommand_def reportKLC3ErrExit_def split: option.splits
      dest!: match_length issue_define_length issue_set_level_length issue_set_text_length)

lemma check_item_length: "check_item s = Inr (k, a, b, t) \<Longrightarrow> length t \<le> length s"
proof -
  have r: "length u \<le> length v" if "check_register v = Inr (x, u)" for u v x
    using that strip_length by (auto simp: check_register_def intro: le_SucI split: list.splits)
  have "length u \<le> length v" if "check_registers v = Inr (x, y, u)" for u v x y
    using that by (auto simp: check_registers_def reportKLC3ErrExit_def split: if_splits option.splits dest!: r match_length)
  moreover have "length u \<le> length v" if "check_memory v = Inr (x, y, u)" for u v x y
  proof -
    from that obtain f t b where f: "next_field ''Expecting memory range'' v = Inr (f, t)" "processInteger f = Inr b"
      and c: "(case matchStartAndTrim t ''to'' of None \<Rightarrow> Inr (b, b, t)
         | Some s \<Rightarrow> rbind (next_field ''Expecting memory range'' s) (\<lambda>(tmp, s). rbind (processInteger tmp) (\<lambda>to.
             if to < b then reportKLC3ErrExit ''is smaller than'' else Inr (b, to, s)))) = Inr (x, y, u)"
      unfolding check_memory_def by auto
    show ?thesis
    proof (cases "matchStartAndTrim t ''to''")
      case None
      then show ?thesis using c field_length [OF f(1)] by simp
    next
      case (Some r)
      then show ?thesis
        using c field_length [OF f(1)] match_length [OF Some] by (auto simp: reportKLC3ErrExit_def split: if_splits dest!: field_length)
    qed
  qed
  ultimately show "check_item s = Inr (k, a, b, t) \<Longrightarrow> length t \<le> length s"
    by (fastforce simp: check_item_def reportKLC3ErrExit_def split: option.splits dest!: match_length)
qed

lemma parsePostCheckCommand_length: "parsePostCheckCommand s L = Inr (t, L') \<Longrightarrow> length t \<le> length s"
proof -
  have "length u \<le> length v" if "extractNextField v = Some (f, u)" for f u v
    using field_length [of "[]" v f u] that by (simp add: next_field_def)
  then show "parsePostCheckCommand s L = Inr (t, L') \<Longrightarrow> length t \<le> length s"
    by (fastforce simp: parsePostCheckCommand_def reportKLC3ErrExit_def split: option.splits if_splits dest!: check_item_length match_length field_length)
qed

text \<open>The bound on the turns is enough.\<close>

lemma comment_commands_enough: "length s \<le> n \<Longrightarrow> length s \<le> m \<Longrightarrow> comment_commands n s L = comment_commands m s L"
proof (induction n arbitrary: m s L)
  case 0
  then show ?case by (cases m) simp_all
next
  case (Suc n)
  show ?case
  proof (cases m)
    case 0
    then show ?thesis using Suc.prems by simp
  next
    case (Suc k)
    have IH: "comment_commands n t L' = comment_commands k t L'" if "length t < length s" for t L'
      by (rule Suc.IH) (use that Suc.prems \<open>m = Suc k\<close> in simp_all)
    have m: "comment_commands n t L' = comment_commands k t L'" if "matchStartAndTrim s p = Some t" "p \<noteq> []" for t p L'
      by (rule IH) (use match_length [OF that(1)] that(2) in \<open>cases p; simp\<close>)
    have i: "rbind (parseIssueCommand t L') (\<lambda>(s, L). comment_commands n s L) = rbind (parseIssueCommand t L') (\<lambda>(s, L). comment_commands k s L)"
      "rbind (parsePostCheckCommand t L') (\<lambda>(s, L). comment_commands n s L) = rbind (parsePostCheckCommand t L') (\<lambda>(s, L). comment_commands k s L)"
      if "matchStartAndTrim s p = Some t" "p \<noteq> []" for t p L'
      using match_length [OF that(1)] that(2)
      by (auto intro!: rbind_cong IH dest!: parseIssueCommand_length parsePostCheckCommand_length simp: length_greater_0_conv [symmetric] simp del: length_greater_0_conv)
    show ?thesis unfolding \<open>m = Suc k\<close> comment_commands.simps
      by (intro if_cong option.case_cong refl) (simp_all add: m i)
  qed
qed

subsection \<open>Symbols stand for their cells\<close>

definition cell_for :: "(addr \<Rightarrow> mem_value option) \<Rightarrow> symbol_info \<Rightarrow> nat \<Rightarrow> bool" where
  "cell_for mem s i \<longleftrightarrow> (\<exists>v e. mem (si_startAddr s + word_of_nat i) = Some v \<and> mv_e v = Some e \<and> (is_ReadExpr e \<longrightarrow> e = symbol_cell (si_array s) i))"

definition symbol_ok :: "(addr \<Rightarrow> mem_value option) \<Rightarrow> symbol_info \<Rightarrow> bool" where
  "symbol_ok mem s \<longleftrightarrow> si_array s = CreateArray (si_name s) (si_size s) \<and>
     (\<forall>i < unat (si_size s). cell_for mem s i)"

definition cell_ok :: "mem_value \<Rightarrow> bool" where
  "cell_ok v \<longleftrightarrow> (\<exists>e. mv_e v = Some e \<and> wt e \<and> getWidth e = Int16)"

definition loader_ok :: "'a loader_scheme \<Rightarrow> bool" where
  "loader_ok L \<longleftrightarrow> (\<forall>a v. ld_mem L a = Some v \<longrightarrow> cell_ok v) \<and> (\<forall>n s. ld_symbols L n = Some s \<longrightarrow> symbol_ok (ld_mem L) s)"

lemma symbol_cell_sound:
  "wt (symbol_cell (CreateArray n sz) i)" "getWidth (symbol_cell (CreateArray n sz) i) = Int16" "is_ReadExpr (symbol_cell a i)"
  "i < 2 ^ 16 \<Longrightarrow> eval \<sigma> (symbol_cell (CreateArray n sz) i) = take_bit 16 (\<sigma> (CreateArray n sz) (int i))"
  by (simp_all add: symbol_cell_def Read_create_def CreateArray_def ConstantExpr_alloc_def take_bit_int_eq_self)

lemma define_cell_extends:
  assumes "define_cell s r w i mem = Inr mem'" "si_array s = CreateArray (si_name s) (si_size s)" "\<forall>a v. mem a = Some v \<longrightarrow> cell_ok v"
  shows "mem \<subseteq>\<^sub>m mem'" "\<forall>a v. mem' a = Some v \<longrightarrow> cell_ok v"
    "cell_for mem' s i"
  using assms symbol_cell_sound(1,2) [of "si_name s" "si_size s" i]
  by (auto simp: define_cell_def cell_for_def Let_def map_le_def reportKLC3ErrExit_def cell_ok_def DataValue_alloc_def MemValue_def split: option.splits if_splits)

lemma cell_for_mono: "mem \<subseteq>\<^sub>m mem' \<Longrightarrow> cell_for mem s i \<Longrightarrow> cell_for mem' s i"
  unfolding cell_for_def map_le_def dom_def by fastforce

lemma define_cells:
  assumes "rfold (define_cell s r w) [0..<n] mem = Inr mem'" "si_array s = CreateArray (si_name s) (si_size s)" "\<forall>a v. mem a = Some v \<longrightarrow> cell_ok v"
  shows "mem \<subseteq>\<^sub>m mem' \<and> (\<forall>a v. mem' a = Some v \<longrightarrow> cell_ok v) \<and>
    (\<forall>i < n. cell_for mem' s i)"
  using assms(1)
proof (induction n arbitrary: mem')
  case 0
  then show ?case using assms(3) by simp
next
  case (Suc n)
  then obtain mem1 where m: "rfold (define_cell s r w) [0..<n] mem = Inr mem1" "define_cell s r w n mem1 = Inr mem'"
    by (auto simp: rfold_append)
  note IH = Suc.IH [OF m(1)]
  have "\<forall>a v. mem1 a = Some v \<longrightarrow> cell_ok v" using IH by blast
  note d = define_cell_extends [OF m(2) assms(2) this]
  have "cell_for mem' s i" if "i < Suc n" for i
    using d(3) cell_for_mono [OF d(1)] IH that by (cases "i = n") auto
  then show ?case using d(1,2) IH map_le_trans by blast
qed

lemma symbol_ok_mono: "mem \<subseteq>\<^sub>m mem' \<Longrightarrow> symbol_ok mem s \<Longrightarrow> symbol_ok mem' s"
  using cell_for_mono unfolding symbol_ok_def by blast

lemma defineMemSymbol_ok:
  assumes "defineMemSymbol n r w L = Inr (s, L')" "loader_ok L"
  shows "loader_ok L'" "symbol_ok (ld_mem L') s"
    "\<exists>mem. L' = L\<lparr>ld_symbols := (ld_symbols L)(si_name s \<mapsto> s), ld_mem := mem\<rparr>"
proof -
  from assms(1) obtain mem where m: "rfold (define_cell s r w) [0..<unat (si_size s)] (ld_mem L) = Inr mem"
    "si_array s = CreateArray (si_name s) (si_size s)" and L': "L' = L\<lparr>ld_symbols := (ld_symbols L)(si_name s \<mapsto> s), ld_mem := mem\<rparr>"
    by (auto simp: defineMemSymbol_def Let_def reportKLC3ErrExit_def split: if_splits)
  have "\<forall>a v. ld_mem L a = Some v \<longrightarrow> cell_ok v" using assms(2) by (simp add: loader_ok_def)
  note d = define_cells [OF m this]
  show s: "symbol_ok (ld_mem L') s" using d m(2) L' by (simp add: symbol_ok_def)
  have "symbol_ok mem t" if "ld_symbols L k = Some t" for k t using assms(2) d that symbol_ok_mono by (auto simp: loader_ok_def)
  then show "loader_ok L'" using d s L' by (simp add: loader_ok_def)
  show "\<exists>mem. L' = L\<lparr>ld_symbols := (ld_symbols L)(si_name s \<mapsto> s), ld_mem := mem\<rparr>" using L' by blast
qed

subsection \<open>Meaning of constraints\<close>

definition compares :: "string \<Rightarrow> 16 word \<Rightarrow> 16 word \<Rightarrow> bool" where
  "compares opStr x v \<longleftrightarrow>
     (opStr = ''=='' \<and> x = v) \<or> (opStr = ''!='' \<and> x \<noteq> v) \<or> (opStr = ''<'' \<and> sint x < sint v) \<or> (opStr = ''<='' \<and> sint x \<le> sint v) \<or>
     (opStr = ''>'' \<and> sint x > sint v) \<or> (opStr = ''>='' \<and> sint x \<ge> sint v)"

text \<open>What one comparison says of an assignment of the inputs.\<close>

definition comparison_holds :: "lexer \<Rightarrow> string list \<Rightarrow> assignment \<Rightarrow> bool" where
  "comparison_holds L fs \<sigma> \<longleftrightarrow> (case fs of
       [nameAndIndex, opStr, valStr] \<Rightarrow>
         (case (find_symbol_cell L nameAndIndex, processInteger valStr) of
            (Inr (s, index), Inr v) \<Rightarrow> compares opStr (word_of_int (\<sigma> (si_array s) (uint index))) v
          | _ \<Rightarrow> False)
     | _ \<Rightarrow> False)"

declare builder_binary.simps [simp del]

lemma builder_compare:
  assumes "wt l" "wt r" "getWidth l = Int16" "getWidth r = Int16" "k \<in> {Eq, Slt, Sle}"
  shows "wf_constraint (builder_binary k l r)" "eval \<sigma> (builder_binary k l r) = apint_op k 16 (eval \<sigma> l) (eval \<sigma> r)"
proof -
  have w: "wt (BinaryExpr k l r)" "is_cmp_kind k" using assms by auto
  show "wf_constraint (builder_binary k l r)" using folding.bin_wt [OF w(1)] folding.bin_width [OF w(1)] w(2) by (simp add: wf_constraint_def)
  show "eval \<sigma> (builder_binary k l r) = apint_op k 16 (eval \<sigma> l) (eval \<sigma> r)" using folding.bin_eval [OF w(1)] assms(3) by simp
qed

lemma apint_signed_word: "apint_signed 16 a = sint (word_of_int a :: 16 word)"
  by (simp add: apint_signed_def sint_sbintrunc')

lemma constructSingleConstraint_correct:
  assumes "constructSingleConstraint L s index opStr valStr = Inr c" "loader_ok L" "ld_symbols L n = Some s" "unat index < arr_size (si_array s)"
    and "processInteger valStr = Inr v"
  shows "wf_constraint c" "eval \<sigma> c = of_bool (compares opStr (word_of_int (\<sigma> (si_array s) (uint index))) v)"
proof -
  have s: "symbol_ok (ld_mem L) s" using assms(2,3) by (simp add: loader_ok_def)
  then have a: "si_array s = CreateArray (si_name s) (si_size s)" by (simp add: symbol_ok_def)
  then have i: "unat index < unat (si_size s)" using assms(4) by (simp add: CreateArray_def)
  then obtain w e where e: "ld_mem L (si_startAddr s + index) = Some w" "mv_e w = Some e" "is_ReadExpr e \<longrightarrow> e = symbol_cell (si_array s) (unat index)"
    using conjunct2 [OF s [unfolded symbol_ok_def], rule_format, of "unat index"] i by (auto simp: cell_for_def)
  have r: "is_ReadExpr e" using assms(1,5) e by (auto simp: constructSingleConstraint_def cell_expr_def Let_def)
  then have e': "e = symbol_cell (si_array s) (unat index)" using e(3) by simp
  have "unat index < 2 ^ 16" by (rule less_le_trans [OF unsigned_less]) simp
  note x = symbol_cell_sound(1,2) [of "si_name s" "si_size s" "unat index"] symbol_cell_sound(4) [OF this, of \<sigma> "si_name s" "si_size s"]
  have x: "wt e" "getWidth e = Int16" "eval \<sigma> e = take_bit 16 (\<sigma> (si_array s) (uint index))" using x unfolding e' a by simp_all
  note b = builder_compare [OF x(1) buildConstant_sound(1) x(2) buildConstant_sound(2)] builder_compare [OF buildConstant_sound(1) x(1) buildConstant_sound(2) x(2)]
  have u: "take_bit 16 z = uint v \<longleftrightarrow> (word_of_int z :: 16 word) = v" for z :: int
  proof -
    have "uint (word_of_int z :: 16 word) = take_bit 16 z" by (simp add: unsigned_of_int)
    then show ?thesis by (metis word_uint_eq_iff)
  qed
  have z: "wf_constraint (createIsZero (builder_binary Eq e (buildConstant v)))"
    "eval \<sigma> (createIsZero (builder_binary Eq e (buildConstant v))) = 1 - eval \<sigma> (builder_binary Eq e (buildConstant v))"
    using createIsZero_bool [of "builder_binary Eq e (buildConstant v)"] b(1) [of Eq] by (auto simp: wf_constraint_def)
  let ?k = "buildConstant v" and ?x = "word_of_int (\<sigma> (si_array s) (uint index)) :: 16 word"
  have ev: "eval \<sigma> (builder_binary Eq e ?k) = of_bool (?x = v)"
    "eval \<sigma> (builder_binary Slt e ?k) = of_bool (sint ?x < sint v)" "eval \<sigma> (builder_binary Sle e ?k) = of_bool (sint ?x \<le> sint v)"
    "eval \<sigma> (builder_binary Slt ?k e) = of_bool (sint v < sint ?x)" "eval \<sigma> (builder_binary Sle ?k e) = of_bool (sint v \<le> sint ?x)"
    by (simp_all add: b x(3) u apint_signed_word)
  consider "opStr = ''==''" "c = builder_binary Eq e ?k" | "opStr = ''!=''" "c = createIsZero (builder_binary Eq e ?k)"
    | "opStr = ''<''" "c = builder_binary Slt e ?k" | "opStr = ''<=''" "c = builder_binary Sle e ?k"
    | "opStr = ''>''" "c = builder_binary Slt ?k e" | "opStr = ''>=''" "c = builder_binary Sle ?k e"
    using assms(1,5) e(1,2) by (auto simp: constructSingleConstraint_def cell_expr_def Let_def reportKLC3ErrExit_def split: if_splits)
  then have "wf_constraint c \<and> eval \<sigma> c = of_bool (compares opStr ?x v)"
  proof cases
    case 2
    then show ?thesis using z ev(1) by (simp add: compares_def)
  qed (simp_all add: b(1,3) ev compares_def)
  then show "wf_constraint c" "eval \<sigma> c = of_bool (compares opStr (word_of_int (\<sigma> (si_array s) (uint index))) v)" by blast+
qed

text \<open>\<open>means\<close> relates a constraint that may be null to what it says.\<close>

definition means :: "expr option \<Rightarrow> (assignment \<Rightarrow> bool) \<Rightarrow> bool" where
  "means c P \<longleftrightarrow> (\<forall>e. c = Some e \<longrightarrow> wf_constraint e \<and> (\<forall>\<sigma>. eval \<sigma> e = of_bool (P \<sigma>)))"

lemma processSingleConstraint_correct:
  assumes "processSingleConstraint L fs = Inr c" "loader_ok L"
  shows "means (Some c) (comparison_holds L fs)"
proof -
  obtain n k v where fs: "fs = [n, k, v]" using assms(1) by (auto simp: processSingleConstraint_def reportKLC3ErrExit_def split: list.splits)
  from assms(1) fs obtain s i where s: "find_symbol_cell L n = Inr (s, i)" "constructSingleConstraint L s i k v = Inr c"
    by (auto simp: processSingleConstraint_def)
  obtain w where w: "processInteger v = Inr w" using s(2) by (auto simp: constructSingleConstraint_def)
  obtain m where m: "ld_symbols L m = Some s" "unat i < arr_size (si_array s)"
    using s(1) by (auto simp: find_symbol_cell_def reportKLC3ErrExit_def split: option.splits if_splits)
  show ?thesis using constructSingleConstraint_correct [OF s(2) assms(2) m w] s(1) w by (simp add: means_def comparison_holds_def fs)
qed

lemma join_constraint_correct:
  assumes "join_constraint k a c = Inr r" "means a P" "means c Q" "k \<in> {And, Or}"
  shows "means r (\<lambda>\<sigma>. if a = None then Q \<sigma> else if k = And then P \<sigma> \<and> Q \<sigma> else P \<sigma> \<or> Q \<sigma>)" "r = None \<longleftrightarrow> a = None \<and> c = None"
proof -
  have b: "wf_constraint (builder_binary k x y) \<and> (\<forall>\<sigma>. eval \<sigma> (builder_binary k x y) = of_bool (if k = And then P \<sigma> \<and> Q \<sigma> else P \<sigma> \<or> Q \<sigma>))"
    if "a = Some x" "c = Some y" for x y
  proof -
    have w: "wt (BinaryExpr k x y)" using that assms(2-4) by (auto simp: means_def wf_constraint_def)
    have "eval \<sigma> (builder_binary k x y) = of_bool (if k = And then P \<sigma> \<and> Q \<sigma> else P \<sigma> \<or> Q \<sigma>)" for \<sigma>
      using folding.bin_eval [OF w] that assms(2-4) by (auto simp: means_def)
    then show ?thesis using folding.bin_wt [OF w] folding.bin_width [OF w] that assms(2,4) by (auto simp: means_def wf_constraint_def)
  qed
  show "means r (\<lambda>\<sigma>. if a = None then Q \<sigma> else if k = And then P \<sigma> \<and> Q \<sigma> else P \<sigma> \<or> Q \<sigma>)"
    using assms(1,3) b by (auto simp: join_constraint_def means_def split: option.splits)
  show "r = None \<longleftrightarrow> a = None \<and> c = None" using assms(1) by (auto simp: join_constraint_def split: option.splits)
qed

definition conjunction :: "lexer \<Rightarrow> string \<Rightarrow> assignment \<Rightarrow> bool" where
  "conjunction L t \<sigma> \<longleftrightarrow> splitString (strip t) (CHR ''&'') \<noteq> [] \<and>
     (\<forall>u \<in> set (splitString (strip t) (CHR ''&'')). comparison_holds L (splitString (strip u) (CHR '' '')) \<sigma>)"

lemma and_constraint_correct:
  assumes "and_constraint L t = Inr c" "loader_ok L"
  shows "means c (conjunction L t)" "c = None \<longrightarrow> (\<forall>\<sigma>. \<not> conjunction L t \<sigma>)"
proof -
  let ?f = "\<lambda>u acc. rbind (processSingleConstraint L (splitString (strip u) (CHR '' ''))) (\<lambda>c. join_constraint And acc (Some c))"
  let ?C = "\<lambda>us \<sigma>. \<forall>u \<in> set us. comparison_holds L (splitString (strip u) (CHR '' '')) \<sigma>"
  have "means c (\<lambda>\<sigma>. P \<sigma> \<and> ?C us \<sigma>) \<and> (c = None \<longleftrightarrow> acc = None \<and> us = [])"
    if "rfold ?f us acc = Inr c" "means acc P" "acc = None \<Longrightarrow> P = (\<lambda>_. True)" for us acc P
    using that
  proof (induction us arbitrary: acc P)
    case (Cons u us)
    from Cons.prems(1) obtain d e where d: "processSingleConstraint L (splitString (strip u) (CHR '' '')) = Inr d" "join_constraint And acc (Some d) = Inr e"
      "rfold ?f us e = Inr c" by auto
    note j = join_constraint_correct [OF d(2) Cons.prems(2) processSingleConstraint_correct [OF d(1) assms(2)]]
    let ?P = "\<lambda>\<sigma>. P \<sigma> \<and> comparison_holds L (splitString (strip u) (CHR '' '')) \<sigma>"
    have p: "means e ?P" using j(1) Cons.prems(3) by (cases "acc = None") simp_all
    have n: "e \<noteq> None" using j(2) by simp
    from Cons.IH [OF d(3) p] n show ?case by (simp add: conj_assoc)
  qed (simp add: means_def)
  from this [OF assms(1) [unfolded and_constraint_def], of "\<lambda>_. True"] have "means c (?C (splitString (strip t) (CHR ''&''))) \<and> (c = None \<longleftrightarrow> splitString (strip t) (CHR ''&'') = [])"
    by (simp add: means_def)
  then show "means c (conjunction L t)" "c = None \<longrightarrow> (\<forall>\<sigma>. \<not> conjunction L t \<sigma>)" by (auto simp: conjunction_def means_def)
qed

lemma numerical_constraint_means:
  assumes "loader_ok L" "processNumericalConstraint line L = Inr L'"
  shows "\<exists>c. L' = L\<lparr>ld_constraints := ld_constraints L @ [c]\<rparr> \<and> means c (\<lambda>\<sigma>. \<exists>t \<in> set (splitString line (CHR ''|'')). conjunction L t \<sigma>)"
proof -
  let ?f = "\<lambda>t acc. rbind (and_constraint L t) (\<lambda>c. join_constraint Or acc c)"
  have r: "means c (\<lambda>\<sigma>. P \<sigma> \<or> (\<exists>t \<in> set ts. conjunction L t \<sigma>))"
    if "rfold ?f ts acc = Inr c" "means acc P" "acc = None \<Longrightarrow> P = (\<lambda>_. False)" for ts acc P c
    using that
  proof (induction ts arbitrary: acc P)
    case (Cons t ts)
    from Cons.prems(1) obtain d e where d: "and_constraint L t = Inr d" "join_constraint Or acc d = Inr e" "rfold ?f ts e = Inr c" by auto
    note a = and_constraint_correct [OF d(1) assms(1)]
    note j = join_constraint_correct [OF d(2) Cons.prems(2) a(1)]
    let ?P = "\<lambda>\<sigma>. P \<sigma> \<or> conjunction L t \<sigma>"
    have p: "means e ?P" using j(1) Cons.prems(3) by (cases "acc = None") simp_all
    have n: "?P = (\<lambda>_. False)" if "e = None" using j(2) that Cons.prems(3) a(2) by auto
    from Cons.IH [OF d(3) p n] show ?case by (simp add: disj_assoc)
  qed simp
  from assms(2) obtain c where c: "rfold ?f (splitString line (CHR ''|'')) None = Inr c" "L' = L\<lparr>ld_constraints := ld_constraints L @ [c]\<rparr>"
    by (auto simp: processNumericalConstraint_def)
  from r [OF c(1), of "\<lambda>_. False"] have "means c (\<lambda>\<sigma>. \<exists>t \<in> set (splitString line (CHR ''|'')). conjunction L t \<sigma>)" by (simp add: means_def)
  then show ?thesis using c(2) by blast
qed

text \<open>
  C8: a line of comparisons.  \<open>processNumericalConstraint\<close> adds one constraint, and unless all parts of the line are empty it is a well-formed condition
  that holds for exactly the inputs for which the comparisons of one of the parts between bars are all true, where a comparison reads the cell of the
  symbolic variable and compares signed 16-bit numbers.
\<close>
theorem processNumericalConstraint_correct:
  assumes "loader_ok L" "processNumericalConstraint line L = Inr L'"
  shows "\<exists>c. L' = L\<lparr>ld_constraints := ld_constraints L @ [c]\<rparr> \<and> (\<forall>e. c = Some e \<longrightarrow> wf_constraint e \<and>
    (\<forall>\<sigma>. eval \<sigma> e = of_bool (\<exists>t \<in> set (splitString line (CHR ''|'')). splitString (strip t) (CHR ''&'') \<noteq> [] \<and>
       (\<forall>u \<in> set (splitString (strip t) (CHR ''&'')). comparison_holds L (splitString (strip u) (CHR '' '')) \<sigma>))))"
  using numerical_constraint_means [OF assms] unfolding means_def conjunction_def by blast

definition demo_lexer :: lexer where
  "demo_lexer = (Lexer (KLC3Loader IssuePackage None False 0) True 0)\<lparr>lx_curAddr := 0x4000, lx_loadingInputFile := True\<rparr>"

lemma demo_lexer_ok: "loader_ok demo_lexer"
  by (simp add: loader_ok_def demo_lexer_def Lexer_def KLC3Loader_def loader.defs lexer.defs)

theorem processNumericalConstraint_correct_witness:
  "\<exists>s L L' c. defineMemSymbol ''N[2]'' False False demo_lexer = Inr (s, L) \<and> loader_ok L \<and>
     processNumericalConstraint ''N > #0 & N <= #9 | N[1] == x1F'' L = Inr L' \<and> ld_constraints L' = [Some c] \<and> wf_constraint c"
proof -
  have "case defineMemSymbol ''N[2]'' False False demo_lexer of Inl _ \<Rightarrow> False | Inr r \<Rightarrow>
      (case processNumericalConstraint ''N > #0 & N <= #9 | N[1] == x1F'' (snd r) of Inl _ \<Rightarrow> False | Inr L' \<Rightarrow>
         (case ld_constraints L' of [Some c] \<Rightarrow> True | _ \<Rightarrow> False))"
    by code_simp
  then obtain s L L' c where d: "defineMemSymbol ''N[2]'' False False demo_lexer = Inr (s, L)" "processNumericalConstraint ''N > #0 & N <= #9 | N[1] == x1F'' L = Inr L'"
    "ld_constraints L' = [Some c]"
    by (cases "defineMemSymbol ''N[2]'' False False demo_lexer";
        cases "processNumericalConstraint ''N > #0 & N <= #9 | N[1] == x1F'' (snd (projr (defineMemSymbol ''N[2]'' False False demo_lexer)))")
      (auto split: list.splits option.splits)
  note ok = defineMemSymbol_ok(1) [OF d(1) demo_lexer_ok]
  obtain c' where "ld_constraints L' = ld_constraints L @ [c']" "\<And>e. c' = Some e \<Longrightarrow> wf_constraint e"
    using processNumericalConstraint_correct [OF ok d(2)] by auto
  with d(3) have "wf_constraint c" by simp
  with d ok show ?thesis by blast
qed

end
