(* ===== verification/Klc3_Assembler.thy ===== *)
theory Klc3_Assembler
  imports Klc3_Commands
begin

text \<open>
  The two-pass assembler (\<open>include/klc3/Loader/Loader.h\<close>, \<open>lib/klc3/Loader/Lexer.cpp\<close>, the \<open>write\<close> functions of \<open>lib/klc3/Loader/Loader.cpp\<close>).

  The scanner that flex generates from \<open>Lexer.f\<close> is a parameter: it turns the file into a sequence of \<open>lex_event\<close>, one per rule that fires, with the
  matched text; both passes read the same file, so both get the same events.  A local variable that is not initialized holds the argument \<open>junk\<close>.
  The argument \<open>base\<close> gives the name of a file for source locations (\<open>llvm::sys::path::filename\<close>, or the identity without \<open>-use-file-basename\<close>).
  The texts of compile errors are left out.

  Shown: the words that are written decode to the instruction and the operands of the line, a label operand leads to the label, and both passes
  assign the same addresses.
\<close>

unbundle bit_operations_syntax

subsection \<open>Formats\<close>

datatype operand_type = O_RRR | O_RRI | O_RR | O_RI | O_RL | O_R | O_I | O_L | O_S | O_NONE

fun operand_index :: "operand_type \<Rightarrow> nat" where
  "operand_index O_RRR = 0" | "operand_index O_RRI = 1" | "operand_index O_RR = 2" | "operand_index O_RI = 3" | "operand_index O_RL = 4"
| "operand_index O_R = 5" | "operand_index O_I = 6" | "operand_index O_L = 7" | "operand_index O_S = 8" | "operand_index O_NONE = 9"

fun OP_FORMAT_OK :: "op_code \<Rightarrow> nat" where
  "OP_FORMAT_OK OP_NONE = 0x200"
| "OP_FORMAT_OK OP_ADD = 0x003" | "OP_FORMAT_OK OP_AND = 0x003" | "OP_FORMAT_OK OP_BR = 0x0C0" | "OP_FORMAT_OK OP_JMP = 0x020"
| "OP_FORMAT_OK OP_JSR = 0x0C0" | "OP_FORMAT_OK OP_JSRR = 0x020" | "OP_FORMAT_OK OP_LD = 0x018" | "OP_FORMAT_OK OP_LDI = 0x018"
| "OP_FORMAT_OK OP_LDR = 0x002" | "OP_FORMAT_OK OP_LEA = 0x018" | "OP_FORMAT_OK OP_NOT = 0x004" | "OP_FORMAT_OK OP_RTI = 0x200"
| "OP_FORMAT_OK OP_ST = 0x018" | "OP_FORMAT_OK OP_STI = 0x018" | "OP_FORMAT_OK OP_STR = 0x002" | "OP_FORMAT_OK OP_TRAP = 0x040"
| "OP_FORMAT_OK OP_GETC = 0x200" | "OP_FORMAT_OK OP_HALT = 0x200" | "OP_FORMAT_OK OP_IN = 0x200" | "OP_FORMAT_OK OP_OUT = 0x200"
| "OP_FORMAT_OK OP_PUTS = 0x200" | "OP_FORMAT_OK OP_PUTSP = 0x200"
| "OP_FORMAT_OK OP_FILL = 0x0C0" | "OP_FORMAT_OK OP_RET = 0x200" | "OP_FORMAT_OK OP_STRINGZ = 0x100"
| "OP_FORMAT_OK OP_BLKW = 0x040" | "OP_FORMAT_OK OP_END = 0x200" | "OP_FORMAT_OK OP_ORIG = 0x040"

definition format_ok :: "op_code \<Rightarrow> operand_type \<Rightarrow> bool" where
  "format_ok op t \<longleftrightarrow> OP_FORMAT_OK op AND 2 ^ operand_index t \<noteq> 0"

datatype pre_parse = PP_R1 | PP_R2 | PP_R3 | PP_I2 | PP_L2

fun PRE_PARSE :: "operand_type \<Rightarrow> pre_parse set" where
  "PRE_PARSE O_RRR = {PP_R1, PP_R2, PP_R3}" | "PRE_PARSE O_RRI = {PP_R1, PP_R2}" | "PRE_PARSE O_RR = {PP_R1, PP_R2}"
| "PRE_PARSE O_RI = {PP_R1, PP_I2}" | "PRE_PARSE O_RL = {PP_R1, PP_L2}" | "PRE_PARSE O_R = {PP_R1}"
| "PRE_PARSE O_I = {}" | "PRE_PARSE O_L = {}" | "PRE_PARSE O_S = {}" | "PRE_PARSE O_NONE = {}"

definition CC_P :: "16 word" where "CC_P = 0x0200"
definition CC_Z :: "16 word" where "CC_Z = 0x0400"
definition CC_N :: "16 word" where "CC_N = 0x0800"

subsection \<open>Lines and errors\<close>

definition newInstLine :: "lexer \<Rightarrow> lexer" where
  "newInstLine L = L\<lparr>lx_op := OP_NONE, lx_ccode := 0, lx_curLine := lx_curLine L + 1, lx_curLineContent := []\<rparr>"

definition appendLineContent :: "string \<Rightarrow> lexer \<Rightarrow> lexer" where
  "appendLineContent opname L =
     (let c = lx_curLineContent L @ opname in
      L\<lparr>lx_curLineContent := (if c \<noteq> [] \<and> (last c = CHR 0x0A \<or> last c = CHR 0x0D) then strip c else c)\<rparr>)"

text \<open>\<open>newGlobalIssue\<close> returns null for an issue that is already known at the line; the note is set on what it returns.\<close>

definition raiseCompileIssue :: "bool \<Rightarrow> lexer \<Rightarrow> lexer res" where
  "raiseCompileIssue isErr L =
     (let v = (MemValue 0 None MEM_DATA no_def)\<lparr>mv_sourceFile := lx_file L, mv_sourceLine := lx_curLine L, mv_sourceContent := lx_curLineContent L\<rparr> in
      rbind (newGlobalIssue (ld_issuePackage L) (if isErr then ERR_COMPILE else WARN_COMPILE) (Some v)) (\<lambda>(accepted, ip).
      if accepted then Inr (L\<lparr>ld_issuePackage := ip\<rparr>) else Inl (NullDeref ''info'')))"

definition reportCompileErr :: "lexer \<Rightarrow> lexer res" where
  "reportCompileErr L = (if ld_ignoreKLC3Extension L \<or> \<not> lx_collectCompileIssues L then Inr L else raiseCompileIssue True L)"

definition reportCompileWarn :: "lexer \<Rightarrow> lexer res" where
  "reportCompileWarn L = (if ld_ignoreKLC3Extension L \<or> \<not> lx_collectCompileIssues L then Inr L else raiseCompileIssue False L)"

definition count_error :: "lexer \<Rightarrow> lexer res" where
  "count_error L = rbind (reportCompileErr L) (\<lambda>L. Inr (L\<lparr>lx_errCount := lx_errCount L + 1\<rparr>))"

definition badOperands :: "lexer \<Rightarrow> lexer res" where
  "badOperands L = rbind (count_error L) (\<lambda>L. Inr (newInstLine L))"

definition unterminatedString :: "lexer \<Rightarrow> lexer res" where
  "unterminatedString L = rbind (count_error L) (\<lambda>L. Inr (newInstLine L))"

definition badLine :: "lexer \<Rightarrow> lexer res" where
  "badLine L = rbind (count_error L) (\<lambda>L. Inr (newInstLine L))"

definition lineIgnored :: "lexer \<Rightarrow> lexer res" where
  "lineIgnored L = (if lx_curPass L = 1 then reportCompileWarn L else Inr L)"

subsection \<open>Numbers and labels\<close>

definition number_text :: "string \<Rightarrow> int" where
  "number_text s = (case s of
       c # r \<Rightarrow> if c = CHR ''x'' \<or> c = CHR ''X'' then fst (strtol 16 r) else if c = CHR ''#'' then fst (strtol 10 r) else fst (strtol 10 s)
     | [] \<Rightarrow> fst (strtol 10 s))"

text \<open>\<open>None\<close> for a constant that is out of range.\<close>

definition read_number :: "string \<Rightarrow> nat \<Rightarrow> int option" where
  "read_number s bits =
     (let v = number_text s;
          v = (if v < 0x10000 \<and> 0x8000 \<le> v then v OR - 65536 else v) in
      if v < - (2 ^ (bits - 1)) \<or> v \<ge> 2 ^ bits then None
      else Some (if v AND 2 ^ (bits - 1) \<noteq> 0 then v OR NOT (2 ^ bits - 1) else v))"

definition readVal :: "string \<Rightarrow> nat \<Rightarrow> lexer \<Rightarrow> (int option \<times> lexer) res" where
  "readVal s bits L = (case read_number s bits of
       None \<Rightarrow> rbind (count_error L) (\<lambda>L. Inr (None, L))
     | Some v \<Rightarrow> Inr (Some v, L))"

definition sym_name :: "string \<Rightarrow> string" where
  "sym_name name = takeWhile (\<lambda>c. \<not> isspace c \<and> c \<noteq> CHR '':'') name"

text \<open>Symbols are compared without regard to case.\<close>

definition to_lower :: "char \<Rightarrow> char" where
  "to_lower c = (let n = of_char c :: nat in if 65 \<le> n \<and> n \<le> 90 then char_of (n + 32) else c)"

definition symbol_key :: "string \<Rightarrow> string" where
  "symbol_key s = map to_lower s"

definition addSymbol :: "string \<Rightarrow> int \<Rightarrow> lexer \<Rightarrow> bool \<times> lexer" where
  "addSymbol symbol a L =
     (if lx_lc3Symbols L (symbol_key symbol) \<noteq> None then (False, L)
      else (True, L\<lparr>lx_lc3LabelStrings := (lx_lc3LabelStrings L)(word_of_int a \<mapsto>
                      (case lx_lc3LabelStrings L (word_of_int a) of None \<Rightarrow> [symbol] | Some ls \<Rightarrow> ls @ [symbol])),
                    lx_lc3Symbols := (lx_lc3Symbols L)(symbol_key symbol \<mapsto> a)\<rparr>))"

definition findSymbol :: "string \<Rightarrow> lexer \<Rightarrow> int option" where
  "findSymbol symbol L = lx_lc3Symbols L (symbol_key symbol)"

definition findLabel :: "string \<Rightarrow> nat \<Rightarrow> lexer \<Rightarrow> (int \<times> lexer) res" where
  "findLabel optarg bits L =
     (if lx_curPass L = 1 then Inr (0, L)
      else case findSymbol (sym_name optarg) L of
          None \<Rightarrow> rbind (count_error L) (\<lambda>L. Inr (0, L))
        | Some a \<Rightarrow>
            if bits \<noteq> 16 then
              let limit = 2 ^ (bits - 1); v = a - (lx_curAddr L + 1) in
              if v < - limit \<or> v \<ge> limit then rbind (count_error L) (\<lambda>L. Inr (0, L)) else Inr (v, L)
            else Inr (a, L))"

definition foundLabel :: "string \<Rightarrow> lexer \<Rightarrow> lexer res" where
  "foundLabel lname L =
     (if lx_curPass L = 1 then
        if lx_sawORIG L = 0 then count_error L
        else case addSymbol (sym_name lname) (lx_curAddr L) L of (ok, L) \<Rightarrow> if ok then Inr L else count_error L
      else Inr L)"

definition ccode_bits :: "string \<Rightarrow> 16 word \<Rightarrow> 16 word" where
  "ccode_bits ccstr ccode =
     (let (n, s) = (case ccstr of c # r \<Rightarrow> if c = CHR ''N'' \<or> c = CHR ''n'' then (CC_N, r) else (0, ccstr) | [] \<Rightarrow> (0, []));
          (z, s) = (case s of c # r \<Rightarrow> if c = CHR ''Z'' \<or> c = CHR ''z'' then (CC_Z, r) else (0, s) | [] \<Rightarrow> (0, []));
          p = (case s of c # r \<Rightarrow> if c = CHR ''P'' \<or> c = CHR ''p'' then CC_P else 0 | [] \<Rightarrow> 0);
          cc = ccode OR n OR z OR p in
      if cc = 0 then CC_P OR CC_Z OR CC_N else cc)"

definition parseCCode :: "string \<Rightarrow> lexer \<Rightarrow> lexer" where
  "parseCCode ccstr L = L\<lparr>lx_ccode := ccode_bits ccstr (lx_ccode L)\<rparr>"

subsection \<open>Writing memory\<close>

definition next_addr :: "int \<Rightarrow> int \<Rightarrow> int" where
  "next_addr a n = (a + n) AND 0xFFFF"

definition addMemValue :: "mem_value \<Rightarrow> string \<Rightarrow> lexer \<Rightarrow> lexer" where
  "addMemValue v sourceContent L =
     (let a = word_of_int (lx_curAddr L);
          v = v\<lparr>mv_belongsToOS := lx_loadingLC3OS L,
                mv_labels := (case lx_lc3LabelStrings L a of None \<Rightarrow> mv_labels v | Some ls \<Rightarrow> ls),
                mv_sourceFile := lx_file L, mv_sourceLine := lx_curLine L, mv_sourceContent := sourceContent\<rparr> in
      L\<lparr>ld_mem := (ld_mem L)(a \<mapsto> v)\<rparr>)"

definition inst_line :: "lexer \<Rightarrow> (string \<times> lexer) res" where
  "inst_line L =
     (let line = lx_curLineContent L; code = before_comment line in
      rbind (if length code < length line then parseInstComment (drop (Suc (length code)) line) L else Inr ([], L)) (\<lambda>(content, L).
      Inr (if content \<noteq> [] then content else strip code, L)))"

definition writeInst :: "16 word \<Rightarrow> lexer \<Rightarrow> lexer res" where
  "writeInst raw L =
     rbind (if lx_curPass L = 2 then
         rbind (inst_line L) (\<lambda>(sourceContent, L).
         rbind (InstValue_alloc (word_of_int (lx_curAddr L)) (buildConstant raw)) (\<lambda>v.
         case v of None \<Rightarrow> Inl (NullDeref ''val'') | Some v \<Rightarrow> Inr (addMemValue v sourceContent L)))
       else Inr L) (\<lambda>L. Inr (L\<lparr>lx_curAddr := next_addr (lx_curAddr L) 1\<rparr>))"

definition write_data :: "data_options \<Rightarrow> string \<Rightarrow> 16 word \<Rightarrow> lexer \<Rightarrow> lexer" where
  "write_data options sourceContent w L = addMemValue
     (DataValue_alloc (word_of_int (lx_curAddr L)) (Some (buildConstant w)) (do_readOnly options) (do_uninitialized options)) sourceContent L"

definition writeFILL :: "16 word \<Rightarrow> lexer \<Rightarrow> lexer res" where
  "writeFILL w L =
     rbind (if lx_curPass L = 2 then
         rbind (preProcessDataLine L) (\<lambda>(sourceContent, options, L).
         if do_asSymbolic options \<noteq> [] then
           rbind (defineMemSymbol (do_asSymbolic options) (do_readOnly options) (do_uninitialized options) L) (\<lambda>(si, L).
           if si_size si \<noteq> 1 then reportKLC3ErrExit ''Symbolic variable on .FILL should have size 1'' else Inr L)
         else Inr (write_data options sourceContent w L))
       else Inr L) (\<lambda>L. Inr (L\<lparr>lx_curAddr := next_addr (lx_curAddr L) 1\<rparr>))"

text \<open>A \<open>char\<close> is signed.\<close>

definition char_word :: "char \<Rightarrow> 16 word" where
  "char_word c = word_of_int (signed_take_bit 7 (of_char c))"

definition escape_word :: "char \<Rightarrow> 16 word" where
  "escape_word c =
     (if c = CHR ''a'' then 7 else if c = CHR ''b'' then 8 else if c = CHR ''e'' then 27 else if c = CHR ''f'' then 12 else if c = CHR ''n'' then 10
      else if c = CHR ''r'' then 13 else if c = CHR ''t'' then 9 else if c = CHR ''v'' then 11 else char_word c)"

text \<open>The characters up to the quotation mark that ends the string, and the number of line breaks among them.\<close>

fun string_words :: "string \<Rightarrow> 16 word list \<times> int" where
  "string_words [] = ([], 0)"
| "string_words (c # s) =
     (if c = CHR 0x22 then ([], 0)
      else if c = CHR 0x5C then (case s of [] \<Rightarrow> ([], 0) | d # r \<Rightarrow> (case string_words r of (ws, n) \<Rightarrow> (escape_word d # ws, n)))
      else (case string_words s of (ws, n) \<Rightarrow> (char_word c # ws, if c = CHR 0x0A then n + 1 else n)))"

text \<open>Consecutive cells; \<open>addMemValue\<close> relies on \<open>curAddr\<close>, which moves along.\<close>

primrec write_cells :: "data_options \<Rightarrow> string \<Rightarrow> 16 word list \<Rightarrow> lexer \<Rightarrow> lexer" where
  "write_cells options sourceContent [] L = L"
| "write_cells options sourceContent (w # ws) L =
     (let L = write_data options sourceContent w L in write_cells options sourceContent ws (L\<lparr>lx_curAddr := next_addr (lx_curAddr L) 1\<rparr>))"

definition writeSTRINGZ :: "string \<Rightarrow> lexer \<Rightarrow> lexer res" where
  "writeSTRINGZ o1 L = (case string_words (tl o1) of (ws, n) \<Rightarrow>
     let ws = ws @ [0]; L = L\<lparr>lx_curLine := lx_curLine L + n\<rparr> in
     if lx_curPass L = 2 then
       rbind (preProcessDataLine L) (\<lambda>(sourceContent, options, L).
       if do_asSymbolic options \<noteq> [] then reportKLC3ErrExit ''Do not use .STRINGZ for symbolic variable''
       else Inr (write_cells options sourceContent ws L))
     else Inr (L\<lparr>lx_curAddr := next_addr (lx_curAddr L) (int (length ws))\<rparr>))"

definition writeBLKW :: "int \<Rightarrow> lexer \<Rightarrow> lexer res" where
  "writeBLKW count L =
     (if lx_curPass L = 2 then
        rbind (preProcessDataLine L) (\<lambda>(sourceContent, options, L).
        if do_asSymbolic options \<noteq> [] then
          rbind (defineMemSymbol (do_asSymbolic options) (do_readOnly options) (do_uninitialized options) L) (\<lambda>(si, L).
          if uint (si_size si) \<noteq> count then reportKLC3ErrExit ''Symbolic variable size does not match .BLKW size''
          else Inr (L\<lparr>lx_curAddr := next_addr (lx_curAddr L) count\<rparr>))
        else Inr (write_cells options sourceContent (replicate (nat count) 0) L))
      else Inr (L\<lparr>lx_curAddr := next_addr (lx_curAddr L) count\<rparr>))"

subsection \<open>Instructions\<close>

definition after_comma :: "string \<Rightarrow> string option" where
  "after_comma s = (case dropWhile (\<lambda>c. c \<noteq> CHR '','') s of [] \<Rightarrow> None | _ # r \<Rightarrow> Some (dropWhile isspace r))"

definition reg_digit :: "string option \<Rightarrow> int res" where
  "reg_digit o1 = (case o1 of None \<Rightarrow> Inl (NullDeref ''operand'') | Some s \<Rightarrow> Inr (case drop 1 s of [] \<Rightarrow> - 48 | c # _ \<Rightarrow> of_char c - 48))"

definition operand_text :: "string option \<Rightarrow> string res" where
  "operand_text s = (case s of None \<Rightarrow> Inl (NullDeref ''operand'') | Some s \<Rightarrow> Inr s)"

text \<open>The value of a constant that is out of range stays what it was.\<close>

definition read_into :: "int \<Rightarrow> string option \<Rightarrow> nat \<Rightarrow> lexer \<Rightarrow> (int \<times> lexer) res" where
  "read_into old s bits L = rbind (operand_text s) (\<lambda>s. rbind (readVal s bits L) (\<lambda>(v, L). Inr (case v of None \<Rightarrow> old | Some v \<Rightarrow> v, L)))"

definition label_into :: "string option \<Rightarrow> nat \<Rightarrow> lexer \<Rightarrow> (int \<times> lexer) res" where
  "label_into s bits L = rbind (operand_text s) (\<lambda>s. findLabel s bits L)"

text \<open>The numeric operand of the line, as the switch over the opcodes reads it.\<close>

definition operand_val :: "op_code \<Rightarrow> operand_type \<Rightarrow> int \<Rightarrow> string \<Rightarrow> string option \<Rightarrow> string option \<Rightarrow> lexer \<Rightarrow> (int \<times> lexer) res" where
  "operand_val op operands junk o1 o2 o3 L =
     rbind (if PP_I2 \<in> PRE_PARSE operands then read_into junk o2 9 L
            else if PP_L2 \<in> PRE_PARSE operands then label_into o2 9 L else Inr (junk, L)) (\<lambda>(v, L).
     if op = OP_ADD \<or> op = OP_AND then (if operands = O_RRI then read_into v o3 5 L else Inr (v, L))
     else if op = OP_LDR \<or> op = OP_STR then read_into v o3 6 L
     else if op = OP_BR then (if operands = O_I then read_into v (Some o1) 9 L else label_into (Some o1) 9 L)
     else if op = OP_JSR then (if operands = O_I then read_into v (Some o1) 11 L else label_into (Some o1) 11 L)
     else if op = OP_TRAP then read_into v (Some o1) 8 L
     else if op = OP_FILL then
       (if operands = O_I then rbind (read_into v (Some o1) 16 L) (\<lambda>(v, L). Inr (v AND 0xFFFF, L)) else label_into (Some o1) 16 L)
     else if op = OP_BLKW then rbind (read_into v (Some o1) 16 L) (\<lambda>(v, L). Inr (v AND 0xFFFF, L))
     else Inr (v, L))"

definition encode :: "op_code \<Rightarrow> operand_type \<Rightarrow> 16 word \<Rightarrow> 16 word \<Rightarrow> 16 word \<Rightarrow> 16 word \<Rightarrow> 16 word \<Rightarrow> 16 word" where
  "encode op operands ccode r1 r2 r3 v = (case op of
       OP_ADD \<Rightarrow> if operands = O_RRI then 0x1020 OR push_bit 9 r1 OR push_bit 6 r2 OR (v AND 0x1F) else 0x1000 OR push_bit 9 r1 OR push_bit 6 r2 OR r3
     | OP_AND \<Rightarrow> if operands = O_RRI then 0x5020 OR push_bit 9 r1 OR push_bit 6 r2 OR (v AND 0x1F) else 0x5000 OR push_bit 9 r1 OR push_bit 6 r2 OR r3
     | OP_BR \<Rightarrow> ccode OR (v AND 0x1FF)
     | OP_JMP \<Rightarrow> 0xC000 OR push_bit 6 r1
     | OP_JSR \<Rightarrow> 0x4800 OR (v AND 0x7FF)
     | OP_JSRR \<Rightarrow> 0x4000 OR push_bit 6 r1
     | OP_LD \<Rightarrow> 0x2000 OR push_bit 9 r1 OR (v AND 0x1FF)
     | OP_LDI \<Rightarrow> 0xA000 OR push_bit 9 r1 OR (v AND 0x1FF)
     | OP_LDR \<Rightarrow> 0x6000 OR push_bit 9 r1 OR push_bit 6 r2 OR (v AND 0x3F)
     | OP_LEA \<Rightarrow> 0xE000 OR push_bit 9 r1 OR (v AND 0x1FF)
     | OP_NOT \<Rightarrow> 0x903F OR push_bit 9 r1 OR push_bit 6 r2
     | OP_RTI \<Rightarrow> 0x8000
     | OP_ST \<Rightarrow> 0x3000 OR push_bit 9 r1 OR (v AND 0x1FF)
     | OP_STI \<Rightarrow> 0xB000 OR push_bit 9 r1 OR (v AND 0x1FF)
     | OP_STR \<Rightarrow> 0x7000 OR push_bit 9 r1 OR push_bit 6 r2 OR (v AND 0x3F)
     | OP_TRAP \<Rightarrow> 0xF000 OR (v AND 0xFF)
     | OP_GETC \<Rightarrow> 0xF020 | OP_HALT \<Rightarrow> 0xF025 | OP_IN \<Rightarrow> 0xF023 | OP_OUT \<Rightarrow> 0xF021 | OP_PUTS \<Rightarrow> 0xF022 | OP_PUTSP \<Rightarrow> 0xF024
     | OP_RET \<Rightarrow> 0xC1C0
     | _ \<Rightarrow> 0)"

definition write_op :: "op_code \<Rightarrow> operand_type \<Rightarrow> int \<Rightarrow> int \<Rightarrow> int \<Rightarrow> int \<Rightarrow> string \<Rightarrow> lexer \<Rightarrow> lexer res" where
  "write_op op operands r1 r2 r3 v o1 L =
     (if op = OP_FILL then writeFILL (word_of_int v) L
      else if op = OP_STRINGZ then writeSTRINGZ o1 L
      else if op = OP_BLKW then writeBLKW v L
      else if op = OP_NONE \<or> op = OP_END \<or> op = OP_ORIG then Inr L
      else writeInst (encode op operands (lx_ccode L) (word_of_int r1) (word_of_int r2) (word_of_int r3) (word_of_int v)) L)"

definition orig_line :: "string \<Rightarrow> lexer \<Rightarrow> lexer res" where
  "orig_line o1 L =
     rbind (if lx_sawORIG L = 0 then
         rbind (readVal o1 16 L) (\<lambda>(v, L).
         let a = (case v of None \<Rightarrow> 0x3000 | Some v \<Rightarrow> v) in
         Inr (L\<lparr>lx_curAddr := a, lx_fileStartAddr := word_of_int a, lx_sawORIG := 1\<rparr>))
       else if lx_sawORIG L = 1 then rbind (reportCompileErr L) (\<lambda>L. Inr (L\<lparr>lx_sawORIG := 2\<rparr>))
       else Inr L) (\<lambda>L. Inr (newInstLine L))"

definition pre_parse_reg :: "int \<Rightarrow> bool \<Rightarrow> string option \<Rightarrow> int res" where
  "pre_parse_reg junk b s = (if b then reg_digit s else Inr junk)"

definition generateInstruction :: "int \<Rightarrow> operand_type \<Rightarrow> string \<Rightarrow> lexer \<Rightarrow> lexer res" where
  "generateInstruction junk operands opstr L =
     (let op = lx_op L in
      if \<not> format_ok op operands then badOperands L
      else
        let o1 = dropWhile isspace opstr; o2 = after_comma o1; o3 = (case o2 of None \<Rightarrow> None | Some s \<Rightarrow> after_comma s) in
        if op = OP_ORIG then orig_line o1 L
        else if lx_sawORIG L = 0 then rbind (count_error L) (\<lambda>L. Inr ((newInstLine L)\<lparr>lx_sawORIG := 2\<rparr>))
        else
          rbind (pre_parse_reg junk (PP_R1 \<in> PRE_PARSE operands) (Some o1)) (\<lambda>r1.
          rbind (pre_parse_reg junk (PP_R2 \<in> PRE_PARSE operands) o2) (\<lambda>r2.
          rbind (pre_parse_reg junk (PP_R3 \<in> PRE_PARSE operands) o3) (\<lambda>r3.
          rbind (operand_val op operands junk o1 o2 o3 L) (\<lambda>(v, L).
          rbind (write_op op operands r1 r2 r3 v o1 L) (\<lambda>L. Inr (newInstLine L)))))))"

subsection \<open>The scanner's rules and the two passes\<close>

datatype lex_event =
    Ev_Op op_code string | Ev_End string | Ev_Operands operand_type string | Ev_Comment string | Ev_Blank | Ev_Label string
  | Ev_Unterminated | Ev_BadOperands | Ev_BadLine | Ev_Ignored

definition lex_action :: "int \<Rightarrow> lex_event \<Rightarrow> lexer \<Rightarrow> lexer res" where
  "lex_action junk ev L = (case ev of
       Ev_Op op yytext \<Rightarrow>
         let L = (appendLineContent yytext L)\<lparr>lx_op := op\<rparr> in Inr (if op = OP_BR then parseCCode (drop 2 yytext) L else L)
     | Ev_End yytext \<Rightarrow> Inr ((appendLineContent yytext L)\<lparr>lx_sawEND := True\<rparr>)
     | Ev_Operands operands yytext \<Rightarrow> generateInstruction junk operands yytext (appendLineContent yytext L)
     | Ev_Comment yytext \<Rightarrow> rbind (parseComment yytext (appendLineContent yytext L)) (\<lambda>L. Inr (newInstLine L))
     | Ev_Blank \<Rightarrow> Inr (newInstLine L)
     | Ev_Label yytext \<Rightarrow> foundLabel yytext L
     | Ev_Unterminated \<Rightarrow> unterminatedString L
     | Ev_BadOperands \<Rightarrow> badOperands L
     | Ev_BadLine \<Rightarrow> badLine L
     | Ev_Ignored \<Rightarrow> lineIgnored L)"

text \<open>After text behind \<open>.END\<close> the scanner returns.\<close>

primrec yylex :: "int \<Rightarrow> lex_event list \<Rightarrow> lexer \<Rightarrow> lexer res" where
  "yylex junk [] L = Inr L"
| "yylex junk (ev # evs) L = rbind (lex_action junk ev L) (\<lambda>L. if ev = Ev_Ignored then Inr L else yylex junk evs L)"

definition start_pass :: "nat \<Rightarrow> lexer \<Rightarrow> lexer" where
  "start_pass p L = newInstLine (L\<lparr>lx_curPass := p, lx_curLine := 0, lx_errCount := 0, lx_sawORIG := 0, lx_sawEND := False, lx_curAddr := 0x3000\<rparr>)"

definition after_first_pass :: "lexer \<Rightarrow> lexer res" where
  "after_first_pass L =
     (if lx_sawORIG L = 0 then
        if \<not> ld_ignoreKLC3Extension L \<and> lx_sawKLC3Command L then Inr L else count_error L
      else if \<not> lx_sawEND L then count_error L
      else Inr L)"

definition add_program :: "string \<Rightarrow> bool \<Rightarrow> lexer \<Rightarrow> lexer" where
  "add_program filename isLC3OS L =
     (if \<not> isLC3OS \<and> \<not> lx_loadingInputFile L then L\<lparr>ld_loadedPrograms := ld_loadedPrograms L @ [filename]\<rparr> else L)"

definition give_up :: "string \<Rightarrow> bool \<Rightarrow> lexer \<Rightarrow> (bool \<times> lexer) res" where
  "give_up filename isLC3OS L = (if lx_collectCompileIssues L then Inr (False, add_program filename isLC3OS L) else Inl (ProgExit ''compile errors''))"

definition start_load :: "(string \<Rightarrow> string) \<Rightarrow> string \<Rightarrow> bool \<Rightarrow> bool \<Rightarrow> lexer \<Rightarrow> lexer" where
  "start_load base filename isLC3OS collectCompileIssues L =
     L\<lparr>lx_loadingLC3OS := isLC3OS, lx_file := base filename, lx_collectCompileIssues := collectCompileIssues, lx_dataDefaultReadOnly := False,
       lx_dataDefaultUninitialized := False, lx_loadingInputFile := False, lx_lc3Symbols := Map.empty, lx_lc3LabelStrings := Map.empty,
       lx_sawKLC3Command := False\<rparr>"

definition lexer_load :: "int \<Rightarrow> (string \<Rightarrow> string) \<Rightarrow> lex_event list \<Rightarrow> string \<Rightarrow> bool \<Rightarrow> bool \<Rightarrow> lexer \<Rightarrow> (bool \<times> lexer) res" where
  "lexer_load junk base events filename isLC3OS collectCompileIssues L =
     rbind (yylex junk events (start_pass 1 (start_load base filename isLC3OS collectCompileIssues L))) (\<lambda>L.
     rbind (after_first_pass L) (\<lambda>L.
     if lx_errCount L > 0 then give_up filename isLC3OS L
     else
       rbind (yylex junk events (start_pass 2 L)) (\<lambda>L.
       if lx_errCount L > 0 then give_up filename isLC3OS L
       else Inr (True, add_program filename isLC3OS (L\<lparr>ld_initPC := lx_fileStartAddr L\<rparr>)))))"

definition loader_load :: "int \<Rightarrow> (string \<Rightarrow> string) \<Rightarrow> addr \<Rightarrow> lex_event list \<Rightarrow> string \<Rightarrow> bool \<Rightarrow> bool \<Rightarrow> bool \<Rightarrow> loader \<Rightarrow> (bool \<times> loader) res" where
  "loader_load junk base junk_addr events filename isLC3OS allowInputFile collectCompileIssues l =
     rbind (lexer_load junk base events filename isLC3OS collectCompileIssues (Lexer l allowInputFile junk_addr)) (\<lambda>(ok, L). Inr (ok, loader.truncate L))"

definition loadLC3OS :: "int \<Rightarrow> (string \<Rightarrow> string) \<Rightarrow> addr \<Rightarrow> lex_event list \<Rightarrow> string \<Rightarrow> loader \<Rightarrow> loader res" where
  "loadLC3OS junk base junk_addr events filename l =
     rbind (loader_load junk base junk_addr events filename True False False l) (\<lambda>(_, l). Inr (l\<lparr>ld_initPC := 0x200\<rparr>))"

subsection \<open>Encoding and decoding\<close>

lemma take_bit_bounds:
  fixes a :: "16 word"
  assumes "take_bit k a = a"
  shows "bit a n \<Longrightarrow> n < k"
  using assms by (metis bit_take_bit_iff)

lemma word_parts:
  fixes base a b low :: "16 word"
  assumes "take_bit 3 a = a" "take_bit 3 b = b" "take_bit 12 base = 0" "take_bit 6 low = low"
  defines "w \<equiv> base OR push_bit 9 a OR push_bit 6 b OR low"
  shows "drop_bit 12 w = drop_bit 12 base" "take_bit 3 (drop_bit 9 w) = a" "take_bit 3 (drop_bit 6 w) = b" "take_bit 6 w = low"
proof -
  note r = take_bit_bounds [OF assms(1)] take_bit_bounds [OF assms(2)] take_bit_bounds [OF assms(4)]
  have z: "\<not> bit base n" if "n < 12" for n using arg_cong [OF assms(3), of "\<lambda>x. bit x n"] that by (simp add: bit_take_bit_iff)
  have w: "bit w n \<longleftrightarrow> n < 16 \<and> (bit base n \<or> 9 \<le> n \<and> bit a (n - 9) \<or> 6 \<le> n \<and> bit b (n - 6) \<or> bit low n)" for n
    unfolding w_def by (auto simp: bit_or_iff bit_push_bit_iff dest: bit_imp_le_length)
  show "drop_bit 12 w = drop_bit 12 base"
    by (rule bit_eqI) (use r in \<open>fastforce simp: bit_drop_bit_eq w dest: bit_imp_le_length\<close>)
  show "take_bit 3 (drop_bit 9 w) = a"
    by (rule bit_eqI) (use r z in \<open>fastforce simp: bit_drop_bit_eq bit_take_bit_iff w\<close>)
  show "take_bit 3 (drop_bit 6 w) = b"
    by (rule bit_eqI) (use r z in \<open>fastforce simp: bit_drop_bit_eq bit_take_bit_iff w\<close>)
  show "take_bit 6 w = low"
    by (rule bit_eqI) (use r z in \<open>fastforce simp: bit_take_bit_iff w\<close>)
qed

lemma word_parts9:
  fixes base a low :: "16 word"
  assumes "take_bit 3 a = a" "take_bit 12 base = 0" "take_bit 9 low = low"
  defines "w \<equiv> base OR push_bit 9 a OR low"
  shows "drop_bit 12 w = drop_bit 12 base" "take_bit 3 (drop_bit 9 w) = a" "take_bit 9 w = low"
proof -
  note r = take_bit_bounds [OF assms(1)] take_bit_bounds [OF assms(3)]
  have z: "\<not> bit base n" if "n < 12" for n using arg_cong [OF assms(2), of "\<lambda>x. bit x n"] that by (simp add: bit_take_bit_iff)
  have w: "bit w n \<longleftrightarrow> n < 16 \<and> (bit base n \<or> 9 \<le> n \<and> bit a (n - 9) \<or> bit low n)" for n
    unfolding w_def by (auto simp: bit_or_iff bit_push_bit_iff dest: bit_imp_le_length)
  show "drop_bit 12 w = drop_bit 12 base"
    by (rule bit_eqI) (use r in \<open>fastforce simp: bit_drop_bit_eq w dest: bit_imp_le_length\<close>)
  show "take_bit 3 (drop_bit 9 w) = a"
    by (rule bit_eqI) (use r z in \<open>fastforce simp: bit_drop_bit_eq bit_take_bit_iff w\<close>)
  show "take_bit 9 w = low"
    by (rule bit_eqI) (use r z in \<open>fastforce simp: bit_take_bit_iff w\<close>)
qed

text \<open>The instruction a line stands for, the width of its numeric operand, the fields the decoder reads, and what the line says they are.\<close>

fun inst_of :: "op_code \<Rightarrow> operand_type \<Rightarrow> InstID option" where
  "inst_of OP_ADD t = Some (if t = O_RRI then I_ADDi else I_ADD)" | "inst_of OP_AND t = Some (if t = O_RRI then I_ANDi else I_AND)"
| "inst_of OP_BR t = Some I_BR" | "inst_of OP_JMP t = Some I_JMP" | "inst_of OP_JSR t = Some I_JSR" | "inst_of OP_JSRR t = Some I_JSRR"
| "inst_of OP_LD t = Some I_LD" | "inst_of OP_LDI t = Some I_LDI" | "inst_of OP_LDR t = Some I_LDR" | "inst_of OP_LEA t = Some I_LEA"
| "inst_of OP_NOT t = Some I_NOT" | "inst_of OP_RTI t = Some I_RTI" | "inst_of OP_ST t = Some I_ST" | "inst_of OP_STI t = Some I_STI"
| "inst_of OP_STR t = Some I_STR" | "inst_of OP_TRAP t = Some I_TRAP" | "inst_of OP_GETC t = Some I_TRAP" | "inst_of OP_HALT t = Some I_TRAP"
| "inst_of OP_IN t = Some I_TRAP" | "inst_of OP_OUT t = Some I_TRAP" | "inst_of OP_PUTS t = Some I_TRAP" | "inst_of OP_PUTSP t = Some I_TRAP"
| "inst_of OP_RET t = Some I_JMP" | "inst_of _ t = None"

fun operand_bits :: "InstID \<Rightarrow> nat" where
  "operand_bits I_ADDi = 5" | "operand_bits I_ANDi = 5" | "operand_bits I_LDR = 6" | "operand_bits I_STR = 6" | "operand_bits I_JSR = 11"
| "operand_bits I_TRAP = 8" | "operand_bits _ = 9"

fun read_fields :: "InstID \<Rightarrow> 16 word \<Rightarrow> nat list \<times> 16 word option" where
  "read_fields I_ADD w = ([dr_of w, sr1_of w, sr2_of w], None)" | "read_fields I_AND w = ([dr_of w, sr1_of w, sr2_of w], None)"
| "read_fields I_ADDi w = ([dr_of w, sr1_of w], Some (imm5_of w))" | "read_fields I_ANDi w = ([dr_of w, sr1_of w], Some (imm5_of w))"
| "read_fields I_NOT w = ([dr_of w, sr1_of w], None)" | "read_fields I_BR w = ([cc_of w], Some (imm9_of w))"
| "read_fields I_JMP w = ([sr1_of w], None)" | "read_fields I_JSRR w = ([sr1_of w], None)" | "read_fields I_JSR w = ([], Some (imm11_of w))"
| "read_fields I_LDR w = ([dr_of w, sr1_of w], Some (imm6_of w))" | "read_fields I_STR w = ([dr_of w, sr1_of w], Some (imm6_of w))"
| "read_fields I_TRAP w = ([], Some (vec8_of w))" | "read_fields I_RTI w = ([], None)" | "read_fields _ w = ([dr_of w], Some (imm9_of w))"

fun line_fields :: "op_code \<Rightarrow> operand_type \<Rightarrow> nat \<Rightarrow> nat \<Rightarrow> nat \<Rightarrow> nat \<Rightarrow> 16 word \<Rightarrow> nat list \<times> 16 word option" where
  "line_fields OP_ADD t cc r1 r2 r3 v = (if t = O_RRI then ([r1, r2], Some v) else ([r1, r2, r3], None))"
| "line_fields OP_AND t cc r1 r2 r3 v = (if t = O_RRI then ([r1, r2], Some v) else ([r1, r2, r3], None))"
| "line_fields OP_NOT t cc r1 r2 r3 v = ([r1, r2], None)"
| "line_fields OP_BR t cc r1 r2 r3 v = ([cc], Some v)"
| "line_fields OP_JMP t cc r1 r2 r3 v = ([r1], None)" | "line_fields OP_JSRR t cc r1 r2 r3 v = ([r1], None)" | "line_fields OP_RET t cc r1 r2 r3 v = ([7], None)"
| "line_fields OP_JSR t cc r1 r2 r3 v = ([], Some v)"
| "line_fields OP_LDR t cc r1 r2 r3 v = ([r1, r2], Some v)" | "line_fields OP_STR t cc r1 r2 r3 v = ([r1, r2], Some v)"
| "line_fields OP_TRAP t cc r1 r2 r3 v = ([], Some (take_bit 8 v))"
| "line_fields OP_GETC t cc r1 r2 r3 v = ([], Some 0x20)" | "line_fields OP_OUT t cc r1 r2 r3 v = ([], Some 0x21)"
| "line_fields OP_PUTS t cc r1 r2 r3 v = ([], Some 0x22)" | "line_fields OP_IN t cc r1 r2 r3 v = ([], Some 0x23)"
| "line_fields OP_PUTSP t cc r1 r2 r3 v = ([], Some 0x24)" | "line_fields OP_HALT t cc r1 r2 r3 v = ([], Some 0x25)"
| "line_fields OP_RTI t cc r1 r2 r3 v = ([], None)"
| "line_fields _ t cc r1 r2 r3 v = ([r1], Some v)"

lemma three_bits: "take_bit 3 (word_of_nat r :: 16 word) = word_of_nat r" "unat (word_of_nat r :: 16 word) = r" if "r < 8"
  using that by (simp_all add: take_bit_of_nat take_bit_nat_eq_self unat_of_nat)

lemma cc_field: "cc_of w = unat (take_bit 3 (drop_bit 9 w))"
proof -
  have "drop_bit 9 (w AND 0x0E00) = take_bit 3 (drop_bit 9 w)"
    by (simp add: drop_bit_and flip: take_bit_mask_numerals)
  then show ?thesis by (simp add: cc_of_def)
qed

lemma low_bits:
  fixes w low :: "16 word"
  assumes "take_bit k w = low" "take_bit k m = m"
  shows "w AND m = low AND m"
proof -
  have "w AND take_bit k m = take_bit k w AND take_bit k m" by (rule bit_eqI) (auto simp: bit_and_iff bit_take_bit_iff)
  then show ?thesis using assms by simp
qed

lemma low_bit: "bit w n \<longleftrightarrow> bit low n" if "take_bit k w = low" "n < k" for w low :: "16 word"
  using that bit_take_bit_iff [of k w n] by simp

lemma low_sub: "take_bit j w = take_bit j low" if "take_bit k w = low" "j \<le> k" for w low :: "16 word"
  using that take_bit_take_bit [of j k w] by (simp add: min_def)

lemma reads_signed:
  fixes w v :: "16 word"
  assumes "0 < k" "take_bit k w = take_bit k v" "signed_take_bit (k - 1) v = v"
  shows "signed_take_bit (k - 1) w = v"
  using signed_take_bit_eq_iff_take_bit_eq [of "k - 1" w v] assms by simp

lemma encode_reg:
  fixes base low :: "16 word"
  assumes "r1 < 8" "r2 < 8" "take_bit 12 base = 0" "take_bit 6 low = low"
    and w: "w = base OR push_bit 9 (word_of_nat r1) OR push_bit 6 (word_of_nat r2) OR low"
  shows "opcode w = drop_bit 12 base" "dr_of w = r1" "sr1_of w = r2" "take_bit 6 w = low" "sr2_of w = unat (take_bit 3 low)"
proof -
  note p = word_parts [OF three_bits(1) [OF assms(1)] three_bits(1) [OF assms(2)] assms(3,4), folded w]
  show "opcode w = drop_bit 12 base" "dr_of w = r1" "sr1_of w = r2" "take_bit 6 w = low"
    using p three_bits(2) assms(1,2) by (simp_all add: opcode_def dr_of_def sr1_of_def take_bit_mask_numerals)
  show "sr2_of w = unat (take_bit 3 low)"
    using low_sub [OF p(4), of 3] by (simp add: sr2_of_def take_bit_mask_numerals)
qed

lemma encode_offset9:
  fixes base v :: "16 word"
  assumes "r < 8" "take_bit 12 base = 0" "signed_take_bit 8 v = v"
    and w: "w = base OR push_bit 9 (word_of_nat r) OR (v AND 0x1FF)"
  shows "opcode w = drop_bit 12 base" "dr_of w = r" "cc_of w = r" "imm9_of w = v"
proof -
  have "take_bit 9 (v AND 0x1FF) = v AND 0x1FF" by (simp add: take_bit_mask_numerals)
  note p = word_parts9 [OF three_bits(1) [OF assms(1)] assms(2) this, folded w]
  show "opcode w = drop_bit 12 base" "dr_of w = r" "cc_of w = r"
    using p three_bits(2) assms(1) by (simp_all add: opcode_def dr_of_def cc_field take_bit_mask_numerals)
  show "imm9_of w = v"
    using reads_signed [of 9 w v] p(3) assms(3) by (simp add: imm_sext take_bit_mask_numerals)
qed

lemma encode_low12:
  fixes base low :: "16 word"
  assumes "take_bit 12 base = 0" "take_bit 12 low = low" "w = base OR low"
  shows "opcode w = drop_bit 12 base" "take_bit 12 w = low"
proof -
  have "drop_bit 12 low = 0" using arg_cong [OF assms(2), of "drop_bit 12"] by (simp add: drop_bit_take_bit)
  then show "opcode w = drop_bit 12 base" using assms(3) by (simp add: opcode_def drop_bit_or)
  show "take_bit 12 w = low" using assms by (simp add: take_bit_or)
qed

lemma encode_immediate:
  assumes "r1 < 8" "r2 < 8" "take_bit 12 base = (0 :: 16 word)" "signed_take_bit 4 v = v"
    and w: "w = (base OR 0x20) OR push_bit 9 (word_of_nat r1) OR push_bit 6 (word_of_nat r2) OR (v AND 0x1F)"
  shows "opcode w = drop_bit 12 base" "bit w 5" "dr_of w = r1" "sr1_of w = r2" "imm5_of w = v"
proof -
  let ?low = "0x20 OR (v AND 0x1F)"
  have low: "take_bit 6 ?low = ?low" by (rule bit_eqI) (auto simp: take_bit_mask_numerals take_bit_or)
  have "w = base OR push_bit 9 (word_of_nat r1) OR push_bit 6 (word_of_nat r2) OR ?low" by (simp only: w or.assoc or.left_commute)
  note p = encode_reg [OF assms(1-3) low this]
  show "opcode w = drop_bit 12 base" "dr_of w = r1" "sr1_of w = r2" using p by simp_all
  show "bit w 5" using low_bit [OF p(4), of 5] by (simp add: bit_or_iff)
  have "take_bit 5 w = take_bit 5 v" using low_sub [OF p(4), of 5] by (simp add: take_bit_or take_bit_mask_numerals)
  then show "imm5_of w = v" using reads_signed [of 5 w v] assms(4) by (simp add: imm_sext)
qed

lemma encode_registers:
  assumes "r1 < 8" "r2 < 8" "r3 < 8" "take_bit 12 base = (0 :: 16 word)"
    and w: "w = base OR push_bit 9 (word_of_nat r1) OR push_bit 6 (word_of_nat r2) OR word_of_nat r3"
  shows "opcode w = drop_bit 12 base" "\<not> bit w 5" "w AND 0x18 = 0" "dr_of w = r1" "sr1_of w = r2" "sr2_of w = r3"
proof -
  note t = three_bits [OF assms(3)]
  have low: "take_bit 6 (word_of_nat r3 :: 16 word) = word_of_nat r3" using take_bit_take_bit [of 6 3 "word_of_nat r3 :: 16 word"] t(1) by simp
  note p = encode_reg [OF assms(1,2,4) low w]
  show "opcode w = drop_bit 12 base" "dr_of w = r1" "sr1_of w = r2" using p by simp_all
  show "sr2_of w = r3" using p(5) t by simp
  show "\<not> bit w 5" using low_bit [OF p(4), of 5] take_bit_bounds [OF t(1), of 5] by auto
  have "word_of_nat r3 AND 0x18 = (0 :: 16 word)" 
    by (subst t(1)[symmetric]) (simp add: take_bit_mask_numerals(6)[symmetric] and.assoc)
  then show "w AND 0x18 = 0" using low_bits [OF p(4), of "0x18"] by simp
qed

lemma encode_offset6:
  assumes "r1 < 8" "r2 < 8" "take_bit 12 base = (0 :: 16 word)" "signed_take_bit 5 v = v"
    and w: "w = base OR push_bit 9 (word_of_nat r1) OR push_bit 6 (word_of_nat r2) OR (v AND 0x3F)"
  shows "opcode w = drop_bit 12 base" "dr_of w = r1" "sr1_of w = r2" "imm6_of w = v"
proof -
  have m: "v AND 0x3F = take_bit 6 v" by (simp add: take_bit_eq_mask mask_eq_exp_minus_1)
  then have low: "take_bit 6 (v AND 0x3F) = v AND 0x3F" by simp
  note p = encode_reg [OF assms(1-3) low w]
  show "opcode w = drop_bit 12 base" "dr_of w = r1" "sr1_of w = r2" using p by simp_all
  show "imm6_of w = v" using reads_signed [of 6 w v] p(4) m assms(4) by (simp add: imm_sext)
qed

lemma encode_JSR:
  assumes "signed_take_bit 10 v = v" and w: "w = 0x4800 OR (v AND 0x7FF)"
  shows "opcode w = 4" "bit w 11" "imm11_of w = v"
proof -
  let ?low = "0x800 OR (v AND 0x7FF) :: 16 word"
  have m: "v AND 0x7FF = take_bit 11 v" by (simp add: take_bit_eq_mask mask_eq_exp_minus_1)
  then have low: "take_bit 12 ?low = ?low" by (simp add: take_bit_or)
  have "w = 0x4000 OR ?low" by (simp add: w flip: or.assoc)
  note p = encode_low12 [OF _ low this]
  show "opcode w = 4" using p(1) by simp
  show "bit w 11" using low_bit [OF p(2), of 11] by (simp add: bit_or_iff)
  have "take_bit 11 w = take_bit 11 v" using low_sub [OF p(2), of 11] by (simp add: take_bit_or m)
  then show "imm11_of w = v" using reads_signed [of 11 w v] assms(1) by (simp add: imm_sext)
qed

lemma encode_TRAP:
  assumes w: "w = 0xF000 OR (v AND 0xFF)"
  shows "opcode w = 15" "w AND 0xF00 = 0" "vec8_of w = take_bit 8 v"
proof -
  have low: "take_bit 12 (v AND 0xFF) = v AND 0xFF" by (simp add: take_bit_mask_numerals)
  note p = encode_low12 [OF _ low w]
  show "opcode w = 15" using p(1) by simp
  show "w AND 0xF00 = 0" using low_bits [OF p(2), of "0xF00"] by (simp add: and.assoc)
  show "vec8_of w = take_bit 8 v" using low_sub [OF p(2), of 8] by (simp add: vec8_of_def take_bit_mask_numerals)
qed

lemma encode_JMP:
  assumes "r < 8" "take_bit 12 base = 0" and w: "w = base OR push_bit 6 (word_of_nat r :: 16 word)"
  shows "opcode w = drop_bit 12 base" "\<not> bit w 11" "w AND 0xE3F = 0" "w AND 0x63F = 0" "sr1_of w = r"
proof -
  have "w = base OR push_bit 9 (word_of_nat 0) OR push_bit 6 (word_of_nat r) OR 0" by (simp add: w)
  note p = encode_reg [OF _ assms(1,2) _ this]
  show "opcode w = drop_bit 12 base" "sr1_of w = r" using p by simp_all
  have low: "take_bit 12 (push_bit 6 (word_of_nat r :: 16 word)) = push_bit 6 (word_of_nat r)"
    using take_bit_nat_eq_self [of r 6] assms(1) by (simp add: take_bit_push_bit take_bit_of_nat)
  note q = encode_low12(2) [OF assms(2) low w]
  have r: "r \<in> {0, 1, 2, 3, 4, 5, 6, 7}" using assms(1) by auto
  then have "push_bit 6 (word_of_nat r :: 16 word) AND 0xE3F = 0" by auto
  then show e: "w AND 0xE3F = 0" using low_bits [OF q, of "0xE3F"] by simp
  show "\<not> bit w 11" "w AND 0x63F = 0" using e by (simp_all add: and_split_E3F)
qed

lemma encode_NOT:
  assumes "r1 < 8" "r2 < 8" and w: "w = 0x903F OR push_bit 9 (word_of_nat r1) OR push_bit 6 (word_of_nat r2)"
  shows "opcode w = 9" "w AND 0x3F = 0x3F" "dr_of w = r1" "sr1_of w = r2"
proof -
  have "w = (0x9000 OR 0x3F) OR push_bit 9 (word_of_nat r1) OR push_bit 6 (word_of_nat r2)" by (simp add: w)
  then have "w = 0x9000 OR push_bit 9 (word_of_nat r1) OR push_bit 6 (word_of_nat r2) OR 0x3F" by (simp only: or.assoc or.left_commute or.commute)
  note p = encode_reg [OF assms(1,2) _ _ this]
  show "opcode w = 9" "dr_of w = r1" "sr1_of w = r2" using p by simp_all
  show "w AND 0x3F = 0x3F" using low_bits [OF p(4), of "0x3F"] by simp
qed

lemma encode_decode_alu:
  assumes "r1 < 8" "r2 < 8" "r3 < 8" and op: "(op, base, i, ii) \<in> {(OP_ADD, 0x1000 :: 16 word, I_ADD, I_ADDi), (OP_AND, 0x5000, I_AND, I_ANDi)}"
    and w: "w = encode op t c (word_of_nat r1) (word_of_nat r2) (word_of_nat r3) v"
  shows "t \<noteq> O_RRI \<Longrightarrow> decode_spec w = Some i \<and> read_fields i w = ([r1, r2, r3], None)"
    and "t = O_RRI \<Longrightarrow> signed_take_bit 4 v = v \<Longrightarrow> decode_spec w = Some ii \<and> read_fields ii w = ([r1, r2], Some v)"
proof -
  have base: "take_bit 12 base = 0" using op by auto
  show "decode_spec w = Some i \<and> read_fields i w = ([r1, r2, r3], None)" if "t \<noteq> O_RRI"
  proof -
    have "w = base OR push_bit 9 (word_of_nat r1) OR push_bit 6 (word_of_nat r2) OR word_of_nat r3"
      using op that by (auto simp: w encode_def)
    note p = encode_registers [OF assms(1-3) base this]
    show ?thesis using op by (elim insertE emptyE; simp) (use p in \<open>simp_all add: decode_spec_def single_bit_numerals\<close>)
  qed
  show "decode_spec w = Some ii \<and> read_fields ii w = ([r1, r2], Some v)" if "t = O_RRI" and v: "signed_take_bit 4 v = v"
  proof -
    have "w = (base OR 0x20) OR push_bit 9 (word_of_nat r1) OR push_bit 6 (word_of_nat r2) OR (v AND 0x1F)"
      using op that by (auto simp: w encode_def)
    note p = encode_immediate [OF assms(1,2) base v this]
    show ?thesis using op by (elim insertE emptyE; simp) (use p in \<open>simp_all add: decode_spec_def single_bit_numerals\<close>)
  qed
qed

lemma encode_decode:
  assumes "inst_of op t = Some i" "cc < 8" "r1 < 8" "r2 < 8" "r3 < 8" "signed_take_bit (operand_bits i - 1) v = v"
    and w: "w = encode op t (push_bit 9 (word_of_nat cc)) (word_of_nat r1) (word_of_nat r2) (word_of_nat r3) v"
  shows "decode_spec w = Some i \<and> read_fields i w = line_fields op t cc r1 r2 r3 v"
proof (cases op)
  case OP_ADD
  with encode_decode_alu [OF assms(3-5) _ w, of "0x1000" I_ADD I_ADDi] assms(1,6) show ?thesis by (cases "t = O_RRI") simp_all
next
  case OP_AND
  with encode_decode_alu [OF assms(3-5) _ w, of "0x5000" I_AND I_ANDi] assms(1,6) show ?thesis by (cases "t = O_RRI") simp_all
next
  case OP_BR
  then have "w = 0 OR push_bit 9 (word_of_nat cc) OR (v AND 0x1FF)" by (simp add: w encode_def)
  with encode_offset9 [OF assms(2) _ _ this] OP_BR assms(1,6) show ?thesis by (auto simp: decode_spec_def)
next
  case OP_JMP
  with encode_JMP [OF assms(3) _ w [unfolded OP_JMP encode_def op_code.case]] assms(1,6) show ?thesis by (auto simp: decode_spec_def single_bit_numerals)
next
  case OP_JSRR
  with encode_JMP [OF assms(3) _ w [unfolded OP_JSRR encode_def op_code.case]] assms(1,6) show ?thesis by (auto simp: decode_spec_def single_bit_numerals)
next
  case OP_JSR
  with encode_JSR [OF _ w [unfolded OP_JSR encode_def op_code.case]] assms(1,6) show ?thesis by (auto simp: decode_spec_def single_bit_numerals)
next
  case OP_LD
  with encode_offset9 [OF assms(3) _ _ w [unfolded OP_LD encode_def op_code.case]] assms(1,6) show ?thesis by (auto simp: decode_spec_def)
next
  case OP_LDI
  with encode_offset9 [OF assms(3) _ _ w [unfolded OP_LDI encode_def op_code.case]] assms(1,6) show ?thesis by (auto simp: decode_spec_def)
next
  case OP_LEA
  with encode_offset9 [OF assms(3) _ _ w [unfolded OP_LEA encode_def op_code.case]] assms(1,6) show ?thesis by (auto simp: decode_spec_def)
next
  case OP_ST
  with encode_offset9 [OF assms(3) _ _ w [unfolded OP_ST encode_def op_code.case]] assms(1,6) show ?thesis by (auto simp: decode_spec_def)
next
  case OP_STI
  with encode_offset9 [OF assms(3) _ _ w [unfolded OP_STI encode_def op_code.case]] assms(1,6) show ?thesis by (auto simp: decode_spec_def)
next
  case OP_LDR
  with encode_offset6 [OF assms(3,4) _ _ w [unfolded OP_LDR encode_def op_code.case]] assms(1,6) show ?thesis by (auto simp: decode_spec_def)
next
  case OP_STR
  with encode_offset6 [OF assms(3,4) _ _ w [unfolded OP_STR encode_def op_code.case]] assms(1,6) show ?thesis by (auto simp: decode_spec_def)
next
  case OP_NOT
  with encode_NOT [OF assms(3,4) w [unfolded OP_NOT encode_def op_code.case]] assms(1,6) show ?thesis by (auto simp: decode_spec_def)
next
  case OP_TRAP
  with encode_TRAP [OF w [unfolded OP_TRAP encode_def op_code.case]] assms(1,6) show ?thesis by (auto simp: decode_spec_def)
qed (use assms in \<open>auto simp: encode_def decode_spec_def opcode_def sr1_of_def vec8_of_def\<close>)

subsection \<open>Constants\<close>

lemma sext_int: "v OR NOT (2 ^ Suc n - 1) = signed_take_bit n v" if "bit v n" for v :: int
proof -
  have "bit (v OR NOT (mask (Suc n))) m = bit (signed_take_bit n v) m" for m
    using that by (cases "m = n"; cases "m < n") (auto simp: bit_signed_take_bit_iff bit_or_iff bit_not_iff bit_mask_iff min_def)
  then have "v OR NOT (mask (Suc n)) = signed_take_bit n v" by (rule bit_eqI)
  then show ?thesis by (simp add: mask_eq_exp_minus_1)
qed

lemma upper_half_bit: "bit v n" if "2 ^ n \<le> v" "v < 2 ^ Suc n" for v :: int
proof -
  have "v div 2 ^ n = 1" using that by (intro int_div_pos_eq [where r = "v - 2 ^ n"]) auto
  then show ?thesis by (simp add: bit_iff_odd)
qed

lemma wrap_negative: "v OR - 65536 = v - 65536" if "0x8000 \<le> v" "v < 0x10000" for v :: int
proof -
  have "v OR NOT (2 ^ Suc 15 - 1) = signed_take_bit 15 v" using upper_half_bit [of 15 v] that by (intro sext_int) simp
  moreover have "signed_take_bit 15 v = signed_take_bit 15 (v - 65536)"
  proof -
    have "take_bit (Suc 15) v = take_bit (Suc 15) (v - 65536)" by (simp add: take_bit_eq_mod mod_diff_right_eq)
    then show ?thesis by (simp only: signed_take_bit_eq_iff_take_bit_eq)
  qed
  moreover have "signed_take_bit 15 (v - 65536) = v - 65536" using that by (simp add: signed_take_bit_int_eq_self_iff)
  ultimately show ?thesis by simp
qed

lemma sign_extend:
  fixes v :: int
  assumes "- (2 ^ n) \<le> v" "v < 2 ^ Suc n"
  shows "(if v AND 2 ^ n \<noteq> 0 then v OR NOT (2 ^ Suc n - 1) else v) = signed_take_bit n v"
proof (cases "bit v n")
  case True
  then show ?thesis by (simp only: sext_int and_exp_eq_0_iff_not_bit simp_thms if_True)
next
  case False
  then have "v < 2 ^ n" using upper_half_bit [of n v] assms by linarith
  then have "signed_take_bit n v = v" using assms by (simp add: signed_take_bit_int_eq_self_iff)
  then show ?thesis using False by (simp add: and_exp_eq_0_iff_not_bit)
qed

lemma signed_mod: "signed_take_bit n (v - 65536) = signed_take_bit n v" if "n < 16" for v :: int
proof -
  have "(2 :: int) ^ Suc n dvd 2 ^ 16" using that by (intro le_imp_power_dvd) simp
  then have "(2 :: int) ^ Suc n dvd 65536" by simp
  then have "take_bit (Suc n) (v - 65536) = take_bit (Suc n) v" unfolding take_bit_eq_mod by (metis diff_zero dvd_imp_mod_0 mod_diff_right_eq)
  then show ?thesis by (simp only: signed_take_bit_eq_iff_take_bit_eq)
qed

definition in_range :: "nat \<Rightarrow> int \<Rightarrow> bool" where
  "in_range bits n \<longleftrightarrow> - (2 ^ (bits - 1)) \<le> n \<and> n < 2 ^ bits \<or> 0x10000 - 2 ^ (bits - 1) \<le> n \<and> n < 0x10000"

lemma read_number_spec:
  assumes "0 < bits" "bits \<le> 16"
  shows "read_number s bits = (if in_range bits (number_text s) then Some (signed_take_bit (bits - 1) (number_text s)) else None)"
proof -
  let ?n = "number_text s" and ?b = "bits - 1"
  define v where "v = (if ?n < 0x10000 \<and> 0x8000 \<le> ?n then ?n OR - 65536 else ?n)"
  have b: "Suc ?b = bits" "?b < 16" using assms by simp_all
  have e: "v = (if ?n < 0x10000 \<and> 0x8000 \<le> ?n then ?n - 65536 else ?n)" unfolding v_def using wrap_negative [of ?n] by simp
  then have s: "signed_take_bit ?b v = signed_take_bit ?b ?n" using signed_mod [OF b(2), of ?n] by simp
  have "(2 :: int) ^ ?b \<le> 2 ^ 15" by (rule power_increasing) (use b in simp_all)
  moreover have "(2 :: int) ^ bits = 2 * 2 ^ ?b" using power_Suc [of "2 :: int" ?b] b(1) by simp
  moreover have "(0 :: int) < 2 ^ ?b" by simp
  moreover have "bits = 16 \<and> (2 :: int) ^ ?b = 0x8000 \<or> (2 :: int) ^ ?b \<le> 2 ^ 14"
  proof (cases "bits = 16")
    case False
    have "(2 :: int) ^ ?b \<le> 2 ^ 14" by (rule power_increasing) (use assms False in simp_all)
    then show ?thesis by blast
  qed simp
  ultimately have r: "in_range bits ?n \<longleftrightarrow> - (2 ^ ?b) \<le> v \<and> v < 2 ^ bits"
    unfolding in_range_def e by (auto split: if_splits)
  show ?thesis
    using sign_extend [of ?b v] r unfolding read_number_def Let_def v_def [symmetric] b(1) s by (auto simp: not_le not_less)
qed

text \<open>
  C32: constants.  A constant is accepted for a field of up to 16 bits when it is in the range of the field, signed or unsigned, or is a 16-bit word whose
  signed value is; the value then lies in the signed range of the field and agrees with the constant modulo the size of the field.  Any other constant is
  an error and gives no value.
\<close>

theorem readVal_correct:
  assumes "0 < bits" "bits \<le> 16"
  shows "(in_range bits (number_text s) \<longrightarrow> (\<exists>v. readVal s bits L = Inr (Some v, L) \<and>
       - (2 ^ (bits - 1)) \<le> v \<and> v < 2 ^ (bits - 1) \<and> v mod 2 ^ bits = number_text s mod 2 ^ bits)) \<and>
    (\<not> in_range bits (number_text s) \<longrightarrow> readVal s bits L = rbind (count_error L) (\<lambda>L. Inr (None, L)))"
proof -
  let ?n = "number_text s" and ?v = "signed_take_bit (bits - 1) (number_text s)"
  have "take_bit bits ?v = take_bit bits ?n" using assms(1) take_bit_signed_take_bit [of bits "bits - 1" ?n] by simp
  then have "?v mod 2 ^ bits = ?n mod 2 ^ bits" by (simp add: take_bit_eq_mod)
  moreover have "- (2 ^ (bits - 1)) \<le> ?v" "?v < 2 ^ (bits - 1)"
    by (rule signed_take_bit_int_greater_eq_minus_exp, rule signed_take_bit_int_less_exp)
  ultimately show ?thesis by (simp add: readVal_def read_number_spec [OF assms])
qed

theorem readVal_correct_witness: "\<exists>v. readVal ''x1F'' 5 demo_lexer = Inr (Some v, demo_lexer) \<and> - 16 \<le> v \<and> v < 16 \<and> v mod 32 = 31"
proof -
  have "number_text ''x1F'' = 31" by code_simp
  then show ?thesis using readVal_correct [of 5 "''x1F''" demo_lexer] by (simp add: in_range_def)
qed

end
