(* ===== verification/Klc3_Layout.thy ===== *)
theory Klc3_Layout
  imports Klc3_Assembler
begin

text \<open>
  The layout of the assembled file.  What a line does to the address does not depend on the pass: \<open>layout_step\<close> says it once, and every line that
  the lexer accepts follows it in both passes.  So the address a label gets in the first pass is the one its line is written to in the second, and
  a reference to it leads there.  An instruction line leaves a cell that decodes to the instruction and the operands of the line.
\<close>

unbundle bit_operations_syntax

subsection \<open>What the commands leave alone\<close>

definition scan :: "lexer \<Rightarrow> nat \<times> int \<times> nat \<times> int \<times> op_code \<times> 16 word \<times> (string \<Rightarrow> int option)" where
  "scan L = (lx_curPass L, lx_errCount L, lx_sawORIG L, lx_curAddr L, lx_op L, lx_ccode L, lx_lc3Symbols L)"

named_theorems scans

lemma defineMemSymbol_scan [scans]: "defineMemSymbol n r w L = Inr (si, L') \<Longrightarrow> scan L' = scan L"
  by (auto simp: defineMemSymbol_def scan_def Let_def reportKLC3ErrExit_def split: if_splits)

lemma processNumericalConstraint_scan [scans]: "processNumericalConstraint line L = Inr L' \<Longrightarrow> scan L' = scan L"
  by (auto simp: processNumericalConstraint_def scan_def)

lemma rfold_scan: "rfold f xs L = Inr L' \<Longrightarrow> (\<And>x L L'. f x L = Inr L' \<Longrightarrow> scan L' = scan L) \<Longrightarrow> scan L' = scan L"
  by (induction xs arbitrary: L) fastforce+

lemma addConstraintOfString_scan [scans]: "addConstraintOfString si b L = Inr L' \<Longrightarrow> scan L' = scan L"
  unfolding addConstraintOfString_def by (auto simp: scan_def Let_def constrain_char_def dest!: rfold_scan)

lemma processConstraintLine_scan [scans]: "processConstraintLine line L = Inr L' \<Longrightarrow> scan L' = scan L"
  by (auto simp: processConstraintLine_def processDefiningConstraint_def Let_def reportKLC3ErrExit_def dest: scans split: if_splits)

lemma parseIssueCommand_scan [scans]: "parseIssueCommand s L = Inr (t, L') \<Longrightarrow> scan L' = scan L"
  by (auto simp: parseIssueCommand_def scan_def split: option.splits)

lemma parsePostCheckCommand_scan [scans]: "parsePostCheckCommand s L = Inr (t, L') \<Longrightarrow> scan L' = scan L"
  by (auto simp: parsePostCheckCommand_def scan_def Let_def reportKLC3ErrExit_def split: option.splits)

lemma comment_commands_scan [scans]: "comment_commands n s L = Inr L' \<Longrightarrow> scan L' = scan L"
proof (induction n arbitrary: s L)
  case (Suc n)
  have step: "scan L' = scan L" if "comment_commands n t M = Inr L'" "scan M = scan L" for t M
    using Suc.IH [OF that(1)] that(2) by simp
  have "scan (L\<lparr>lx_dataDefaultReadOnly := True\<rparr>) = scan L" "scan (L\<lparr>lx_dataDefaultUninitialized := True\<rparr>) = scan L"
    "scan (L\<lparr>lx_loadingInputFile := True\<rparr>) = scan L"
    by (simp_all add: scan_def)
  then show ?case
    using Suc.prems by (auto simp: reportKLC3ErrExit_def split: if_splits option.splits intro: step dest: scans)
qed simp

lemma parseComment_scan [scans]: "parseComment s L = Inr L' \<Longrightarrow> scan L' = scan L"
proof -
  have "scan (L\<lparr>lx_sawKLC3Command := True\<rparr>) = scan L" by (simp add: scan_def)
  then show "parseComment s L = Inr L' \<Longrightarrow> scan L' = scan L"
    by (auto simp: parseComment_def Let_def split: if_splits option.splits dest: scans)
qed

lemma inst_line_scan [scans]: "inst_line L = Inr (c, L') \<Longrightarrow> scan L' = scan L"
  by (auto simp: inst_line_def parseInstComment_def scan_def Let_def split: if_splits option.splits)

lemma preProcessDataLine_scan [scans]: "preProcessDataLine L = Inr (c, opt, L') \<Longrightarrow> scan L' = scan L"
  by (auto simp: preProcessDataLine_def parseDataComment_def scan_def Let_def reportKLC3ErrExit_def split: if_splits option.splits)

subsection \<open>Errors and operands\<close>

definition worse :: "lexer \<Rightarrow> lexer \<Rightarrow> bool" where
  "worse L L' \<longleftrightarrow> lx_errCount L \<le> lx_errCount L' \<and> (lx_curPass L', lx_sawORIG L', lx_curAddr L', lx_op L', lx_ccode L', lx_lc3Symbols L') =
     (lx_curPass L, lx_sawORIG L, lx_curAddr L, lx_op L, lx_ccode L, lx_lc3Symbols L)"

lemma worse_refl [simp]: "worse L L"
  by (simp add: worse_def)

lemma worse_trans: "worse L M \<Longrightarrow> worse M N \<Longrightarrow> worse L N"
  by (simp add: worse_def)

lemma reportCompileErr_scan [scans]: "reportCompileErr L = Inr L' \<Longrightarrow> scan L' = scan L"
  by (auto simp: reportCompileErr_def raiseCompileIssue_def scan_def Let_def split: if_splits)

lemma count_error_worse: "count_error L = Inr L' \<Longrightarrow> worse L L' \<and> lx_errCount L' = lx_errCount L + 1"
  by (auto simp: count_error_def worse_def scan_def dest!: reportCompileErr_scan)

definition number_value :: "nat \<Rightarrow> string \<Rightarrow> int \<Rightarrow> bool" where
  "number_value bits s v \<longleftrightarrow> in_range bits (number_text s) \<and> v = signed_take_bit (bits - 1) (number_text s)"

definition label_value :: "lexer \<Rightarrow> nat \<Rightarrow> string \<Rightarrow> int \<Rightarrow> bool" where
  "label_value L bits s v \<longleftrightarrow> (\<exists>a. lx_lc3Symbols L (symbol_key (sym_name s)) = Some a \<and>
     (if bits = 16 then v = a else a = lx_curAddr L + 1 + v \<and> - (2 ^ (bits - 1)) \<le> v \<and> v < 2 ^ (bits - 1)))"

text \<open>The first pass takes every label for zero.\<close>

definition reads :: "lexer \<Rightarrow> string option \<Rightarrow> nat \<Rightarrow> bool \<Rightarrow> int \<Rightarrow> bool" where
  "reads L s bits is_label v \<longleftrightarrow> (\<exists>x. s = Some x \<and>
     (if is_label then if lx_curPass L = 1 then v = 0 else label_value L bits x v else number_value bits x v))"

lemma read_into_spec:
  assumes "read_into old s bits L = Inr (v, L')" "0 < bits" "bits \<le> 16"
  shows "worse L L' \<and> (lx_errCount L' = lx_errCount L \<longrightarrow> reads L s bits False v)"
proof -
  from assms(1) obtain t r where t: "s = Some t" and r: "readVal t bits L = Inr (r, L')" and v: "v = (case r of None \<Rightarrow> old | Some v \<Rightarrow> v)"
    by (auto simp: read_into_def operand_text_def split: option.splits)
  show ?thesis
    using r count_error_worse [of L L'] unfolding t v readVal_def read_number_spec [OF assms(2,3)]
    by (auto simp: reads_def number_value_def split: if_splits)
qed

lemma label_into_spec:
  assumes "label_into s bits L = Inr (v, L')"
  shows "worse L L' \<and> (lx_errCount L' = lx_errCount L \<longrightarrow> reads L s bits True v)"
proof -
  from assms obtain t where t: "s = Some t" and r: "findLabel t bits L = Inr (v, L')"
    by (auto simp: label_into_def operand_text_def split: option.splits)
  show ?thesis
    using r count_error_worse [of L L'] unfolding t findLabel_def findSymbol_def Let_def
    by (auto simp: reads_def label_value_def split: if_splits option.splits)
qed

fun numeric_operand :: "op_code \<Rightarrow> operand_type \<Rightarrow> string \<Rightarrow> string option \<Rightarrow> string option \<Rightarrow> (string option \<times> nat \<times> bool) option" where
  "numeric_operand OP_ADD t o1 o2 o3 = (if t = O_RRI then Some (o3, 5, False) else None)"
| "numeric_operand OP_AND t o1 o2 o3 = (if t = O_RRI then Some (o3, 5, False) else None)"
| "numeric_operand OP_LDR t o1 o2 o3 = Some (o3, 6, False)" | "numeric_operand OP_STR t o1 o2 o3 = Some (o3, 6, False)"
| "numeric_operand OP_BR t o1 o2 o3 = Some (Some o1, 9, t \<noteq> O_I)" | "numeric_operand OP_JSR t o1 o2 o3 = Some (Some o1, 11, t \<noteq> O_I)"
| "numeric_operand OP_TRAP t o1 o2 o3 = Some (Some o1, 8, False)"
| "numeric_operand OP_LD t o1 o2 o3 = Some (o2, 9, t \<noteq> O_RI)" | "numeric_operand OP_LDI t o1 o2 o3 = Some (o2, 9, t \<noteq> O_RI)"
| "numeric_operand OP_LEA t o1 o2 o3 = Some (o2, 9, t \<noteq> O_RI)" | "numeric_operand OP_ST t o1 o2 o3 = Some (o2, 9, t \<noteq> O_RI)"
| "numeric_operand OP_STI t o1 o2 o3 = Some (o2, 9, t \<noteq> O_RI)"
| "numeric_operand _ t o1 o2 o3 = None"

definition operand_means :: "op_code \<Rightarrow> operand_type \<Rightarrow> string \<Rightarrow> string option \<Rightarrow> string option \<Rightarrow> lexer \<Rightarrow> int \<Rightarrow> bool" where
  "operand_means op t o1 o2 o3 L v = (case numeric_operand op t o1 o2 o3 of None \<Rightarrow> True | Some (s, bits, is_label) \<Rightarrow> reads L s bits is_label v)"

lemma format_types:
  "format_ok op t \<Longrightarrow> op \<in> {OP_LD, OP_LDI, OP_LEA, OP_ST, OP_STI} \<Longrightarrow> t = O_RI \<or> t = O_RL"
  "format_ok op t \<Longrightarrow> op \<notin> {OP_LD, OP_LDI, OP_LEA, OP_ST, OP_STI} \<Longrightarrow> PP_I2 \<notin> PRE_PARSE t \<and> PP_L2 \<notin> PRE_PARSE t"
  by (cases op; cases t; simp add: format_ok_def)+

lemma blkw_count: "v AND 0xFFFF = n mod 65536" if "number_value 16 s v" "n = number_text s" for v :: int
proof -
  have "v AND 0xFFFF = take_bit 16 v" for v :: int by (simp add: take_bit_eq_mask mask_eq_exp_minus_1)
  moreover have "take_bit 16 v = take_bit 16 n" using that by (simp add: number_value_def take_bit_signed_take_bit)
  ultimately show ?thesis by (simp add: take_bit_eq_mod)
qed

lemma operand_val_spec:
  assumes "operand_val op t junk o1 o2 o3 L = Inr (v, L')" "format_ok op t"
  shows "worse L L' \<and> (lx_errCount L' = lx_errCount L \<longrightarrow> operand_means op t o1 o2 o3 L v \<and>
    (op = OP_BLKW \<longrightarrow> v = number_text o1 mod 65536))"
proof (cases "op \<in> {OP_LD, OP_LDI, OP_LEA, OP_ST, OP_STI}")
  case True
  then have m: "operand_means op t o1 o2 o3 L v = reads L o2 9 (t \<noteq> O_RI) v" by (auto simp: operand_means_def)
  have "t = O_RI \<and> read_into junk o2 9 L = Inr (v, L') \<or> t = O_RL \<and> label_into o2 9 L = Inr (v, L')"
    using assms(1) format_types(1) [OF assms(2) True] True by (auto simp: operand_val_def)
  then show ?thesis using read_into_spec [of junk o2 9 L v L'] label_into_spec [of o2 9 L v L'] True unfolding m by auto
next
  case False
  note f = format_types(2) [OF assms(2) False]
  have "numeric_operand op t o1 o2 o3 = None \<and> (L' = L \<or> (\<exists>v'. read_into junk (Some o1) 16 L = Inr (v', L')) \<or> label_into (Some o1) 16 L = Inr (v, L')) \<or>
      (\<exists>s b. numeric_operand op t o1 o2 o3 = Some (s, b, False) \<and> 0 < b \<and> b \<le> 16 \<and> read_into junk s b L = Inr (v, L')) \<or>
      (\<exists>s b. numeric_operand op t o1 o2 o3 = Some (s, b, True) \<and> label_into s b L = Inr (v, L'))"
    using assms(1) f False by (cases op) (simp_all add: operand_val_def, auto split: if_splits)
  then have "worse L L' \<and> (lx_errCount L' = lx_errCount L \<longrightarrow> operand_means op t o1 o2 o3 L v)"
    unfolding operand_means_def by (elim disjE exE conjE) (use read_into_spec label_into_spec worse_refl in \<open>fastforce+\<close>)
  moreover have "v = number_text o1 mod 65536" if "op = OP_BLKW" "lx_errCount L' = lx_errCount L"
    using assms(1) f that read_into_spec [of junk "Some o1" 16 L _ L'] by (auto simp: operand_val_def reads_def blkw_count)
  ultimately show ?thesis by blast
qed

lemma operand_val_nonneg: "operand_val OP_BLKW t junk o1 o2 o3 L = Inr (v, L') \<Longrightarrow> 0 \<le> v"
  by (auto simp: operand_val_def)

subsection \<open>Lines and addresses\<close>

definition here :: "lexer \<Rightarrow> 16 word" where
  "here L = word_of_int (lx_curAddr L)"

definition moves_on :: "16 word \<Rightarrow> lexer \<Rightarrow> lexer \<Rightarrow> bool" where
  "moves_on n L L' \<longleftrightarrow> here L' = here L + n \<and> (lx_curPass L', lx_errCount L', lx_sawORIG L', lx_op L', lx_ccode L', lx_lc3Symbols L') =
     (lx_curPass L, lx_errCount L, lx_sawORIG L, lx_op L, lx_ccode L, lx_lc3Symbols L)"

lemma advances_trans: "moves_on m L M \<Longrightarrow> moves_on n M N \<Longrightarrow> moves_on (m + n) L N"
  by (simp add: moves_on_def add.assoc)

lemma scan_advances: "scan M = scan L \<Longrightarrow> moves_on 0 L M"
  by (simp add: scan_def moves_on_def here_def)

lemma next_addr_word: "word_of_int (next_addr a n) = (word_of_int a + word_of_int n :: 16 word)"
proof -
  have "next_addr a n = take_bit 16 (a + n)" by (simp add: next_addr_def take_bit_eq_mask mask_eq_exp_minus_1)
  moreover have "word_of_int (take_bit 16 k) = (word_of_int k :: 16 word)" for k by (simp add: word_of_int_eq_iff)
  ultimately show ?thesis by simp
qed

lemma move_advances: "moves_on (word_of_int n) L (L\<lparr>lx_curAddr := next_addr (lx_curAddr L) n\<rparr>)"
  by (simp add: moves_on_def here_def next_addr_word)

lemma addMemValue_scan [scans]: "scan (addMemValue v c L) = scan L" "scan (write_data opt c w L) = scan L"
  by (simp_all add: addMemValue_def write_data_def scan_def Let_def)

lemma write_cells_advances: "moves_on (word_of_nat (length ws)) L (write_cells opt c ws L)"
proof (induction ws arbitrary: L)
  case Nil
  then show ?case by (simp add: moves_on_def)
next
  case (Cons w ws)
  let ?M = "write_data opt c w L"
  have "moves_on (0 + word_of_int 1) L (?M\<lparr>lx_curAddr := next_addr (lx_curAddr ?M) 1\<rparr>)"
    by (rule advances_trans [OF scan_advances [OF addMemValue_scan(2)] move_advances])
  from advances_trans [OF this Cons.IH] show ?case by (simp add: Let_def)
qed

lemma writeInst_advances: "writeInst w L = Inr L' \<Longrightarrow> moves_on 1 L L'"
  unfolding writeInst_def
  using advances_trans [OF scan_advances move_advances [of 1]] move_advances [of 1]
  by (auto simp: addMemValue_scan split: if_splits option.splits dest!: inst_line_scan)

lemma writeFILL_advances: "writeFILL w L = Inr L' \<Longrightarrow> moves_on 1 L L'"
  unfolding writeFILL_def
  using advances_trans [OF scan_advances move_advances [of 1]] move_advances [of 1]
  by (auto simp: addMemValue_scan reportKLC3ErrExit_def split: if_splits dest!: preProcessDataLine_scan defineMemSymbol_scan)

lemma writeSTRINGZ_advances:
  assumes "writeSTRINGZ o1 L = Inr L'"
  shows "moves_on (word_of_nat (Suc (length (fst (string_words (tl o1)))))) L L'"
proof -
  obtain ws n where ws: "string_words (tl o1) = (ws, n)" by fastforce
  let ?L = "L\<lparr>lx_curLine := lx_curLine L + n\<rparr>" and ?k = "word_of_nat (Suc (length ws)) :: 16 word"
  have "scan ?L = scan L" by (simp add: scan_def)
  note a = advances_trans [OF scan_advances [OF this], of ?k L']
  show ?thesis
  proof (cases "lx_curPass L = 2")
    case True
    then obtain c opt M where M: "preProcessDataLine ?L = Inr (c, opt, M)" and L': "L' = write_cells opt c (ws @ [0]) M"
      using assms by (auto simp: writeSTRINGZ_def ws Let_def reportKLC3ErrExit_def split: if_splits)
    show ?thesis
      using a advances_trans [OF scan_advances [OF preProcessDataLine_scan [OF M]] write_cells_advances [of "ws @ [0]"]] by (simp add: ws L')
  next
    case False
    then show ?thesis using assms a move_advances [of "int (Suc (length ws))" ?L] by (auto simp: writeSTRINGZ_def ws Let_def)
  qed
qed

lemma writeBLKW_advances:
  assumes "writeBLKW n L = Inr L'" "0 \<le> n"
  shows "moves_on (word_of_int n) L L'"
proof (cases "lx_curPass L = 2")
  case True
  then obtain c opt M where M: "preProcessDataLine L = Inr (c, opt, M)"
    and L': "(if do_asSymbolic opt \<noteq> [] then rbind (defineMemSymbol (do_asSymbolic opt) (do_readOnly opt) (do_uninitialized opt) M) (\<lambda>(si, L).
        if uint (si_size si) \<noteq> n then reportKLC3ErrExit ''Symbolic variable size does not match .BLKW size''
        else Inr (L\<lparr>lx_curAddr := next_addr (lx_curAddr L) n\<rparr>)) else Inr (write_cells opt c (replicate (nat n) 0) M)) = Inr L'"
    using assms(1) by (auto simp: writeBLKW_def simp del: replicate.simps)
  note m = scan_advances [OF preProcessDataLine_scan [OF M]]
  have "moves_on (word_of_int n) M L'"
  proof (cases "do_asSymbolic opt = []")
    case True
    then show ?thesis using L' write_cells_advances [of "replicate (nat n) 0" M opt c] assms(2) by auto
  next
    case False
    then obtain si N where N: "defineMemSymbol (do_asSymbolic opt) (do_readOnly opt) (do_uninitialized opt) M = Inr (si, N)"
      and e: "L' = N\<lparr>lx_curAddr := next_addr (lx_curAddr N) n\<rparr>"
      using L' by (auto simp: reportKLC3ErrExit_def split: if_splits)
    show ?thesis unfolding e using advances_trans [OF scan_advances [OF defineMemSymbol_scan [OF N]] move_advances [of n N]] by simp
  qed
  from advances_trans [OF m this] show ?thesis by simp
qed (use assms(1) move_advances in \<open>auto simp: writeBLKW_def\<close>)

fun line_size :: "op_code \<Rightarrow> string \<Rightarrow> 16 word" where
  "line_size OP_STRINGZ o1 = word_of_nat (Suc (length (fst (string_words (tl o1)))))"
| "line_size OP_BLKW o1 = word_of_int (number_text o1)"
| "line_size OP_NONE o1 = 0" | "line_size OP_END o1 = 0" | "line_size OP_ORIG o1 = 0"
| "line_size _ o1 = 1"

lemma write_op_advances:
  assumes "write_op op t r1 r2 r3 v o1 L = Inr L'" "op = OP_BLKW \<longrightarrow> 0 \<le> v"
  shows "moves_on (if op = OP_BLKW then word_of_int v else line_size op o1) L L'"
proof (cases "op \<in> {OP_NONE, OP_END, OP_ORIG, OP_BLKW, OP_FILL, OP_STRINGZ}")
  case True
  then show ?thesis
    using assms writeFILL_advances writeSTRINGZ_advances writeBLKW_advances scan_advances [of L L] by (auto simp: write_op_def)
next
  case False
  then have "line_size op o1 = 1" by (cases op) simp_all
  then show ?thesis using False assms(1) by (auto simp: write_op_def intro!: writeInst_advances)
qed

lemma mod_word: "word_of_int (k mod 65536) = (word_of_int k :: 16 word)"
  by (simp add: word_of_int_eq_iff take_bit_eq_mod)

definition layout :: "lexer \<Rightarrow> nat \<times> 16 word \<times> op_code \<times> 16 word" where
  "layout L = (lx_sawORIG L, here L, lx_op L, lx_ccode L)"

fun layout_step :: "lex_event \<Rightarrow> nat \<times> 16 word \<times> op_code \<times> 16 word \<Rightarrow> nat \<times> 16 word \<times> op_code \<times> 16 word" where
  "layout_step (Ev_Op op s) (saw, a, _, cc) = (saw, a, op, if op = OP_BR then ccode_bits (drop 2 s) cc else cc)"
| "layout_step (Ev_Operands t s) (saw, a, op, cc) =
     (let o1 = dropWhile isspace s in
      if op = OP_ORIG then (if saw = 0 then (1, word_of_int (number_text o1), OP_NONE, 0) else (if saw = 1 then 2 else saw, a, OP_NONE, 0))
      else (saw, a + line_size op o1, OP_NONE, 0))"
| "layout_step (Ev_Comment s) (saw, a, op, cc) = (saw, a, OP_NONE, 0)"
| "layout_step Ev_Blank (saw, a, op, cc) = (saw, a, OP_NONE, 0)"
| "layout_step ev l = l"

text \<open>An action that keeps the error count is a step of the layout; a label is entered in the first pass.\<close>

definition follows_layout :: "lex_event \<Rightarrow> lexer \<Rightarrow> lexer \<Rightarrow> bool" where
  "follows_layout ev L L' \<longleftrightarrow> lx_curPass L' = lx_curPass L \<and> lx_errCount L \<le> lx_errCount L' \<and>
     (lx_errCount L' = lx_errCount L \<longrightarrow> layout L' = layout_step ev (layout L) \<and>
       (case ev of
          Ev_Label s \<Rightarrow> if lx_curPass L = 1
            then lx_lc3Symbols L (symbol_key (sym_name s)) = None \<and> lx_lc3Symbols L' = (lx_lc3Symbols L)(symbol_key (sym_name s) \<mapsto> lx_curAddr L)
            else lx_lc3Symbols L' = lx_lc3Symbols L
        | _ \<Rightarrow> lx_lc3Symbols L' = lx_lc3Symbols L))"

lemma newInstLine_sel [simp]:
  "lx_curPass (newInstLine L) = lx_curPass L" "lx_errCount (newInstLine L) = lx_errCount L" "lx_sawORIG (newInstLine L) = lx_sawORIG L"
  "here (newInstLine L) = here L" "lx_op (newInstLine L) = OP_NONE" "lx_ccode (newInstLine L) = 0"
  "lx_lc3Symbols (newInstLine L) = lx_lc3Symbols L"
  by (simp_all add: newInstLine_def here_def)

lemma orig_line_follows:
  assumes "orig_line o1 L = Inr L'" "o1 = dropWhile isspace s" "lx_op L = OP_ORIG"
  shows "follows_layout (Ev_Operands t s) L L'"
proof -
  have w: "word_of_int (signed_take_bit 15 k) = (word_of_int k :: 16 word)" for k by (simp add: word_of_int_eq_iff take_bit_signed_take_bit)
  show ?thesis
    using assms(1) count_error_worse [of L]
    by (auto simp: orig_line_def readVal_def read_number_spec follows_layout_def layout_def here_def w assms(2,3) Let_def worse_def newInstLine_def scan_def
        split: if_splits option.splits dest!: reportCompileErr_scan)
qed

lemma generateInstruction_cases:
  assumes "generateInstruction junk t s L = Inr L'" "o1 = dropWhile isspace s"
  obtains (error) M where "count_error L = Inr M" "L' = newInstLine M \<or> L' = (newInstLine M)\<lparr>lx_sawORIG := 2\<rparr>"
  | (orig) "lx_op L = OP_ORIG" "format_ok (lx_op L) t" "orig_line o1 L = Inr L'"
  | (accept) o2 o3 r1 r2 r3 v M N where "lx_op L \<noteq> OP_ORIG" "format_ok (lx_op L) t" "lx_sawORIG L \<noteq> 0"
      "o2 = after_comma o1" "o3 = (case o2 of None \<Rightarrow> None | Some s \<Rightarrow> after_comma s)"
      "pre_parse_reg junk (PP_R1 \<in> PRE_PARSE t) (Some o1) = Inr r1" "pre_parse_reg junk (PP_R2 \<in> PRE_PARSE t) o2 = Inr r2"
      "pre_parse_reg junk (PP_R3 \<in> PRE_PARSE t) o3 = Inr r3"
      "operand_val (lx_op L) t junk o1 o2 o3 L = Inr (v, M)" "write_op (lx_op L) t r1 r2 r3 v o1 M = Inr N" "L' = newInstLine N"
proof (cases "format_ok (lx_op L) t")
  case False
  then show ?thesis using assms error by (auto simp: generateInstruction_def badOperands_def)
next
  case f: True
  show ?thesis
  proof (cases "lx_op L = OP_ORIG")
    case True
    then show ?thesis using assms orig f by (auto simp: generateInstruction_def Let_def)
  next
    case False
    show ?thesis
    proof (cases "lx_sawORIG L = 0")
      case True
      then show ?thesis using assms error f False by (auto simp: generateInstruction_def Let_def)
    next
      case saw: False
      show ?thesis
        using assms(1) f False saw unfolding generateInstruction_def Let_def assms(2) [symmetric]
        by (elim rbindE if_P [THEN subst]) (auto intro!: accept [OF False f saw refl refl])
    qed
  qed
qed

lemma generateInstruction_follows:
  assumes "generateInstruction junk t s L = Inr L'"
  shows "follows_layout (Ev_Operands t s) L L'"
  using assms refl
proof (cases rule: generateInstruction_cases)
  case (error M)
  then show ?thesis using count_error_worse [of L M] by (auto simp: follows_layout_def worse_def)
next
  case orig
  then show ?thesis by (intro orig_line_follows) simp_all
next
  case (accept o2 o3 r1 r2 r3 v M N)
  note m = operand_val_spec [OF accept(9,2)]
  have a: "moves_on (if lx_op L = OP_BLKW then word_of_int v else line_size (lx_op L) (dropWhile isspace s)) M N"
    by (rule write_op_advances [OF accept(10)]) (use operand_val_nonneg accept(9) in auto)
  then have "layout N = (lx_sawORIG L, here L + line_size (lx_op L) (dropWhile isspace s), lx_op L, lx_ccode L)" if "lx_errCount M = lx_errCount L"
    using m that by (auto simp: moves_on_def worse_def layout_def here_def mod_word)
  then show ?thesis using a m accept(1,11) by (auto simp: follows_layout_def moves_on_def worse_def layout_def Let_def)
qed

lemma scan_follows: "scan L = scan M \<Longrightarrow> follows_layout ev L L' = follows_layout ev M L'"
  by (cases ev) (simp_all add: follows_layout_def scan_def layout_def here_def)

lemma quiet_line: "scan M = scan L \<Longrightarrow> follows_layout (Ev_Comment s) L (newInstLine M)" "scan M = scan L \<Longrightarrow> follows_layout Ev_Blank L (newInstLine M)"
  by (simp_all add: follows_layout_def scan_def layout_def here_def newInstLine_def)

lemma text_scan [simp]: "scan (appendLineContent s L) = scan L"
  by (simp add: appendLineContent_def scan_def Let_def)

lemma error_follows: "count_error L = Inr M \<Longrightarrow> follows_layout ev L M" "count_error L = Inr M \<Longrightarrow> follows_layout ev L (newInstLine M)"
  using count_error_worse [of L M] by (simp_all add: follows_layout_def worse_def)

lemma foundLabel_follows: "foundLabel s L = Inr L' \<Longrightarrow> follows_layout (Ev_Label s) L L'"
proof -
  assume L': "foundLabel s L = Inr L'"
  have e: "follows_layout (Ev_Label s) L M" if "count_error L = Inr M" for M using error_follows(1) [OF that] .
  show ?thesis
  proof (cases "lx_curPass L = 1 \<and> lx_sawORIG L \<noteq> 0 \<and> lx_lc3Symbols L (symbol_key (sym_name s)) = None")
    case True
    then have "L' = snd (addSymbol (sym_name s) (lx_curAddr L) L)" using L' by (simp add: foundLabel_def addSymbol_def)
    then show ?thesis using True by (simp add: addSymbol_def follows_layout_def layout_def here_def)
  next
    case False
    then show ?thesis using L' e by (auto simp: foundLabel_def addSymbol_def follows_layout_def split: if_splits)
  qed
qed

lemma lex_action_follows:
  assumes "lex_action junk ev L = Inr L'"
  shows "follows_layout ev L L'"
proof (cases ev)
  case (Ev_Op op s)
  let ?M = "(appendLineContent s L)\<lparr>lx_op := op\<rparr>"
  have "L' = (if op = OP_BR then parseCCode (drop 2 s) ?M else ?M)" using assms Ev_Op by (auto simp: lex_action_def Let_def)
  moreover have "scan (appendLineContent s L) = scan L" by simp
  ultimately show ?thesis using Ev_Op by (auto simp: follows_layout_def scan_def layout_def here_def parseCCode_def)
next
  case (Ev_End s)
  have "scan (appendLineContent s L) = scan L" by simp
  then show ?thesis using assms Ev_End by (auto simp: lex_action_def follows_layout_def scan_def layout_def here_def)
next
  case (Ev_Operands t s)
  then show ?thesis
    using assms generateInstruction_follows [of junk t s "appendLineContent s L" L'] scan_follows [OF text_scan, of ev s L L']
    by (simp add: lex_action_def)
next
  case (Ev_Comment s)
  then show ?thesis using assms by (auto simp: lex_action_def dest!: parseComment_scan intro!: quiet_line)
next
  case (Ev_Label s)
  then show ?thesis using assms foundLabel_follows by (simp add: lex_action_def)
next
  case Ev_Ignored
  then show ?thesis
    using assms by (auto simp: lex_action_def lineIgnored_def reportCompileWarn_def raiseCompileIssue_def Let_def follows_layout_def layout_def here_def split: if_splits)
qed (use assms error_follows quiet_line(2) in \<open>auto simp: lex_action_def unterminatedString_def badOperands_def badLine_def\<close>)

subsection \<open>Passes\<close>

lemma yylex_append: "Ev_Ignored \<notin> set pre \<Longrightarrow> yylex junk (pre @ post) L = rbind (yylex junk pre L) (yylex junk post)"
  by (induction pre arbitrary: L) (auto intro!: rbind_cong simp: rbind_assoc)

lemma follows_symbols:
  assumes "follows_layout ev L L'" "lx_errCount L' = lx_errCount L"
  shows "lx_lc3Symbols L \<subseteq>\<^sub>m lx_lc3Symbols L'" "lx_curPass L \<noteq> 1 \<Longrightarrow> lx_lc3Symbols L' = lx_lc3Symbols L"
  using assms by (auto simp: follows_layout_def map_le_def split: lex_event.splits if_splits)

lemma yylex_follows:
  assumes "yylex junk evs L = Inr L'"
  shows "lx_curPass L' = lx_curPass L \<and> lx_errCount L \<le> lx_errCount L' \<and> (lx_errCount L' = lx_errCount L \<longrightarrow>
    lx_lc3Symbols L \<subseteq>\<^sub>m lx_lc3Symbols L' \<and> (lx_curPass L \<noteq> 1 \<longrightarrow> lx_lc3Symbols L' = lx_lc3Symbols L) \<and>
    (Ev_Ignored \<notin> set evs \<longrightarrow> layout L' = fold layout_step evs (layout L)))"
  using assms
proof (induction evs arbitrary: L)
  case (Cons ev evs)
  from Cons.prems obtain M where M: "lex_action junk ev L = Inr M" and r: "(if ev = Ev_Ignored then Inr M else yylex junk evs M) = Inr L'" by auto
  note f = lex_action_follows [OF M] and s = follows_symbols [OF lex_action_follows [OF M]]
  show ?case
  proof (cases "ev = Ev_Ignored")
    case True
    then show ?thesis using f s r by (auto simp: follows_layout_def)
  next
    case False
    then have "yylex junk evs M = Inr L'" using r by simp
    from Cons.IH [OF this] f s False show ?thesis by (auto simp: follows_layout_def intro: map_le_trans)
  qed
qed simp

text \<open>Where the events place the line after them.\<close>

definition place :: "lex_event list \<Rightarrow> nat \<times> 16 word \<times> op_code \<times> 16 word" where
  "place evs = fold layout_step evs (0, 0x3000, OP_NONE, 0)"

definition address :: "lex_event list \<Rightarrow> 16 word" where
  "address evs = fst (snd (place evs))"

lemma start_layout [simp]:
  "layout (start_pass p L) = (0, 0x3000, OP_NONE, 0)" "lx_errCount (start_pass p L) = 0" "lx_curPass (start_pass p L) = p"
  "lx_lc3Symbols (start_pass p L) = lx_lc3Symbols L"
  by (simp_all add: start_pass_def layout_def here_def newInstLine_def)

lemma pass_reaches:
  assumes "yylex junk (pre @ post) (start_pass p L) = Inr L'" "lx_errCount L' = 0" "Ev_Ignored \<notin> set pre"
  obtains M where "yylex junk pre (start_pass p L) = Inr M" "yylex junk post M = Inr L'" "lx_errCount M = 0" "lx_curPass M = p"
    "layout M = place pre" "here M = address pre" "p = 1 \<or> lx_lc3Symbols M = lx_lc3Symbols L"
proof -
  from assms(1,3) obtain M where M: "yylex junk pre (start_pass p L) = Inr M" and r: "yylex junk post M = Inr L'" by (auto simp: yylex_append)
  have "lx_errCount M = 0" using yylex_follows [OF M] yylex_follows [OF r] assms(2) by simp
  with yylex_follows [OF M] assms(3) have l: "layout M = place pre" "lx_curPass M = p" "p = 1 \<or> lx_lc3Symbols M = lx_lc3Symbols L"
    by (auto simp: place_def)
  moreover have "here M = address pre" using l(1) by (simp add: address_def flip: l(1)) (simp add: layout_def)
  ultimately show ?thesis using that M r \<open>lx_errCount M = 0\<close> by blast
qed

lemma pass_labels:
  assumes "yylex junk (pre @ Ev_Label s # post) (start_pass 1 L) = Inr L'" "lx_errCount L' = 0" "Ev_Ignored \<notin> set pre"
  obtains a where "lx_lc3Symbols L' (symbol_key (sym_name s)) = Some a" "word_of_int a = address pre"
proof -
  from assms obtain M where M: "yylex junk (Ev_Label s # post) M = Inr L'" "lx_errCount M = 0" "lx_curPass M = 1" "here M = address pre"
    by (rule pass_reaches) (rule that)
  from M(1) obtain N where N: "lex_action junk (Ev_Label s) M = Inr N" "yylex junk post N = Inr L'" by auto
  note f = lex_action_follows [OF N(1)] and y = yylex_follows [OF N(2)]
  have e: "lx_errCount N = 0" using f y M(2) assms(2) by (simp add: follows_layout_def)
  with f M have "lx_lc3Symbols N (symbol_key (sym_name s)) = Some (lx_curAddr M)" by (simp add: follows_layout_def)
  moreover have "lx_lc3Symbols N \<subseteq>\<^sub>m lx_lc3Symbols L'" using y e assms(2) by simp
  ultimately have "lx_lc3Symbols L' (symbol_key (sym_name s)) = Some (lx_curAddr M)" by (auto simp: map_le_def dom_def)
  then show ?thesis using that M(4) by (simp add: here_def)
qed

subsection \<open>Loading\<close>

lemma after_first_pass_errors: "after_first_pass L = Inr M \<Longrightarrow> 0 \<le> lx_errCount L \<Longrightarrow> lx_errCount M \<le> 0 \<Longrightarrow> M = L"
  using count_error_worse [of L M] by (auto simp: after_first_pass_def split: if_splits)

lemma load_passes:
  assumes "lexer_load junk base evs f os c L = Inr (True, L')"
  obtains L1 L2 where "yylex junk evs (start_pass 1 (start_load base f os c L)) = Inr L1" "after_first_pass L1 = Inr L1" "lx_errCount L1 = 0"
    "yylex junk evs (start_pass 2 L1) = Inr L2" "lx_errCount L2 = 0" "L' = add_program f os (L2\<lparr>ld_initPC := lx_fileStartAddr L2\<rparr>)"
proof -
  from assms obtain L1 M L2 where 1: "yylex junk evs (start_pass 1 (start_load base f os c L)) = Inr L1" and M: "after_first_pass L1 = Inr M" "\<not> lx_errCount M > 0"
    and 2: "yylex junk evs (start_pass 2 M) = Inr L2" and e: "\<not> lx_errCount L2 > 0"
    and L': "L' = add_program f os (L2\<lparr>ld_initPC := lx_fileStartAddr L2\<rparr>)"
    by (auto simp: lexer_load_def give_up_def split: if_splits)
  have "M = L1" using after_first_pass_errors [OF M(1)] yylex_follows [OF 1] M(2) by simp
  moreover have "lx_errCount L2 = 0" using yylex_follows [OF 2] e by simp
  ultimately show ?thesis using that 1 2 M L' yylex_follows [OF 1] by simp
qed

text \<open>The state in which the second pass reaches the line behind \<open>pre\<close>.\<close>

definition reaching :: "int \<Rightarrow> (string \<Rightarrow> string) \<Rightarrow> lex_event list \<Rightarrow> lex_event list \<Rightarrow> string \<Rightarrow> bool \<Rightarrow> bool \<Rightarrow> lexer \<Rightarrow> lexer res" where
  "reaching junk base evs pre f os c L =
     rbind (yylex junk evs (start_pass 1 (start_load base f os c L))) (\<lambda>L. rbind (after_first_pass L) (\<lambda>L. yylex junk pre (start_pass 2 L)))"

definition labelled :: "lex_event list \<Rightarrow> lexer \<Rightarrow> bool" where
  "labelled evs M \<longleftrightarrow> (\<forall>pre s post. evs = pre @ Ev_Label s # post \<and> Ev_Ignored \<notin> set pre \<longrightarrow>
     (\<exists>a. lx_lc3Symbols M (symbol_key (sym_name s)) = Some a \<and> word_of_int a = address pre))"

lemma load_reaching:
  assumes "lexer_load junk base evs f os c L = Inr (True, L')" "evs = pre @ ev # post" "Ev_Ignored \<notin> set pre"
  obtains M N where "reaching junk base evs pre f os c L = Inr M" "lex_action junk ev M = Inr N" "lx_curPass M = 2" "lx_errCount N = lx_errCount M"
    "layout M = place pre" "here M = address pre"
    "labelled evs M"
proof -
  from assms(1) obtain L1 L2 where 1: "yylex junk evs (start_pass 1 (start_load base f os c L)) = Inr L1" "after_first_pass L1 = Inr L1" "lx_errCount L1 = 0"
    and 2: "yylex junk evs (start_pass 2 L1) = Inr L2" "lx_errCount L2 = 0" by (rule load_passes)
  from 2 [unfolded assms(2)] assms(3) obtain M where M: "yylex junk pre (start_pass 2 L1) = Inr M" "yylex junk (ev # post) M = Inr L2" "lx_errCount M = 0"
    "lx_curPass M = 2" "layout M = place pre" "here M = address pre" "(2 :: nat) = 1 \<or> lx_lc3Symbols M = lx_lc3Symbols L1"
    by (rule pass_reaches)
  from M(2) obtain N where N: "lex_action junk ev M = Inr N" and r: "(if ev = Ev_Ignored then Inr N else yylex junk post N) = Inr L2" by auto
  have "lx_errCount N = 0"
    using r M(3) 2(2) lex_action_follows [OF N] yylex_follows [of junk post N L2] by (auto simp: follows_layout_def split: if_splits)
  moreover have "labelled evs M"
    unfolding labelled_def
  proof (intro allI impI, elim conjE)
    fix pre' s post' assume e: "evs = pre' @ Ev_Label s # post'" "Ev_Ignored \<notin> set pre'"
    from 1(1) [unfolded e(1)] 1(3) e(2) obtain a where "lx_lc3Symbols L1 (symbol_key (sym_name s)) = Some a" "word_of_int a = address pre'"
      by (rule pass_labels)
    then show "\<exists>a. lx_lc3Symbols M (symbol_key (sym_name s)) = Some a \<and> word_of_int a = address pre'" using M(7) by simp
  qed
  ultimately show ?thesis using that M N 1 by (simp add: reaching_def)
qed

text \<open>
  C7: labels resolve.  In a file that is loaded without errors, both passes place every line alike: when the second pass reaches a line it is at the
  address the layout gives the line, and a reference there to a label, whose name may differ in case, is the distance from the next instruction to the
  line the label stands at, within the signed range of the field, or the address itself for a full word.
\<close>

theorem labels_resolve:
  assumes "lexer_load junk base evs f os c L = Inr (True, L')"
    and "evs = pre @ Ev_Label s # post" "Ev_Ignored \<notin> set pre"
    and "evs = pre' @ ev # post'" "Ev_Ignored \<notin> set pre'"
    and "symbol_key (sym_name x) = symbol_key (sym_name s)"
  shows "\<exists>M. reaching junk base evs pre' f os c L = Inr M \<and> here M = address pre' \<and>
    (\<forall>bits v N. findLabel x bits M = Inr (v, N) \<and> lx_errCount N = lx_errCount M \<longrightarrow>
       (if bits = 16 then word_of_int v = address pre
        else address pre = address pre' + 1 + word_of_int v \<and> - (2 ^ (bits - 1)) \<le> v \<and> v < 2 ^ (bits - 1)))"
proof -
  from assms(1,4,5) obtain M where M: "reaching junk base evs pre' f os c L = Inr M" "lx_curPass M = 2" "here M = address pre'"
    and labels: "labelled evs M"
    by (rule load_reaching) (rule that)
  from labels assms(2,3) obtain a where a: "lx_lc3Symbols M (symbol_key (sym_name x)) = Some a" "word_of_int a = address pre"
    using assms(6) unfolding labelled_def by metis
  have "if bits = 16 then word_of_int v = address pre
        else address pre = address pre' + 1 + word_of_int v \<and> - (2 ^ (bits - 1)) \<le> v \<and> v < 2 ^ (bits - 1)"
    if "findLabel x bits M = Inr (v, N) \<and> lx_errCount N = lx_errCount M" for bits v N
  proof -
    have "label_into (Some x) bits M = Inr (v, N)" using that by (simp add: label_into_def operand_text_def)
    from label_into_spec [OF this] that have "label_value M bits x v" by (simp add: reads_def M(2))
    then show ?thesis using a M(3) by (auto simp: label_value_def here_def split: if_splits)
  qed
  then show ?thesis using M by blast
qed

subsection \<open>Instructions\<close>

definition three_codes :: "16 word \<Rightarrow> bool" where
  "three_codes c \<longleftrightarrow> c = push_bit 9 (word_of_nat (cc_of c))"

lemma three_codes_lt: "cc_of c < 8"
  using reg_fields_lt(1) [of c] by (simp add: cc_field dr_of_def take_bit_mask_numerals)

lemma three_codes_iff: "three_codes c \<longleftrightarrow> c AND 0xE00 = c"
proof -
  have "\<not> bit (0xE00 :: 16 word) n" if "n < 9" for n
  proof -
    have "n \<in> {0, 1, 2, 3, 4, 5, 6, 7, 8}" using that by auto
    then show ?thesis by (elim insertE emptyE) simp_all
  qed
  then have "9 \<le> n" if "bit (0xE00 :: 16 word) n" for n using that by (metis not_less)
  then have "push_bit 9 (drop_bit 9 (c AND 0xE00)) = c AND 0xE00"
    by (intro bit_eqI) (auto simp: bit_push_bit_iff bit_drop_bit_eq bit_and_iff)
  then show ?thesis by (auto simp: three_codes_def cc_of_def)
qed

lemma three_codes_or: "three_codes a \<Longrightarrow> three_codes b \<Longrightarrow> three_codes (a OR b)"
  by (simp add: three_codes_iff bit.conj_disj_distrib2)

lemma ccode_bits_form:
  "\<exists>n z p. ccode_bits s cc = (if cc OR n OR z OR p = 0 then CC_P OR CC_Z OR CC_N else cc OR n OR z OR p) \<and> n \<in> {0, CC_N} \<and> z \<in> {0, CC_Z} \<and> p \<in> {0, CC_P}"
  unfolding ccode_bits_def Let_def case_prod_unfold by (intro exI conjI, rule refl) (auto split: list.splits)

lemma three_codes_bits: "three_codes (ccode_bits s cc)" if "three_codes cc"
proof -
  have c: "three_codes 0" "three_codes CC_N" "three_codes CC_Z" "three_codes CC_P" by (simp_all add: three_codes_iff CC_N_def CC_Z_def CC_P_def)
  obtain n z p where e: "ccode_bits s cc = (if cc OR n OR z OR p = 0 then CC_P OR CC_Z OR CC_N else cc OR n OR z OR p)"
    and m: "n \<in> {0, CC_N}" "z \<in> {0, CC_Z}" "p \<in> {0, CC_P}" using ccode_bits_form [of s cc] by blast
  have "three_codes n" "three_codes z" "three_codes p" using m c by auto
  then show ?thesis using that c three_codes_or by (simp add: e)
qed

lemma place_codes: "three_codes (snd (snd (snd (fold layout_step evs l))))" if "three_codes (snd (snd (snd l)))"
  using that
proof (induction evs arbitrary: l)
  case (Cons ev evs)
  have z: "three_codes 0" by (simp add: three_codes_iff)
  obtain saw a op cc where l: "l = (saw, a, op, cc)" by (metis prod_cases4)
  have "three_codes (snd (snd (snd (layout_step ev l))))"
    using Cons.prems z three_codes_bits by (cases ev) (auto simp: l Let_def)
  then show ?case using Cons.IH by simp
qed simp

lemma writeInst_writes:
  assumes "writeInst w L = Inr L'" "lx_curPass L = 2"
  shows "\<exists>cell. ld_mem L' (here L) = Some cell \<and> mv_type cell = MEM_INST \<and> mv_e cell = Some (buildConstant w) \<and> matchInst w = Some (mv_def cell)"
proof -
  from assms obtain c M v where M: "inst_line L = Inr (c, M)" and v: "InstValue_alloc (word_of_int (lx_curAddr M)) (buildConstant w) = Inr (Some v)"
    and L': "L' = (addMemValue v c M)\<lparr>lx_curAddr := next_addr (lx_curAddr (addMemValue v c M)) 1\<rparr>"
    by (auto simp: writeInst_def split: option.splits)
  have a: "here L = word_of_int (lx_curAddr M)" using inst_line_scan [OF M] by (simp add: here_def scan_def)
  have "mv_type v = MEM_INST \<and> mv_e v = Some (buildConstant w) \<and> matchInst w = Some (mv_def v)"
    using v by (auto simp: InstValue_alloc_def MemValue_def)
  then show ?thesis by (simp add: L' addMemValue_def Let_def a)
qed

lemma encode_unused:
  assumes "format_ok op t" "PP_R1 \<in> PRE_PARSE t \<longrightarrow> r1 = s1" "PP_R2 \<in> PRE_PARSE t \<longrightarrow> r2 = s2" "PP_R3 \<in> PRE_PARSE t \<longrightarrow> r3 = s3"
  shows "encode op t c r1 r2 r3 v = encode op t c s1 s2 s3 v"
  using assms by (cases op; cases t) (simp_all add: format_ok_def encode_def)

lemma operand_width: "numeric_operand op t o1 o2 o3 = Some (s, b, l) \<Longrightarrow> inst_of op t = Some i \<Longrightarrow> operand_bits i = b \<and> 0 < b \<and> b < 16"
  by (cases op) (auto split: if_splits)

lemma encode_no_operand:
  assumes "numeric_operand op t o1 o2 o3 = None" "inst_of op t = Some i"
  shows "encode op t c r1 r2 r3 x = encode op t c r1 r2 r3 y" "line_fields op t cc n1 n2 n3 x = line_fields op t cc n1 n2 n3 y"
  using assms by (cases op; auto simp: encode_def split: if_splits)+

lemma reads_bounds:
  assumes "reads L s b l v" "lx_curPass L = 2" "0 < b" "b < 16"
  shows "signed_take_bit (b - 1) (word_of_int v) = (word_of_int v :: 16 word)"
proof -
  have "signed_take_bit (b - 1) v = v"
    using assms by (auto simp: reads_def label_value_def number_value_def signed_take_bit_int_eq_self_iff split: if_splits)
  then show ?thesis by (simp add: signed_take_bit_of_int)
qed

definition line_operand :: "op_code \<Rightarrow> operand_type \<Rightarrow> string \<Rightarrow> lexer \<Rightarrow> int \<Rightarrow> bool" where
  "line_operand op t s L v = (let o1 = dropWhile isspace s; o2 = after_comma o1 in
     operand_means op t o1 o2 (case o2 of None \<Rightarrow> None | Some s \<Rightarrow> after_comma s) L v)"

definition line_registers :: "operand_type \<Rightarrow> string \<Rightarrow> nat \<Rightarrow> nat \<Rightarrow> nat \<Rightarrow> bool" where
  "line_registers t s r1 r2 r3 = (let o1 = dropWhile isspace s; o2 = after_comma o1; o3 = (case o2 of None \<Rightarrow> None | Some s \<Rightarrow> after_comma s) in
     r1 < 8 \<and> r2 < 8 \<and> r3 < 8 \<and> (PP_R1 \<in> PRE_PARSE t \<longrightarrow> reg_digit (Some o1) = Inr (int r1)) \<and>
     (PP_R2 \<in> PRE_PARSE t \<longrightarrow> reg_digit o2 = Inr (int r2)) \<and> (PP_R3 \<in> PRE_PARSE t \<longrightarrow> reg_digit o3 = Inr (int r3)))"

definition instruction_cell :: "mem_value \<Rightarrow> InstID \<Rightarrow> nat list \<times> 16 word option \<Rightarrow> bool" where
  "instruction_cell cell i fs \<longleftrightarrow> mv_type cell = MEM_INST \<and> inst_id cell = i \<and> (\<exists>w. mv_e cell = Some (buildConstant w) \<and> read_fields i w = fs)"

lemma encode_line:
  assumes "format_ok op t" "inst_of op t = Some i" "three_codes cc" "r1 < 8" "r2 < 8" "r3 < 8"
    and "numeric_operand op t o1 o2 o3 = None \<or> signed_take_bit (operand_bits i - 1) v = v"
    and r: "PP_R1 \<in> PRE_PARSE t \<longrightarrow> w1 = word_of_nat r1" "PP_R2 \<in> PRE_PARSE t \<longrightarrow> w2 = word_of_nat r2" "PP_R3 \<in> PRE_PARSE t \<longrightarrow> w3 = word_of_nat r3"
  shows "decode_spec (encode op t cc w1 w2 w3 v) = Some i \<and> read_fields i (encode op t cc w1 w2 w3 v) = line_fields op t (cc_of cc) r1 r2 r3 v"
proof -
  define u where "u = (if numeric_operand op t o1 o2 o3 = None then 0 else v)"
  have "signed_take_bit (operand_bits i - 1) u = u" using assms(7) by (auto simp: u_def)
  note d = encode_decode [OF assms(2) three_codes_lt assms(4-6) this refl, of cc, unfolded assms(3) [unfolded three_codes_def, symmetric]]
  have "encode op t cc w1 w2 w3 u = encode op t cc (word_of_nat r1) (word_of_nat r2) (word_of_nat r3) u" by (rule encode_unused [OF assms(1) r])
  moreover have "u = v \<or> numeric_operand op t o1 o2 o3 = None" by (simp add: u_def)
  then have "encode op t cc w1 w2 w3 u = encode op t cc w1 w2 w3 v \<and> line_fields op t (cc_of cc) r1 r2 r3 u = line_fields op t (cc_of cc) r1 r2 r3 v"
    using encode_no_operand [OF _ assms(2)] by blast
  ultimately show ?thesis using d by simp
qed

lemma scan_operand: "scan L = scan M \<Longrightarrow> operand_means op t o1 o2 o3 L v = operand_means op t o1 o2 o3 M v"
  by (simp add: operand_means_def reads_def label_value_def scan_def split: option.splits)

lemma generateInstruction_writes:
  assumes g: "generateInstruction junk t s L = Inr L'" "lx_errCount L' = lx_errCount L" and L: "lx_curPass L = 2" "three_codes (lx_ccode L)"
    and i: "inst_of (lx_op L) t = Some i" and r: "line_registers t s r1 r2 r3"
  shows "\<exists>cell v. ld_mem L' (here L) = Some cell \<and> line_operand (lx_op L) t s L v \<and>
    instruction_cell cell i (line_fields (lx_op L) t (cc_of (lx_ccode L)) r1 r2 r3 (word_of_int v))"
  using g(1) refl
proof (cases rule: generateInstruction_cases)
  case (error M)
  then show ?thesis using count_error_worse [of L M] g(2) by auto
next
  case orig
  then show ?thesis using i by simp
next
  case (accept o2 o3 d1 d2 d3 v M N)
  let ?op = "lx_op L" and ?w = "encode (lx_op L) t (lx_ccode L) (word_of_int d1) (word_of_int d2) (word_of_int d3) (word_of_int v)"
  have m: "worse L M" and n: "lx_errCount N = lx_errCount L" and o: "?op \<notin> {OP_FILL, OP_STRINGZ, OP_BLKW, OP_NONE, OP_END, OP_ORIG}"
    using operand_val_spec [OF accept(9,2)] accept(11) g(2) i by auto
  then have w: "writeInst ?w M = Inr N" using accept(10) by (auto simp: write_op_def worse_def)
  then have "lx_errCount M = lx_errCount L" using writeInst_advances [OF w] n by (simp add: moves_on_def)
  then have v: "operand_means ?op t (dropWhile isspace s) o2 o3 L v" using operand_val_spec [OF accept(9,2)] by simp
  have "numeric_operand ?op t (dropWhile isspace s) o2 o3 = None \<or> signed_take_bit (operand_bits i - 1) (word_of_int v) = (word_of_int v :: 16 word)"
    using v operand_width [OF _ i] reads_bounds [OF _ L(1)] by (fastforce simp: operand_means_def split: option.splits)
  moreover have "r1 < 8" "r2 < 8" "r3 < 8" "PP_R1 \<in> PRE_PARSE t \<longrightarrow> word_of_int d1 = (word_of_nat r1 :: 16 word)"
    "PP_R2 \<in> PRE_PARSE t \<longrightarrow> word_of_int d2 = (word_of_nat r2 :: 16 word)" "PP_R3 \<in> PRE_PARSE t \<longrightarrow> word_of_int d3 = (word_of_nat r3 :: 16 word)"
    using r accept(4-8) by (auto simp: line_registers_def Let_def pre_parse_reg_def)
  ultimately have e: "decode_spec ?w = Some i \<and> read_fields i ?w = line_fields ?op t (cc_of (lx_ccode L)) r1 r2 r3 (word_of_int v)"
    by (intro encode_line [OF accept(2) i L(2)])
  have "lx_curPass M = 2" "here M = here L" using m L(1) by (simp_all add: worse_def here_def)
  with writeInst_writes [OF w] obtain cell where "ld_mem N (here L) = Some cell" "mv_type cell = MEM_INST" "mv_e cell = Some (buildConstant ?w)"
    "matchInst ?w = Some (mv_def cell)" by auto
  then have "ld_mem L' (here L) = Some cell \<and> instruction_cell cell i (line_fields ?op t (cc_of (lx_ccode L)) r1 r2 r3 (word_of_int v))"
    using e matchInst_decode [of ?w] accept(11) by (auto simp: instruction_cell_def inst_id_def newInstLine_def)
  then show ?thesis using v accept(4,5) by (auto simp: line_operand_def Let_def)
qed

text \<open>
  C6: an instruction line is assembled into its instruction.  In a file that is loaded without errors, the second pass reaches the line at the address of
  the layout and leaves there an instruction cell whose word decodes, through the mask table of the executor, to the instruction of the line; the
  registers, the condition codes and the immediate that the decoder reads from it are those of the text, with a number read as a signed value of the field's
  width and a label as the distance to it.
\<close>

theorem instruction_assembled:
  assumes "lexer_load junk base evs f os c L = Inr (True, L')"
    and "evs = pre @ Ev_Operands t s # post" "Ev_Ignored \<notin> set pre" "place pre = (saw, a, op, cc)"
    and "inst_of op t = Some i" "line_registers t s r1 r2 r3"
  shows "\<exists>M N cell v. reaching junk base evs pre f os c L = Inr M \<and> lex_action junk (Ev_Operands t s) M = Inr N \<and>
    ld_mem N a = Some cell \<and> line_operand op t s M v \<and> instruction_cell cell i (line_fields op t (cc_of cc) r1 r2 r3 (word_of_int v))"
proof -
  from assms(1-3) obtain M N where M: "reaching junk base evs pre f os c L = Inr M" "lex_action junk (Ev_Operands t s) M = Inr N" "lx_curPass M = 2"
    "lx_errCount N = lx_errCount M" "layout M = place pre" by (rule load_reaching) (rule that)
  let ?M = "appendLineContent s M"
  have e: "scan ?M = scan M" by simp
  have x: "here ?M = a" "lx_op ?M = op" "lx_ccode ?M = cc" "lx_curPass ?M = 2" "lx_errCount ?M = lx_errCount M"
    using e M(3,5) assms(4) by (simp_all add: scan_def layout_def here_def)
  have "three_codes (snd (snd (snd (0, 0x3000, OP_NONE, 0))))" by (simp add: three_codes_iff)
  from place_codes [OF this, of pre] have "three_codes cc" using assms(4) by (simp add: place_def)
  then have "\<exists>cell v. ld_mem N (here ?M) = Some cell \<and> line_operand (lx_op ?M) t s ?M v \<and>
      instruction_cell cell i (line_fields (lx_op ?M) t (cc_of (lx_ccode ?M)) r1 r2 r3 (word_of_int v))"
    using M(2,4) x assms(5,6) by (intro generateInstruction_writes) (simp_all add: lex_action_def)
  then show ?thesis using M(1,2) scan_operand [OF e] by (auto simp: x line_operand_def Let_def)
qed

subsection \<open>An example\<close>

definition demo_file :: "lex_event list" where
  "demo_file = [Ev_Op OP_ORIG ''.ORIG'', Ev_Operands O_I '' x3000'', Ev_Label ''LOOP'', Ev_Op OP_ADD ''ADD'', Ev_Operands O_RRI '' R1,R2,#-1'',
     Ev_Op OP_BR ''BRp'', Ev_Operands O_L '' loop'', Ev_End ''.END'']"

definition succeeds :: "(bool \<times> lexer) res \<Rightarrow> bool" where
  "succeeds r = (case r of Inl _ \<Rightarrow> False | Inr (b, _) \<Rightarrow> b)"

lemma demo_loads: "succeeds (lexer_load 0 id demo_file ''a.asm'' False False demo_lexer)"
  by code_simp

lemma demo_loaded: obtains L' where "lexer_load 0 id demo_file ''a.asm'' False False demo_lexer = Inr (True, L')"
  using demo_loads by (auto simp: succeeds_def split: sum.splits)

lemma demo_places:
  "demo_file = take 2 demo_file @ Ev_Label ''LOOP'' # drop 3 demo_file" "Ev_Ignored \<notin> set (take 2 demo_file)" "address (take 2 demo_file) = 0x3000"
  "demo_file = take 4 demo_file @ Ev_Operands O_RRI '' R1,R2,#-1'' # drop 5 demo_file" "Ev_Ignored \<notin> set (take 4 demo_file)"
  "place (take 4 demo_file) = (1, 0x3000, OP_ADD, 0)"
  "demo_file = take 6 demo_file @ Ev_Operands O_L '' loop'' # drop 7 demo_file" "Ev_Ignored \<notin> set (take 6 demo_file)" "address (take 6 demo_file) = 0x3001"
  by code_simp+

lemma demo_reference:
  "case reaching 0 id demo_file (take 6 demo_file) ''a.asm'' False False demo_lexer of Inl _ \<Rightarrow> False | Inr M \<Rightarrow>
     (case findLabel ''loop'' 9 M of Inl _ \<Rightarrow> False | Inr (v, N) \<Rightarrow> lx_errCount N = lx_errCount M)"
  by code_simp

theorem labels_resolve_witness:
  "\<exists>M v N. reaching 0 id demo_file (take 6 demo_file) ''a.asm'' False False demo_lexer = Inr M \<and> here M = 0x3001 \<and>
     findLabel ''loop'' 9 M = Inr (v, N) \<and> word_of_int v = (- 2 :: 16 word) \<and> - 256 \<le> v \<and> v < 256"
proof -
  obtain L' where l: "lexer_load 0 id demo_file ''a.asm'' False False demo_lexer = Inr (True, L')" by (rule demo_loaded)
  have k: "symbol_key (sym_name ''loop'') = symbol_key (sym_name ''LOOP'')" by code_simp
  note t = labels_resolve [OF l demo_places(1,2,7,8) k]
  obtain M v N where M: "reaching 0 id demo_file (take 6 demo_file) ''a.asm'' False False demo_lexer = Inr M" "findLabel ''loop'' 9 M = Inr (v, N)"
    "lx_errCount N = lx_errCount M" using demo_reference by (auto split: sum.splits)
  obtain M' where M': "reaching 0 id demo_file (take 6 demo_file) ''a.asm'' False False demo_lexer = Inr M'" "here M' = address (take 6 demo_file)"
    and q: "\<And>bits v N. findLabel ''loop'' bits M' = Inr (v, N) \<Longrightarrow> lx_errCount N = lx_errCount M' \<Longrightarrow> if bits = 16 then word_of_int v = address (take 2 demo_file)
      else address (take 2 demo_file) = address (take 6 demo_file) + 1 + word_of_int v \<and> - (2 ^ (bits - 1)) \<le> v \<and> v < 2 ^ (bits - 1)"
    using t by blast
  have "M' = M" using M' M by simp
  then have "here M = 0x3001" "0x3000 = 0x3001 + 1 + (word_of_int v :: 16 word)" "- 256 \<le> v" "v < 256"
    using M' q [of 9 v N] M by (simp_all add: demo_places(3,9))
  moreover have "word_of_int v = (- 2 :: 16 word)"
  proof -
    have "word_of_int v = 0x3000 - (0x3001 + 1 :: 16 word)" by (subst calculation(2)) simp
    then show ?thesis by simp
  qed
  ultimately show ?thesis using M by blast
qed

theorem instruction_assembled_witness:
  "\<exists>M N cell v. reaching 0 id demo_file (take 4 demo_file) ''a.asm'' False False demo_lexer = Inr M \<and> lex_action 0 (Ev_Operands O_RRI '' R1,R2,#-1'') M = Inr N \<and>
     ld_mem N 0x3000 = Some cell \<and> line_operand OP_ADD O_RRI '' R1,R2,#-1'' M v \<and> instruction_cell cell I_ADDi ([1, 2], Some (word_of_int v))"
proof -
  obtain L' where l: "lexer_load 0 id demo_file ''a.asm'' False False demo_lexer = Inr (True, L')" by (rule demo_loaded)
  have i: "inst_of OP_ADD O_RRI = Some I_ADDi" "line_registers O_RRI '' R1,R2,#-1'' 1 2 0" by code_simp+
  show ?thesis using instruction_assembled [OF l demo_places(4-6) i] by simp
qed

subsection \<open>Corner cases\<close>

text \<open>
  A second \<open>.ORIG\<close> is reported as an error that is not counted, so that the second pass runs and reports it again; the issue package returns null for the
  repeated issue and the note is set through the null pointer.
\<close>

definition twice_ORIG :: "lex_event list" where
  "twice_ORIG = [Ev_Op OP_ORIG ''.ORIG'', Ev_Operands O_I '' x3000'', Ev_Op OP_ORIG ''.ORIG'', Ev_Operands O_I '' x4000'', Ev_End ''.END'']"

definition failure_of :: "'a res \<Rightarrow> failure option" where
  "failure_of r = (case r of Inl e \<Rightarrow> Some e | Inr _ \<Rightarrow> None)"

theorem twice_ORIG_crashes: "failure_of (lexer_load 0 id twice_ORIG ''a.asm'' False True demo_lexer) = Some (NullDeref ''info'')"
  by code_simp

text \<open>The same program at \<open>xF000\<close>: the address of the first line is negative, so that the second line is out of the reach of its label.\<close>

theorem high_ORIG_rejected:
  "failure_of (lexer_load 0 id (demo_file[1 := Ev_Operands O_I '' xF000'']) ''a.asm'' False False demo_lexer) = Some (ProgExit ''compile errors'')"
  by code_simp

text \<open>The default flags are looked at only in a line that has a comment.\<close>

theorem default_flags_need_comment:
  assumes "CHR '';'' \<notin> set (lx_curLineContent L)"
  shows "preProcessDataLine L = Inr (strip (lx_curLineContent L), no_options, L)"
proof -
  have "before_comment (lx_curLineContent L) = lx_curLineContent L"
    using assms by (auto simp: before_comment_def takeWhile_eq_all_conv)
  then show ?thesis by (simp add: preProcessDataLine_def Let_def no_options_def)
qed

text \<open>A symbolic variable over data that is there leaves the data, and a constraint on the variable fails the assertion.\<close>

definition data_lexer :: lexer where
  "data_lexer = write_data no_options [] 5 demo_lexer"

theorem symbol_over_data:
  "failure_of (rbind (defineMemSymbol ''N'' False False data_lexer) (\<lambda>(_, L). processNumericalConstraint ''N > #0'' L)) =
     Some (AssertFailed ''Invalid left expression retrieved'')"
  by code_simp

end
