(* ===== verification/Klc3_Loading.thy ===== *)
theory Klc3_Loading
  imports Klc3_Layout
begin

text \<open>
  What the loader hands to the executor is well typed: every cell of the memory has a 16-bit expression, every symbolic variable has its cells, and every
  constraint and preference is a condition.  Each operation of the lexer keeps this, so that a file leaves it true whatever it holds.
\<close>

subsection \<open>The typing of the loaded program\<close>

definition core :: "'a loader_scheme \<Rightarrow> (string \<Rightarrow> symbol_info option) \<times> (addr \<Rightarrow> mem_value option) \<times> expr option list \<times> expr list" where
  "core L = (ld_symbols L, ld_mem L, ld_constraints L, ld_preferences L)"

definition loader_typed :: "'a loader_scheme \<Rightarrow> bool" where
  "loader_typed L \<longleftrightarrow> loader_ok L \<and> (\<forall>e. Some e \<in> set (ld_constraints L) \<longrightarrow> wf_constraint e) \<and> (\<forall>e \<in> set (ld_preferences L). wf_constraint e)"

lemma core_typed: "core M = core L \<Longrightarrow> loader_typed L \<Longrightarrow> loader_typed M" for M :: "'a loader_scheme" and L :: "'b loader_scheme"
  by (simp add: core_def loader_typed_def loader_ok_def)

named_theorems typed

subsection \<open>Constraints\<close>

lemma defineMemSymbol_typed [typed]:
  assumes "defineMemSymbol n r w L = Inr (si, L')" "loader_typed L"
  shows "loader_typed L'"
  using defineMemSymbol_ok(1,3) [OF assms(1)] assms(2) by (auto simp: loader_typed_def)

lemma processNumericalConstraint_typed [typed]:
  assumes "processNumericalConstraint line L = Inr L'" "loader_typed L"
  shows "loader_typed L'"
proof -
  have "loader_ok L" using assms(2) by (simp add: loader_typed_def)
  from numerical_constraint_means [OF this assms(1)] obtain c P where "L' = L\<lparr>ld_constraints := ld_constraints L @ [c]\<rparr>" "means c P" by blast
  then show ?thesis using assms(2) by (auto simp: loader_typed_def loader_ok_def means_def)
qed

lemma join_typed:
  assumes "wf_constraint x" "wf_constraint y" "k \<in> {And, Or}"
  shows "wf_constraint (builder_binary k x y)"
proof -
  have w: "wt (BinaryExpr k x y)" using assms by (auto simp: wf_constraint_def)
  show ?thesis using folding.bin_wt [OF w] folding.bin_width [OF w] assms by (auto simp: wf_constraint_def)
qed

lemma string_cell_typed:
  assumes "string_cell L si i = Inr e" "loader_typed L" "k \<in> {Eq, Slt, Sle}"
  shows "wf_constraint (builder_binary k e (buildConstant w))" "wf_constraint (builder_binary k (buildConstant w) e)"
proof -
  from assms(1) obtain v where v: "ld_mem L (si_startAddr si + word_of_nat i) = Some v" "mv_e v = Some e"
    by (auto simp: string_cell_def cell_expr_def split: option.splits)
  have "cell_ok v" using assms(2) v(1) by (auto simp: loader_typed_def loader_ok_def)
  then have "wt e" "getWidth e = Int16" using v(2) by (auto simp: cell_ok_def)
  then show "wf_constraint (builder_binary k e (buildConstant w))" "wf_constraint (builder_binary k (buildConstant w) e)"
    using builder_compare(1) buildConstant_sound(1,2) assms(3) by blast+
qed

lemma constrain_char_typed:
  assumes "constrain_char si b i L = Inr L'" "loader_typed L"
  shows "loader_typed L'"
proof -
  from assms(1) obtain e where e: "string_cell L si i = Inr e" and L': "L' = L\<lparr>ld_constraints := ld_constraints L @ [Some (printable b e)],
      ld_preferences := ld_preferences L @ [preferred (lx_charPreferenceLowerBound L) e]\<rparr>"
    by (auto simp: constrain_char_def)
  note c = string_cell_typed [OF e assms(2)]
  have "wf_constraint (printable b e)" "wf_constraint (preferred (lx_charPreferenceLowerBound L) e)"
    by (auto simp: printable_def preferred_def Let_def intro!: join_typed c)
  then show ?thesis using assms(2) L' by (auto simp: loader_typed_def loader_ok_def)
qed

lemma addConstraintOfString_typed [typed]:
  assumes "addConstraintOfString si b L = Inr L'" "loader_typed L"
  shows "loader_typed L'"
proof -
  from assms(1) obtain M e where M: "rfold (constrain_char si b) [0..<arr_size (si_array si) - 1] L = Inr M"
    and e: "string_cell M si (arr_size (si_array si) - 1) = Inr e"
    and L': "core L' = (ld_symbols M, ld_mem M, ld_constraints M @ [Some (builder_binary Eq e (buildConstant 0))], ld_preferences M)"
    by (auto simp: addConstraintOfString_def Let_def core_def)
  from M assms(2) have M': "loader_typed M" by (rule rfold_invariant) (rule constrain_char_typed)
  have "wf_constraint (builder_binary Eq e (buildConstant 0))" using string_cell_typed(1) [OF e M'] by simp
  then show ?thesis using M' L' by (auto simp: loader_typed_def loader_ok_def core_def)
qed

lemma processConstraintLine_typed [typed]: "processConstraintLine line L = Inr L' \<Longrightarrow> loader_typed L \<Longrightarrow> loader_typed L'"
  by (auto simp: processConstraintLine_def processDefiningConstraint_def Let_def reportKLC3ErrExit_def dest: typed split: if_splits)

subsection \<open>Commands\<close>

named_theorems cores

lemma parseIssueCommand_core [cores]: "parseIssueCommand s L = Inr (t, L') \<Longrightarrow> core L' = core L"
  by (auto simp: parseIssueCommand_def core_def split: option.splits)

lemma parsePostCheckCommand_core [cores]: "parsePostCheckCommand s L = Inr (t, L') \<Longrightarrow> core L' = core L"
  by (auto simp: parsePostCheckCommand_def core_def Let_def reportKLC3ErrExit_def split: option.splits)

lemma comment_commands_typed [typed]: "comment_commands n s L = Inr L' \<Longrightarrow> loader_typed L \<Longrightarrow> loader_typed L'"
proof (induction n arbitrary: s L)
  case (Suc n)
  have step: "loader_typed L'" if "comment_commands n t M = Inr L'" "core M = core L" for t M
    using Suc.IH [OF that(1)] core_typed [OF that(2) Suc.prems(2)] .
  have "core (L\<lparr>lx_dataDefaultReadOnly := True\<rparr>) = core L" "core (L\<lparr>lx_dataDefaultUninitialized := True\<rparr>) = core L"
    "core (L\<lparr>lx_loadingInputFile := True\<rparr>) = core L"
    by (simp_all add: core_def)
  then show ?case
    using Suc.prems by (auto simp: reportKLC3ErrExit_def split: if_splits option.splits intro: step dest: cores typed)
qed simp

lemma parseComment_typed [typed]: "parseComment s L = Inr L' \<Longrightarrow> loader_typed L \<Longrightarrow> loader_typed L'"
proof -
  have "core (L\<lparr>lx_sawKLC3Command := True\<rparr>) = core L" by (simp add: core_def)
  note t = core_typed [OF this]
  show "parseComment s L = Inr L' \<Longrightarrow> loader_typed L \<Longrightarrow> loader_typed L'"
    by (auto simp: parseComment_def Let_def split: if_splits option.splits dest!: t dest: typed)
qed

lemma inst_line_core [cores]: "inst_line L = Inr (c, L') \<Longrightarrow> core L' = core L"
  by (auto simp: inst_line_def parseInstComment_def core_def Let_def split: if_splits option.splits)

lemma preProcessDataLine_core [cores]: "preProcessDataLine L = Inr (c, opt, L') \<Longrightarrow> core L' = core L"
  by (auto simp: preProcessDataLine_def parseDataComment_def core_def Let_def reportKLC3ErrExit_def split: if_splits option.splits)

lemma reportCompileErr_core [cores]: "reportCompileErr L = Inr L' \<Longrightarrow> core L' = core L"
  by (auto simp: reportCompileErr_def raiseCompileIssue_def core_def Let_def split: if_splits)

lemma count_error_core [cores]: "count_error L = Inr L' \<Longrightarrow> core L' = core L"
  using reportCompileErr_core [of L] by (auto simp: count_error_def core_def)

lemma read_into_core [cores]: "read_into old s b L = Inr (v, L') \<Longrightarrow> core L' = core L"
  using count_error_core [of L] by (auto simp: read_into_def readVal_def split: option.splits)

lemma label_into_core [cores]: "label_into s b L = Inr (v, L') \<Longrightarrow> core L' = core L"
  using count_error_core [of L] by (auto simp: label_into_def findLabel_def Let_def split: option.splits if_splits)

lemma operand_val_core [cores]:
  assumes "operand_val op t junk o1 o2 o3 L = Inr (v, L')"
  shows "core L' = core L"
  using assms [unfolded operand_val_def]
proof (rule rbindE)
  fix p assume p: "(if PP_I2 \<in> PRE_PARSE t then read_into junk o2 9 L else if PP_L2 \<in> PRE_PARSE t then label_into o2 9 L else Inr (junk, L)) = Inr p"
    and r: "(case p of (v, L) \<Rightarrow>
     if op = OP_ADD \<or> op = OP_AND then (if t = O_RRI then read_into v o3 5 L else Inr (v, L))
     else if op = OP_LDR \<or> op = OP_STR then read_into v o3 6 L
     else if op = OP_BR then (if t = O_I then read_into v (Some o1) 9 L else label_into (Some o1) 9 L)
     else if op = OP_JSR then (if t = O_I then read_into v (Some o1) 11 L else label_into (Some o1) 11 L)
     else if op = OP_TRAP then read_into v (Some o1) 8 L
     else if op = OP_FILL then
       (if t = O_I then rbind (read_into v (Some o1) 16 L) (\<lambda>(v, L). Inr (v AND 0xFFFF, L)) else label_into (Some o1) 16 L)
     else if op = OP_BLKW then rbind (read_into v (Some o1) 16 L) (\<lambda>(v, L). Inr (v AND 0xFFFF, L))
     else Inr (v, L)) = Inr (v, L')"
  obtain u M where e: "p = (u, M)" by fastforce
  have "core M = core L" using p by (auto simp: e dest: cores split: if_splits)
  moreover have "core L' = core M" using r unfolding e prod.case by (auto dest: cores split: if_splits)
  ultimately show ?thesis by simp
qed

subsection \<open>Writing memory\<close>

lemma constant_typed: "cell_ok v \<and> (\<forall>e. mv_e v = Some e \<longrightarrow> \<not> is_ReadExpr e)" if "mv_e v = Some (buildConstant w)"
  using that buildConstant_sound(1,2) [of w] by (auto simp: cell_ok_def buildConstant_def ConstantExpr_alloc_def)

lemma put_typed:
  assumes "loader_typed L" "mv_e v = Some (buildConstant w)"
  shows "loader_typed (L\<lparr>ld_mem := (ld_mem L)(a \<mapsto> v)\<rparr>)"
proof -
  have "cell_for ((ld_mem L)(a \<mapsto> v)) s i" if "cell_for (ld_mem L) s i" for s i
    using that constant_typed [OF assms(2)] assms(2) by (auto simp: cell_for_def)
  then show ?thesis
    using assms(1) constant_typed [OF assms(2)] by (auto simp: loader_typed_def loader_ok_def symbol_ok_def)
qed

lemma addMemValue_typed: "loader_typed L \<Longrightarrow> mv_e v = Some (buildConstant w) \<Longrightarrow> loader_typed (addMemValue v c L)"
  by (auto simp: addMemValue_def Let_def intro!: put_typed [where w = w])

lemma write_data_typed: "loader_typed L \<Longrightarrow> loader_typed (write_data opt c w L)"
  by (auto simp: write_data_def DataValue_alloc_def MemValue_def intro!: addMemValue_typed [where w = w])

lemma move_typed [simp]: "loader_typed (L\<lparr>lx_curAddr := a\<rparr>) = loader_typed L"
  by (simp add: loader_typed_def loader_ok_def)

lemma write_cells_typed: "loader_typed L \<Longrightarrow> loader_typed (write_cells opt c ws L)"
  by (induction ws arbitrary: L) (simp_all add: Let_def write_data_typed)

lemma writeInst_typed [typed]:
  assumes "writeInst w L = Inr L'" "loader_typed L"
  shows "loader_typed L'"
  using assms core_typed [OF inst_line_core] addMemValue_typed [where w = w]
  by (fastforce simp: writeInst_def InstValue_alloc_def MemValue_def split: if_splits option.splits)

lemma writeFILL_typed [typed]: "writeFILL w L = Inr L' \<Longrightarrow> loader_typed L \<Longrightarrow> loader_typed L'"
  using core_typed [OF preProcessDataLine_core] write_data_typed defineMemSymbol_typed
  by (fastforce simp: writeFILL_def reportKLC3ErrExit_def split: if_splits)

lemma writeSTRINGZ_typed [typed]:
  assumes "writeSTRINGZ o1 L = Inr L'" "loader_typed L"
  shows "loader_typed L'"
proof -
  obtain ws n where ws: "string_words (tl o1) = (ws, n)" by fastforce
  let ?L = "L\<lparr>lx_curLine := lx_curLine L + n\<rparr>"
  have "core ?L = core L" by (simp add: core_def)
  from core_typed [OF this assms(2)] have l: "loader_typed ?L" .
  show ?thesis
  proof (cases "lx_curPass L = 2")
    case True
    then obtain c opt M where M: "preProcessDataLine ?L = Inr (c, opt, M)" and L': "L' = write_cells opt c (ws @ [0]) M"
      using assms(1) by (auto simp: writeSTRINGZ_def ws Let_def reportKLC3ErrExit_def split: if_splits)
    show ?thesis unfolding L' by (rule write_cells_typed) (rule core_typed [OF preProcessDataLine_core [OF M] l])
  next
    case False
    then show ?thesis using assms(1) l by (auto simp: writeSTRINGZ_def ws Let_def)
  qed
qed

lemma writeBLKW_typed [typed]: "writeBLKW n L = Inr L' \<Longrightarrow> loader_typed L \<Longrightarrow> loader_typed L'"
  using core_typed [OF preProcessDataLine_core] write_cells_typed defineMemSymbol_typed
  by (fastforce simp: writeBLKW_def reportKLC3ErrExit_def split: if_splits)

subsection \<open>Lines, passes and files\<close>

lemma write_op_typed [typed]: "write_op op t r1 r2 r3 v o1 L = Inr L' \<Longrightarrow> loader_typed L \<Longrightarrow> loader_typed L'"
  by (auto simp: write_op_def split: if_splits dest: typed)

lemma newInstLine_core [simp]: "core (newInstLine L) = core L" "core (appendLineContent s L) = core L"
  by (simp_all add: newInstLine_def appendLineContent_def core_def Let_def)

lemma newInstLine_typed [simp]: "loader_typed (newInstLine L) = loader_typed L"
  by (simp add: loader_typed_def loader_ok_def newInstLine_def)

lemma readVal_core [cores]: "readVal s b L = Inr (v, L') \<Longrightarrow> core L' = core L"
  by (auto simp: readVal_def split: option.splits dest: count_error_core)

lemma orig_line_core [cores]:
  assumes "orig_line o1 L = Inr L'"
  shows "core L' = core L"
proof -
  have u: "core (M\<lparr>lx_curAddr := a, lx_fileStartAddr := b\<rparr>) = core M" "core (M\<lparr>lx_sawORIG := n\<rparr>) = core M" for M a b n
    by (simp_all add: core_def)
  consider "lx_sawORIG L = 0" | "lx_sawORIG L = 1" | "lx_sawORIG L \<noteq> 0" "lx_sawORIG L \<noteq> 1" by blast
  then show ?thesis
    using assms by cases (auto simp: orig_line_def Let_def u dest: cores)
qed

lemma generateInstruction_typed [typed]:
  assumes "generateInstruction junk t s L = Inr L'" "loader_typed L"
  shows "loader_typed L'"
  using assms(1) refl
proof (cases rule: generateInstruction_cases)
  case (error M)
  have "loader_typed M" by (rule core_typed [OF count_error_core [OF error(1)] assms(2)])
  moreover have "core ((newInstLine M)\<lparr>lx_sawORIG := 2\<rparr>) = core M" by (simp add: core_def newInstLine_def)
  ultimately show ?thesis using error(2) core_typed by (metis newInstLine_typed)
next
  case orig
  show ?thesis by (rule core_typed [OF orig_line_core [OF orig(3)] assms(2)])
next
  case (accept o2 o3 r1 r2 r3 v M N)
  have "loader_typed M" by (rule core_typed [OF operand_val_core [OF accept(9)] assms(2)])
  then show ?thesis using write_op_typed [OF accept(10)] accept(11) by simp
qed

lemma foundLabel_core [cores]: "foundLabel s L = Inr L' \<Longrightarrow> core L' = core L"
  using count_error_core [of L] by (auto simp: foundLabel_def addSymbol_def core_def split: if_splits option.splits)

lemma lineIgnored_core [cores]: "lineIgnored L = Inr L' \<Longrightarrow> core L' = core L"
  by (auto simp: lineIgnored_def reportCompileWarn_def raiseCompileIssue_def core_def Let_def split: if_splits)

lemma bad_line_core [cores]:
  "badLine L = Inr L' \<Longrightarrow> core L' = core L" "badOperands L = Inr L' \<Longrightarrow> core L' = core L" "unterminatedString L = Inr L' \<Longrightarrow> core L' = core L"
  using count_error_core [of L] by (auto simp: badLine_def badOperands_def unterminatedString_def)

lemma lex_action_typed:
  assumes "lex_action junk ev L = Inr L'" "loader_typed L"
  shows "loader_typed L'"
proof -
  have a: "loader_typed (appendLineContent s L)" for s by (rule core_typed [OF newInstLine_core(2) assms(2)])
  have c: "core L' = core L \<Longrightarrow> loader_typed L'" by (rule core_typed [OF _ assms(2)])
  show ?thesis
  proof (cases ev)
    case (Ev_Op op s)
    then have "core L' = core (appendLineContent s L)" using assms(1) by (auto simp: lex_action_def Let_def core_def parseCCode_def split: if_splits)
    then show ?thesis using c by simp
  next
    case (Ev_End s)
    then have "core L' = core (appendLineContent s L)" using assms(1) by (auto simp: lex_action_def core_def)
    then show ?thesis using c by simp
  next
    case (Ev_Operands t s)
    then show ?thesis using assms(1) generateInstruction_typed a by (simp add: lex_action_def)
  next
    case (Ev_Comment s)
    then show ?thesis using assms(1) parseComment_typed a by (auto simp: lex_action_def)
  qed (use assms(1) c in \<open>auto simp: lex_action_def dest: cores\<close>)
qed

lemma yylex_typed: "yylex junk evs L = Inr L' \<Longrightarrow> loader_typed L \<Longrightarrow> loader_typed L'"
proof (induction evs arbitrary: L)
  case (Cons ev evs)
  then show ?case using lex_action_typed [of junk ev L] by (auto split: if_splits)
qed simp

text \<open>
  C9: loading keeps the program well typed.  Whatever the file holds and whether or not it has errors, when the lexer returns, every cell of the memory has
  a 16-bit expression, every symbolic variable has a cell for each of its elements that is its own symbol or concrete, and every constraint and preference that is not null
  is a well-formed condition.
\<close>

theorem load_well_typed:
  assumes "loader_ok L" "\<And>e. Some e \<in> set (ld_constraints L) \<Longrightarrow> wf_constraint e" "\<And>e. e \<in> set (ld_preferences L) \<Longrightarrow> wf_constraint e"
    and "lexer_load junk base evs f os c L = Inr (ok, L')"
  shows "loader_ok L' \<and> (\<forall>e. Some e \<in> set (ld_constraints L') \<longrightarrow> wf_constraint e) \<and> (\<forall>e \<in> set (ld_preferences L'). wf_constraint e)"
proof -
  have s: "core (start_pass p M) = core M" "core (start_load base f os c M) = core M" "core (add_program f os M) = core M"
    "core (M\<lparr>ld_initPC := a\<rparr>) = core M" for p M a
    by (simp_all add: start_pass_def start_load_def add_program_def newInstLine_def core_def)
  have "loader_typed L" using assms(1-3) by (simp add: loader_typed_def)
  note t = core_typed [OF s(1)] core_typed [OF s(3)]
  have f: "after_first_pass M = Inr N \<Longrightarrow> core N = core M" for M N using count_error_core [of M N] by (auto simp: after_first_pass_def split: if_splits)
  have g: "give_up f os M = Inr (ok, N) \<Longrightarrow> core N = core M" for M N by (auto simp: give_up_def s split: if_splits)
  obtain L1 L2 where L1: "yylex junk evs (start_pass 1 (start_load base f os c L)) = Inr L1" "after_first_pass L1 = Inr L2"
    and r: "(if lx_errCount L2 > 0 then give_up f os L2 else rbind (yylex junk evs (start_pass 2 L2)) (\<lambda>L.
       if lx_errCount L > 0 then give_up f os L else Inr (True, add_program f os (L\<lparr>ld_initPC := lx_fileStartAddr L\<rparr>)))) = Inr (ok, L')"
    using assms(4) by (auto simp: lexer_load_def)
  have "loader_typed (start_pass 1 (start_load base f os c L))" by (rule core_typed [OF _ \<open>loader_typed L\<close>]) (simp add: s)
  from yylex_typed [OF L1(1) this] have 2: "loader_typed L2" by (rule core_typed [OF f [OF L1(2)]])
  have "loader_typed L'"
  proof (cases "lx_errCount L2 > 0")
    case True
    then show ?thesis using r core_typed [OF g 2] by simp
  next
    case False
    then obtain M where M: "yylex junk evs (start_pass 2 L2) = Inr M" "core L' = core M"
      using r g by (auto simp: s split: if_splits)
    show ?thesis by (rule core_typed [OF M(2) yylex_typed [OF M(1) t(1) [OF 2]]])
  qed
  then show ?thesis by (simp add: loader_typed_def)
qed

theorem load_well_typed_witness: "\<exists>L'. lexer_load 0 id demo_file ''a.asm'' False False demo_lexer = Inr (True, L') \<and> loader_ok L'"
proof -
  obtain L' where l: "lexer_load 0 id demo_file ''a.asm'' False False demo_lexer = Inr (True, L')" by (rule demo_loaded)
  have "ld_constraints demo_lexer = []" "ld_preferences demo_lexer = []" by code_simp+
  then show ?thesis using load_well_typed [OF demo_lexer_ok _ _ l] l by simp
qed

end
