(* ===== verification/Spec2Isabelle.thy ===== *)
theory Spec2Isabelle
  imports Klc3_Exploration Klc3_CrossChecker Klc3_Calls Klc3_Pruning Klc3_Limits Klc3_Generation Klc3_Loading
begin

text \<open>
  Verification of klc3, a symbolic executor for programs of the LC-3 teaching machine, built on KLEE's
  expression library and solver interface.

  \<^bold>\<open>The program.\<close>  klc3 loads an LC-3 program with symbolic inputs, turns it into an initial \<open>State\<close>
  with constraints on the inputs, and repeatedly takes a state from a \<open>Searcher\<close>, lets the \<open>Executor\<close>
  perform one instruction of it and gives the successor states back.  Registers and memory hold KLEE
  expressions of width 16; a conditional branch or an access at a symbolic address forks the state, with one
  constraint added to each copy.  Problems of the program under test are reported to the \<open>IssuePackage\<close>,
  whose levels decide whether the state goes on or becomes \<open>BROKEN\<close>.

  \<^bold>\<open>Conventions.\<close>  A failed assertion, a null dereference and \<open>progExit\<close> are values of \<open>'a res\<close>
  (\<open>Inl\<close> names the failure); handlers thread the shared issue package and the state.  Pointers to a
  \<open>State\<close> are states by value, or a type parameter in the searchers.  Words of the machine are
  \<^typ>\<open>16 word\<close>; the constants of expressions are non-negative integers below the power of their width.

  \<^bold>\<open>Theories\<close>, in the order of the code:

  \<^item> \<open>Klc3_Prelude\<close>: results, \<open>rbind\<close>, total correctness \<open>returns\<close>, arithmetic of \<open>take_bit\<close>.
  \<^item> \<open>Klee_Expr\<close> (\<open>include/klee/Expr/Expr.h\<close>, \<open>lib/Expr/Expr.cpp\<close>): expressions, widths, typing, evaluation
    under an assignment, constant folding of \<open>ConstantExpr\<close>.
  \<^item> \<open>Klee_Create\<close>, \<open>Klee_Create_Sound\<close>: the static \<open>create\<close> functions of all expression classes; they keep
    width and value.  Their mutual recursion terminates by a weight of expressions.
  \<^item> \<open>Klee_Builder\<close> (\<open>lib/Expr/ExprBuilder.cpp\<close>): \<open>ConstantFoldingBuilder\<close>, with termination and soundness; the
    locale \<open>expr_builder\<close> is the contract clients use.
  \<^item> \<open>Klee_Constraints\<close> (\<open>lib/Expr/Constraints.cpp\<close>, \<open>ExprVisitor.cpp\<close>): substitution of equalities,
    \<open>simplifyExpr\<close>, \<open>addConstraint\<close>, which conjoins.
  \<^item> \<open>Klee_Solver\<close> (\<open>lib/Solver/Solver.cpp\<close>): the queries over a decision procedure that is a parameter; the
    locale \<open>sound_solver\<close> states that it decides validity, \<open>reference_solver\<close> shows that it can be met.
  \<^item> \<open>Klc3_Common\<close>, \<open>Klc3_MemoryValue\<close>, \<open>Klc3_Memory\<close>, \<open>Klc3_Issue\<close>, \<open>Klc3_State\<close> (\<open>lib/klc3/Common.cpp\<close>,
    \<open>lib/klc3/Core\<close>, \<open>lib/klc3/Verification/IssuePackage.cpp\<close>): helpers, the instruction table with decoding and
    fields, memory with device registers (locale \<open>memory_map\<close>), issues and their levels, states with
    forking.
  \<^item> \<open>Klc3_Values\<close> (\<open>Executor::evalPossibleValues\<close> and its cache): the binary searches and the interval
    splitting enumerate exactly the values an expression can take.
  \<^item> \<open>Klc3_Executor\<close> (\<open>lib/klc3/Core/Executor.cpp\<close>): every handler and \<open>step\<close>.
  \<^item> \<open>LC3_Machine\<close>: the abstract specification, a concrete machine after the instruction set architecture.
  \<^item> \<open>Klc3_Sums\<close>, \<open>Klc3_Abstraction\<close>, \<open>Klc3_Instructions\<close>, \<open>Klc3_Accesses\<close>, \<open>Klc3_Forking\<close>,
    \<open>Klc3_Addressing\<close>, \<open>Klc3_Branches\<close>, \<open>Klc3_Simulation\<close>: the refinement proof.  \<open>conc\<close> maps a state and an
    assignment of the inputs to the machine it represents; each handler has the effect of the
    architecture on every represented machine, forks partition the models of the constraints, and so
    does a whole step.
  \<^item> \<open>Klc3_Start\<close>: the initial state and the properties of \<open>step\<close>.
  \<^item> \<open>Klc3_Searcher\<close> (\<open>include/klc3/Searcher/Searcher.h\<close>): the searchers, with the contract \<open>searcher\<close> as a locale.
  \<^item> \<open>Klc3_Exploration\<close>: rounds of fetch, step and push account for every input exactly once.
  \<^item> \<open>Klc3_FlowGraph\<close>, \<open>Klc3_Path\<close>, \<open>Klc3_Coverage\<close> (\<open>lib/klc3/FlowAnalysis/FlowGraph.cpp\<close>, \<open>CoverageTracker.cpp\<close>): the flow
    graph of the program under test with its static construction, compressed paths and their reconstruction, and the
    coverage tracker, which extends the graph during execution and keeps exact counts.
  \<^item> \<open>Klc3_Subroutines\<close>, \<open>Klc3_Coloring\<close>, \<open>Klc3_Stacks\<close>, \<open>Klc3_Calls\<close> (\<open>SubroutineTracker.cpp\<close>): the colors of nodes, which the coloring
    computes as the inductive predicate \<open>has_color\<close> specifies them, the color and call stacks of a state and their invariant, and the check for
    code that several subroutines share.
  \<^item> \<open>Klc3_CrossChecker\<close>, \<open>Klc3_Limits\<close> (\<open>lib/klc3/Verification\<close>): the comparison of a test state with a gold state, and the
    limits on a single state.
  \<^item> \<open>Klc3_SCC\<close>, \<open>Klc3_Loops\<close> (\<open>LoopAnalyzer.cpp\<close>): the strongly connected components by depth-first search, shown to be the classes of nodes that
    reach each other, and the search for nested loops and their segments, with an invariant of loops, segments and graph.
  \<^item> \<open>Klc3_Pruning\<close> (\<open>lib/klc3/Searcher/PruningSearcher.cpp\<close>): the searcher that follows states through the loops and puts those aside that are on no
    uncovered segment, over an inner searcher with the contract \<open>idle_searcher\<close>, which extends \<open>searcher\<close>.
  \<^item> \<open>Klc3_Generation\<close> (\<open>lib/klc3/Generation/VariableInductor.cpp\<close>, \<open>IssueFilter.cpp\<close>): the inputs of a test case under preferences, over a solver
    for values (locale \<open>value_solver\<close>), and the choice of one issue per location.
  \<^item> \<open>Klc3_Commands\<close> (\<open>lib/klc3/Loader/Loader.cpp\<close>): the klc3 commands in comments, which define symbolic variables, constraints, issues and checks; a line
    of comparisons becomes a constraint with its meaning.
  \<^item> \<open>Klc3_Assembler\<close>, \<open>Klc3_Layout\<close> (\<open>include/klc3/Loader/Loader.h\<close>, \<open>lib/klc3/Loader/Lexer.cpp\<close>, the actions of \<open>Lexer.f\<close>): the two-pass assembler.  What the
    encoder writes the decoder reads back, \<open>layout_step\<close> specifies the address of every line for both passes, labels resolve to the line they stand at.
  \<^item> \<open>Klc3_Loading\<close>: every operation of the lexer keeps memory, constraints and preferences well typed.

  \<^bold>\<open>Hypotheses.\<close>  The refinement holds with a sound solver for states that satisfy \<open>wf_state\<close> (typed
  expressions of width 16, satisfiable constraints, instructions that match the table) and instructions that are
  \<open>safe_inst\<close>: not \<open>RTI\<close>; no \<open>JSR\<close>, \<open>JSRR\<close> or \<open>TRAP\<close> while the condition code refers to \<open>R7\<close>; a constant trap
  vector; no symbolic or uninitialized value stored to the machine control register.  Each excluded case is a
  deviation of the code from the architecture and is recorded as a finding.

  \<^bold>\<open>Fuel and bounds.\<close>  The interval enumeration recurses on the size of the interval; the binary searches are
  bounded by the width and proved to end within it; \<open>explore\<close> takes the number of rounds as an argument,
  since a program under test may run forever; the reconstruction of a path takes at least as many rounds as the path
  has edges, which is shown to be enough for the paths that are recorded.  \<open>analyzeLoopDFS\<close> takes fuel because it does not end on every graph: no fuel is
  enough when the search walks around a cycle in which it meets no loop, as at an instruction that branches to itself.  The pruning searcher
  leaves at most as many loops as the stack of the state has layers.  The commands of a comment take at most as many turns as the comment has characters,
  which is shown to be enough (\<open>comment_commands_enough\<close>).

  \<^bold>\<open>Not modelled.\<close>  The solvers behind the interface (STP, caching and independence layers), KLEE's engine for
  LLVM bitcode, the scanner that flex generates for LC-3 sources (its matches are a parameter), the lists of input files and variables that the report prints,
  the command line driver, the flow graph visualizer, the texts of issue notes and reports, and all input and output.
\<close>

end
